(* ===== verification/Eigs_Prelude.thy ===== *)
theory Eigs_Prelude
  imports Main "HOL-Library.Word" "HOL-Library.State_Monad"
begin

text \<open>
  The prelude of the development: C character classes, hexadecimal digits, the
  type names the components share, and the generic lemmas on lists and on the
  state monad that carry the component proofs.

  A C string is a \<^typ>\<open>string\<close> without its terminator. \<open>c0\<close>, \<open>c1\<close> and \<open>c2\<close>
  read \<open>p[0]\<close>, \<open>p[1]\<close> and \<open>p[2]\<close> of a pointer \<open>p\<close> into such a string, and
  answer the terminating NUL at its end.
\<close>

unbundle bit_operations_syntax

named_theorems keeps_intros \<open>composition rules for relational preservation\<close>
named_theorems keeps_defs \<open>definitions unfolded by the preservation proofs\<close>

subsection \<open>Types\<close>

type_synonym u8 = "8 word"
type_synonym u32 = "32 word"
type_synonym u64 = "64 word"

text \<open>A C \<open>double\<close> is its 64-bit pattern.\<close>

type_synonym double = "64 word"

subsection \<open>Characters\<close>

definition NUL :: char where
  "NUL = CHR 0x00"

definition c0 :: "string \<Rightarrow> char" where
  "c0 p = (case p of [] \<Rightarrow> NUL | c # _ \<Rightarrow> c)"

definition c1 :: "string \<Rightarrow> char" where
  "c1 p = c0 (drop 1 p)"

definition c2 :: "string \<Rightarrow> char" where
  "c2 p = c0 (drop 2 p)"

definition ord :: "char \<Rightarrow> nat" where
  "ord c = of_char c"

definition c_isdigit :: "char \<Rightarrow> bool" where
  "c_isdigit c \<longleftrightarrow> 48 \<le> ord c \<and> ord c \<le> 57"

definition c_isupper :: "char \<Rightarrow> bool" where
  "c_isupper c \<longleftrightarrow> 65 \<le> ord c \<and> ord c \<le> 90"

definition c_islower :: "char \<Rightarrow> bool" where
  "c_islower c \<longleftrightarrow> 97 \<le> ord c \<and> ord c \<le> 122"

definition c_isalpha :: "char \<Rightarrow> bool" where
  "c_isalpha c \<longleftrightarrow> c_isupper c \<or> c_islower c"

definition c_isalnum :: "char \<Rightarrow> bool" where
  "c_isalnum c \<longleftrightarrow> c_isalpha c \<or> c_isdigit c"

definition c_isxdigit :: "char \<Rightarrow> bool" where
  "c_isxdigit c \<longleftrightarrow> c_isdigit c \<or> (65 \<le> ord c \<and> ord c \<le> 70) \<or> (97 \<le> ord c \<and> ord c \<le> 102)"

lemma c0_simps [simp]:
  "c0 [] = NUL"
  "c0 (c # cs) = c"
  by (simp_all add: c0_def)

lemma c1_simps [simp]:
  "c1 [] = NUL"
  "c1 (c # cs) = c0 cs"
  by (simp_all add: c1_def)

lemma c2_simps [simp]:
  "c2 [] = NUL"
  "c2 (c # cs) = c1 cs"
  by (simp_all add: c2_def c1_def numeral_2_eq_2)

lemma c0_not_NUL_Cons: "c0 p \<noteq> NUL \<Longrightarrow> \<exists>c cs. p = c # cs \<and> c \<noteq> NUL"
  by (cases p) auto

lemma ord_NUL [simp]: "ord NUL = 0"
  by (simp add: ord_def NUL_def)

lemma ord_less_256 [simp]: "ord c < 256"
  using nat_of_char_less_256 [of c] by (simp add: ord_def)

lemma not_class_NUL [simp]:
  "\<not> c_isdigit NUL" "\<not> c_isalpha NUL" "\<not> c_isalnum NUL" "\<not> c_isxdigit NUL"
  by (simp_all add: c_isdigit_def c_isalpha_def c_isupper_def c_islower_def c_isalnum_def c_isxdigit_def)

subsection \<open>Hexadecimal\<close>

definition hexd :: "nat \<Rightarrow> char" where
  "hexd n = (if n < 10 then char_of (48 + n) else char_of (87 + n))"

text \<open>\<open>%02x\<close> of one byte.\<close>

definition hex2 :: "nat \<Rightarrow> string" where
  "hex2 b = [hexd (b div 16), hexd (b mod 16)]"

lemma length_hex2 [simp]: "length (hex2 b) = 2"
  by (simp add: hex2_def)

text \<open>The value of one hexadecimal digit, as the lexer computes it.\<close>

definition hexval :: "char \<Rightarrow> nat" where
  "hexval c = (if ord c \<le> 57 then ord c - 48 else (if ord c < 97 then ord c + 32 else ord c) - 97 + 10)"

lemma ord_char_of [simp]: "n < 256 \<Longrightarrow> ord (char_of n) = n"
  by (simp add: ord_def)

lemma hexval_hexd: "n < 16 \<Longrightarrow> hexval (hexd n) = n"
  by (auto simp: hexval_def hexd_def)

lemma hexd_inj: "m < 16 \<Longrightarrow> n < 16 \<Longrightarrow> hexd m = hexd n \<longleftrightarrow> m = n"
  by (metis hexval_hexd)

lemma hex2_inj: "a < 256 \<Longrightarrow> b < 256 \<Longrightarrow> hex2 a = hex2 b \<longleftrightarrow> a = b"
  by (auto simp: hex2_def hexd_inj) (metis div_mod_decomp)

subsection \<open>Lists\<close>

lemma length_dropWhile_le_iff [simp]: "length (dropWhile P xs) \<le> length xs"
  by (simp add: length_dropWhile_le)

lemma drop_takeWhile [simp]: "drop (length (takeWhile P xs)) xs = dropWhile P xs"
  by (simp add: dropWhile_eq_drop)

end
