(* ===== verification/Eigs_Double.thy ===== *)
theory Eigs_Double
  imports Eigs_Prelude
begin

text \<open>
  The part of IEEE 754 binary64 the front end uses: non-negative doubles as bit
  patterns, their exact value as a quotient of naturals, the correctly rounded
  (nearest, ties to even) double of a quotient, and from these the addition and
  multiplication of non-negative doubles and the C library's \<open>strtod\<close> on a
  decimal literal. The main result is that an integer below \<open>2\<^sup>5\<^sup>3\<close> is represented
  exactly.
\<close>

text \<open>The number of binary digits.\<close>

fun bitlen :: "int \<Rightarrow> nat" where
  "bitlen n = (if n \<le> 0 then 0 else Suc (bitlen (n div 2)))"

declare bitlen.simps [simp del]

text \<open>The floor of the binary logarithm of \<open>n / d\<close>.\<close>

definition flog2 :: "int \<Rightarrow> int \<Rightarrow> int" where
  "flog2 n d =
     (let k = int (bitlen n) - int (bitlen d)
      in if d * 2 ^ nat k \<le> n * 2 ^ nat (- k) then k else k - 1)"

definition dbl_inf :: double where
  "dbl_inf = of_int (2047 * 2 ^ 52)"

text \<open>The nearest integer of \<open>num / den\<close>, ties to even.\<close>

definition round_div :: "int \<Rightarrow> int \<Rightarrow> int" where
  "round_div num den =
     (let q = num div den; r = num mod den
      in if den < 2 * r \<or> (2 * r = den \<and> odd q) then q + 1 else q)"

text \<open>The nearest double of the non-negative \<open>n / d\<close>.\<close>

definition fp_round :: "int \<Rightarrow> int \<Rightarrow> double" where
  "fp_round n d =
     (if n = 0 then 0
      else
        let e = max (- 1074) (flog2 n d - 52);
            q = round_div (n * 2 ^ nat (- e)) (d * 2 ^ nat e)
        in of_int (min (2047 * 2 ^ 52) ((e + 1074) * 2 ^ 52 + q)))"

definition dbl_expo :: "double \<Rightarrow> int" where
  "dbl_expo x = uint x div 2 ^ 52 mod 2048"

definition dbl_frac :: "double \<Rightarrow> int" where
  "dbl_frac x = uint x mod 2 ^ 52"

definition dbl_finite :: "double \<Rightarrow> bool" where
  "dbl_finite x \<longleftrightarrow> dbl_expo x \<noteq> 2047"

text \<open>The magnitude of a finite double is \<open>dbl_num x / dbl_den x\<close>.\<close>

definition dbl_num :: "double \<Rightarrow> int" where
  "dbl_num x =
     (if dbl_expo x = 0 then dbl_frac x
      else (dbl_frac x + 2 ^ 52) * 2 ^ nat (dbl_expo x - 1075))"

definition dbl_den :: "double \<Rightarrow> int" where
  "dbl_den x = (if dbl_expo x = 0 then 2 ^ 1074 else 2 ^ nat (1075 - dbl_expo x))"

text \<open>Addition and multiplication of non-negative doubles, the infinity absorbing.\<close>

definition fp_add :: "double \<Rightarrow> double \<Rightarrow> double" where
  "fp_add x y =
     (if dbl_finite x \<and> dbl_finite y
      then fp_round (dbl_num x * dbl_den y + dbl_num y * dbl_den x) (dbl_den x * dbl_den y)
      else dbl_inf)"

definition fp_mul :: "double \<Rightarrow> double \<Rightarrow> double" where
  "fp_mul x y =
     (if dbl_finite x \<and> dbl_finite y
      then fp_round (dbl_num x * dbl_num y) (dbl_den x * dbl_den y)
      else dbl_inf)"

definition fp_of_int :: "int \<Rightarrow> double" where
  "fp_of_int n = fp_round n 1"

text \<open>The value of a string of decimal digits.\<close>

definition dec_val :: "string \<Rightarrow> int" where
  "dec_val ds = foldl (\<lambda>n c. n * 10 + (of_char c - 48)) 0 ds"

text \<open>\<open>strtod\<close> on the literal with digits \<open>ds\<close> and decimal exponent \<open>e\<close>.\<close>

definition fp_of_dec :: "string \<Rightarrow> int \<Rightarrow> double" where
  "fp_of_dec ds e = fp_round (dec_val ds * 10 ^ nat e) (10 ^ nat (- e))"

subsection \<open>Integers below \<open>2\<^sup>5\<^sup>3\<close> are exact\<close>

lemma bitlen_nonpos [simp]: "n \<le> 0 \<Longrightarrow> bitlen n = 0"
  by (subst bitlen.simps) simp

lemma bitlen_pos: "0 < n \<Longrightarrow> bitlen n = Suc (bitlen (n div 2))"
  by (subst bitlen.simps) simp

lemma bitlen_bounds: "0 < n \<Longrightarrow> 2 ^ (bitlen n - 1) \<le> n \<and> n < 2 ^ bitlen n"
proof (induction n rule: bitlen.induct)
  case (1 n)
  show ?case
  proof (cases "n = 1")
    case True
    then show ?thesis by (simp add: bitlen_pos)
  next
    case False
    then have pos: "0 < n div 2" using "1.prems" by auto
    with "1.IH" "1.prems"
    have ih: "2 ^ (bitlen (n div 2) - 1) \<le> n div 2 \<and> n div 2 < 2 ^ bitlen (n div 2)" by auto
    obtain k where k: "bitlen (n div 2) = Suc k" using pos by (metis bitlen_pos)
    have "bitlen n = Suc (Suc k)" using "1.prems" by (simp only: bitlen_pos k)
    then show ?thesis using ih by (auto simp: k)
  qed
qed

lemma bitlen_le: "n < 2 ^ k \<Longrightarrow> bitlen n \<le> k"
proof (rule ccontr)
  assume n: "n < 2 ^ k" and "\<not> bitlen n \<le> k"
  then have k: "k \<le> bitlen n - 1" and "0 < bitlen n" by auto
  then have "0 < n" by (cases "n \<le> 0") auto
  then have "2 ^ (bitlen n - 1) \<le> n" using bitlen_bounds by blast
  moreover have "(2::int) ^ k \<le> 2 ^ (bitlen n - 1)" using k by (simp add: power_increasing)
  ultimately show False using n by linarith
qed

lemma flog2_int:
  assumes "0 < n"
  shows "flog2 n 1 = int (bitlen n) - 1"
proof -
  have "bitlen 1 = 1" by (simp add: bitlen_pos)
  moreover have "2 ^ (bitlen n - 1) \<le> n" using assms bitlen_bounds by blast
  moreover have "0 < bitlen n" using assms by (simp add: bitlen_pos)
  ultimately show ?thesis
    by (simp add: flog2_def Let_def nat_diff_distrib)
qed

lemma bitlen_scaled:
  assumes "0 < n" and "bitlen n \<le> k"
  shows "2 ^ (k - 1) \<le> n * 2 ^ (k - bitlen n)" and "n * 2 ^ (k - bitlen n) < 2 ^ k"
proof -
  have b: "2 ^ (bitlen n - 1) \<le> n" "n < 2 ^ bitlen n" using assms bitlen_bounds by auto
  have len: "1 \<le> bitlen n" using assms by (simp add: bitlen_pos)
  have "2 ^ (bitlen n - 1) * 2 ^ (k - bitlen n) \<le> n * 2 ^ (k - bitlen n)"
    using b(1) by (rule mult_right_mono) simp
  moreover have "(2::int) ^ (bitlen n - 1) * 2 ^ (k - bitlen n) = 2 ^ (k - 1)"
    using len assms(2) by (simp flip: power_add)
  ultimately show "2 ^ (k - 1) \<le> n * 2 ^ (k - bitlen n)" by linarith
  have "n * 2 ^ (k - bitlen n) < 2 ^ bitlen n * 2 ^ (k - bitlen n)" using b(2) by simp
  moreover have "(2::int) ^ bitlen n * 2 ^ (k - bitlen n) = 2 ^ k"
    using assms(2) by (simp flip: power_add)
  ultimately show "n * 2 ^ (k - bitlen n) < 2 ^ k" by linarith
qed

lemma field_split:
  fixes f e :: int
  assumes "0 \<le> f" and "f < 2 ^ k"
  shows "(e * 2 ^ k + f) div 2 ^ k = e" and "(e * 2 ^ k + f) mod 2 ^ k = f"
  using assms by (simp_all add: div_add1_eq)

lemma uint_of_int: "0 \<le> k \<Longrightarrow> k < 2 ^ 64 \<Longrightarrow> uint (of_int k :: double) = k"
  by (simp add: unsigned_of_int take_bit_int_eq_self)

text \<open>The bits of a small integer: the exponent field, and the shifted integer.\<close>

lemma fp_of_int_bits:
  assumes "0 < n" and "n < 2 ^ 53"
  shows "fp_of_int n = of_int ((1021 + int (bitlen n)) * 2 ^ 52 + n * 2 ^ (53 - bitlen n))"
proof -
  have len: "1 \<le> bitlen n" "bitlen n \<le> 53"
    using assms bitlen_le by (auto simp: bitlen_pos)
  note small = bitlen_scaled(2) [OF assms(1) len(2)]
  have e: "max (- 1074) (flog2 n 1 - 52) = int (bitlen n) - 53"
    using len assms(1) by (simp add: flog2_int)
  have n1: "nat (- (int (bitlen n) - 53)) = 53 - bitlen n"
    and n2: "nat (int (bitlen n) - 53) = 0"
    using len by linarith+
  show ?thesis
    using assms(1) len small
    by (simp only: fp_of_int_def fp_round_def e Let_def n1 n2) (simp add: min_absorb2 round_div_def)
qed

lemma fp_of_int_exact:
  assumes "0 \<le> n" and "n < 2 ^ 53"
  shows "dbl_finite (fp_of_int n) \<and> dbl_num (fp_of_int n) = n * dbl_den (fp_of_int n)"
proof (cases "n = 0")
  case True
  then show ?thesis
    by (simp add: fp_of_int_def fp_round_def dbl_num_def dbl_expo_def dbl_frac_def dbl_finite_def)
next
  case False
  then have n: "0 < n" using assms by simp
  let ?m = "n * 2 ^ (53 - bitlen n)"
  have len: "1 \<le> bitlen n" "bitlen n \<le> 53"
    using assms n bitlen_le by (auto simp: bitlen_pos)
  have m: "2 ^ 52 \<le> ?m" "?m < 2 ^ 53" using bitlen_scaled [OF n len(2)] by simp_all
  have "0 \<le> (1021 + int (bitlen n)) * 2 ^ 52 + ?m" "(1021 + int (bitlen n)) * 2 ^ 52 + ?m < 2 ^ 64"
    using m len by simp_all
  then have u: "uint (fp_of_int n) = (1022 + int (bitlen n)) * 2 ^ 52 + (?m - 2 ^ 52)"
    using n assms by (simp only: fp_of_int_bits uint_of_int) (simp add: algebra_simps)
  have f: "0 \<le> ?m - 2 ^ 52" "?m - 2 ^ 52 < 2 ^ 52" using m by simp_all
  have "dbl_expo (fp_of_int n) = 1022 + int (bitlen n)" "dbl_frac (fp_of_int n) = ?m - 2 ^ 52"
    using len f by (simp_all only: dbl_expo_def dbl_frac_def u field_split) simp
  moreover have "nat (53 - int (bitlen n)) = 53 - bitlen n" using len by linarith
  ultimately show ?thesis using m len
    by (simp add: dbl_finite_def dbl_num_def dbl_den_def)
qed

subsection \<open>Exact integer arithmetic\<close>

lemma bitlen_shift: "0 < n \<Longrightarrow> bitlen (n * 2 ^ j) = bitlen n + j"
proof (induction j)
  case 0
  then show ?case by simp
next
  case (Suc j)
  have "n * 2 ^ Suc j div 2 = n * 2 ^ j" by simp
  moreover have "0 < n * 2 ^ Suc j" using Suc.prems by simp
  ultimately show ?case using Suc bitlen_pos [of "n * 2 ^ Suc j"] by simp
qed

lemma round_div_shift:
  assumes "0 < P"
  shows "round_div (num * P) (den * P) = round_div num den"
proof -
  have "den * P < 2 * (num mod den * P) \<longleftrightarrow> den < 2 * (num mod den)"
    "2 * (num mod den * P) = den * P \<longleftrightarrow> 2 * (num mod den) = den"
    unfolding mult.assoc [symmetric] using assms by simp_all
  moreover have "(num * P) mod (den * P) = num mod den * P" "(num * P) div (den * P) = num div den"
    using assms by (simp_all add: mult_mod_left)
  ultimately show ?thesis by (simp only: round_div_def Let_def)
qed

lemma fp_round_shift:
  assumes "0 \<le> n" and "0 < d"
  shows "fp_round (n * 2 ^ j) (d * 2 ^ j) = fp_round n d"
proof (cases "n = 0")
  case True
  then show ?thesis by (simp add: fp_round_def)
next
  case False
  define P :: int where "P = 2 ^ j"
  have P: "0 < P" by (simp add: P_def)
  have assoc: "n * P * y = n * y * P" "d * P * y = d * y * P" for y by simp_all
  have "flog2 (n * P) (d * P) = flog2 n d"
    unfolding flog2_def assoc Let_def mult_le_cancel_right
    using assms False P by (simp add: bitlen_shift P_def)
  moreover have "n * P \<noteq> 0" using False P by simp
  ultimately show ?thesis
    unfolding P_def [symmetric] fp_round_def
    by (simp only: assoc Let_def False if_False round_div_shift [OF P])
qed

lemma dbl_den_power: "\<exists>j. dbl_den x = 2 ^ j"
  unfolding dbl_den_def by (cases "dbl_expo x = 0") (metis (full_types))+

text \<open>The double is exactly the integer.\<close>

definition dbl_is :: "double \<Rightarrow> int \<Rightarrow> bool" where
  "dbl_is x n \<longleftrightarrow> dbl_finite x \<and> dbl_num x = n * dbl_den x"

lemma fp_of_int_is: "0 \<le> n \<Longrightarrow> n < 2 ^ 53 \<Longrightarrow> dbl_is (fp_of_int n) n"
  unfolding dbl_is_def by (rule fp_of_int_exact)

lemma fp_mul_exact:
  assumes "dbl_is x m" and "dbl_is y n" and "0 \<le> m" and "0 \<le> n"
  shows "fp_mul x y = fp_of_int (m * n)"
proof -
  obtain i j where "dbl_den x = 2 ^ i" "dbl_den y = 2 ^ j" using dbl_den_power by metis
  then show ?thesis
    using assms fp_round_shift [of "m * n" 1 "i + j"]
    by (simp add: fp_mul_def dbl_is_def fp_of_int_def power_add ac_simps)
qed

lemma fp_add_exact:
  assumes "dbl_is x m" and "dbl_is y n" and "0 \<le> m" and "0 \<le> n"
  shows "fp_add x y = fp_of_int (m + n)"
proof -
  obtain i j where "dbl_den x = 2 ^ i" "dbl_den y = 2 ^ j" using dbl_den_power by metis
  then show ?thesis
    using assms fp_round_shift [of "m + n" 1 "i + j"]
    by (simp add: fp_add_def dbl_is_def fp_of_int_def power_add algebra_simps)
qed

end
