(* ===== verification/Eigs_Token.thy ===== *)
theory Eigs_Token
  imports Eigs_Double
begin

text \<open>
  Tokens (\<open>src/eigenscript.h\<close>): the token kinds, the token record, the keyword
  table of the lexer, the printed forms of the kinds (\<open>tok_base_string\<close> of
  \<open>src/lexer.c\<close>, \<open>tok_type_name\<close> of \<open>src/eigenscript.c\<close>) and the kind
  classes the parser tests. The C enum is ordered, and the parser relies on the
  order of its runs; \<open>tok_code\<close> is that order.
\<close>

datatype (plugins only: size) tok_type =
    TOK_NUM | TOK_STR | TOK_IDENT
  | TOK_IS | TOK_OF | TOK_DEFINE | TOK_AS
  | TOK_IF | TOK_ELSE | TOK_ELIF | TOK_LOOP | TOK_WHILE
  | TOK_RETURN | TOK_AND | TOK_OR | TOK_NOT
  | TOK_FOR | TOK_IN | TOK_NULL
  | TOK_WHAT | TOK_WHO | TOK_WHEN | TOK_WHERE | TOK_WHY | TOK_HOW
  | TOK_PREV | TOK_AT
  | TOK_CONVERGED | TOK_STABLE | TOK_IMPROVING | TOK_OSCILLATING | TOK_DIVERGING | TOK_EQUILIBRIUM
  | TOK_TRY | TOK_CATCH | TOK_BREAK | TOK_CONTINUE | TOK_IMPORT
  | TOK_MATCH | TOK_CASE
  | TOK_UNOBSERVED
  | TOK_REPORT | TOK_REPORT_VALUE
  | TOK_LOCAL
  | TOK_PLUS | TOK_MINUS | TOK_STAR | TOK_SLASH | TOK_PERCENT
  | TOK_LT | TOK_GT | TOK_LE | TOK_GE | TOK_EQ | TOK_NE | TOK_ASSIGN
  | TOK_LPAREN | TOK_RPAREN | TOK_LBRACKET | TOK_RBRACKET
  | TOK_COMMA | TOK_COLON | TOK_DOT
  | TOK_LBRACE | TOK_RBRACE
  | TOK_PIPE | TOK_ARROW
  | TOK_AMP | TOK_BITOR | TOK_CARET | TOK_SHL | TOK_SHR | TOK_TILDE
  | TOK_PLUS_EQ | TOK_MINUS_EQ | TOK_STAR_EQ | TOK_SLASH_EQ | TOK_PERCENT_EQ
  | TOK_AMP_EQ | TOK_BITOR_EQ | TOK_CARET_EQ | TOK_SHL_EQ | TOK_SHR_EQ
  | TOK_NEWLINE | TOK_INDENT | TOK_DEDENT
  | TOK_EOF

record token =
  tk_type :: tok_type
  tk_num :: double
  tk_str :: "string option"
  tk_line :: int
  tk_col :: int
  tk_len :: int

text \<open>
  \<open>tok_add\<close> appends one token; its default length is that of the string, or 1.
\<close>

definition mk_token :: "tok_type \<Rightarrow> double \<Rightarrow> string option \<Rightarrow> int \<Rightarrow> int \<Rightarrow> token" where
  "mk_token type num str line col =
     \<lparr>tk_type = type, tk_num = num, tk_str = str, tk_line = line, tk_col = col,
      tk_len = (case str of None \<Rightarrow> 1 | Some s \<Rightarrow> int (length s))\<rparr>"

definition tok_add :: "tok_type \<Rightarrow> double \<Rightarrow> string option \<Rightarrow> int \<Rightarrow> int \<Rightarrow> token list \<Rightarrow> token list" where
  "tok_add type num str line col tks = tks @ [mk_token type num str line col]"

text \<open>The lexer's keyword switch: the first letter, then the words it starts.\<close>

definition keyword_type :: "string \<Rightarrow> tok_type" where
  "keyword_type word =
     (if c0 word = CHR ''a'' then
        (if word = ''as'' then TOK_AS else if word = ''and'' then TOK_AND
         else if word = ''at'' then TOK_AT else TOK_IDENT)
      else if c0 word = CHR ''b'' then (if word = ''break'' then TOK_BREAK else TOK_IDENT)
      else if c0 word = CHR ''c'' then
        (if word = ''case'' then TOK_CASE else if word = ''catch'' then TOK_CATCH
         else if word = ''continue'' then TOK_CONTINUE
         else if word = ''converged'' then TOK_CONVERGED else TOK_IDENT)
      else if c0 word = CHR ''d'' then
        (if word = ''define'' then TOK_DEFINE
         else if word = ''diverging'' then TOK_DIVERGING else TOK_IDENT)
      else if c0 word = CHR ''e'' then
        (if word = ''else'' then TOK_ELSE else if word = ''elif'' then TOK_ELIF
         else if word = ''equilibrium'' then TOK_EQUILIBRIUM else TOK_IDENT)
      else if c0 word = CHR ''f'' then (if word = ''for'' then TOK_FOR else TOK_IDENT)
      else if c0 word = CHR ''h'' then (if word = ''how'' then TOK_HOW else TOK_IDENT)
      else if c0 word = CHR ''i'' then
        (if word = ''if'' then TOK_IF else if word = ''is'' then TOK_IS
         else if word = ''in'' then TOK_IN else if word = ''import'' then TOK_IMPORT
         else if word = ''improving'' then TOK_IMPROVING else TOK_IDENT)
      else if c0 word = CHR ''l'' then
        (if word = ''local'' then TOK_LOCAL else if word = ''loop'' then TOK_LOOP else TOK_IDENT)
      else if c0 word = CHR ''m'' then (if word = ''match'' then TOK_MATCH else TOK_IDENT)
      else if c0 word = CHR ''n'' then
        (if word = ''not'' then TOK_NOT else if word = ''null'' then TOK_NULL else TOK_IDENT)
      else if c0 word = CHR ''o'' then
        (if word = ''of'' then TOK_OF else if word = ''or'' then TOK_OR
         else if word = ''oscillating'' then TOK_OSCILLATING else TOK_IDENT)
      else if c0 word = CHR ''p'' then (if word = ''prev'' then TOK_PREV else TOK_IDENT)
      else if c0 word = CHR ''r'' then
        (if word = ''report'' then TOK_REPORT else if word = ''report_value'' then TOK_REPORT_VALUE
         else if word = ''return'' then TOK_RETURN else TOK_IDENT)
      else if c0 word = CHR ''s'' then (if word = ''stable'' then TOK_STABLE else TOK_IDENT)
      else if c0 word = CHR ''t'' then (if word = ''try'' then TOK_TRY else TOK_IDENT)
      else if c0 word = CHR ''u'' then (if word = ''unobserved'' then TOK_UNOBSERVED else TOK_IDENT)
      else if c0 word = CHR ''w'' then
        (if word = ''while'' then TOK_WHILE else if word = ''what'' then TOK_WHAT
         else if word = ''who'' then TOK_WHO else if word = ''when'' then TOK_WHEN
         else if word = ''where'' then TOK_WHERE else if word = ''why'' then TOK_WHY else TOK_IDENT)
      else TOK_IDENT)"

text \<open>The enumeration order of \<open>TokType\<close>, which the parser's range tests use.\<close>

primrec tok_code :: "tok_type \<Rightarrow> nat" where
  "tok_code TOK_NUM = 0"
| "tok_code TOK_STR = 1"
| "tok_code TOK_IDENT = 2"
| "tok_code TOK_IS = 3"
| "tok_code TOK_OF = 4"
| "tok_code TOK_DEFINE = 5"
| "tok_code TOK_AS = 6"
| "tok_code TOK_IF = 7"
| "tok_code TOK_ELSE = 8"
| "tok_code TOK_ELIF = 9"
| "tok_code TOK_LOOP = 10"
| "tok_code TOK_WHILE = 11"
| "tok_code TOK_RETURN = 12"
| "tok_code TOK_AND = 13"
| "tok_code TOK_OR = 14"
| "tok_code TOK_NOT = 15"
| "tok_code TOK_FOR = 16"
| "tok_code TOK_IN = 17"
| "tok_code TOK_NULL = 18"
| "tok_code TOK_WHAT = 19"
| "tok_code TOK_WHO = 20"
| "tok_code TOK_WHEN = 21"
| "tok_code TOK_WHERE = 22"
| "tok_code TOK_WHY = 23"
| "tok_code TOK_HOW = 24"
| "tok_code TOK_PREV = 25"
| "tok_code TOK_AT = 26"
| "tok_code TOK_CONVERGED = 27"
| "tok_code TOK_STABLE = 28"
| "tok_code TOK_IMPROVING = 29"
| "tok_code TOK_OSCILLATING = 30"
| "tok_code TOK_DIVERGING = 31"
| "tok_code TOK_EQUILIBRIUM = 32"
| "tok_code TOK_TRY = 33"
| "tok_code TOK_CATCH = 34"
| "tok_code TOK_BREAK = 35"
| "tok_code TOK_CONTINUE = 36"
| "tok_code TOK_IMPORT = 37"
| "tok_code TOK_MATCH = 38"
| "tok_code TOK_CASE = 39"
| "tok_code TOK_UNOBSERVED = 40"
| "tok_code TOK_REPORT = 41"
| "tok_code TOK_REPORT_VALUE = 42"
| "tok_code TOK_LOCAL = 43"
| "tok_code TOK_PLUS = 44"
| "tok_code TOK_MINUS = 45"
| "tok_code TOK_STAR = 46"
| "tok_code TOK_SLASH = 47"
| "tok_code TOK_PERCENT = 48"
| "tok_code TOK_LT = 49"
| "tok_code TOK_GT = 50"
| "tok_code TOK_LE = 51"
| "tok_code TOK_GE = 52"
| "tok_code TOK_EQ = 53"
| "tok_code TOK_NE = 54"
| "tok_code TOK_ASSIGN = 55"
| "tok_code TOK_LPAREN = 56"
| "tok_code TOK_RPAREN = 57"
| "tok_code TOK_LBRACKET = 58"
| "tok_code TOK_RBRACKET = 59"
| "tok_code TOK_COMMA = 60"
| "tok_code TOK_COLON = 61"
| "tok_code TOK_DOT = 62"
| "tok_code TOK_LBRACE = 63"
| "tok_code TOK_RBRACE = 64"
| "tok_code TOK_PIPE = 65"
| "tok_code TOK_ARROW = 66"
| "tok_code TOK_AMP = 67"
| "tok_code TOK_BITOR = 68"
| "tok_code TOK_CARET = 69"
| "tok_code TOK_SHL = 70"
| "tok_code TOK_SHR = 71"
| "tok_code TOK_TILDE = 72"
| "tok_code TOK_PLUS_EQ = 73"
| "tok_code TOK_MINUS_EQ = 74"
| "tok_code TOK_STAR_EQ = 75"
| "tok_code TOK_SLASH_EQ = 76"
| "tok_code TOK_PERCENT_EQ = 77"
| "tok_code TOK_AMP_EQ = 78"
| "tok_code TOK_BITOR_EQ = 79"
| "tok_code TOK_CARET_EQ = 80"
| "tok_code TOK_SHL_EQ = 81"
| "tok_code TOK_SHR_EQ = 82"
| "tok_code TOK_NEWLINE = 83"
| "tok_code TOK_INDENT = 84"
| "tok_code TOK_DEDENT = 85"
| "tok_code TOK_EOF = 86"

primrec tok_base_string :: "tok_type \<Rightarrow> string" where
  "tok_base_string TOK_NUM = ''0 ''"
| "tok_base_string TOK_STR = [CHR 0x22, CHR ''s'', CHR 0x22, CHR '' '']"
| "tok_base_string TOK_IDENT = ''x ''"
| "tok_base_string TOK_IS = ''is ''"
| "tok_base_string TOK_OF = ''of ''"
| "tok_base_string TOK_DEFINE = ''define ''"
| "tok_base_string TOK_AS = ''as ''"
| "tok_base_string TOK_IF = ''if ''"
| "tok_base_string TOK_ELSE = ''else ''"
| "tok_base_string TOK_ELIF = ''elif ''"
| "tok_base_string TOK_LOOP = ''loop ''"
| "tok_base_string TOK_WHILE = ''while ''"
| "tok_base_string TOK_RETURN = ''return ''"
| "tok_base_string TOK_AND = ''and ''"
| "tok_base_string TOK_OR = ''or ''"
| "tok_base_string TOK_NOT = ''not ''"
| "tok_base_string TOK_FOR = ''for ''"
| "tok_base_string TOK_IN = ''in ''"
| "tok_base_string TOK_NULL = ''null ''"
| "tok_base_string TOK_WHAT = ''what ''"
| "tok_base_string TOK_WHO = ''who ''"
| "tok_base_string TOK_WHEN = ''when ''"
| "tok_base_string TOK_WHERE = ''where ''"
| "tok_base_string TOK_WHY = ''why ''"
| "tok_base_string TOK_HOW = ''how ''"
| "tok_base_string TOK_PREV = ''prev ''"
| "tok_base_string TOK_AT = ''at ''"
| "tok_base_string TOK_CONVERGED = ''converged ''"
| "tok_base_string TOK_STABLE = ''stable ''"
| "tok_base_string TOK_IMPROVING = ''improving ''"
| "tok_base_string TOK_OSCILLATING = ''oscillating ''"
| "tok_base_string TOK_DIVERGING = ''diverging ''"
| "tok_base_string TOK_EQUILIBRIUM = ''equilibrium ''"
| "tok_base_string TOK_TRY = ''try ''"
| "tok_base_string TOK_CATCH = ''catch ''"
| "tok_base_string TOK_BREAK = ''break ''"
| "tok_base_string TOK_CONTINUE = ''continue ''"
| "tok_base_string TOK_IMPORT = ''import ''"
| "tok_base_string TOK_MATCH = ''match ''"
| "tok_base_string TOK_CASE = ''case ''"
| "tok_base_string TOK_UNOBSERVED = ''unobserved ''"
| "tok_base_string TOK_REPORT = ''report ''"
| "tok_base_string TOK_REPORT_VALUE = ''report_value ''"
| "tok_base_string TOK_LOCAL = ''local ''"
| "tok_base_string TOK_PLUS = ''+ ''"
| "tok_base_string TOK_MINUS = ''- ''"
| "tok_base_string TOK_STAR = ''* ''"
| "tok_base_string TOK_SLASH = ''/ ''"
| "tok_base_string TOK_PERCENT = ''% ''"
| "tok_base_string TOK_LT = ''< ''"
| "tok_base_string TOK_GT = ''> ''"
| "tok_base_string TOK_LE = ''<= ''"
| "tok_base_string TOK_GE = ''>= ''"
| "tok_base_string TOK_EQ = ''== ''"
| "tok_base_string TOK_NE = ''!= ''"
| "tok_base_string TOK_ASSIGN = ''= ''"
| "tok_base_string TOK_LPAREN = ''(''"
| "tok_base_string TOK_RPAREN = '') ''"
| "tok_base_string TOK_LBRACKET = ''[''"
| "tok_base_string TOK_RBRACKET = ''] ''"
| "tok_base_string TOK_COMMA = '', ''"
| "tok_base_string TOK_COLON = '': ''"
| "tok_base_string TOK_DOT = ''.''"
| "tok_base_string TOK_LBRACE = ''{''"
| "tok_base_string TOK_RBRACE = ''} ''"
| "tok_base_string TOK_PIPE = ''|> ''"
| "tok_base_string TOK_ARROW = ''=> ''"
| "tok_base_string TOK_AMP = ''& ''"
| "tok_base_string TOK_BITOR = ''| ''"
| "tok_base_string TOK_CARET = ''^ ''"
| "tok_base_string TOK_SHL = ''<< ''"
| "tok_base_string TOK_SHR = ''>> ''"
| "tok_base_string TOK_TILDE = ''~ ''"
| "tok_base_string TOK_PLUS_EQ = ''+= ''"
| "tok_base_string TOK_MINUS_EQ = ''-= ''"
| "tok_base_string TOK_STAR_EQ = ''*= ''"
| "tok_base_string TOK_SLASH_EQ = ''/= ''"
| "tok_base_string TOK_PERCENT_EQ = ''%= ''"
| "tok_base_string TOK_AMP_EQ = ''&= ''"
| "tok_base_string TOK_BITOR_EQ = ''|= ''"
| "tok_base_string TOK_CARET_EQ = ''^= ''"
| "tok_base_string TOK_SHL_EQ = ''<<= ''"
| "tok_base_string TOK_SHR_EQ = ''>>= ''"
| "tok_base_string TOK_NEWLINE = []"
| "tok_base_string TOK_INDENT = []"
| "tok_base_string TOK_DEDENT = []"
| "tok_base_string TOK_EOF = []"

definition tok_base_string_id_count :: nat where
  "tok_base_string_id_count = tok_code TOK_EOF + 1"

text \<open>A kind name in single quotes, as most names are printed.\<close>

definition quoted :: "string \<Rightarrow> string" where
  "quoted s = [CHR 0x27] @ s @ [CHR 0x27]"

text \<open>Kinds without a case of their own print as \<open>?\<close>, the C \<open>default\<close>.\<close>

primrec tok_type_name :: "tok_type \<Rightarrow> string" where
  "tok_type_name TOK_NUM = ''number''"
| "tok_type_name TOK_STR = ''string''"
| "tok_type_name TOK_IDENT = ''identifier''"
| "tok_type_name TOK_IS = quoted ''is''"
| "tok_type_name TOK_OF = quoted ''of''"
| "tok_type_name TOK_DEFINE = quoted ''define''"
| "tok_type_name TOK_AS = quoted ''as''"
| "tok_type_name TOK_IF = quoted ''if''"
| "tok_type_name TOK_ELSE = quoted ''else''"
| "tok_type_name TOK_ELIF = quoted ''elif''"
| "tok_type_name TOK_LOOP = quoted ''loop''"
| "tok_type_name TOK_WHILE = quoted ''while''"
| "tok_type_name TOK_RETURN = quoted ''return''"
| "tok_type_name TOK_AND = quoted ''and''"
| "tok_type_name TOK_OR = quoted ''or''"
| "tok_type_name TOK_NOT = quoted ''not''"
| "tok_type_name TOK_FOR = quoted ''for''"
| "tok_type_name TOK_IN = quoted ''in''"
| "tok_type_name TOK_NULL = quoted ''null''"
| "tok_type_name TOK_TRY = quoted ''try''"
| "tok_type_name TOK_CATCH = quoted ''catch''"
| "tok_type_name TOK_BREAK = quoted ''break''"
| "tok_type_name TOK_CONTINUE = quoted ''continue''"
| "tok_type_name TOK_IMPORT = quoted ''import''"
| "tok_type_name TOK_MATCH = quoted ''match''"
| "tok_type_name TOK_CASE = quoted ''case''"
| "tok_type_name TOK_UNOBSERVED = quoted ''unobserved''"
| "tok_type_name TOK_REPORT = quoted ''report''"
| "tok_type_name TOK_REPORT_VALUE = quoted ''report_value''"
| "tok_type_name TOK_LOCAL = quoted ''local''"
| "tok_type_name TOK_PLUS = quoted ''+''"
| "tok_type_name TOK_MINUS = quoted ''-''"
| "tok_type_name TOK_STAR = quoted ''*''"
| "tok_type_name TOK_SLASH = quoted ''/''"
| "tok_type_name TOK_PERCENT = quoted ''%''"
| "tok_type_name TOK_LT = quoted ''<''"
| "tok_type_name TOK_GT = quoted ''>''"
| "tok_type_name TOK_LE = quoted ''<=''"
| "tok_type_name TOK_GE = quoted ''>=''"
| "tok_type_name TOK_EQ = quoted ''==''"
| "tok_type_name TOK_NE = quoted ''!=''"
| "tok_type_name TOK_ASSIGN = quoted ''=''"
| "tok_type_name TOK_LPAREN = quoted ''(''"
| "tok_type_name TOK_RPAREN = quoted '')''"
| "tok_type_name TOK_LBRACKET = quoted ''[''"
| "tok_type_name TOK_RBRACKET = quoted '']''"
| "tok_type_name TOK_COMMA = quoted '',''"
| "tok_type_name TOK_COLON = quoted '':''"
| "tok_type_name TOK_DOT = quoted ''.''"
| "tok_type_name TOK_LBRACE = quoted ''{''"
| "tok_type_name TOK_RBRACE = quoted ''}''"
| "tok_type_name TOK_PIPE = quoted ''|>''"
| "tok_type_name TOK_ARROW = quoted ''=>''"
| "tok_type_name TOK_AMP = quoted ''&''"
| "tok_type_name TOK_BITOR = quoted ''|''"
| "tok_type_name TOK_CARET = quoted ''^''"
| "tok_type_name TOK_SHL = quoted ''<<''"
| "tok_type_name TOK_SHR = quoted ''>>''"
| "tok_type_name TOK_TILDE = quoted ''~''"
| "tok_type_name TOK_PLUS_EQ = quoted ''+=''"
| "tok_type_name TOK_MINUS_EQ = quoted ''-=''"
| "tok_type_name TOK_STAR_EQ = quoted ''*=''"
| "tok_type_name TOK_SLASH_EQ = quoted ''/=''"
| "tok_type_name TOK_PERCENT_EQ = quoted ''%=''"
| "tok_type_name TOK_AMP_EQ = quoted ''&=''"
| "tok_type_name TOK_BITOR_EQ = quoted ''|=''"
| "tok_type_name TOK_CARET_EQ = quoted ''^=''"
| "tok_type_name TOK_SHL_EQ = quoted ''<<=''"
| "tok_type_name TOK_SHR_EQ = quoted ''>>=''"
| "tok_type_name TOK_NEWLINE = ''newline''"
| "tok_type_name TOK_INDENT = ''indent''"
| "tok_type_name TOK_DEDENT = ''dedent''"
| "tok_type_name TOK_EOF = ''end of file''"
| "tok_type_name TOK_WHAT = ''?''"
| "tok_type_name TOK_WHO = ''?''"
| "tok_type_name TOK_WHEN = ''?''"
| "tok_type_name TOK_WHERE = ''?''"
| "tok_type_name TOK_WHY = ''?''"
| "tok_type_name TOK_HOW = ''?''"
| "tok_type_name TOK_PREV = ''?''"
| "tok_type_name TOK_AT = ''?''"
| "tok_type_name TOK_CONVERGED = ''?''"
| "tok_type_name TOK_STABLE = ''?''"
| "tok_type_name TOK_IMPROVING = ''?''"
| "tok_type_name TOK_OSCILLATING = ''?''"
| "tok_type_name TOK_DIVERGING = ''?''"
| "tok_type_name TOK_EQUILIBRIUM = ''?''"

text \<open>The kind classes of the parser (\<open>src/parser.c\<close>).\<close>

definition tok_is_report :: "tok_type \<Rightarrow> bool" where
  "tok_is_report type \<longleftrightarrow> type = TOK_REPORT \<or> type = TOK_REPORT_VALUE"

definition tok_is_ident_like :: "tok_type \<Rightarrow> bool" where
  "tok_is_ident_like type \<longleftrightarrow> type = TOK_IDENT \<or> type = TOK_PREV \<or> type = TOK_AT \<or>
     (tok_code TOK_WHAT \<le> tok_code type \<and> tok_code type \<le> tok_code TOK_HOW)"

definition tok_is_assign_name :: "tok_type \<Rightarrow> bool" where
  "tok_is_assign_name type \<longleftrightarrow> type = TOK_IDENT \<or> type = TOK_PREV \<or> type = TOK_AT"

definition tok_is_dot_key :: "tok_type \<Rightarrow> bool" where
  "tok_is_dot_key type \<longleftrightarrow> type = TOK_IDENT \<or>
     (tok_code TOK_IS \<le> tok_code type \<and> tok_code type \<le> tok_code TOK_LOCAL)"

definition is_compound_assign :: "tok_type \<Rightarrow> bool" where
  "is_compound_assign t \<longleftrightarrow> tok_code TOK_PLUS_EQ \<le> tok_code t \<and> tok_code t \<le> tok_code TOK_SHR_EQ"

definition compound_to_op :: "tok_type \<Rightarrow> string" where
  "compound_to_op t =
     (if t = TOK_PLUS_EQ then ''+''
      else if t = TOK_MINUS_EQ then ''-''
      else if t = TOK_STAR_EQ then ''*''
      else if t = TOK_SLASH_EQ then ''/''
      else if t = TOK_PERCENT_EQ then ''%''
      else if t = TOK_AMP_EQ then ''&''
      else if t = TOK_BITOR_EQ then ''|''
      else if t = TOK_CARET_EQ then ''^''
      else if t = TOK_SHL_EQ then ''<<''
      else if t = TOK_SHR_EQ then ''>>''
      else [])"

end
