(* ===== verification/Eigs_Diag.thy ===== *)
theory Eigs_Diag
  imports Eigs_Prelude
begin

text \<open>
  The front end's diagnostic state (\<open>src/eigenscript.c\<close>): the count of syntax
  errors and the record of the earliest one, which the linter and the language
  server publish. Lexing runs over the whole source before parsing, so reports do
  not arrive in source order; the record keeps the least position.
\<close>

record diag =
  g_parse_errors :: nat
  g_first_error_code :: string
  g_first_error_line :: int
  g_first_error_col :: int
  g_first_error_len :: int
  g_first_error_col_known :: bool
  g_first_error_msg :: string

text \<open>The message field holds 255 bytes and a terminator.\<close>

definition eigs_record_first_error_code_at ::
  "int \<Rightarrow> int \<Rightarrow> int \<Rightarrow> string \<Rightarrow> string \<Rightarrow> diag \<Rightarrow> diag" where
  "eigs_record_first_error_code_at line col len code msg d =
     (let candidate_col_known = (0 \<le> col \<and> 0 < len) in
      if 0 < g_first_error_line d \<and>
         (line \<le> 0 \<or> g_first_error_line d < line \<or>
          line = g_first_error_line d \<and>
            (\<not> g_first_error_col_known d \<or> \<not> candidate_col_known \<or> g_first_error_col d \<le> col))
      then d
      else d\<lparr>g_first_error_code := code,
             g_first_error_line := line,
             g_first_error_col := (if candidate_col_known then col else 0),
             g_first_error_len := len,
             g_first_error_col_known := candidate_col_known,
             g_first_error_msg := take 255 msg\<rparr>)"

definition eigs_record_first_error_at :: "int \<Rightarrow> int \<Rightarrow> int \<Rightarrow> string \<Rightarrow> diag \<Rightarrow> diag" where
  "eigs_record_first_error_at line col len msg d =
     eigs_record_first_error_code_at line col len ''E002'' msg d"

definition eigs_record_first_error :: "int \<Rightarrow> string \<Rightarrow> diag \<Rightarrow> diag" where
  "eigs_record_first_error line msg d = eigs_record_first_error_at line (- 1) 0 msg d"

text \<open>The \<open>g_parse_errors++\<close> that accompanies a report.\<close>

definition count_error :: "diag \<Rightarrow> diag" where
  "count_error d = d\<lparr>g_parse_errors := Suc (g_parse_errors d)\<rparr>"

text \<open>The reset at the start of an outermost tokenize pass; the count survives it.\<close>

definition reset_first_error :: "diag \<Rightarrow> diag" where
  "reset_first_error d =
     d\<lparr>g_first_error_code := ''E002'', g_first_error_line := 0, g_first_error_col := 0,
       g_first_error_len := 0, g_first_error_col_known := False, g_first_error_msg := []\<rparr>"

definition init_diag :: diag where
  "init_diag = \<lparr>g_parse_errors = 0, g_first_error_code = ''E002'', g_first_error_line = 0,
     g_first_error_col = 0, g_first_error_len = 0, g_first_error_col_known = False,
     g_first_error_msg = []\<rparr>"

lemma errors_record [simp]:
  "g_parse_errors (eigs_record_first_error_code_at l c n k m d) = g_parse_errors d"
  "g_parse_errors (eigs_record_first_error_at l c n m d) = g_parse_errors d"
  "g_parse_errors (eigs_record_first_error l m d) = g_parse_errors d"
  by (simp_all add: eigs_record_first_error_code_at_def eigs_record_first_error_at_def
      eigs_record_first_error_def Let_def)

lemma errors_count [simp]: "g_parse_errors (count_error d) = Suc (g_parse_errors d)"
  by (simp add: count_error_def)

lemma errors_reset [simp]: "g_parse_errors (reset_first_error d) = g_parse_errors d"
  by (simp add: reset_first_error_def)

subsection \<open>The earliest report wins\<close>

text \<open>
  A report with a column: line, column, length, code, message. A sequence of
  reports leaves the one that is least in source order, the first of equals.
\<close>

record report =
  rp_line :: int
  rp_col :: int
  rp_len :: int
  rp_code :: string
  rp_msg :: string

definition located :: "report \<Rightarrow> bool" where
  "located r \<longleftrightarrow> 0 < rp_line r \<and> 0 \<le> rp_col r \<and> 0 < rp_len r"

definition precedes :: "report \<Rightarrow> report \<Rightarrow> bool" where
  "precedes r s \<longleftrightarrow> rp_line r < rp_line s \<or> rp_line r = rp_line s \<and> rp_col r < rp_col s"

definition report_at :: "report \<Rightarrow> diag \<Rightarrow> diag" where
  "report_at r = eigs_record_first_error_code_at (rp_line r) (rp_col r) (rp_len r) (rp_code r) (rp_msg r)"

definition holds_report :: "report \<Rightarrow> diag \<Rightarrow> bool" where
  "holds_report r d \<longleftrightarrow>
     g_first_error_code d = rp_code r \<and> g_first_error_line d = rp_line r \<and>
     g_first_error_col d = rp_col r \<and> g_first_error_len d = rp_len r \<and>
     g_first_error_col_known d \<and> g_first_error_msg d = take 255 (rp_msg r)"

text \<open>The abstract record: the first report no later one precedes.\<close>

fun earliest :: "report \<Rightarrow> report list \<Rightarrow> report" where
  "earliest r [] = r"
| "earliest r (s # rs) = earliest (if precedes s r then s else r) rs"

lemma report_at_first:
  "located r \<Longrightarrow> g_first_error_line d \<le> 0 \<Longrightarrow> holds_report r (report_at r d)"
  by (auto simp: located_def holds_report_def report_at_def eigs_record_first_error_code_at_def)

lemma report_at_next:
  assumes "located r" and "located s" and "holds_report r d"
  shows "holds_report (if precedes s r then s else r) (report_at s d)"
  using assms
  by (auto simp: located_def holds_report_def report_at_def precedes_def
      eigs_record_first_error_code_at_def)

lemma fold_report_at:
  "located r \<Longrightarrow> holds_report r d \<Longrightarrow> \<forall>s\<in>set rs. located s \<Longrightarrow>
   holds_report (earliest r rs) (fold report_at rs d)"
proof (induction rs arbitrary: r d)
  case Nil
  then show ?case by simp
next
  case (Cons s rs)
  then show ?case using report_at_next [of r s d] by (simp split: if_splits)
qed

lemma earliest_in: "earliest r rs \<in> insert r (set rs)"
  by (induction rs arbitrary: r) (auto split: if_splits)

lemma precedes_irrefl [simp]: "\<not> precedes r r"
  by (simp add: precedes_def)

lemma earliest_le_start: "\<not> precedes r (earliest r rs)"
proof (induction rs arbitrary: r)
  case Nil
  then show ?case by simp
next
  case (Cons s rs)
  from Cons [of s] Cons [of r] show ?case by (auto simp: precedes_def)
qed

lemma earliest_least: "s \<in> insert r (set rs) \<Longrightarrow> \<not> precedes s (earliest r rs)"
proof (induction rs arbitrary: r)
  case Nil
  then show ?case by simp
next
  case (Cons t rs)
  consider "s = r" | "s = t" | "s \<in> set rs" using Cons.prems by auto
  then show ?case
  proof cases
    case 3
    then show ?thesis using Cons.IH by simp
  next
    case 1
    then show ?thesis using earliest_le_start [of r "t # rs"] by simp
  next
    case 2
    then show ?thesis using earliest_le_start [of t rs] earliest_le_start [of r rs]
      by (auto simp: precedes_def)
  qed
qed

text \<open>C15: after a fresh pass has made any sequence of located reports, the record holds
  one of them that no other precedes in the source, whatever order they came in, with
  its own position, length, code and message.\<close>
theorem first_error_is_earliest:
  assumes "located r" and "\<forall>s\<in>set rs. located s"
  shows "\<exists>e\<in>insert r (set rs). holds_report e (fold report_at (r # rs) (reset_first_error d)) \<and>
    (\<forall>s\<in>insert r (set rs). \<not> precedes s e)"
proof (rule bexI [of _ "earliest r rs"])
  have "holds_report r (report_at r (reset_first_error d))"
    using assms(1) by (rule report_at_first) (simp add: reset_first_error_def)
  then have "holds_report (earliest r rs) (fold report_at rs (report_at r (reset_first_error d)))"
    by (rule fold_report_at [OF assms(1) _ assms(2)])
  then show "holds_report (earliest r rs) (fold report_at (r # rs) (reset_first_error d)) \<and>
      (\<forall>s\<in>insert r (set rs). \<not> precedes s (earliest r rs))"
    using earliest_least by auto
qed (rule earliest_in)

lemma first_error_is_earliest_witness:
  "\<exists>e\<in>insert \<lparr>rp_line = 3, rp_col = 4, rp_len = 1, rp_code = ''E002'', rp_msg = ''late''\<rparr>
      (set [\<lparr>rp_line = 2, rp_col = 0, rp_len = 1, rp_code = ''E005'', rp_msg = ''early''\<rparr>]).
     holds_report e (fold report_at
       [\<lparr>rp_line = 3, rp_col = 4, rp_len = 1, rp_code = ''E002'', rp_msg = ''late''\<rparr>,
        \<lparr>rp_line = 2, rp_col = 0, rp_len = 1, rp_code = ''E005'', rp_msg = ''early''\<rparr>]
       (reset_first_error init_diag)) \<and>
     (\<forall>s\<in>insert \<lparr>rp_line = 3, rp_col = 4, rp_len = 1, rp_code = ''E002'', rp_msg = ''late''\<rparr>
        (set [\<lparr>rp_line = 2, rp_col = 0, rp_len = 1, rp_code = ''E005'', rp_msg = ''early''\<rparr>]).
      \<not> precedes s e)"
  by (rule first_error_is_earliest) (simp_all add: located_def)

subsection \<open>Counting and recording go together\<close>

text \<open>
  What a pass may do to the diagnostics: the count never falls, a pass that counts
  nothing leaves everything as it was, and one that counts leaves an error recorded.
\<close>

definition diag_le :: "diag \<Rightarrow> diag \<Rightarrow> bool" where
  "diag_le d0 d \<longleftrightarrow>
     (g_parse_errors d = g_parse_errors d0 \<and> d = d0) \<or>
     (g_parse_errors d0 < g_parse_errors d \<and> 0 < g_first_error_line d)"

lemma diag_le_refl [simp]: "diag_le d d"
  by (simp add: diag_le_def)

lemma diag_le_trans: "diag_le a b \<Longrightarrow> diag_le b c \<Longrightarrow> diag_le a c"
  by (auto simp: diag_le_def)

lemma diag_le_report:
  "0 < line \<Longrightarrow> diag_le d (count_error (eigs_record_first_error_at line col len msg d))"
  by (auto simp: diag_le_def count_error_def eigs_record_first_error_at_def
      eigs_record_first_error_code_at_def Let_def)

lemma diag_le_errors: "diag_le a b \<Longrightarrow> g_parse_errors a \<le> g_parse_errors b"
  by (auto simp: diag_le_def)

end
