(* ===== verification/Eigs_Lexer.thy ===== *)
theory Eigs_Lexer
  imports Eigs_Token Eigs_Diag "HOL-Library.Sublist"
begin

text \<open>
  The tokenizer (\<open>src/lexer.c\<close>). One iteration of the main loop is \<open>lex_step\<close>;
  the loop is \<open>lex_loop\<close>, which ends because an iteration consumes input. The
  interpolations of an f-string are lexed by the tokenizer itself; the C recursion
  is bounded by \<open>MAX_TOKENIZE_DEPTH\<close>, so the model recurses on the levels left.
  The text written to stderr beside each recorded error is not modelled.
\<close>

definition MAX_TOKENIZE_DEPTH :: nat where
  "MAX_TOKENIZE_DEPTH = 64"

definition MAX_INDENT :: nat where
  "MAX_INDENT = 64"

text \<open>
  The locals of \<open>tokenize_at_line\<close>: the unread source, the position, the flags, the
  indentation stack with its top first, the tokens, and the shared diagnostics.
\<close>

record lexst =
  lx_p :: string
  lx_line :: int
  lx_col :: int
  lx_at_line_start :: bool
  lx_bracket_depth :: nat
  lx_indents :: "nat list"
  lx_toks :: "token list"
  lx_diag :: diag

text \<open>Move the pointer over \<open>n\<close> characters, the column with it.\<close>

definition lx_skip :: "nat \<Rightarrow> lexst \<Rightarrow> lexst" where
  "lx_skip n s = s\<lparr>lx_p := drop n (lx_p s), lx_col := lx_col s + int n\<rparr>"

definition lx_add :: "tok_type \<Rightarrow> double \<Rightarrow> string option \<Rightarrow> int \<Rightarrow> lexst \<Rightarrow> lexst" where
  "lx_add type num str col s = s\<lparr>lx_toks := tok_add type num str (lx_line s) col (lx_toks s)\<rparr>"

text \<open>The emission sites that set the true source length of the token just added.\<close>

definition set_last_len :: "nat \<Rightarrow> lexst \<Rightarrow> lexst" where
  "set_last_len n s =
     (case rev (lx_toks s) of
        [] \<Rightarrow> s
      | t # ts \<Rightarrow> s\<lparr>lx_toks := rev (t\<lparr>tk_len := int n\<rparr> # ts)\<rparr>)"

definition lx_error :: "int \<Rightarrow> string \<Rightarrow> lexst \<Rightarrow> lexst" where
  "lx_error col msg s =
     s\<lparr>lx_diag := count_error (eigs_record_first_error_at (lx_line s) col 1 msg (lx_diag s))\<rparr>"

text \<open>\<open>p++; line++; col = 0\<close> at a line break.\<close>

definition lx_newline :: "lexst \<Rightarrow> lexst" where
  "lx_newline s = s\<lparr>lx_p := drop 1 (lx_p s), lx_line := lx_line s + 1, lx_col := 0\<rparr>"

subsection \<open>Indentation\<close>

definition is_sp :: "char \<Rightarrow> bool" where
  "is_sp c \<longleftrightarrow> c = CHR '' ''"

definition is_tab :: "char \<Rightarrow> bool" where
  "is_tab c \<longleftrightarrow> c = CHR 0x09"

definition CR :: char where
  "CR = CHR 0x0D"

definition LF :: char where
  "LF = CHR 0x0A"

definition QUOTE :: char where
  "QUOTE = CHR 0x22"

definition BACKSLASH :: char where
  "BACKSLASH = CHR 0x5C"

text \<open>
  Leading whitespace: spaces, then a run of tabs worth four columns each and the
  spaces after it. The result is the rest of the line and the width.
\<close>

definition lead_ws :: "string \<Rightarrow> string \<times> nat" where
  "lead_ws p =
     (let a = length (takeWhile is_sp p); p1 = dropWhile is_sp p in
      if is_tab (c0 p1) then
        let b = length (takeWhile is_tab p1); p2 = dropWhile is_tab p1 in
        (dropWhile is_sp p2, a + 4 * b + length (takeWhile is_sp p2))
      else (p1, a))"

definition not_eol :: "char \<Rightarrow> bool" where
  "not_eol c \<longleftrightarrow> c \<noteq> NUL \<and> c \<noteq> LF"

text \<open>Skip a comment up to its line break.\<close>

definition skip_comment :: "lexst \<Rightarrow> lexst" where
  "skip_comment s = lx_skip (length (takeWhile not_eol (lx_p s))) s"

text \<open>Pop the indentation levels deeper than the line, one DEDENT each.\<close>

fun pop_indents :: "nat \<Rightarrow> nat list \<Rightarrow> nat list \<times> nat" where
  "pop_indents spaces (i # j # is) =
     (if spaces < i then (case pop_indents spaces (j # is) of (st, n) \<Rightarrow> (st, Suc n))
      else (i # j # is, 0))"
| "pop_indents spaces is = (is, 0)"

fun add_dedents :: "nat \<Rightarrow> lexst \<Rightarrow> lexst" where
  "add_dedents 0 s = s"
| "add_dedents (Suc n) s = add_dedents n (lx_add TOK_DEDENT 0 None (lx_col s) s)"

definition lex_indent :: "nat \<Rightarrow> lexst \<Rightarrow> lexst" where
  "lex_indent spaces s =
     (let s' =
        (if hd (lx_indents s) < spaces then
           (if MAX_INDENT \<le> length (lx_indents s)
            then lx_error (lx_col s) ''indent too deep (max 64 levels)'' s
            else lx_add TOK_INDENT 0 None (lx_col s) (s\<lparr>lx_indents := spaces # lx_indents s\<rparr>))
         else
           (case pop_indents spaces (lx_indents s) of
              (st, n) \<Rightarrow>
                let s1 = add_dedents n (s\<lparr>lx_indents := st\<rparr>) in
                if spaces \<noteq> hd st
                then lx_error (lx_col s) ''indentation does not match any outer level'' s1
                else s1))
      in s'\<lparr>lx_at_line_start := False\<rparr>)"

text \<open>
  The block at the start of a line, \<open>line_body\<close> after its leading whitespace. The
  flag says that the iteration ends here: a comment line, a blank line, or the end of
  the source.
\<close>

definition skip_cr :: "lexst \<Rightarrow> lexst" where
  "skip_cr s = (if c0 (lx_p s) = CR \<and> c1 (lx_p s) = LF then s\<lparr>lx_p := drop 1 (lx_p s)\<rparr> else s)"

definition line_body :: "nat \<Rightarrow> lexst \<Rightarrow> lexst \<times> bool" where
  "line_body spaces s =
     (if c0 (lx_p s) = CHR ''#'' then
        let s1 = skip_comment s in ((if c0 (lx_p s1) = LF then lx_newline s1 else s1), True)
      else
        let s1 = skip_cr s in
        if c0 (lx_p s1) = LF then (lx_newline s1, True)
        else if c0 (lx_p s1) = NUL then (s1, True)
        else (lex_indent spaces s1, False))"

definition lex_line_start :: "lexst \<Rightarrow> lexst \<times> bool" where
  "lex_line_start s =
     (case lead_ws (lx_p s) of
        (p, spaces) \<Rightarrow> line_body spaces (s\<lparr>lx_p := p, lx_col := lx_col s + int spaces\<rparr>))"

subsection \<open>Literals\<close>

text \<open>The character an escape stands for; an unknown escape is its letter.\<close>

definition unescape :: "char \<Rightarrow> char" where
  "unescape c =
     (if c = CHR ''n'' then LF
      else if c = CHR ''t'' then CHR 0x09
      else if c = CHR ''r'' then CR
      else c)"

text \<open>The body of a string literal: its bytes, the rest, and the column.\<close>

fun scan_str :: "string \<Rightarrow> string \<Rightarrow> int \<Rightarrow> string \<times> string \<times> int" where
  "scan_str [] buf col = (buf, [], col)"
| "scan_str (c # cs) buf col =
     (if c = NUL \<or> c = QUOTE then (buf, c # cs, col)
      else if c = BACKSLASH then
        (case cs of
           [] \<Rightarrow> (buf, [], col + 1)
         | d # ds \<Rightarrow>
             if d = NUL then (buf, d # ds, col + 1)
             else scan_str ds (buf @ [unescape d]) (col + 2))
      else scan_str cs (buf @ [c]) (col + 1))"

definition lex_string :: "lexst \<Rightarrow> lexst" where
  "lex_string s =
     (let tok_col = lx_col s; s1 = lx_skip 1 s in
      case scan_str (lx_p s1) [] (lx_col s1) of
        (buf, p, col) \<Rightarrow>
          let s2 = s1\<lparr>lx_p := p, lx_col := col\<rparr>;
              s3 = (if c0 p = QUOTE then lx_skip 1 s2 else lx_error tok_col ''unterminated string'' s2)
          in set_last_len (length (lx_p s) - length (lx_p s3)) (lx_add TOK_STR 0 (Some buf) tok_col s3))"

text \<open>
  The literal \<open>strtod\<close> reads at a digit, or at a dot before a digit: integer digits,
  fraction digits, decimal exponent, and the characters consumed.
\<close>

definition dec_exponent :: "string \<Rightarrow> int \<times> nat" where
  "dec_exponent p =
     (if c0 p = CHR ''e'' \<or> c0 p = CHR ''E'' then
        let sgn = (c1 p = CHR ''+'' \<or> c1 p = CHR ''-'');
            ds = takeWhile c_isdigit (drop (if sgn then 2 else 1) p)
        in if ds = [] then (0, 0)
           else ((if c1 p = CHR ''-'' then - dec_val ds else dec_val ds),
                 length ds + (if sgn then 2 else 1))
      else (0, 0))"

definition strtod :: "string \<Rightarrow> double \<times> nat" where
  "strtod p =
     (let a = takeWhile c_isdigit p;
          p1 = dropWhile c_isdigit p;
          dot = (c0 p1 = CHR ''.'');
          b = (if dot then takeWhile c_isdigit (drop 1 p1) else []);
          p2 = (if dot then dropWhile c_isdigit (drop 1 p1) else p1)
      in case dec_exponent p2 of
           (e, n) \<Rightarrow> (fp_of_dec (a @ b) (e - int (length b)),
                      length a + (if dot then 1 else 0) + length b + n))"

text \<open>The digits of a hexadecimal literal, accumulated in a double.\<close>

definition hex_acc :: "string \<Rightarrow> double" where
  "hex_acc ds = foldl (\<lambda>num c. fp_add (fp_mul num (fp_of_int 16)) (fp_of_int (int (hexval c)))) 0 ds"

definition lex_number :: "lexst \<Rightarrow> lexst" where
  "lex_number s =
     (let p = lx_p s; tok_col = lx_col s in
      if c0 p = CHR ''0'' \<and> (c1 p = CHR ''x'' \<or> c1 p = CHR ''X'') then
        (if c_isxdigit (c2 p) then
           let ds = takeWhile c_isxdigit (drop 2 p); n = length ds + 2 in
           set_last_len n (lx_add TOK_NUM (hex_acc ds) None tok_col (lx_skip n s))
         else lx_skip 1 (set_last_len 1 (lx_add TOK_NUM 0 None tok_col s)))
      else
        (case strtod p of
           (num, n) \<Rightarrow> set_last_len n (lx_add TOK_NUM num None tok_col (lx_skip n s))))"

definition is_ident_char :: "char \<Rightarrow> bool" where
  "is_ident_char c \<longleftrightarrow> c_isalnum c \<or> c = CHR ''_''"

definition lex_ident :: "lexst \<Rightarrow> lexst" where
  "lex_ident s =
     (let w = takeWhile is_ident_char (lx_p s) in
      lx_add (keyword_type w) 0 (Some w) (lx_col s) (lx_skip (length w) s))"

subsection \<open>Interpolated strings\<close>

text \<open>
  A string literal inside an interpolation, copied after its opening quote: the
  bytes, the rest, and the column.
\<close>

fun scan_quoted :: "string \<Rightarrow> string \<Rightarrow> int \<Rightarrow> string \<times> string \<times> int" where
  "scan_quoted [] acc col = (acc, [], col)"
| "scan_quoted (c # cs) acc col =
     (if c = NUL then (acc, c # cs, col)
      else if c = QUOTE then (acc @ [c], cs, col + 1)
      else if c = BACKSLASH \<and> c0 cs \<noteq> NUL then
        (case cs of
           [] \<Rightarrow> (acc @ [c], [], col + 1)
         | d # ds \<Rightarrow> scan_quoted ds (acc @ [c, d]) (col + 2))
      else scan_quoted cs (acc @ [c]) (col + 1))"

declare scan_quoted.simps [simp del]

lemma scan_quoted_suffix: "suffix (fst (snd (scan_quoted p acc col))) p"
proof (induction p acc col rule: scan_quoted.induct)
  case (1 acc col)
  show ?case by (simp add: scan_quoted.simps)
next
  case (2 c cs acc col)
  show ?case
  proof (cases "c = NUL \<or> c = QUOTE \<or> \<not> (c = BACKSLASH \<and> c0 cs \<noteq> NUL)")
    case True
    then show ?thesis using 2(2) by (auto simp: scan_quoted.simps(2) suffix_ConsI)
  next
    case False
    then obtain d ds where "cs = d # ds" by (cases cs) auto
    then show ?thesis using False 2(1) by (auto simp: scan_quoted.simps(2) suffix_ConsI)
  qed
qed

text \<open>
  The expression inside braces: its bytes, the rest (at the closing brace when there
  is one), and the column. \<open>depth\<close> counts the braces still open.
\<close>

function scan_braces :: "string \<Rightarrow> nat \<Rightarrow> string \<Rightarrow> int \<Rightarrow> string \<times> string \<times> int" where
  "scan_braces p depth acc col =
     (if c0 p = NUL \<or> depth = 0 then (acc, p, col)
      else if c0 p = QUOTE then
        (case scan_quoted (drop 1 p) (acc @ [c0 p]) (col + 1) of
           (acc', p', col') \<Rightarrow> scan_braces p' depth acc' col')
      else if c0 p = CHR ''}'' \<and> depth = 1 then (acc, p, col)
      else
        scan_braces (drop 1 p)
          (if c0 p = CHR ''{'' then depth + 1 else if c0 p = CHR ''}'' then depth - 1 else depth)
          (acc @ [c0 p]) (col + 1))"
  by pat_completeness auto
termination
proof (relation "measure (\<lambda>(p, depth, acc, col). length p)", goal_cases)
  case 1
  show ?case by simp
next
  case (2 p depth acc col x p' y col')
  then have "scan_quoted (drop 1 p) (acc @ [c0 p]) (col + 1) = (x, y, col')" by simp
  then have "length y \<le> length (drop 1 p)"
    using suffix_length_le [OF scan_quoted_suffix [of "drop 1 p" "acc @ [c0 p]" "col + 1"]] by simp
  moreover have "p \<noteq> []" using 2 by auto
  ultimately show ?case by (cases p) auto
next
  case (3 p depth acc col)
  then show ?case by (cases p) auto
qed

declare scan_braces.simps [simp del]

lemma scan_braces_stop:
  "c0 p = NUL \<or> depth = 0 \<or> (c0 p = CHR ''}'' \<and> depth = 1) \<Longrightarrow>
   scan_braces p depth acc col = (acc, p, col)"
  by (subst scan_braces.simps) (auto simp: QUOTE_def)

lemma scan_braces_quote:
  "depth \<noteq> 0 \<Longrightarrow> c0 p = QUOTE \<Longrightarrow> scan_quoted (drop 1 p) (acc @ [c0 p]) (col + 1) = (acc', p', col') \<Longrightarrow>
   scan_braces p depth acc col = scan_braces p' depth acc' col'"
  by (simp add: scan_braces.simps [of p depth acc col] QUOTE_def NUL_def)

lemma scan_braces_char:
  "c0 p \<noteq> NUL \<Longrightarrow> depth \<noteq> 0 \<Longrightarrow> c0 p \<noteq> QUOTE \<Longrightarrow> \<not> (c0 p = CHR ''}'' \<and> depth = 1) \<Longrightarrow>
   scan_braces p depth acc col =
     scan_braces (drop 1 p)
       (if c0 p = CHR ''{'' then depth + 1 else if c0 p = CHR ''}'' then depth - 1 else depth)
       (acc @ [c0 p]) (col + 1)"
  by (simp only: scan_braces.simps [of p depth acc col] if_False de_Morgan_disj simp_thms)

lemma scan_braces_suffix: "suffix (fst (snd (scan_braces p depth acc col))) p"
proof (induction p depth acc col rule: scan_braces.induct)
  case (1 p depth acc col)
  obtain x y z where q: "scan_quoted (drop 1 p) (acc @ [c0 p]) (col + 1) = (x, y, z)"
    by (metis prod_cases3)
  have y: "suffix y p"
    using scan_quoted_suffix [of "drop 1 p" "acc @ [c0 p]" "col + 1"] q
    by (metis fst_conv snd_conv suffix_drop suffix_order.trans)
  consider (stop) "c0 p = NUL \<or> depth = 0 \<or> (c0 p = CHR ''}'' \<and> depth = 1)"
    | (quote) "depth \<noteq> 0" "c0 p = QUOTE" "c0 p \<noteq> NUL"
    | (char) "c0 p \<noteq> NUL" "depth \<noteq> 0" "c0 p \<noteq> QUOTE" "\<not> (c0 p = CHR ''}'' \<and> depth = 1)"
    by (auto simp: QUOTE_def NUL_def)
  then show ?case
  proof cases
    case stop
    then show ?thesis by (simp add: scan_braces_stop)
  next
    case quote
    then have "suffix (fst (snd (scan_braces y depth x z))) y"
      using "1.IH"(1) q by simp
    then show ?thesis
      using y unfolding scan_braces_quote [OF quote(1,2) q] by (rule suffix_order.trans)
  next
    case char
    then have "suffix (fst (snd (scan_braces p depth acc col))) (drop 1 p)"
      unfolding scan_braces_char [OF char] by (intro "1.IH"(2)) simp_all
    then show ?thesis using suffix_drop by (rule suffix_order.trans)
  qed
qed

text \<open>The tokens of an interpolation: up to EOF, without the layout tokens.\<close>

definition is_layout :: "tok_type \<Rightarrow> bool" where
  "is_layout t \<longleftrightarrow> t = TOK_NEWLINE \<or> t = TOK_INDENT \<or> t = TOK_DEDENT"

definition splice_toks :: "token list \<Rightarrow> lexst \<Rightarrow> lexst" where
  "splice_toks inner s =
     fold (\<lambda>it. lx_add (tk_type it) (tk_num it) (tk_str it) (lx_col s))
       (filter (\<lambda>it. \<not> is_layout (tk_type it)) (takeWhile (\<lambda>it. tk_type it \<noteq> TOK_EOF) inner)) s"

text \<open>
  One \<open>{expr}\<close> of an f-string: \<open>fstr_open\<close> emits the literal so far and the call
  of \<open>str\<close>, \<open>fstr_close\<close> the tokens of the expression and the closing
  parentheses. \<open>sub\<close> is the nested tokenizer.
\<close>

definition fstr_open :: "int \<Rightarrow> lexst \<Rightarrow> string \<Rightarrow> bool \<Rightarrow> lexst" where
  "fstr_open tok_col s buf has_segments =
     (let s1 = (if buf \<noteq> [] \<or> \<not> has_segments
                then lx_add TOK_STR 0 (Some buf) tok_col
                       (if has_segments then lx_add TOK_PLUS 0 None tok_col s else s)
                else s);
          s2 = lx_skip 1 s1;
          s3 = lx_add TOK_PLUS 0 None (lx_col s2) s2;
          s4 = lx_add TOK_LPAREN 0 None (lx_col s2) s3;
          s5 = lx_add TOK_IDENT 0 (Some ''str'') (lx_col s2) s4;
          s6 = lx_add TOK_OF 0 None (lx_col s2) s5
      in lx_add TOK_LPAREN 0 None (lx_col s2) s6)"

definition fstr_close :: "token list \<Rightarrow> lexst \<Rightarrow> lexst" where
  "fstr_close inner s =
     (let s1 = splice_toks inner s;
          s2 = lx_add TOK_RPAREN 0 None (lx_col s1) s1
      in lx_add TOK_RPAREN 0 None (lx_col s2) s2)"

definition fstr_expr ::
  "(string \<Rightarrow> int \<Rightarrow> int \<Rightarrow> diag \<Rightarrow> token list \<times> diag) \<Rightarrow> int \<Rightarrow> lexst \<times> string \<times> bool \<Rightarrow>
   lexst \<times> string \<times> bool" where
  "fstr_expr sub tok_col st =
     (case st of (s, buf, has_segments) \<Rightarrow>
        let s1 = fstr_open tok_col s buf has_segments in
        case scan_braces (lx_p s1) 1 [] (lx_col s1) of
          (expr, p, col) \<Rightarrow>
            let s2 = s1\<lparr>lx_p := p, lx_col := col\<rparr>;
                s3 = (if c0 p = CHR ''}'' then lx_skip 1 s2
                      else lx_error tok_col ''unterminated f-string expression'' s2)
            in case sub expr (lx_line s3) (lx_col s1) (lx_diag s3) of
                 (inner, d) \<Rightarrow> (fstr_close inner (s3\<lparr>lx_diag := d\<rparr>), [], True))"

lemma lx_add_p [simp]: "lx_p (lx_add t n x c s) = lx_p s"
  by (simp add: lx_add_def)

lemma lx_skip_p [simp]: "lx_p (lx_skip n s) = drop n (lx_p s)"
  by (simp add: lx_skip_def)

lemma lx_error_p [simp]: "lx_p (lx_error c m s) = lx_p s"
  by (simp add: lx_error_def)

lemma set_last_len_p [simp]: "lx_p (set_last_len n s) = lx_p s"
  by (simp add: set_last_len_def split: list.splits)

lemma fold_lx_add_p: "lx_p (fold (\<lambda>it. lx_add (f it) (g it) (h it) c) xs s) = lx_p s"
  by (induction xs arbitrary: s) simp_all

lemma splice_toks_p [simp]: "lx_p (splice_toks inner s) = lx_p s"
  by (simp add: splice_toks_def fold_lx_add_p)

lemma lx_add_col [simp]: "lx_col (lx_add t n x c s) = lx_col s"
  by (simp add: lx_add_def)

lemma lx_skip_col [simp]: "lx_col (lx_skip n s) = lx_col s + int n"
  by (simp add: lx_skip_def)

lemma fstr_open_p [simp]: "lx_p (fstr_open c s buf seg) = drop 1 (lx_p s)"
  by (simp add: fstr_open_def Let_def)

lemma fstr_close_p [simp]: "lx_p (fstr_close inner s) = lx_p s"
  by (simp add: fstr_close_def Let_def)

lemma fstr_expr_length:
  assumes "lx_p s \<noteq> []"
  shows "length (lx_p (fst (fstr_expr sub tok_col (s, buf, seg)))) < length (lx_p s)"
proof -
  let ?c = "lx_col (fstr_open tok_col s buf seg)"
  obtain e p c where b: "scan_braces (drop 1 (lx_p s)) 1 [] ?c = (e, p, c)"
    by (metis prod_cases3)
  have "length p \<le> length (drop 1 (lx_p s))"
    using suffix_length_le [OF scan_braces_suffix [of "drop 1 (lx_p s)" 1 "[]" ?c]] b
    by simp
  then have len: "length p < length (lx_p s)" using assms by (cases "lx_p s") auto
  have "lx_p (fst (fstr_expr sub tok_col (s, buf, seg))) \<in> {p, drop 1 p}"
    using b by (cases "c0 p = CHR ''}''") (simp_all add: fstr_expr_def Let_def case_prod_beta)
  then show ?thesis using len by auto
qed

text \<open>The loop over the body of an f-string, up to the closing quote.\<close>

function fstr_loop ::
  "(string \<Rightarrow> int \<Rightarrow> int \<Rightarrow> diag \<Rightarrow> token list \<times> diag) \<Rightarrow> int \<Rightarrow> lexst \<times> string \<times> bool \<Rightarrow>
   lexst \<times> string \<times> bool" where
  "fstr_loop sub tok_col (s, buf, has_segments) =
     (let p = lx_p s in
      if c0 p = NUL \<or> c0 p = QUOTE then (s, buf, has_segments)
      else if c0 p = BACKSLASH \<and> (c1 p = CHR ''{'' \<or> c1 p = CHR ''}'') then
        fstr_loop sub tok_col (lx_skip 2 s, buf @ [c1 p], has_segments)
      else if c0 p = BACKSLASH then
        (if c1 p = NUL then (lx_skip 1 s, buf, has_segments)
         else fstr_loop sub tok_col (lx_skip 2 s, buf @ [unescape (c1 p)], has_segments))
      else if c0 p = CHR ''{'' then
        fstr_loop sub tok_col (fstr_expr sub tok_col (s, buf, has_segments))
      else fstr_loop sub tok_col (lx_skip 1 s, buf @ [c0 p], has_segments))"
  by pat_completeness auto
termination
proof (relation "measure (\<lambda>(sub, tok_col, st). length (lx_p (fst st)))", goal_cases)
  case 1
  show ?case by simp
next
  case (2 sub tok_col s buf seg)
  then show ?case by (cases "lx_p s") auto
next
  case (3 sub tok_col s buf seg)
  then show ?case by (cases "lx_p s") auto
next
  case (4 sub tok_col s buf seg)
  then show ?case
    using fstr_expr_length [of s sub tok_col buf seg] by fastforce
next
  case (5 sub tok_col s buf seg)
  then show ?case by (cases "lx_p s") auto
qed

declare fstr_loop.simps [simp del]

definition lex_fstring ::
  "(string \<Rightarrow> int \<Rightarrow> int \<Rightarrow> diag \<Rightarrow> token list \<times> diag) \<Rightarrow> lexst \<Rightarrow> lexst" where
  "lex_fstring sub s =
     (let tok_col = lx_col s in
      case fstr_loop sub tok_col (lx_add TOK_LPAREN 0 None tok_col (lx_skip 2 s), [], False) of
        (s1, buf, has_segments) \<Rightarrow>
          let s2 = (if buf \<noteq> [] then
                      lx_add TOK_STR 0 (Some buf) tok_col
                        (if has_segments then lx_add TOK_PLUS 0 None tok_col s1 else s1)
                    else if \<not> has_segments then lx_add TOK_STR 0 (Some []) tok_col s1
                    else s1);
              s3 = lx_add TOK_RPAREN 0 None tok_col s2
          in if c0 (lx_p s3) = QUOTE then lx_skip 1 s3
             else lx_error tok_col ''unterminated f-string'' s3)"

subsection \<open>Operators\<close>

text \<open>The operator switch: the kind and the number of characters.\<close>

definition op_token :: "char \<Rightarrow> char \<Rightarrow> char \<Rightarrow> (tok_type \<times> nat) option" where
  "op_token a b c =
     (if a = CHR ''+'' then Some (if b = CHR ''='' then (TOK_PLUS_EQ, 2) else (TOK_PLUS, 1))
      else if a = CHR ''-'' then Some (if b = CHR ''='' then (TOK_MINUS_EQ, 2) else (TOK_MINUS, 1))
      else if a = CHR ''*'' then Some (if b = CHR ''='' then (TOK_STAR_EQ, 2) else (TOK_STAR, 1))
      else if a = CHR ''/'' then Some (if b = CHR ''='' then (TOK_SLASH_EQ, 2) else (TOK_SLASH, 1))
      else if a = CHR ''%'' then Some (if b = CHR ''='' then (TOK_PERCENT_EQ, 2) else (TOK_PERCENT, 1))
      else if a = CHR ''('' then Some (TOK_LPAREN, 1)
      else if a = CHR '')'' then Some (TOK_RPAREN, 1)
      else if a = CHR ''['' then Some (TOK_LBRACKET, 1)
      else if a = CHR '']'' then Some (TOK_RBRACKET, 1)
      else if a = CHR ''{'' then Some (TOK_LBRACE, 1)
      else if a = CHR ''}'' then Some (TOK_RBRACE, 1)
      else if a = CHR '','' then Some (TOK_COMMA, 1)
      else if a = CHR '':'' then Some (TOK_COLON, 1)
      else if a = CHR ''.'' then Some (TOK_DOT, 1)
      else if a = CHR ''<'' then
        Some (if b = CHR ''<'' \<and> c = CHR ''='' then (TOK_SHL_EQ, 3)
              else if b = CHR ''<'' then (TOK_SHL, 2)
              else if b = CHR ''='' then (TOK_LE, 2) else (TOK_LT, 1))
      else if a = CHR ''>'' then
        Some (if b = CHR ''>'' \<and> c = CHR ''='' then (TOK_SHR_EQ, 3)
              else if b = CHR ''>'' then (TOK_SHR, 2)
              else if b = CHR ''='' then (TOK_GE, 2) else (TOK_GT, 1))
      else if a = CHR ''!'' then (if b = CHR ''='' then Some (TOK_NE, 2) else None)
      else if a = CHR ''='' then
        Some (if b = CHR ''='' then (TOK_EQ, 2)
              else if b = CHR ''>'' then (TOK_ARROW, 2) else (TOK_ASSIGN, 1))
      else if a = CHR ''|'' then
        Some (if b = CHR ''>'' then (TOK_PIPE, 2)
              else if b = CHR ''='' then (TOK_BITOR_EQ, 2) else (TOK_BITOR, 1))
      else if a = CHR ''&'' then Some (if b = CHR ''='' then (TOK_AMP_EQ, 2) else (TOK_AMP, 1))
      else if a = CHR ''^'' then Some (if b = CHR ''='' then (TOK_CARET_EQ, 2) else (TOK_CARET, 1))
      else if a = CHR ''~'' then Some (TOK_TILDE, 1)
      else None)"

definition opens_bracket :: "tok_type \<Rightarrow> bool" where
  "opens_bracket t \<longleftrightarrow> t = TOK_LPAREN \<or> t = TOK_LBRACKET \<or> t = TOK_LBRACE"

definition closes_bracket :: "tok_type \<Rightarrow> bool" where
  "closes_bracket t \<longleftrightarrow> t = TOK_RPAREN \<or> t = TOK_RBRACKET \<or> t = TOK_RBRACE"

text \<open>How the \<open>default\<close> case spells the offending byte.\<close>

definition shown_char :: "char \<Rightarrow> string" where
  "shown_char c =
     (if 32 \<le> ord c \<and> ord c < 127 then [c] else [BACKSLASH, CHR ''x''] @ hex2 (ord c))"

definition lex_operator :: "lexst \<Rightarrow> lexst" where
  "lex_operator s =
     (let p = lx_p s; tok_col = lx_col s in
      case op_token (c0 p) (c1 p) (c2 p) of
        Some (t, n) \<Rightarrow>
          let s1 = lx_skip n (lx_add t 0 None tok_col s) in
          if opens_bracket t then s1\<lparr>lx_bracket_depth := lx_bracket_depth s1 + 1\<rparr>
          else if closes_bracket t then s1\<lparr>lx_bracket_depth := lx_bracket_depth s1 - 1\<rparr>
          else s1
      | None \<Rightarrow>
          lx_skip 1
            (lx_error tok_col
              (if c0 p = CHR ''!'' then ''expected '' @ quoted ''!='' @ '' after '' @ quoted ''!''
               else ''unexpected character '' @ quoted (shown_char (c0 p))) s))"

subsection \<open>The main loop\<close>

definition last_type :: "lexst \<Rightarrow> tok_type option" where
  "last_type s = (if lx_toks s = [] then None else Some (tk_type (last (lx_toks s))))"

text \<open>A line break outside brackets ends the line, with one NEWLINE token.\<close>

definition lex_eol :: "lexst \<Rightarrow> lexst" where
  "lex_eol s =
     lx_newline
       (if lx_bracket_depth s = 0 then
          (let s1 = (case last_type s of
                       None \<Rightarrow> s
                     | Some t \<Rightarrow> if is_layout t then s else lx_add TOK_NEWLINE 0 None (lx_col s) s)
           in s1\<lparr>lx_at_line_start := True\<rparr>)
        else s)"

text \<open>The body of the loop below the start-of-line block.\<close>

definition lex_token ::
  "(string \<Rightarrow> int \<Rightarrow> int \<Rightarrow> diag \<Rightarrow> token list \<times> diag) \<Rightarrow> lexst \<Rightarrow> lexst" where
  "lex_token sub s =
     (let p = lx_p s in
      if is_sp (c0 p) \<or> is_tab (c0 p) \<or> (c0 p = CR \<and> c1 p = LF) then lx_skip 1 s
      else if c0 p = CHR ''#'' then skip_comment s
      else if c0 p = LF then lex_eol s
      else if c0 p = CHR ''f'' \<and> c1 p = QUOTE then lex_fstring sub s
      else if c0 p = QUOTE then lex_string s
      else if c_isdigit (c0 p) \<or> (c0 p = CHR ''.'' \<and> c_isdigit (c1 p)) then lex_number s
      else if c_isalpha (c0 p) \<or> c0 p = CHR ''_'' then lex_ident s
      else lex_operator s)"

text \<open>One iteration of the main loop.\<close>

definition lex_step ::
  "(string \<Rightarrow> int \<Rightarrow> int \<Rightarrow> diag \<Rightarrow> token list \<times> diag) \<Rightarrow> lexst \<Rightarrow> lexst" where
  "lex_step sub s =
     (if lx_at_line_start s \<and> lx_bracket_depth s = 0 then
        (case lex_line_start s of (s1, done) \<Rightarrow> if done then s1 else lex_token sub s1)
      else lex_token sub s)"

subsection \<open>An iteration consumes input\<close>

lemma lx_newline_p [simp]: "lx_p (lx_newline s) = drop 1 (lx_p s)"
  by (simp add: lx_newline_def)

lemma add_dedents_p [simp]: "lx_p (add_dedents n s) = lx_p s"
  by (induction n s rule: add_dedents.induct) simp_all

lemma lex_indent_p [simp]: "lx_p (lex_indent n s) = lx_p s"
  by (simp add: lex_indent_def Let_def case_prod_beta)

lemma c0_consume: "c0 p \<noteq> NUL \<Longrightarrow> 0 < n \<Longrightarrow> length p - n < length p"
  by (cases p) auto

lemma takeWhile_consume:
  "P (c0 p) \<Longrightarrow> c0 p \<noteq> NUL \<Longrightarrow> length (dropWhile P p) < length p"
  by (cases p) (auto simp: le_imp_less_Suc length_dropWhile_le)

lemma skip_comment_length: "length (lx_p (skip_comment s)) \<le> length (lx_p s)"
  by (simp add: skip_comment_def)

lemma skip_comment_consume:
  "c0 (lx_p s) = CHR ''#'' \<Longrightarrow> length (lx_p (skip_comment s)) < length (lx_p s)"
  using takeWhile_consume [of not_eol "lx_p s"]
  by (simp add: skip_comment_def not_eol_def NUL_def LF_def)

lemma scan_str_suffix: "suffix (fst (snd (scan_str p buf col))) p"
proof (induction p buf col rule: scan_str.induct)
  case (1 buf col)
  show ?case by simp
next
  case (2 c cs buf col)
  then show ?case by (cases cs) (auto simp: suffix_ConsI)
qed

lemma lex_string_consume:
  assumes "c0 (lx_p s) \<noteq> NUL"
  shows "length (lx_p (lex_string s)) < length (lx_p s)"
proof -
  obtain b p c where q: "scan_str (drop 1 (lx_p s)) [] (lx_col s + 1) = (b, p, c)"
    by (metis prod_cases3)
  have "length p \<le> length (drop 1 (lx_p s))"
    using suffix_length_le [OF scan_str_suffix [of "drop 1 (lx_p s)" "[]" "lx_col s + 1"]] q
    by simp
  then have "length p < length (lx_p s)" using assms by (cases "lx_p s") auto
  moreover have "lx_p (lex_string s) \<in> {p, drop 1 p}"
    using q by (simp add: lex_string_def Let_def)
  ultimately show ?thesis by auto
qed

lemma strtod_pos:
  "c_isdigit (c0 p) \<or> (c0 p = CHR ''.'' \<and> c_isdigit (c1 p)) \<Longrightarrow> 0 < snd (strtod p)"
  by (cases p) (auto simp: strtod_def Let_def case_prod_beta)

lemma lex_number_consume:
  assumes "c0 (lx_p s) \<noteq> NUL"
    and "c_isdigit (c0 (lx_p s)) \<or> (c0 (lx_p s) = CHR ''.'' \<and> c_isdigit (c1 (lx_p s)))"
  shows "length (lx_p (lex_number s)) < length (lx_p s)"
  using assms strtod_pos [of "lx_p s"] c0_consume [of "lx_p s"]
  by (simp add: lex_number_def Let_def case_prod_beta)

lemma lex_ident_consume:
  assumes "c0 (lx_p s) \<noteq> NUL" and "is_ident_char (c0 (lx_p s))"
  shows "length (lx_p (lex_ident s)) < length (lx_p s)"
  using assms takeWhile_consume [of is_ident_char "lx_p s"]
  by (simp add: lex_ident_def Let_def)

lemma op_token_pos: "op_token a b c = Some (t, n) \<Longrightarrow> 0 < n"
  by (simp add: op_token_def split: if_splits)

lemma lex_operator_consume:
  assumes "c0 (lx_p s) \<noteq> NUL"
  shows "length (lx_p (lex_operator s)) < length (lx_p s)"
proof (cases "op_token (c0 (lx_p s)) (c1 (lx_p s)) (c2 (lx_p s))")
  case None
  then show ?thesis using assms c0_consume [of "lx_p s" 1] by (simp add: lex_operator_def Let_def)
next
  case (Some tn)
  then have "0 < snd tn" using op_token_pos by (cases tn) auto
  then show ?thesis using assms Some
    by (simp add: lex_operator_def Let_def case_prod_beta c0_consume)
qed

lemma fstr_loop_length:
  "length (lx_p (fst (fstr_loop sub tok_col st))) \<le> length (lx_p (fst st))"
proof (induction sub tok_col st rule: fstr_loop.induct)
  case (1 sub tok_col s buf seg)
  consider "c0 (lx_p s) = NUL \<or> c0 (lx_p s) = QUOTE"
    | "c0 (lx_p s) \<noteq> NUL" "c0 (lx_p s) \<noteq> QUOTE" by blast
  then show ?case
  proof cases
    case 1
    then show ?thesis by (simp add: fstr_loop.simps)
  next
    case 2
    then have "lx_p s \<noteq> []" by auto
    then have e: "length (lx_p (fst (fstr_expr sub tok_col (s, buf, seg)))) < length (lx_p s)"
      by (rule fstr_expr_length)
    show ?thesis
      using 2 e "1.IH"(1-4) [OF refl]
      by (subst fstr_loop.simps) (auto simp: Let_def)
  qed
qed

lemma lex_fstring_consume:
  assumes "c0 (lx_p s) \<noteq> NUL"
  shows "length (lx_p (lex_fstring sub s)) < length (lx_p s)"
proof -
  let ?st = "(lx_add TOK_LPAREN 0 None (lx_col s) (lx_skip 2 s), [], False)"
  obtain s1 b h where q: "fstr_loop sub (lx_col s) ?st = (s1, b, h)" by (metis prod_cases3)
  have "length (lx_p s1) \<le> length (drop 2 (lx_p s))"
    using fstr_loop_length [of sub "lx_col s" ?st] q by simp
  then have "length (lx_p s1) < length (lx_p s)" using assms by (cases "lx_p s") auto
  moreover have "lx_p (lex_fstring sub s) \<in> {lx_p s1, drop 1 (lx_p s1)}"
    using q by (simp add: lex_fstring_def Let_def)
  ultimately show ?thesis by auto
qed

lemma lex_eol_p [simp]: "lx_p (lex_eol s) = drop 1 (lx_p s)"
  by (simp add: lex_eol_def Let_def split: option.splits)

text \<open>A property of the result of \<open>lex_token\<close> is one of each of its branches.\<close>

lemma lex_token_cases:
  assumes "is_sp (c0 (lx_p s)) \<or> is_tab (c0 (lx_p s)) \<or> (c0 (lx_p s) = CR \<and> c1 (lx_p s) = LF) \<Longrightarrow>
             P (lx_skip 1 s)"
    and "c0 (lx_p s) = CHR ''#'' \<Longrightarrow> P (skip_comment s)"
    and "c0 (lx_p s) = LF \<Longrightarrow> P (lex_eol s)"
    and "c0 (lx_p s) = CHR ''f'' \<Longrightarrow> c1 (lx_p s) = QUOTE \<Longrightarrow> P (lex_fstring sub s)"
    and "c0 (lx_p s) = QUOTE \<Longrightarrow> P (lex_string s)"
    and "c_isdigit (c0 (lx_p s)) \<or> (c0 (lx_p s) = CHR ''.'' \<and> c_isdigit (c1 (lx_p s))) \<Longrightarrow> P (lex_number s)"
    and "c_isalpha (c0 (lx_p s)) \<or> c0 (lx_p s) = CHR ''_'' \<Longrightarrow> P (lex_ident s)"
    and "P (lex_operator s)"
  shows "P (lex_token sub s)"
  unfolding lex_token_def Let_def using assms by presburger

lemma lex_token_consume:
  "c0 (lx_p s) \<noteq> NUL \<Longrightarrow> length (lx_p (lex_token sub s)) < length (lx_p s)"
  by (rule lex_token_cases)
    (auto simp: c0_consume skip_comment_consume lex_fstring_consume lex_string_consume
      lex_operator_consume is_ident_char_def c_isalnum_def
      intro!: lex_number_consume lex_ident_consume)

lemma lead_ws_drop: "\<exists>k. fst (lead_ws p) = drop k p"
proof -
  have *: "\<exists>k. dropWhile P q = drop k q" for P q
    by (rule exI) (rule dropWhile_eq_drop)
  obtain a where a: "dropWhile is_sp p = drop a p" using * by blast
  obtain b where b: "dropWhile is_tab (drop a p) = drop b (drop a p)" using * by blast
  obtain c where c: "dropWhile is_sp (drop b (drop a p)) = drop c (drop b (drop a p))" using * by blast
  have "fst (lead_ws p) = drop a p \<or> fst (lead_ws p) = drop (c + b + a) p"
    using c by (simp add: lead_ws_def Let_def a b add.assoc)
  then show ?thesis by blast
qed

lemma lead_ws_length: "length (fst (lead_ws p)) \<le> length p"
  using lead_ws_drop [of p] by auto

lemma lead_ws_consume:
  assumes "c0 (fst (lead_ws p)) = NUL" and "c0 p \<noteq> NUL"
  shows "length (fst (lead_ws p)) < length p"
proof -
  obtain k where k: "fst (lead_ws p) = drop k p" using lead_ws_drop by blast
  with assms have "0 < k" by (cases k) auto
  then show ?thesis using assms k by (cases p) auto
qed

lemma skip_cr_p: "c0 (lx_p s) = NUL \<Longrightarrow> skip_cr s = s" "length (lx_p (skip_cr s)) \<le> length (lx_p s)"
  by (auto simp: skip_cr_def CR_def NUL_def)

lemma line_body_length: "length (lx_p (fst (line_body n s))) \<le> length (lx_p s)"
  using skip_comment_length [of s] skip_cr_p(2) [of s]
  by (auto simp: line_body_def Let_def)

lemma line_body_done:
  assumes "snd (line_body n s)" and "c0 (lx_p s) \<noteq> NUL"
  shows "length (lx_p (fst (line_body n s))) < length (lx_p s)"
proof (cases "c0 (lx_p s) = CHR ''#''")
  case True
  then show ?thesis using skip_comment_consume [of s] by (auto simp: line_body_def Let_def)
next
  case False
  then show ?thesis
    using assms by (cases "lx_p s") (auto simp: line_body_def Let_def skip_cr_def split: if_splits)
qed

lemma line_body_go: "\<not> snd (line_body n s) \<Longrightarrow> c0 (lx_p (fst (line_body n s))) \<noteq> NUL"
  by (auto simp: line_body_def Let_def split: if_splits)

lemma lex_line_start_length: "length (lx_p (fst (lex_line_start s))) \<le> length (lx_p s)"
  using lead_ws_length [of "lx_p s"] line_body_length [THEN le_trans]
  by (simp add: lex_line_start_def case_prod_beta)

lemma lex_line_start_done:
  assumes "snd (lex_line_start s)" and "c0 (lx_p s) \<noteq> NUL"
  shows "length (lx_p (fst (lex_line_start s))) < length (lx_p s)"
proof -
  obtain q n where q: "lead_ws (lx_p s) = (q, n)" by (metis surj_pair)
  let ?s1 = "s\<lparr>lx_p := q, lx_col := lx_col s + int n\<rparr>"
  have l: "lex_line_start s = line_body n ?s1" by (simp add: lex_line_start_def q)
  show ?thesis
    using lead_ws_length [of "lx_p s"] lead_ws_consume [of "lx_p s"] q assms l
      line_body_length [of n ?s1] line_body_done [of n ?s1]
    by (cases "c0 q = NUL") auto
qed

lemma lex_line_start_go:
  "\<not> snd (lex_line_start s) \<Longrightarrow> c0 (lx_p (fst (lex_line_start s))) \<noteq> NUL"
  by (simp add: lex_line_start_def case_prod_beta line_body_go)

lemma lex_step_consume:
  assumes "c0 (lx_p s) \<noteq> NUL"
  shows "length (lx_p (lex_step sub s)) < length (lx_p s)"
proof (cases "lx_at_line_start s \<and> lx_bracket_depth s = 0")
  case True
  then show ?thesis
    using lex_line_start_done [OF _ assms] lex_line_start_length [of s]
      lex_token_consume [OF lex_line_start_go, of s sub]
    by (auto simp: lex_step_def case_prod_beta)
next
  case False
  then show ?thesis
    unfolding lex_step_def if_not_P [OF False] by (intro lex_token_consume assms)
qed

function lex_loop ::
  "(string \<Rightarrow> int \<Rightarrow> int \<Rightarrow> diag \<Rightarrow> token list \<times> diag) \<Rightarrow> lexst \<Rightarrow> lexst" where
  "lex_loop sub s = (if c0 (lx_p s) = NUL then s else lex_loop sub (lex_step sub s))"
  by pat_completeness auto
termination
  by (relation "measure (\<lambda>(sub, s). length (lx_p s))") (simp_all add: lex_step_consume)

declare lex_loop.simps [simp del]

text \<open>
  The whole pass. \<open>levels\<close> is what \<open>MAX_TOKENIZE_DEPTH - g_tokenize_depth\<close> is in the
  code: the nested tokenizer of an f-string runs one level down.
\<close>

definition lex_init :: "string \<Rightarrow> int \<Rightarrow> int \<Rightarrow> diag \<Rightarrow> lexst" where
  "lex_init source initial_line initial_col d =
     \<lparr>lx_p = source, lx_line = initial_line, lx_col = initial_col, lx_at_line_start = True,
      lx_bracket_depth = 0, lx_indents = [0], lx_toks = [], lx_diag = d\<rparr>"

definition lex_finish :: "lexst \<Rightarrow> lexst" where
  "lex_finish s =
     (let s1 = add_dedents (length (lx_indents s) - 1) s;
          s2 = (case last_type s1 of
                  None \<Rightarrow> s1
                | Some t \<Rightarrow> if t = TOK_NEWLINE then s1 else lx_add TOK_NEWLINE 0 None (lx_col s1) s1)
      in lx_add TOK_EOF 0 None (lx_col s2) s2)"

primrec tokenize_at_line ::
  "nat \<Rightarrow> string \<Rightarrow> int \<Rightarrow> int \<Rightarrow> diag \<Rightarrow> token list \<times> diag" where
  "tokenize_at_line 0 source initial_line initial_col d =
     (tok_add TOK_EOF 0 None initial_line initial_col [],
      count_error (eigs_record_first_error_at initial_line initial_col 1
        ''f-string nesting too deep (max 64 levels)'' d))"
| "tokenize_at_line (Suc levels) source initial_line initial_col d =
     (let s = lex_finish (lex_loop (tokenize_at_line levels) (lex_init source initial_line initial_col d))
      in (lx_toks s, lx_diag s))"

definition tokenize :: "string \<Rightarrow> diag \<Rightarrow> token list \<times> diag" where
  "tokenize source d = tokenize_at_line MAX_TOKENIZE_DEPTH source 1 0 (reset_first_error d)"

end
