(* ===== verification/Eigs_Lexer_Inv.thy ===== *)
theory Eigs_Lexer_Inv
  imports Eigs_Lexer
begin

text \<open>
  What the tokenizer keeps. Its steps touch the state only through the operations of
  the locale \<open>lexer_invariant\<close>; a predicate those keep is kept by a whole pass, the
  nested passes of f-strings included. The interpretations give the layout
  (INDENT and DEDENT nest), the indentation stack (bounded, increasing), and the
  line numbers and diagnostics.
\<close>

definition ordinary :: "tok_type \<Rightarrow> bool" where
  "ordinary t \<longleftrightarrow> t \<noteq> TOK_INDENT \<and> t \<noteq> TOK_DEDENT \<and> t \<noteq> TOK_EOF"

lemma ordinary_if: "ordinary t \<Longrightarrow> ordinary u \<Longrightarrow> ordinary (if b then t else u)"
  by simp

lemma keyword_type_ordinary [simp]: "ordinary (keyword_type w)"
  unfolding keyword_type_def by (intro ordinary_if) (simp_all add: ordinary_def)

lemma op_token_ordinary: "op_token a b c = Some (t, n) \<Longrightarrow> ordinary t"
  by (simp add: op_token_def ordinary_def split: if_splits)

lemma lx_add_skip: "lx_add t x str c (lx_skip n s) = lx_skip n (lx_add t x str c s)"
  by (simp add: lx_add_def lx_skip_def)

locale lexer_invariant =
  fixes I :: "lexst \<Rightarrow> bool"
  assumes move: "I s \<Longrightarrow> suffix p (lx_p s) \<Longrightarrow> I (s\<lparr>lx_p := p, lx_col := c\<rparr>)"
    and add: "I s \<Longrightarrow> ordinary t \<Longrightarrow> I (lx_add t n x c s)"
    and len: "I s \<Longrightarrow> I (set_last_len k s)"
    and error: "I s \<Longrightarrow> I (lx_error c m s)"
    and newline: "I s \<Longrightarrow> c0 (lx_p s) = LF \<Longrightarrow> I (lx_newline s)"
    and start: "I s \<Longrightarrow> I (s\<lparr>lx_at_line_start := b\<rparr>)"
    and bracket: "I s \<Longrightarrow> I (s\<lparr>lx_bracket_depth := k\<rparr>)"
    and indent: "I s \<Longrightarrow> I (lex_indent w s)"
begin

definition sub_ok :: "(string \<Rightarrow> int \<Rightarrow> int \<Rightarrow> diag \<Rightarrow> token list \<times> diag) \<Rightarrow> bool" where
  "sub_ok sub \<longleftrightarrow> (\<forall>s e c. I s \<longrightarrow> I (s\<lparr>lx_diag := snd (sub e (lx_line s) c (lx_diag s))\<rparr>))"

lemma skip: "I s \<Longrightarrow> I (lx_skip n s)"
  using move [of s "drop n (lx_p s)" "lx_col s + int n"] by (simp add: lx_skip_def suffix_drop)

lemma move_p: "I s \<Longrightarrow> suffix p (lx_p s) \<Longrightarrow> I (s\<lparr>lx_p := p\<rparr>)"
  using move [of s p "lx_col s"] by simp

lemma comment: "I s \<Longrightarrow> I (skip_comment s)"
  by (simp add: skip_comment_def skip)

lemma eol: "I s \<Longrightarrow> c0 (lx_p s) = LF \<Longrightarrow> I (lex_eol s)"
  unfolding lex_eol_def Let_def
  by (rule newline)
    (auto simp: ordinary_def lx_add_def split: option.splits
      intro!: start add [unfolded lx_add_def])

lemma string_lit: "I s \<Longrightarrow> I (lex_string s)"
proof -
  assume I: "I s"
  obtain b p c where q: "scan_str (drop 1 (lx_p s)) [] (lx_col s + 1) = (b, p, c)"
    by (metis prod_cases3)
  have "suffix p (drop 1 (lx_p s))"
    using scan_str_suffix [of "drop 1 (lx_p s)" "[]" "lx_col s + 1"] q by simp
  with I have "I ((lx_skip 1 s)\<lparr>lx_p := p, lx_col := c\<rparr>)"
    by (intro move skip) simp_all
  then show ?thesis
    using q by (auto simp: lex_string_def Let_def ordinary_def intro!: len add error skip)
qed

lemma number: "I s \<Longrightarrow> I (lex_number s)"
  by (simp add: lex_number_def Let_def case_prod_beta ordinary_def len add skip)

lemma ident: "I s \<Longrightarrow> I (lex_ident s)"
  by (simp add: lex_ident_def Let_def add skip)

lemma operator: "I s \<Longrightarrow> I (lex_operator s)"
  by (auto simp: lex_operator_def Let_def skip error add op_token_ordinary bracket
      split: option.split)

lemma splice: "I s \<Longrightarrow> I (splice_toks inner s)"
proof -
  have *: "I s \<Longrightarrow> \<forall>it\<in>set ts. ordinary (tk_type it) \<Longrightarrow>
      I (fold (\<lambda>it. lx_add (tk_type it) (tk_num it) (tk_str it) c) ts s)" for ts s c
    by (induction ts arbitrary: s) (simp_all add: add)
  assume "I s"
  then show ?thesis
    unfolding splice_toks_def
    by (rule *) (auto simp: ordinary_def is_layout_def dest: set_takeWhileD)
qed

lemma interpolation:
  assumes I: "I s" and sub: "sub_ok sub"
  shows "I (fst (fstr_expr sub tok_col (s, buf, seg)))"
proof -
  let ?s1 = "fstr_open tok_col s buf seg"
  have s1: "I ?s1" using I by (simp add: fstr_open_def Let_def add skip ordinary_def)
  obtain e p c where b: "scan_braces (drop 1 (lx_p s)) 1 [] (lx_col ?s1) = (e, p, c)"
    by (metis prod_cases3)
  have "suffix p (lx_p ?s1)"
    using scan_braces_suffix [of "drop 1 (lx_p s)" 1 "[]" "lx_col ?s1"] b by simp
  then have s2: "I (?s1\<lparr>lx_p := p, lx_col := c\<rparr>)" by (rule move [OF s1])
  define s3 where "s3 = (if c0 p = CHR ''}'' then lx_skip 1 (?s1\<lparr>lx_p := p, lx_col := c\<rparr>)
    else lx_error tok_col ''unterminated f-string expression'' (?s1\<lparr>lx_p := p, lx_col := c\<rparr>))"
  have s3: "I s3" using s2 by (simp add: s3_def skip error)
  obtain inner d where r: "sub e (lx_line s3) (lx_col ?s1) (lx_diag s3) = (inner, d)"
    by (metis surj_pair)
  have "I (s3\<lparr>lx_diag := d\<rparr>)" using s3 sub r unfolding sub_ok_def by (metis snd_conv)
  then have "I (fstr_close inner (s3\<lparr>lx_diag := d\<rparr>))"
    by (simp add: fstr_close_def Let_def add splice ordinary_def)
  moreover have "fst (fstr_expr sub tok_col (s, buf, seg)) = fstr_close inner (s3\<lparr>lx_diag := d\<rparr>)"
    using b r by (simp add: fstr_expr_def Let_def s3_def [symmetric])
  ultimately show ?thesis by simp
qed

lemma interpolations:
  assumes "sub_ok sub"
  shows "I (fst st) \<Longrightarrow> I (fst (fstr_loop sub tok_col st))"
  using assms
proof (induction sub tok_col st rule: fstr_loop.induct)
  case (1 sub tok_col s buf seg)
  have s: "I s" using 1 by simp
  show ?case
    using "1.IH"(1-4) [OF refl] s "1.prems"(2) interpolation [OF s]
    by (subst fstr_loop.simps) (simp add: Let_def skip)
qed

lemma fstring: "I s \<Longrightarrow> sub_ok sub \<Longrightarrow> I (lex_fstring sub s)"
proof -
  assume I: "I s" and sub: "sub_ok sub"
  let ?st = "(lx_add TOK_LPAREN 0 None (lx_col s) (lx_skip 2 s), [], False)"
  obtain s1 b h where q: "fstr_loop sub (lx_col s) ?st = (s1, b, h)" by (metis prod_cases3)
  have "I s1"
    using interpolations [OF sub, of ?st "lx_col s"] q I by (simp add: add skip ordinary_def)
  then show ?thesis
    using q by (simp add: lex_fstring_def Let_def add skip error ordinary_def)
qed

lemma cr: "I s \<Longrightarrow> I (skip_cr s)"
  by (simp add: skip_cr_def move_p suffix_drop)

lemma body: "I s \<Longrightarrow> I (fst (line_body n s))"
  by (simp add: line_body_def Let_def cr comment newline indent)

lemma line_start: "I s \<Longrightarrow> I (fst (lex_line_start s))"
  using lead_ws_drop [of "lx_p s"]
  by (auto simp: lex_line_start_def case_prod_beta suffix_drop intro!: body move)

lemma token: "I s \<Longrightarrow> sub_ok sub \<Longrightarrow> I (lex_token sub s)"
  by (rule lex_token_cases)
    (simp_all add: skip comment eol fstring string_lit number ident operator)

lemma step: "I s \<Longrightarrow> sub_ok sub \<Longrightarrow> I (lex_step sub s)"
  using line_start [of s] by (auto simp: lex_step_def case_prod_beta intro: token)

lemma loop: "I s \<Longrightarrow> sub_ok sub \<Longrightarrow> I (lex_loop sub s)"
proof (induction sub s rule: lex_loop.induct)
  case (1 sub s)
  then show ?case by (subst lex_loop.simps) (simp add: step)
qed

end

subsection \<open>Layout\<close>

text \<open>The nesting depth after a token sequence; \<open>None\<close> when a DEDENT has no INDENT.\<close>

fun layout_depth :: "nat \<Rightarrow> tok_type list \<Rightarrow> nat option" where
  "layout_depth n [] = Some n"
| "layout_depth n (t # ts) =
     (if t = TOK_INDENT then layout_depth (Suc n) ts
      else if t = TOK_DEDENT then (if n = 0 then None else layout_depth (n - 1) ts)
      else layout_depth n ts)"

abbreviation types :: "lexst \<Rightarrow> tok_type list" where
  "types s \<equiv> map tk_type (lx_toks s)"

definition indents_ok :: "nat list \<Rightarrow> bool" where
  "indents_ok is \<longleftrightarrow> is \<noteq> [] \<and> last is = 0 \<and> sorted_wrt (>) is \<and> length is \<le> MAX_INDENT"

definition no_eof :: "tok_type list \<Rightarrow> bool" where
  "no_eof ts \<longleftrightarrow> TOK_EOF \<notin> set ts"

lemma no_eof_simps [simp]:
  "no_eof []" "no_eof (ts @ us) \<longleftrightarrow> no_eof ts \<and> no_eof us" "no_eof [t] \<longleftrightarrow> t \<noteq> TOK_EOF"
  "no_eof (replicate n TOK_DEDENT)"
  by (auto simp: no_eof_def)

definition layout_inv :: "lexst \<Rightarrow> bool" where
  "layout_inv s \<longleftrightarrow> indents_ok (lx_indents s) \<and> no_eof (types s) \<and>
     layout_depth 0 (types s) = Some (length (lx_indents s) - 1)"

lemma layout_depth_append:
  "layout_depth n (ts @ us) = Option.bind (layout_depth n ts) (\<lambda>m. layout_depth m us)"
  by (induction n ts rule: layout_depth.induct) auto

lemma layout_depth_dedents:
  "k \<le> n \<Longrightarrow> layout_depth n (replicate k TOK_DEDENT) = Some (n - k)"
  by (induction k arbitrary: n) auto

lemma types_add [simp]: "types (lx_add t n x c s) = types s @ [t]"
  by (simp add: lx_add_def tok_add_def mk_token_def)

lemma types_set_last_len [simp]: "types (set_last_len n s) = types s"
proof (cases "rev (lx_toks s)")
  case (Cons t ts)
  then have "lx_toks s = rev ts @ [t]" by (metis rev.simps(2) rev_rev_ident)
  then show ?thesis using Cons by (simp add: set_last_len_def)
qed (simp add: set_last_len_def)

lemma indents_set_last_len [simp]: "lx_indents (set_last_len n s) = lx_indents s"
  by (simp add: set_last_len_def split: list.splits)

lemma types_dedents [simp]: "types (add_dedents n s) = types s @ replicate n TOK_DEDENT"
  by (induction n s rule: add_dedents.induct) simp_all

lemma indents_add [simp]: "lx_indents (lx_add t n x c s) = lx_indents s"
  by (simp add: lx_add_def)

lemma indents_dedents [simp]: "lx_indents (add_dedents n s) = lx_indents s"
  by (induction n s rule: add_dedents.induct) simp_all

lemma pop_indents_drop:
  "pop_indents w is = (st, n) \<Longrightarrow> is \<noteq> [] \<Longrightarrow> st = drop n is \<and> n < length is"
  by (induction w "is" arbitrary: st n rule: pop_indents.induct)
    (auto split: if_splits prod.splits)

lemma indents_ok_drop: "indents_ok is \<Longrightarrow> n < length is \<Longrightarrow> indents_ok (drop n is)"
  by (auto simp: indents_ok_def sorted_wrt_drop)

lemma layout_inv_indent:
  assumes "layout_inv s"
  shows "layout_inv (lex_indent w s)"
proof (cases "hd (lx_indents s) < w")
  case True
  have "lx_indents s \<noteq> [] \<and> sorted_wrt (>) (lx_indents s)"
    using assms by (simp add: layout_inv_def indents_ok_def)
  then have "sorted_wrt (>) (w # lx_indents s)"
    using True by (cases "lx_indents s") auto
  then show ?thesis
    using assms True
    by (simp add: lex_indent_def Let_def layout_inv_def indents_ok_def lx_error_def
        layout_depth_append not_le)
next
  case False
  obtain st n where p: "pop_indents w (lx_indents s) = (st, n)" by (metis surj_pair)
  have ok: "indents_ok (lx_indents s)" using assms by (simp add: layout_inv_def)
  have st: "st = drop n (lx_indents s)" "n < length (lx_indents s)"
    using pop_indents_drop [OF p] ok by (auto simp: indents_ok_def)
  then have "indents_ok st" using ok by (simp add: indents_ok_drop)
  then show ?thesis
    using assms False p st
    by (simp add: lex_indent_def Let_def layout_inv_def lx_error_def layout_depth_append
        layout_depth_dedents)
qed

interpretation layout: lexer_invariant layout_inv
proof
  fix s t n x c assume "layout_inv s" and "ordinary t"
  then show "layout_inv (lx_add t n x c s)"
    by (auto simp: layout_inv_def layout_depth_append ordinary_def)
qed (simp_all add: layout_inv_indent, simp_all add: layout_inv_def lx_error_def lx_newline_def)

lemma layout_sub: "layout.sub_ok sub"
  by (simp add: layout.sub_ok_def layout_inv_def)

lemma layout_init: "layout_inv (lex_init src l c d)"
  by (simp add: layout_inv_def lex_init_def indents_ok_def MAX_INDENT_def)

text \<open>Every state a pass goes through.\<close>

inductive lex_run ::
  "(string \<Rightarrow> int \<Rightarrow> int \<Rightarrow> diag \<Rightarrow> token list \<times> diag) \<Rightarrow> lexst \<Rightarrow> lexst \<Rightarrow> bool"
  for sub where
  lex_run_refl: "lex_run sub s s"
| lex_run_step: "lex_run sub s s' \<Longrightarrow> c0 (lx_p s') \<noteq> NUL \<Longrightarrow> lex_run sub s (lex_step sub s')"

lemma lex_run_front:
  assumes "lex_run sub (lex_step sub s) s'" and "c0 (lx_p s) \<noteq> NUL"
  shows "lex_run sub s s'"
  using assms
proof (induction "lex_step sub s" s' rule: lex_run.induct)
  case lex_run_refl
  then show ?case by (blast intro: lex_run.intros)
next
  case (lex_run_step s')
  then show ?case by (blast intro: lex_run.intros)
qed

lemma lex_loop_run: "lex_run sub s (lex_loop sub s)"
proof (induction sub s rule: lex_loop.induct)
  case (1 sub s)
  then show ?case
    by (subst lex_loop.simps) (auto intro: lex_run_refl lex_run_front)
qed

lemma lex_loop_end: "c0 (lx_p (lex_loop sub s)) = NUL"
proof (induction sub s rule: lex_loop.induct)
  case (1 sub s)
  then show ?case by (subst lex_loop.simps) simp
qed

lemma layout_run: "lex_run sub s s' \<Longrightarrow> layout_inv s \<Longrightarrow> layout_inv s'"
  by (induction rule: lex_run.induct) (simp_all add: layout.step layout_sub)

lemma no_eof_set: "no_eof (map tk_type ts) \<Longrightarrow> TOK_EOF \<notin> tk_type ` set ts"
  by (simp add: no_eof_def)

lemma last_type_types: "last_type s = (if types s = [] then None else Some (last (types s)))"
  by (simp add: last_type_def last_map)

text \<open>What the end of a pass adds: the DEDENTs still due, a NEWLINE unless one is there, EOF.\<close>

lemma types_finish:
  assumes "layout_inv s"
  shows "\<exists>ts. types (lex_finish s) = ts @ [TOK_EOF] \<and> no_eof ts \<and> layout_depth 0 ts = Some 0 \<and>
    (ts = [] \<or> last ts = TOK_NEWLINE)"
proof -
  let ?s1 = "add_dedents (length (lx_indents s) - 1) s"
  have d: "layout_depth 0 (types ?s1) = Some 0" and e: "no_eof (types ?s1)"
    using assms by (simp_all add: layout_inv_def layout_depth_append layout_depth_dedents)
  consider "types ?s1 = []" | "types ?s1 \<noteq> []" "last (types ?s1) = TOK_NEWLINE"
    | "types ?s1 \<noteq> []" "last (types ?s1) \<noteq> TOK_NEWLINE" by blast
  then show ?thesis
  proof cases
    case 3
    then have "types (lex_finish s) = (types ?s1 @ [TOK_NEWLINE]) @ [TOK_EOF]"
      unfolding lex_finish_def Let_def last_type_types by simp
    then show ?thesis
      using d e by (intro exI [of _ "types ?s1 @ [TOK_NEWLINE]"]) (simp add: layout_depth_append)
  qed (use d e in \<open>simp_all add: lex_finish_def Let_def last_type_types\<close>)
qed

lemma tokenize_types:
  "\<exists>ts. map tk_type (fst (tokenize_at_line k src l c d)) = ts @ [TOK_EOF] \<and> no_eof ts \<and>
     layout_depth 0 ts = Some 0 \<and> (ts = [] \<or> last ts = TOK_NEWLINE)"
proof (cases k)
  case 0
  then show ?thesis by (simp add: tok_add_def mk_token_def)
next
  case (Suc k)
  have "layout_inv (lex_loop (tokenize_at_line k) (lex_init src l c d))"
    by (intro layout.loop layout_init layout_sub)
  then show ?thesis using types_finish Suc by (simp add: Let_def)
qed

text \<open>The tokenizer's output ends with an EOF token and has no other, and a
  NEWLINE comes before it unless the source has no tokens: what the parser's scans
  for EOF and its statement ends rely on.\<close>
lemma tokenize_ends_with_eof:
  "\<exists>ts. map tk_type (fst (tokenize src d)) = ts @ [TOK_EOF] \<and> TOK_EOF \<notin> set ts \<and>
     (ts = [] \<or> last ts = TOK_NEWLINE)"
  using tokenize_types [of MAX_TOKENIZE_DEPTH src 1 0 "reset_first_error d"]
  by (auto simp: tokenize_def no_eof_def)

text \<open>C11: whatever the source, INDENT and DEDENT tokens nest: no DEDENT comes without
  an INDENT to close, and all are closed at the end.\<close>
theorem tokenize_layout_balanced:
  "layout_depth 0 (map tk_type (fst (tokenize src d))) = Some 0"
proof -
  obtain ts where "map tk_type (fst (tokenize src d)) = ts @ [TOK_EOF]" "layout_depth 0 ts = Some 0"
    using tokenize_types unfolding tokenize_def by blast
  then show ?thesis by (simp add: layout_depth_append)
qed

text \<open>C10: in every state the tokenizer goes through, at every nesting of f-strings, the
  indentation stack has between one and \<open>MAX_INDENT\<close> entries, strictly increasing from
  the 0 at its bottom, so its array is never indexed out of bounds.\<close>
theorem indent_stack_in_bounds:
  assumes "lex_run (tokenize_at_line k) (lex_init src l c d) s"
  shows "0 < length (lx_indents s) \<and> length (lx_indents s) \<le> MAX_INDENT \<and>
    sorted_wrt (>) (lx_indents s) \<and> last (lx_indents s) = 0"
  using layout_run [OF assms layout_init] by (simp add: layout_inv_def indents_ok_def)

lemma indent_stack_in_bounds_witness:
  "0 < length (lx_indents (lex_step (tokenize_at_line 1) (lex_init ''  x'' 1 0 init_diag))) \<and>
   length (lx_indents (lex_step (tokenize_at_line 1) (lex_init ''  x'' 1 0 init_diag))) \<le> MAX_INDENT"
proof -
  have "lex_run (tokenize_at_line 1) (lex_init ''  x'' 1 0 init_diag)
      (lex_step (tokenize_at_line 1) (lex_init ''  x'' 1 0 init_diag))"
    by (intro lex_run.intros) (simp add: lex_init_def NUL_def)
  from indent_stack_in_bounds [OF this] show ?thesis by blast
qed

subsection \<open>Lines and diagnostics\<close>

definition newlines :: "string \<Rightarrow> int" where
  "newlines p = int (length (filter (\<lambda>c. c = LF) p))"

lemma newlines_suffix: "suffix p q \<Longrightarrow> newlines p \<le> newlines q"
  by (auto simp: newlines_def suffix_def)

text \<open>An ascending sequence of lines from \<open>a\<close> to \<open>b\<close>.\<close>

definition within :: "int \<Rightarrow> int \<Rightarrow> int list \<Rightarrow> bool" where
  "within a b ls \<longleftrightarrow> sorted ls \<and> (\<forall>l\<in>set ls. a \<le> l \<and> l \<le> b)"

lemma within_simps [simp]:
  "within a b []" "within a b (ls @ [b]) \<longleftrightarrow> within a b ls \<and> a \<le> b"
  by (auto simp: within_def sorted_append)

lemma within_mono: "within a b ls \<Longrightarrow> b \<le> c \<Longrightarrow> within a c ls"
  by (auto simp: within_def)

definition lines_inv :: "int \<Rightarrow> int \<Rightarrow> diag \<Rightarrow> lexst \<Rightarrow> bool" where
  "lines_inv l0 l1 d0 s \<longleftrightarrow>
     0 < l0 \<and> l0 \<le> lx_line s \<and> lx_line s + newlines (lx_p s) \<le> l1 \<and>
     within l0 (lx_line s) (map tk_line (lx_toks s)) \<and> diag_le d0 (lx_diag s)"

lemma lines_add [simp]:
  "map tk_line (lx_toks (lx_add t n x c s)) = map tk_line (lx_toks s) @ [lx_line s]"
  by (simp add: lx_add_def tok_add_def mk_token_def)

lemma lines_set_last_len [simp]: "map tk_line (lx_toks (set_last_len n s)) = map tk_line (lx_toks s)"
proof (cases "rev (lx_toks s)")
  case (Cons t ts)
  then have "lx_toks s = rev ts @ [t]" by (metis rev.simps(2) rev_rev_ident)
  then show ?thesis using Cons by (simp add: set_last_len_def)
qed (simp add: set_last_len_def)

lemma set_last_len_frame [simp]:
  "lx_line (set_last_len n s) = lx_line s" "lx_diag (set_last_len n s) = lx_diag s"
  by (simp_all add: set_last_len_def split: list.splits)

lemma lx_add_frame [simp]:
  "lx_line (lx_add t n x c s) = lx_line s" "lx_diag (lx_add t n x c s) = lx_diag s"
  by (simp_all add: lx_add_def)

lemma lines_inv_add: "lines_inv l0 l1 d0 s \<Longrightarrow> lines_inv l0 l1 d0 (lx_add t n x c s)"
  by (simp add: lines_inv_def)

lemma lines_inv_dedents: "lines_inv l0 l1 d0 s \<Longrightarrow> lines_inv l0 l1 d0 (add_dedents n s)"
  by (induction n s rule: add_dedents.induct) (simp_all add: lines_inv_add)

lemma lines_inv_error: "lines_inv l0 l1 d0 s \<Longrightarrow> lines_inv l0 l1 d0 (lx_error c m s)"
  by (auto simp: lines_inv_def lx_error_def intro!: diag_le_trans [OF _ diag_le_report])

lemma lines_inv_frame: "lines_inv l0 l1 d0 s \<Longrightarrow> lines_inv l0 l1 d0 (s\<lparr>lx_indents := is\<rparr>)"
  "lines_inv l0 l1 d0 s \<Longrightarrow> lines_inv l0 l1 d0 (s\<lparr>lx_at_line_start := b\<rparr>)"
  by (simp_all add: lines_inv_def)

lemma lines_inv_newline:
  "lines_inv l0 l1 d0 s \<Longrightarrow> c0 (lx_p s) = LF \<Longrightarrow> lines_inv l0 l1 d0 (lx_newline s)"
  by (cases "lx_p s")
    (auto simp: lines_inv_def lx_newline_def newlines_def NUL_def LF_def intro: within_mono)

interpretation lines: lexer_invariant "lines_inv l0 l1 d0" for l0 l1 d0
proof
  fix s p c assume "lines_inv l0 l1 d0 s" and "suffix p (lx_p s)"
  then show "lines_inv l0 l1 d0 (s\<lparr>lx_p := p, lx_col := c\<rparr>)"
    using newlines_suffix [of p "lx_p s"] by (auto simp: lines_inv_def)
next
  fix s k assume "lines_inv l0 l1 d0 s"
  then show "lines_inv l0 l1 d0 (set_last_len k s)" by (simp add: lines_inv_def)
next
  fix s w assume "lines_inv l0 l1 d0 s"
  then show "lines_inv l0 l1 d0 (lex_indent w s)"
    by (simp add: lex_indent_def Let_def case_prod_beta lines_inv_add lines_inv_dedents
        lines_inv_error lines_inv_frame)
next
  fix s b assume "lines_inv l0 l1 d0 s"
  then show "lines_inv l0 l1 d0 (s\<lparr>lx_bracket_depth := b\<rparr>)" by (simp add: lines_inv_def)
qed (simp_all add: lines_inv_add lines_inv_error lines_inv_frame lines_inv_newline)

lemma lines_init:
  "0 < l \<Longrightarrow> lines_inv l (l + newlines src) d (lex_init src l c d)"
  by (simp add: lines_inv_def lex_init_def)

lemma lines_inv_finish: "lines_inv l0 l1 d0 s \<Longrightarrow> lines_inv l0 l1 d0 (lex_finish s)"
  by (auto simp: lex_finish_def Let_def lines_inv_dedents intro!: lines_inv_add split: option.split)

lemma lines_sub:
  assumes "\<And>e l c d. 0 < l \<Longrightarrow> diag_le d (snd (sub e l c d))"
  shows "lines.sub_ok l0 l1 d0 sub"
  using assms by (auto simp: lines.sub_ok_def lines_inv_def intro: diag_le_trans)

lemma tokenize_lines_inv:
  "0 < l \<Longrightarrow> (\<And>e l c d. 0 < l \<Longrightarrow> diag_le d (snd (tokenize_at_line k e l c d))) \<Longrightarrow>
   lines_inv l (l + newlines src) d
     (lex_finish (lex_loop (tokenize_at_line k) (lex_init src l c d)))"
  by (intro lines_inv_finish lines.loop lines_init lines_sub)

lemma tokenize_diag: "0 < l \<Longrightarrow> diag_le d (snd (tokenize_at_line k src l c d))"
proof (induction k arbitrary: src l c d)
  case 0
  then show ?case by (simp add: diag_le_report)
next
  case (Suc k)
  then show ?case using tokenize_lines_inv [OF Suc.prems Suc.IH] by (simp add: Let_def lines_inv_def)
qed

text \<open>C21: token lines never go back, and lie between the first line and the last.\<close>
theorem tokenize_lines_ascend:
  "sorted (map tk_line (fst (tokenize src d))) \<and>
   set (map tk_line (fst (tokenize src d))) \<subseteq> {1 .. 1 + newlines src}"
proof -
  let ?s = "lex_finish (lex_loop (tokenize_at_line 63) (lex_init src 1 0 (reset_first_error d)))"
  have t: "fst (tokenize src d) = lx_toks ?s"
    using tokenize_at_line.simps(2) [of 63] by (simp add: tokenize_def MAX_TOKENIZE_DEPTH_def Let_def)
  have inv: "lines_inv 1 (1 + newlines src) (reset_first_error d) ?s"
    by (rule tokenize_lines_inv) (simp_all add: tokenize_diag)
  then have w: "within 1 (lx_line ?s) (map tk_line (lx_toks ?s))"
    and "lx_line ?s + newlines (lx_p ?s) \<le> 1 + newlines src"
    unfolding lines_inv_def by blast+
  then have "lx_line ?s \<le> 1 + newlines src" by (simp add: newlines_def)
  then have "within 1 (1 + newlines src) (map tk_line (lx_toks ?s))" by (rule within_mono [OF w])
  then show ?thesis unfolding t within_def by auto
qed

text \<open>A pass never lowers the error count, and it leaves an error recorded for the
  editor exactly when it has counted one, nested f-string passes included.\<close>
lemma tokenize_counts_and_records:
  "g_parse_errors d \<le> g_parse_errors (snd (tokenize src d)) \<and>
   (g_first_error_line (snd (tokenize src d)) = 0 \<longleftrightarrow>
      g_parse_errors (snd (tokenize src d)) = g_parse_errors d)"
  using tokenize_diag [of 1 "reset_first_error d" MAX_TOKENIZE_DEPTH src 0]
  by (auto simp: tokenize_def diag_le_def reset_first_error_def)

end
