(* ===== verification/Eigs_Lexer_Round.thy ===== *)
theory Eigs_Lexer_Round
  imports Eigs_Lexer_Inv
begin

text \<open>
  Round trips of the tokenizer: the placeholder spellings of \<open>tok_base_string\<close> lex back
  to their kinds, every byte string has a literal that lexes back to it, and the
  number literals denote the integers they spell.
\<close>

subsection \<open>One token at a time\<close>

definition word :: "string \<Rightarrow> bool" where
  "word w \<longleftrightarrow> w \<noteq> [] \<and> (c_isalpha (c0 w) \<or> c0 w = CHR ''_'') \<and> list_all is_ident_char w"

definition starts_token :: "char \<Rightarrow> bool" where
  "starts_token c \<longleftrightarrow> c \<noteq> NUL \<and> \<not> is_sp c \<and> \<not> is_tab c \<and> c \<noteq> CR \<and> c \<noteq> LF \<and> c \<noteq> CHR ''#''"

lemma not_ident_chars [simp]:
  "\<not> c_isalpha (CHR '' '')" "\<not> c_isdigit (CHR '' '')" "\<not> is_ident_char (CHR '' '')"
  "\<not> c_isalpha (CHR 0x22)" "\<not> c_isdigit (CHR 0x22)" "\<not> c_isalpha (CHR ''.'')"
  by (simp_all add: is_ident_char_def c_isalnum_def c_isalpha_def c_isdigit_def c_isupper_def
      c_islower_def ord_def)

lemma digit_not_alpha: "c_isdigit c \<Longrightarrow> \<not> c_isalpha c \<and> c \<noteq> CHR ''_''"
  by (auto simp: c_isalpha_def c_isdigit_def c_isupper_def c_islower_def ord_def)

lemma lex_token_ident:
  assumes "c_isalpha (c0 (lx_p s)) \<or> c0 (lx_p s) = CHR ''_''"
    and "\<not> (c0 (lx_p s) = CHR ''f'' \<and> c1 (lx_p s) = QUOTE)"
    and "starts_token (c0 (lx_p s))"
  shows "lex_token sub s = lex_ident s"
  using assms
  by (auto simp: lex_token_def Let_def starts_token_def QUOTE_def dest: digit_not_alpha)

lemma takeWhile_ident:
  "list_all is_ident_char w \<Longrightarrow> takeWhile is_ident_char (w @ CHR '' '' # rest) = w"
  by (induction w) simp_all

definition keyword_kinds :: "tok_type list" where
  "keyword_kinds =
     [TOK_IDENT, TOK_IS, TOK_OF, TOK_DEFINE, TOK_AS, TOK_IF, TOK_ELSE, TOK_ELIF, TOK_LOOP, TOK_WHILE,
      TOK_RETURN, TOK_AND, TOK_OR, TOK_NOT, TOK_FOR, TOK_IN, TOK_NULL, TOK_WHAT, TOK_WHO, TOK_WHEN,
      TOK_WHERE, TOK_WHY, TOK_HOW, TOK_PREV, TOK_AT, TOK_CONVERGED, TOK_STABLE, TOK_IMPROVING,
      TOK_OSCILLATING, TOK_DIVERGING, TOK_EQUILIBRIUM, TOK_TRY, TOK_CATCH, TOK_BREAK, TOK_CONTINUE,
      TOK_IMPORT, TOK_MATCH, TOK_CASE, TOK_UNOBSERVED, TOK_REPORT, TOK_REPORT_VALUE, TOK_LOCAL]"

definition operator_kinds :: "tok_type list" where
  "operator_kinds =
     [TOK_PLUS, TOK_MINUS, TOK_STAR, TOK_SLASH, TOK_PERCENT, TOK_LT, TOK_GT, TOK_LE, TOK_GE, TOK_EQ,
      TOK_NE, TOK_ASSIGN, TOK_RPAREN, TOK_RBRACKET, TOK_COMMA, TOK_COLON, TOK_RBRACE, TOK_PIPE,
      TOK_ARROW, TOK_AMP, TOK_BITOR, TOK_CARET, TOK_SHL, TOK_SHR, TOK_TILDE, TOK_PLUS_EQ,
      TOK_MINUS_EQ, TOK_STAR_EQ, TOK_SLASH_EQ, TOK_PERCENT_EQ, TOK_AMP_EQ, TOK_BITOR_EQ,
      TOK_CARET_EQ, TOK_SHL_EQ, TOK_SHR_EQ]"

lemmas spelling_defs = Let_def word_def starts_token_def is_ident_char_def c_isalnum_def c_isalpha_def c_isdigit_def
  c_isupper_def c_islower_def ord_def is_sp_def is_tab_def QUOTE_def NUL_def CR_def LF_def

lemma keyword_spellings:
  "list_all (\<lambda>t. let b = tok_base_string t; w = butlast b in
      b = w @ '' '' \<and> word w \<and> keyword_type w = t \<and> starts_token (c0 w) \<and> c1 b \<noteq> QUOTE) keyword_kinds"
  by (simp add: keyword_kinds_def keyword_type_def spelling_defs)

lemma operator_spellings:
  "list_all (\<lambda>t. let b = tok_base_string t; w = butlast b in
      b = w @ '' '' \<and> starts_token (c0 w) \<and> op_token (c0 b) (c1 b) (c2 b) = Some (t, length w) \<and>
      w \<noteq> [] \<and> c0 w \<noteq> CHR ''.'' \<and> c0 w \<noteq> QUOTE \<and> \<not> is_ident_char (c0 w)) operator_kinds"
  by (simp add: operator_kinds_def op_token_def spelling_defs)

lemma kinds_cases:
  "t \<in> set keyword_kinds \<or> t \<in> set operator_kinds \<or>
   t \<in> {TOK_NUM, TOK_STR, TOK_LPAREN, TOK_LBRACKET, TOK_LBRACE, TOK_DOT} \<or>
   is_layout t \<or> t = TOK_EOF"
  by (cases t) (simp_all add: keyword_kinds_def operator_kinds_def is_layout_def)

lemma starts_token_frame: "starts_token (c0 p) \<Longrightarrow> c0 p \<noteq> NUL"
  by (simp add: starts_token_def)

lemma lex_token_op:
  assumes "starts_token (c0 (lx_p s))" and "c0 (lx_p s) \<noteq> QUOTE" and "\<not> is_ident_char (c0 (lx_p s))"
    and "c0 (lx_p s) = CHR ''.'' \<Longrightarrow> \<not> c_isdigit (c1 (lx_p s))"
  shows "lex_token sub s = lex_operator s"
proof -
  have "\<not> c_isalpha (c0 (lx_p s))" "\<not> c_isdigit (c0 (lx_p s))" "c0 (lx_p s) \<noteq> CHR ''_''"
    using assms(3) by (auto simp: is_ident_char_def c_isalnum_def)
  moreover have "c_isalpha (CHR ''f'')" by (simp add: c_isalpha_def c_islower_def ord_def)
  ultimately show ?thesis
    using assms by (auto simp: lex_token_def Let_def starts_token_def)
qed

lemma op_token_third: "b = CHR '' '' \<Longrightarrow> op_token a b c = op_token a b c'"
  by (simp add: op_token_def)

lemma op_token_base:
  assumes "w \<noteq> []"
  shows "op_token (c0 (w @ '' '' @ r)) (c1 (w @ '' '' @ r)) (c2 (w @ '' '' @ r)) =
    op_token (c0 (w @ '' '')) (c1 (w @ '' '')) (c2 (w @ '' ''))"
proof -
  obtain x w' where w: "w = x # w'" using assms by (cases w) auto
  show ?thesis
  proof (cases w')
    case Nil
    then show ?thesis using w by (simp add: op_token_third)
  next
    case (Cons y w'')
    then show ?thesis using w by (cases w'') simp_all
  qed
qed

lemma lex_operator_some:
  assumes "op_token (c0 (lx_p s)) (c1 (lx_p s)) (c2 (lx_p s)) = Some (t, n)"
  shows "types (lex_operator s) = types s @ [t]" "lx_p (lex_operator s) = drop n (lx_p s)"
    "lx_at_line_start (lex_operator s) = lx_at_line_start s"
    "lx_indents (lex_operator s) = lx_indents s"
  using assms by (simp_all add: lex_operator_def Let_def lx_skip_def lx_add_def tok_add_def mk_token_def)

text \<open>The kinds with a spelling of their own.\<close>

definition plain :: "tok_type \<Rightarrow> bool" where
  "plain t \<longleftrightarrow> \<not> is_layout t \<and> t \<noteq> TOK_EOF"

definition emits :: "lexst \<Rightarrow> tok_type \<Rightarrow> string \<Rightarrow> lexst \<Rightarrow> bool" where
  "emits s t rest s' \<longleftrightarrow>
     types s' = types s @ [t] \<and> (lx_p s' = rest \<or> lx_p s' = CHR '' '' # rest) \<and>
     lx_at_line_start s' = lx_at_line_start s \<and> lx_indents s' = lx_indents s"

lemma emits_keyword:
  assumes "t \<in> set keyword_kinds" and "lx_p s = tok_base_string t @ rest"
  shows "emits s t rest (lex_token sub s)"
proof -
  define w where "w = butlast (tok_base_string t)"
  have b: "tok_base_string t = w @ '' ''" and w: "word w" and k: "keyword_type w = t"
    and st: "starts_token (c0 w)" and q: "c1 (tok_base_string t) \<noteq> QUOTE"
    using keyword_spellings assms(1) by (auto simp: list_all_iff Let_def w_def)
  have p: "lx_p s = w @ CHR '' '' # rest" using b assms(2) by simp
  obtain x w' where xw: "w = x # w'" using w by (cases w) (auto simp: word_def)
  have "c1 (lx_p s) = c1 (tok_base_string t)" using b p xw by (cases w') simp_all
  then have "lex_token sub s = lex_ident s"
    using w st q p xw by (intro lex_token_ident) (auto simp: word_def)
  moreover have "takeWhile is_ident_char (lx_p s) = w"
    using w p takeWhile_ident by (simp add: word_def)
  ultimately show ?thesis
    using k p by (simp add: emits_def lex_ident_def Let_def lx_skip_def lx_add_def tok_add_def mk_token_def)
qed

lemma emits_operator:
  assumes "t \<in> set operator_kinds" and "lx_p s = tok_base_string t @ rest"
  shows "emits s t rest (lex_token sub s)"
proof -
  define w where "w = butlast (tok_base_string t)"
  have b: "tok_base_string t = w @ '' ''" and st: "starts_token (c0 w)" and ne: "w \<noteq> []"
    and op: "op_token (c0 (w @ '' '')) (c1 (w @ '' '')) (c2 (w @ '' '')) = Some (t, length w)"
    and c: "c0 w \<noteq> CHR ''.''" "c0 w \<noteq> QUOTE" "\<not> is_ident_char (c0 w)"
    using operator_spellings assms(1) by (auto simp: list_all_iff Let_def w_def)
  have p: "lx_p s = w @ '' '' @ rest" using b assms(2) by simp
  have c0: "c0 (lx_p s) = c0 w" using p ne by (cases w) simp_all
  have "lex_token sub s = lex_operator s" using c0 st c by (intro lex_token_op) simp_all
  moreover have "op_token (c0 (lx_p s)) (c1 (lx_p s)) (c2 (lx_p s)) = Some (t, length w)"
    unfolding p op_token_base [OF ne] by (rule op)
  ultimately show ?thesis using p by (simp add: emits_def lex_operator_some)
qed

lemma other_spellings:
  "list_all (\<lambda>t. let c = c0 (tok_base_string t) in
      tok_base_string t = [c] \<and> starts_token c \<and> c \<noteq> QUOTE \<and> \<not> is_ident_char c \<and>
      (c = CHR ''.'' \<longrightarrow> t = TOK_DOT)) [TOK_LPAREN, TOK_LBRACKET, TOK_LBRACE, TOK_DOT]"
  by (simp add: spelling_defs)

lemma op_token_other:
  "t \<in> {TOK_LPAREN, TOK_LBRACKET, TOK_LBRACE, TOK_DOT} \<Longrightarrow>
   op_token (c0 (tok_base_string t)) b c = Some (t, 1)"
  by (elim insertE emptyE) (simp_all add: op_token_def)

lemma emits_other:
  assumes "t \<in> {TOK_LPAREN, TOK_LBRACKET, TOK_LBRACE, TOK_DOT}"
    and "lx_p s = tok_base_string t @ rest" and "t = TOK_DOT \<longrightarrow> \<not> c_isdigit (c0 rest)"
  shows "emits s t rest (lex_token sub s)"
proof -
  define c where "c = c0 (tok_base_string t)"
  have c: "tok_base_string t = [c]" "starts_token c" "c \<noteq> QUOTE" "\<not> is_ident_char c"
    "c = CHR ''.'' \<longrightarrow> t = TOK_DOT"
    using other_spellings assms(1) by (auto simp: list_all_iff Let_def c_def)
  have p: "lx_p s = c # rest" using assms(2) c by simp
  have "op_token (c0 (lx_p s)) (c1 (lx_p s)) (c2 (lx_p s)) = Some (t, 1)"
    using op_token_other [OF assms(1)] p by (simp add: c_def)
  moreover have "lex_token sub s = lex_operator s"
    using assms(3) p c by (intro lex_token_op) (cases rest, simp_all)
  ultimately show ?thesis using p by (simp add: emits_def lex_operator_some)
qed

lemma emits_num:
  assumes "lx_p s = tok_base_string TOK_NUM @ rest"
  shows "emits s TOK_NUM rest (lex_token sub s)"
proof -
  have c: "c0 (lx_p s) = CHR ''0''" "c1 (lx_p s) = CHR '' ''" using assms by simp_all
  have "c_isdigit (CHR ''0'')" by (simp add: c_isdigit_def ord_def)
  moreover from this have "strtod (lx_p s) = (fp_of_dec ''0'' 0, 1)"
    using assms by (simp add: strtod_def dec_exponent_def)
  ultimately show ?thesis
    using assms c
    by (simp add: emits_def lex_token_def Let_def is_sp_def is_tab_def CR_def LF_def QUOTE_def
        lex_number_def lx_skip_def lx_add_def tok_add_def mk_token_def set_last_len_def)
qed

lemma emits_str:
  assumes "lx_p s = tok_base_string TOK_STR @ rest"
  shows "emits s TOK_STR rest (lex_token sub s)"
proof -
  have c: "c0 (lx_p s) = QUOTE" using assms by (simp add: QUOTE_def)
  have "lex_token sub s = lex_string s"
    using c by (simp add: lex_token_def Let_def is_sp_def is_tab_def CR_def LF_def QUOTE_def)
  then show ?thesis
    using assms
    by (simp add: emits_def lex_string_def Let_def QUOTE_def BACKSLASH_def NUL_def
        lx_skip_def lx_add_def tok_add_def mk_token_def set_last_len_def)
qed

lemma emits_plain:
  assumes "plain t" and "lx_p s = tok_base_string t @ rest" and "t = TOK_DOT \<longrightarrow> \<not> c_isdigit (c0 rest)"
  shows "emits s t rest (lex_token sub s)"
proof -
  consider "t \<in> set keyword_kinds" | "t \<in> set operator_kinds" | "t = TOK_NUM" | "t = TOK_STR"
    | "t \<in> {TOK_LPAREN, TOK_LBRACKET, TOK_LBRACE, TOK_DOT}"
    using kinds_cases [of t] assms(1) by (auto simp: plain_def)
  then show ?thesis
  proof cases
    case 1
    then show ?thesis using assms(2) by (rule emits_keyword)
  next
    case 2
    then show ?thesis using assms(2) by (rule emits_operator)
  next
    case 3
    then show ?thesis using assms(2) emits_num by simp
  next
    case 4
    then show ?thesis using assms(2) emits_str by simp
  next
    case 5
    then show ?thesis using assms(2,3) by (rule emits_other)
  qed
qed

definition good_start :: "tok_type \<Rightarrow> bool" where
  "good_start t \<longleftrightarrow> tok_base_string t \<noteq> [] \<and> starts_token (c0 (tok_base_string t)) \<and>
     (t = TOK_NUM \<or> \<not> c_isdigit (c0 (tok_base_string t)))"

lemma good_starts:
  "list_all good_start
     (keyword_kinds @ operator_kinds @ [TOK_NUM, TOK_STR, TOK_LPAREN, TOK_LBRACKET, TOK_LBRACE, TOK_DOT])"
  by (simp add: keyword_kinds_def operator_kinds_def good_start_def spelling_defs)

lemma plain_starts:
  assumes "plain t"
  shows "starts_token (c0 (tok_base_string t @ rest))"
    "t \<noteq> TOK_NUM \<Longrightarrow> \<not> c_isdigit (c0 (tok_base_string t @ rest))"
proof -
  have "t \<in> set (keyword_kinds @ operator_kinds @
      [TOK_NUM, TOK_STR, TOK_LPAREN, TOK_LBRACKET, TOK_LBRACE, TOK_DOT])"
    using assms kinds_cases [of t] unfolding plain_def set_append by (metis Un_iff list.set(1,2))
  then have g: "good_start t" using good_starts unfolding list_all_iff by (rule bspec [rotated])
  then obtain x w where w: "tok_base_string t = x # w" by (cases "tok_base_string t") (auto simp: good_start_def)
  show "starts_token (c0 (tok_base_string t @ rest))" using g unfolding good_start_def w by simp
  show "t \<noteq> TOK_NUM \<Longrightarrow> \<not> c_isdigit (c0 (tok_base_string t @ rest))"
    using g unfolding good_start_def w by simp
qed

subsection \<open>Sequences of spellings\<close>

text \<open>A dot before a number spells \<open>.0\<close>, which is a number.\<close>

fun no_dot_num :: "tok_type list \<Rightarrow> bool" where
  "no_dot_num (t # u # ts) \<longleftrightarrow> \<not> (t = TOK_DOT \<and> u = TOK_NUM) \<and> no_dot_num (u # ts)"
| "no_dot_num ts \<longleftrightarrow> True"

definition spell :: "tok_type list \<Rightarrow> string" where
  "spell ts = concat (map tok_base_string ts)"

lemma spell_simps [simp]: "spell [] = []" "spell (t # ts) = tok_base_string t @ spell ts"
  by (simp_all add: spell_def)

lemma lex_loop_space:
  assumes "lx_p s = CHR '' '' # rest" and "\<not> lx_at_line_start s"
  shows "lex_loop sub s = lex_loop sub (lx_skip 1 s)"
proof -
  have "lex_step sub s = lx_skip 1 s"
    using assms by (simp add: lex_step_def lex_token_def Let_def is_sp_def)
  then show ?thesis using assms by (subst lex_loop.simps) (simp add: NUL_def)
qed

lemma lex_loop_spell:
  "list_all plain ts \<Longrightarrow> no_dot_num ts \<Longrightarrow> lx_p s = spell ts \<or> lx_p s = CHR '' '' # spell ts \<Longrightarrow>
   \<not> lx_at_line_start s \<Longrightarrow>
   types (lex_loop sub s) = types s @ ts \<and> lx_indents (lex_loop sub s) = lx_indents s"
proof (induction ts arbitrary: s)
  case Nil
  have "lx_p s = [] \<Longrightarrow> lex_loop sub s = s" for s by (subst lex_loop.simps) simp
  moreover have "lx_p (lx_skip 1 s) = []" if "lx_p s = '' ''" using that by simp
  ultimately show ?case using Nil lex_loop_space [of s "[]" sub] by (auto simp: lx_skip_def)
next
  case (Cons t ts)
  define s0 where "s0 = (if lx_p s = spell (t # ts) then s else lx_skip 1 s)"
  have s0: "lx_p s0 = tok_base_string t @ spell ts" "\<not> lx_at_line_start s0"
    "types s0 = types s" "lx_indents s0 = lx_indents s"
    using Cons.prems by (auto simp: s0_def lx_skip_def)
  have l0: "lex_loop sub s = lex_loop sub s0"
    using Cons.prems lex_loop_space [of s "spell (t # ts)" sub] by (auto simp: s0_def)
  have t: "plain t" using Cons.prems by simp
  have dot: "t = TOK_DOT \<longrightarrow> \<not> c_isdigit (c0 (spell ts))"
  proof (cases ts)
    case Nil
    then show ?thesis by (simp add: NUL_def c_isdigit_def ord_def)
  next
    case (Cons u us)
    then show ?thesis using Cons.prems plain_starts(2) [of u "spell us"] by auto
  qed
  have e: "emits s0 t (spell ts) (lex_token sub s0)" by (rule emits_plain [OF t s0(1) dot])
  have "c0 (lx_p s0) \<noteq> NUL" using plain_starts(1) [OF t] s0(1) by (simp add: starts_token_def)
  then have "lex_loop sub s0 = lex_loop sub (lex_token sub s0)"
    using s0(2) by (subst lex_loop.simps) (simp add: lex_step_def)
  moreover have "types (lex_loop sub (lex_token sub s0)) = types (lex_token sub s0) @ ts \<and>
      lx_indents (lex_loop sub (lex_token sub s0)) = lx_indents (lex_token sub s0)"
    using Cons.prems e s0 by (intro Cons.IH) (auto simp: emits_def elim: no_dot_num.elims)
  ultimately show ?case using e s0 l0 by (simp add: emits_def)
qed

text \<open>The first iteration of a pass whose source starts with a token.\<close>

lemma lex_step_first:
  assumes "starts_token (c0 src)"
  shows "lex_step sub (lex_init src l c d) = lex_token sub (lex_init src l c d\<lparr>lx_at_line_start := False\<rparr>)"
proof -
  obtain x xs where src: "src = x # xs" using assms by (cases src) (auto simp: starts_token_def)
  have "lead_ws src = (src, 0)" using assms src by (simp add: lead_ws_def Let_def starts_token_def)
  moreover have "lex_indent 0 (lex_init src l c d) = lex_init src l c d\<lparr>lx_at_line_start := False\<rparr>"
    by (simp add: lex_indent_def lex_init_def Let_def)
  ultimately have "lex_line_start (lex_init src l c d) = (lex_init src l c d\<lparr>lx_at_line_start := False\<rparr>, False)"
    using assms src
    by (simp add: lex_line_start_def line_body_def skip_cr_def Let_def starts_token_def lex_init_def)
  then show ?thesis by (simp add: lex_step_def lex_init_def)
qed

lemma lex_loop_first:
  assumes "starts_token (c0 src)"
  shows "lex_loop sub (lex_init src l c d) = lex_loop sub (lex_token sub (lex_init src l c d\<lparr>lx_at_line_start := False\<rparr>))"
    "lex_loop sub (lex_init src l c d) = lex_loop sub (lex_init src l c d\<lparr>lx_at_line_start := False\<rparr>)"
proof -
  have ne: "c0 (lx_p (lex_init src l c d)) \<noteq> NUL"
    using assms by (simp add: starts_token_def lex_init_def)
  show 1: "lex_loop sub (lex_init src l c d) = lex_loop sub (lex_token sub (lex_init src l c d\<lparr>lx_at_line_start := False\<rparr>))"
    by (subst lex_loop.simps) (simp only: lex_step_first [OF assms] ne if_False)
  also have "\<dots> = lex_loop sub (lex_init src l c d\<lparr>lx_at_line_start := False\<rparr>)"
    using ne by (subst (2) lex_loop.simps) (simp add: lex_step_def)
  finally show "lex_loop sub (lex_init src l c d) = lex_loop sub (lex_init src l c d\<lparr>lx_at_line_start := False\<rparr>)" .
qed

lemma tokenize_unfold:
  "tokenize src d =
     (let s = lex_finish (lex_loop (tokenize_at_line 63) (lex_init src 1 0 (reset_first_error d)))
      in (lx_toks s, lx_diag s))"
  using tokenize_at_line.simps(2) [of 63] by (simp add: tokenize_def MAX_TOKENIZE_DEPTH_def)

text \<open>C8: concatenating the placeholder spellings \<open>tok_base_string\<close> of any token kinds
  and lexing the text gives those kinds back, then the NEWLINE and EOF that end every
  pass. The one pair that does not survive is a dot followed by a number, excluded here.\<close>
theorem base_strings_lex_back:
  assumes "list_all plain ts" and "no_dot_num ts" and "ts \<noteq> []"
  shows "map tk_type (fst (tokenize (spell ts) d)) = ts @ [TOK_NEWLINE, TOK_EOF]"
proof -
  obtain t us where ts: "ts = t # us" using assms(3) by (cases ts) auto
  then have "starts_token (c0 (spell ts))" using assms(1) plain_starts(1) by simp
  note first = lex_loop_first(2) [OF this, of "tokenize_at_line 63" 1 0 "reset_first_error d"]
  let ?s = "lex_loop (tokenize_at_line 63) (lex_init (spell ts) 1 0 (reset_first_error d))"
  have s: "types ?s = ts" "lx_indents ?s = [0]"
    using lex_loop_spell [OF assms(1,2), of "lex_init (spell ts) 1 0 (reset_first_error d)\<lparr>lx_at_line_start := False\<rparr>"
        "tokenize_at_line 63"]
    unfolding first by (simp_all add: lex_init_def)
  have "plain (last ts)" using assms by (auto simp: list_all_iff)
  then have "last ts \<noteq> TOK_NEWLINE" by (auto simp: plain_def is_layout_def)
  then show ?thesis
    unfolding tokenize_unfold Let_def fst_conv lex_finish_def last_type_types
    using s assms(3) by simp
qed

lemma base_strings_lex_back_witness:
  "map tk_type (fst (tokenize (spell [TOK_IF, TOK_IDENT, TOK_DOT, TOK_IDENT, TOK_SHL_EQ, TOK_NUM]) init_diag)) =
     [TOK_IF, TOK_IDENT, TOK_DOT, TOK_IDENT, TOK_SHL_EQ, TOK_NUM, TOK_NEWLINE, TOK_EOF]"
  by (subst base_strings_lex_back) (simp_all add: plain_def is_layout_def)

text \<open>Why the pair is excluded.\<close>

lemma dot_num_joins:
  "map tk_type (fst (tokenize (spell [TOK_IDENT, TOK_DOT, TOK_NUM]) init_diag)) =
     [TOK_IDENT, TOK_NUM, TOK_NEWLINE, TOK_EOF]"
  by (simp add: tokenize_unfold lex_loop.simps lex_step_def lex_init_def lex_line_start_def line_body_def lead_ws_def
      skip_cr_def lex_indent_def lex_token_def lex_ident_def lex_number_def strtod_def dec_exponent_def hex_acc_def
      keyword_type_def lex_finish_def last_type_def lx_skip_def lx_add_def lx_newline_def tok_add_def mk_token_def
      set_last_len_def spelling_defs)

subsection \<open>String literals\<close>

text \<open>The literal of a byte string: quotes, with backslashes before quotes and backslashes.\<close>

definition esc :: "char \<Rightarrow> string" where
  "esc c = (if c = QUOTE \<or> c = BACKSLASH then [BACKSLASH, c] else [c])"

definition str_literal :: "string \<Rightarrow> string" where
  "str_literal b = QUOTE # concat (map esc b) @ [QUOTE]"

lemma scan_str_esc:
  "NUL \<notin> set b \<Longrightarrow>
   scan_str (concat (map esc b) @ QUOTE # rest) buf col =
     (buf @ b, QUOTE # rest, col + int (length (concat (map esc b))))"
proof (induction b arbitrary: buf col)
  case Nil
  show ?case by simp
next
  case (Cons c b)
  have "unescape QUOTE = QUOTE" "unescape BACKSLASH = BACKSLASH" "QUOTE \<noteq> NUL" "BACKSLASH \<noteq> NUL"
    "QUOTE \<noteq> BACKSLASH"
    by (simp_all add: unescape_def QUOTE_def BACKSLASH_def NUL_def)
  then show ?case using Cons by (auto simp: esc_def)
qed

text \<open>C9: every string without NUL bytes has a literal, and lexing that literal yields one
  string token with exactly those bytes, whose length is that of the literal in the
  source, and reports no error.\<close>
theorem string_literal_roundtrip:
  assumes "NUL \<notin> set b"
  shows "map tk_type (fst (tokenize (str_literal b) d)) = [TOK_STR, TOK_NEWLINE, TOK_EOF] \<and>
    tk_str (hd (fst (tokenize (str_literal b) d))) = Some b \<and>
    tk_len (hd (fst (tokenize (str_literal b) d))) = int (length (str_literal b)) \<and>
    snd (tokenize (str_literal b) d) = reset_first_error d"
proof -
  let ?s = "lex_init (str_literal b) 1 0 (reset_first_error d)\<lparr>lx_at_line_start := False\<rparr>"
  have st: "starts_token (c0 (str_literal b))" "c0 (str_literal b) = QUOTE"
    by (simp_all add: str_literal_def starts_token_def QUOTE_def NUL_def LF_def CR_def is_sp_def is_tab_def)
  have "lex_token sub ?s = lex_string ?s" for sub
    using st by (simp add: lex_token_def Let_def lex_init_def starts_token_def QUOTE_def)
  moreover have "scan_str (concat (map esc b) @ [QUOTE]) [] 1 =
      (b, [QUOTE], 1 + int (length (concat (map esc b))))"
    using scan_str_esc [OF assms, of "[]" "[]" 1] by simp
  then have "lex_string ?s = ?s\<lparr>lx_p := [], lx_col := int (length (str_literal b)),
      lx_toks := [(mk_token TOK_STR 0 (Some b) 1 0)\<lparr>tk_len := int (length (str_literal b))\<rparr>]\<rparr>"
    by (simp add: lex_string_def Let_def lex_init_def str_literal_def lx_skip_def lx_add_def
        tok_add_def set_last_len_def)
  ultimately have l: "lex_loop sub (lex_init (str_literal b) 1 0 (reset_first_error d)) =
      ?s\<lparr>lx_p := [], lx_col := int (length (str_literal b)),
        lx_toks := [(mk_token TOK_STR 0 (Some b) 1 0)\<lparr>tk_len := int (length (str_literal b))\<rparr>]\<rparr>" for sub
    unfolding lex_loop_first(1) [OF st(1)] by (subst lex_loop.simps) simp
  show ?thesis
    unfolding tokenize_unfold l
    by (simp add: Let_def lex_finish_def lex_init_def last_type_def lx_add_def tok_add_def mk_token_def)
qed

lemma string_literal_roundtrip_witness:
  "map tk_type (fst (tokenize (str_literal [QUOTE, LF, BACKSLASH]) init_diag)) =
      [TOK_STR, TOK_NEWLINE, TOK_EOF] \<and>
    tk_str (hd (fst (tokenize (str_literal [QUOTE, LF, BACKSLASH]) init_diag))) = Some [QUOTE, LF, BACKSLASH] \<and>
    tk_len (hd (fst (tokenize (str_literal [QUOTE, LF, BACKSLASH]) init_diag))) = 7 \<and>
    snd (tokenize (str_literal [QUOTE, LF, BACKSLASH]) init_diag) = reset_first_error init_diag"
proof -
  have "length (str_literal [QUOTE, LF, BACKSLASH]) = 7"
    by (simp add: str_literal_def esc_def QUOTE_def LF_def BACKSLASH_def)
  then show ?thesis
    using string_literal_roundtrip [of "[QUOTE, LF, BACKSLASH]" init_diag]
    by (simp add: QUOTE_def LF_def BACKSLASH_def NUL_def)
qed

subsection \<open>Number literals\<close>

definition hex_num :: "string \<Rightarrow> int" where
  "hex_num ds = foldl (\<lambda>n c. n * 16 + int (hexval c)) 0 ds"

lemma hexval_lt: "c_isxdigit c \<Longrightarrow> hexval c < 16"
  by (auto simp: c_isxdigit_def c_isdigit_def hexval_def)

lemma hex_num_nonneg: "0 \<le> hex_num ds"
  by (induction ds rule: rev_induct) (simp_all add: hex_num_def)

lemma hex_acc_exact:
  "list_all c_isxdigit ds \<Longrightarrow> hex_num ds < 2 ^ 53 \<Longrightarrow> hex_acc ds = fp_of_int (hex_num ds)"
proof (induction ds rule: rev_induct)
  case Nil
  show ?case by (simp add: hex_acc_def hex_num_def fp_of_int_def fp_round_def)
next
  case (snoc c ds)
  have num: "hex_num (ds @ [c]) = hex_num ds * 16 + int (hexval c)" by (simp add: hex_num_def)
  have h: "int (hexval c) < 16" using snoc.prems hexval_lt by simp
  have lt: "hex_num ds < 2 ^ 53" "hex_num ds * 16 < 2 ^ 53"
    using snoc.prems(2) num hex_num_nonneg [of ds] by linarith+
  have "fp_mul (fp_of_int (hex_num ds)) (fp_of_int 16) = fp_of_int (hex_num ds * 16)"
    by (intro fp_mul_exact fp_of_int_is) (use lt hex_num_nonneg [of ds] in simp_all)
  moreover have "fp_add (fp_of_int (hex_num ds * 16)) (fp_of_int (int (hexval c))) =
      fp_of_int (hex_num ds * 16 + int (hexval c))"
    by (intro fp_add_exact fp_of_int_is) (use lt h hex_num_nonneg [of ds] in simp_all)
  ultimately show ?case
    using snoc.IH snoc.prems lt num by (simp add: hex_acc_def)
qed

text \<open>A pass over a source that is one number literal.\<close>

lemma tokenize_number:
  assumes "c_isdigit (c0 src)"
    and "lex_number (lex_init src 1 0 (reset_first_error d)\<lparr>lx_at_line_start := False\<rparr>) =
      lex_init src 1 0 (reset_first_error d)\<lparr>lx_at_line_start := False, lx_p := [], lx_col := c, lx_toks := [t]\<rparr>"
    and "tk_type t = TOK_NUM"
  shows "map tk_type (fst (tokenize src d)) = [TOK_NUM, TOK_NEWLINE, TOK_EOF]"
    "hd (fst (tokenize src d)) = t" "snd (tokenize src d) = reset_first_error d"
proof -
  let ?s = "lex_init src 1 0 (reset_first_error d)\<lparr>lx_at_line_start := False\<rparr>"
  have st: "starts_token (c0 src)" and q: "c0 src \<noteq> QUOTE" "c0 src \<noteq> CHR ''f''"
    using assms(1)
    by (auto simp: starts_token_def c_isdigit_def ord_def is_sp_def is_tab_def NUL_def CR_def LF_def QUOTE_def)
  then have "lex_token sub ?s = lex_number ?s" for sub
    using assms(1) by (simp add: lex_token_def Let_def lex_init_def starts_token_def)
  then have l: "lex_loop sub (lex_init src 1 0 (reset_first_error d)) =
      ?s\<lparr>lx_p := [], lx_col := c, lx_toks := [t]\<rparr>" for sub
    unfolding lex_loop_first(1) [OF st] using assms(2)
    by (subst lex_loop.simps) simp
  show "map tk_type (fst (tokenize src d)) = [TOK_NUM, TOK_NEWLINE, TOK_EOF]"
    "hd (fst (tokenize src d)) = t" "snd (tokenize src d) = reset_first_error d"
    using assms(3) unfolding tokenize_unfold l
    by (simp_all add: Let_def lex_finish_def lex_init_def last_type_def lx_add_def tok_add_def mk_token_def)
qed

text \<open>C19: a hexadecimal literal below \<open>2\<^sup>5\<^sup>3\<close> denotes exactly its integer, although
  its digits are accumulated in a double.\<close>
theorem hex_literal_exact:
  assumes "ds \<noteq> []" and "list_all c_isxdigit ds" and "x = CHR ''x'' \<or> x = CHR ''X''"
    and "hex_num ds < 2 ^ 53"
  shows "map tk_type (fst (tokenize (CHR ''0'' # x # ds) d)) = [TOK_NUM, TOK_NEWLINE, TOK_EOF] \<and>
    dbl_is (tk_num (hd (fst (tokenize (CHR ''0'' # x # ds) d)))) (hex_num ds)"
proof -
  let ?src = "CHR ''0'' # x # ds"
  let ?t = "(mk_token TOK_NUM (hex_acc ds) None 1 0)\<lparr>tk_len := int (length ds + 2)\<rparr>"
  have all: "takeWhile c_isxdigit ds = ds" "dropWhile c_isxdigit ds = []"
    using assms(2) by (simp_all add: list_all_iff takeWhile_eq_all_conv dropWhile_eq_Nil_conv)
  have c: "c_isxdigit (c2 ?src)" using assms(1,2) by (cases ds) simp_all
  have "c_isdigit (c0 ?src)" by (simp add: c_isdigit_def ord_def)
  moreover have "lex_number (lex_init ?src 1 0 (reset_first_error d)\<lparr>lx_at_line_start := False\<rparr>) =
      lex_init ?src 1 0 (reset_first_error d)
        \<lparr>lx_at_line_start := False, lx_p := [], lx_col := int (length ds + 2), lx_toks := [?t]\<rparr>"
    using assms(3) c
    by (auto simp: all lex_number_def Let_def lex_init_def lx_skip_def lx_add_def
        tok_add_def set_last_len_def)
  moreover have "tk_type ?t = TOK_NUM" "tk_num ?t = fp_of_int (hex_num ds)"
    using hex_acc_exact [OF assms(2,4)] by (simp_all add: mk_token_def)
  ultimately show ?thesis
    using tokenize_number [where src = ?src and d = d and t = ?t] fp_of_int_is [OF hex_num_nonneg assms(4)] by metis
qed

lemma hex_literal_exact_witness:
  "map tk_type (fst (tokenize ''0x1F'' init_diag)) = [TOK_NUM, TOK_NEWLINE, TOK_EOF] \<and>
   dbl_is (tk_num (hd (fst (tokenize ''0x1F'' init_diag)))) 31"
proof -
  have "list_all c_isxdigit ''1F''" "hex_num ''1F'' = 31"
    by (simp_all add: c_isxdigit_def c_isdigit_def hex_num_def hexval_def ord_def)
  then show ?thesis using hex_literal_exact [of "''1F''" "CHR ''x''" init_diag] by simp
qed

text \<open>C20: a decimal integer literal below \<open>2\<^sup>5\<^sup>3\<close> denotes exactly its integer.\<close>
theorem decimal_literal_exact:
  assumes "ds \<noteq> []" and "list_all c_isdigit ds" and "dec_val ds < 2 ^ 53"
  shows "map tk_type (fst (tokenize ds d)) = [TOK_NUM, TOK_NEWLINE, TOK_EOF] \<and>
    dbl_is (tk_num (hd (fst (tokenize ds d)))) (dec_val ds)"
proof -
  let ?t = "(mk_token TOK_NUM (fp_of_int (dec_val ds)) None 1 0)\<lparr>tk_len := int (length ds)\<rparr>"
  have all: "takeWhile c_isdigit ds = ds" "dropWhile c_isdigit ds = []"
    using assms(2) by (simp_all add: list_all_iff takeWhile_eq_all_conv dropWhile_eq_Nil_conv)
  have dig: "c_isdigit (c0 ds)" using assms by (cases ds) auto
  have nx: "c1 ds \<noteq> CHR ''x'' \<and> c1 ds \<noteq> CHR ''X''"
  proof (cases "tl ds")
    case Nil
    then show ?thesis using assms(1) by (cases ds) (simp_all add: NUL_def)
  next
    case (Cons y ys)
    then have "c1 ds = y" "c_isdigit y" using assms by (cases ds; simp)+
    then show ?thesis by (auto simp: c_isdigit_def ord_def)
  qed
  have "strtod ds = (fp_of_int (dec_val ds), length ds)"
    by (simp add: all strtod_def Let_def dec_exponent_def NUL_def fp_of_dec_def fp_of_int_def)
  then have "lex_number (lex_init ds 1 0 (reset_first_error d)\<lparr>lx_at_line_start := False\<rparr>) =
      lex_init ds 1 0 (reset_first_error d)
        \<lparr>lx_at_line_start := False, lx_p := [], lx_col := int (length ds), lx_toks := [?t]\<rparr>"
    using nx by (simp add: lex_number_def Let_def lex_init_def lx_skip_def lx_add_def tok_add_def set_last_len_def)
  moreover have "tk_type ?t = TOK_NUM" "tk_num ?t = fp_of_int (dec_val ds)" by (simp_all add: mk_token_def)
  moreover have "0 \<le> dec_val ds"
    using assms(2)
  proof (induction ds rule: rev_induct)
    case (snoc c ds)
    have "int (ord c) = of_char c" by (cases c) (simp add: ord_def of_char_def horner_sum_simps)
    then have "48 \<le> (of_char c :: int)" using snoc.prems by (simp add: c_isdigit_def)
    then show ?case using snoc by (simp add: dec_val_def)
  qed (simp add: dec_val_def)
  ultimately show ?thesis
    using tokenize_number [where src = ds and d = d and t = ?t] dig fp_of_int_is [OF _ assms(3)] by metis
qed

lemma decimal_literal_exact_witness:
  "map tk_type (fst (tokenize ''255'' init_diag)) = [TOK_NUM, TOK_NEWLINE, TOK_EOF] \<and>
   dbl_is (tk_num (hd (fst (tokenize ''255'' init_diag)))) 255"
proof -
  have "list_all c_isdigit ''255''" "dec_val ''255'' = 255"
    by (simp_all add: c_isdigit_def dec_val_def ord_def)
  then show ?thesis using decimal_literal_exact [of "''255''" init_diag] by simp
qed

text \<open>Past \<open>2\<^sup>5\<^sup>3\<close> the accumulation rounds: \<open>2\<^sup>5\<^sup>3 + 1\<close> lexes as \<open>2\<^sup>5\<^sup>3\<close>.\<close>

lemma fp_add_rounds: "fp_add (fp_of_int (2 ^ 53)) (fp_of_int 1) = fp_of_int (2 ^ 53)"
  by code_simp

end
