(* ===== verification/Eigs_Ast.thy ===== *)
theory Eigs_Ast
  imports Eigs_Token
begin

text \<open>
  The syntax tree (\<open>struct ASTNode\<close> of \<open>src/eigenscript.h\<close>) with the union as a
  datatype, the name hash (\<open>src/eigenscript.c\<close>), and \<open>clone_ast\<close>
  (\<open>src/parser.c\<close>). An array with its count is a list; a pointer that may be NULL
  is an option; the operator buffers are strings.
\<close>

datatype (plugins only: code size) ast =
    Node (nd_line: int) (nd_col: int) (nd_hash: u32) (nd_paren: bool) (nd_data: ast_data)
and ast_data =
    AST_NUM double
  | AST_STR string
  | AST_IDENT string
  | AST_NULL
  | AST_BINOP string ast ast
  | AST_UNARY string ast
  | AST_ASSIGN string ast bool
  | AST_RELATION ast ast
  | AST_IF ast "ast list" "ast list"
  | AST_LOOP ast "ast list"
  | AST_FUNC string "string list" "ast option list" nat "ast list"
  | AST_RETURN ast
  | AST_BLOCK "ast list"
  | AST_LIST "ast list"
  | AST_INDEX ast ast
  | AST_LISTCOMP ast string ast "ast option"
  | AST_FOR string ast "ast list"
  | AST_PROGRAM "ast list"
  | AST_INTERROGATE int ast "ast option" "ast option"
  | AST_PREDICATE int
  | AST_TRY "ast list" string "ast list"
  | AST_DICT "ast list" "ast list"
  | AST_DOT ast string
  | AST_BREAK
  | AST_CONTINUE
  | AST_DOT_ASSIGN ast string ast
  | AST_IMPORT string
  | AST_MATCH ast "ast option list" "ast list list"
  | AST_LAMBDA "string list" ast
  | AST_UNOBSERVED "ast list"
  | AST_INDEX_ASSIGN ast ast ast string
  | AST_LIST_PATTERN_ASSIGN "string list" "u32 list" ast
  | AST_SLICE ast "ast option" "ast option"

text \<open>FNV-1a over the bytes of a name, with the low bit set so that 0 means no hash.\<close>

definition env_hash_name :: "string \<Rightarrow> u32" where
  "env_hash_name name =
     foldl (\<lambda>h c. (h XOR of_nat (ord c)) * 16777619) 2166136261 name OR 1"

definition env_name_hash :: "string \<Rightarrow> u32" where
  "env_name_hash name = env_hash_name name"

lemma env_hash_name_nonzero: "env_hash_name name \<noteq> 0"
proof
  assume "env_hash_name name = 0"
  then have "bit (env_hash_name name) 0 = bit (0 :: u32) 0" by simp
  then show False by (simp add: env_hash_name_def bit_or_iff)
qed

definition make_node_col :: "ast_data \<Rightarrow> int \<Rightarrow> int \<Rightarrow> ast" where
  "make_node_col d line col = Node line col 0 False d"

definition make_node :: "ast_data \<Rightarrow> int \<Rightarrow> ast" where
  "make_node d line = make_node_col d line 0"

definition set_hash :: "u32 \<Rightarrow> ast \<Rightarrow> ast" where
  "set_hash h n = (case n of Node line col _ p d \<Rightarrow> Node line col h p d)"

definition set_name_hash :: "ast \<Rightarrow> string \<Rightarrow> ast" where
  "set_name_hash n name = set_hash (env_name_hash name) n"

definition set_parenthesized :: "ast \<Rightarrow> ast" where
  "set_parenthesized n = (case n of Node line col h _ d \<Rightarrow> Node line col h True d)"

text \<open>The copy of a tree: every field but the compound operator of an index assignment.\<close>

primrec clone_ast :: "ast \<Rightarrow> ast"
  and clone_data :: "ast_data \<Rightarrow> ast_data" where
  "clone_ast (Node line col h p d) = Node line col h p (clone_data d)"
| "clone_data (AST_NUM x) = AST_NUM x"
| "clone_data (AST_STR s) = AST_STR s"
| "clone_data (AST_IDENT s) = AST_IDENT s"
| "clone_data AST_NULL = AST_NULL"
| "clone_data (AST_BINOP op l r) = AST_BINOP op (clone_ast l) (clone_ast r)"
| "clone_data (AST_UNARY op e) = AST_UNARY op (clone_ast e)"
| "clone_data (AST_ASSIGN s e b) = AST_ASSIGN s (clone_ast e) b"
| "clone_data (AST_RELATION l r) = AST_RELATION (clone_ast l) (clone_ast r)"
| "clone_data (AST_IF c t e) = AST_IF (clone_ast c) (map clone_ast t) (map clone_ast e)"
| "clone_data (AST_LOOP c b) = AST_LOOP (clone_ast c) (map clone_ast b)"
| "clone_data (AST_FUNC s ps ds k b) =
     AST_FUNC s ps (map (map_option clone_ast) ds) k (map clone_ast b)"
| "clone_data (AST_RETURN e) = AST_RETURN (clone_ast e)"
| "clone_data (AST_BLOCK b) = AST_BLOCK (map clone_ast b)"
| "clone_data (AST_LIST es) = AST_LIST (map clone_ast es)"
| "clone_data (AST_INDEX t i) = AST_INDEX (clone_ast t) (clone_ast i)"
| "clone_data (AST_LISTCOMP e s i f) = AST_LISTCOMP (clone_ast e) s (clone_ast i) (map_option clone_ast f)"
| "clone_data (AST_FOR s i b) = AST_FOR s (clone_ast i) (map clone_ast b)"
| "clone_data (AST_PROGRAM b) = AST_PROGRAM (map clone_ast b)"
| "clone_data (AST_INTERROGATE k e a w) =
     AST_INTERROGATE k (clone_ast e) (map_option clone_ast a) (map_option clone_ast w)"
| "clone_data (AST_PREDICATE k) = AST_PREDICATE k"
| "clone_data (AST_TRY b s c) = AST_TRY (map clone_ast b) s (map clone_ast c)"
| "clone_data (AST_DICT ks vs) = AST_DICT (map clone_ast ks) (map clone_ast vs)"
| "clone_data (AST_DOT t s) = AST_DOT (clone_ast t) s"
| "clone_data AST_BREAK = AST_BREAK"
| "clone_data AST_CONTINUE = AST_CONTINUE"
| "clone_data (AST_DOT_ASSIGN t s e) = AST_DOT_ASSIGN (clone_ast t) s (clone_ast e)"
| "clone_data (AST_IMPORT s) = AST_IMPORT s"
| "clone_data (AST_MATCH e ps bs) =
     AST_MATCH (clone_ast e) (map (map_option clone_ast) ps) (map (map clone_ast) bs)"
| "clone_data (AST_LAMBDA ps b) = AST_LAMBDA ps (clone_ast b)"
| "clone_data (AST_UNOBSERVED b) = AST_UNOBSERVED (map clone_ast b)"
| "clone_data (AST_INDEX_ASSIGN t i e op) = AST_INDEX_ASSIGN (clone_ast t) (clone_ast i) (clone_ast e) []"
| "clone_data (AST_LIST_PATTERN_ASSIGN ns hs e) = AST_LIST_PATTERN_ASSIGN ns hs (clone_ast e)"
| "clone_data (AST_SLICE t a b) = AST_SLICE (clone_ast t) (map_option clone_ast a) (map_option clone_ast b)"

subsection \<open>The trees of expressions\<close>

text \<open>What the expression grammar builds: no statement nodes.\<close>

primrec is_expr :: "ast \<Rightarrow> bool"
  and is_expr_data :: "ast_data \<Rightarrow> bool" where
  "is_expr (Node line col h p d) \<longleftrightarrow> is_expr_data d"
| "is_expr_data (AST_NUM x) \<longleftrightarrow> True"
| "is_expr_data (AST_STR s) \<longleftrightarrow> True"
| "is_expr_data (AST_IDENT s) \<longleftrightarrow> True"
| "is_expr_data AST_NULL \<longleftrightarrow> True"
| "is_expr_data (AST_BINOP op l r) \<longleftrightarrow> is_expr l \<and> is_expr r"
| "is_expr_data (AST_UNARY op e) \<longleftrightarrow> is_expr e"
| "is_expr_data (AST_ASSIGN s e b) \<longleftrightarrow> False"
| "is_expr_data (AST_RELATION l r) \<longleftrightarrow> is_expr l \<and> is_expr r"
| "is_expr_data (AST_IF c t e) \<longleftrightarrow> False"
| "is_expr_data (AST_LOOP c b) \<longleftrightarrow> False"
| "is_expr_data (AST_FUNC s ps ds k b) \<longleftrightarrow> False"
| "is_expr_data (AST_RETURN e) \<longleftrightarrow> False"
| "is_expr_data (AST_BLOCK b) \<longleftrightarrow> False"
| "is_expr_data (AST_LIST es) \<longleftrightarrow> list_all (\<lambda>b. b) (map is_expr es)"
| "is_expr_data (AST_INDEX t i) \<longleftrightarrow> is_expr t \<and> is_expr i"
| "is_expr_data (AST_LISTCOMP e s i f) \<longleftrightarrow>
     is_expr e \<and> is_expr i \<and> pred_option (\<lambda>b. b) (map_option is_expr f)"
| "is_expr_data (AST_FOR s i b) \<longleftrightarrow> False"
| "is_expr_data (AST_PROGRAM b) \<longleftrightarrow> False"
| "is_expr_data (AST_INTERROGATE k e a w) \<longleftrightarrow>
     is_expr e \<and> pred_option (\<lambda>b. b) (map_option is_expr a) \<and> pred_option (\<lambda>b. b) (map_option is_expr w)"
| "is_expr_data (AST_PREDICATE k) \<longleftrightarrow> True"
| "is_expr_data (AST_TRY b s c) \<longleftrightarrow> False"
| "is_expr_data (AST_DICT ks vs) \<longleftrightarrow>
     list_all (\<lambda>b. b) (map is_expr ks) \<and> list_all (\<lambda>b. b) (map is_expr vs)"
| "is_expr_data (AST_DOT t s) \<longleftrightarrow> is_expr t"
| "is_expr_data AST_BREAK \<longleftrightarrow> False"
| "is_expr_data AST_CONTINUE \<longleftrightarrow> False"
| "is_expr_data (AST_DOT_ASSIGN t s e) \<longleftrightarrow> False"
| "is_expr_data (AST_IMPORT s) \<longleftrightarrow> False"
| "is_expr_data (AST_MATCH e ps bs) \<longleftrightarrow> False"
| "is_expr_data (AST_LAMBDA ps b) \<longleftrightarrow> is_expr b"
| "is_expr_data (AST_UNOBSERVED b) \<longleftrightarrow> False"
| "is_expr_data (AST_INDEX_ASSIGN t i e op) \<longleftrightarrow> False"
| "is_expr_data (AST_LIST_PATTERN_ASSIGN ns hs e) \<longleftrightarrow> False"
| "is_expr_data (AST_SLICE t a b) \<longleftrightarrow>
     is_expr t \<and> pred_option (\<lambda>b. b) (map_option is_expr a) \<and> pred_option (\<lambda>b. b) (map_option is_expr b)"

lemma map_option_id: "(\<And>x. x \<in> set_option a \<Longrightarrow> f x = x) \<Longrightarrow> map_option f a = a"
  by (cases a) auto

lemma clone_ast_expr_aux:
  "is_expr a \<longrightarrow> clone_ast a = a"
  "is_expr_data d \<longrightarrow> clone_data d = d"
  by (induction a and d)
    (auto simp: list_all_iff option.pred_set map_idI intro!: map_option_id map_idI)

lemma clone_ast_expr: "is_expr a \<Longrightarrow> clone_ast a = a"
  using clone_ast_expr_aux(1) by blast

text \<open>It is not the copy of a compound index assignment, whose operator it leaves out.\<close>

lemma clone_ast_drops_compound_op:
  "clone_ast (make_node (AST_INDEX_ASSIGN (make_node AST_NULL 1) (make_node AST_NULL 1) (make_node AST_NULL 1) ''+'') 1)
     = make_node (AST_INDEX_ASSIGN (make_node AST_NULL 1) (make_node AST_NULL 1) (make_node AST_NULL 1) []) 1"
  by (simp add: make_node_def make_node_col_def)

end
