(* ===== verification/Eigs_Parser_Base.thy ===== *)
theory Eigs_Parser_Base
  imports Eigs_Ast Eigs_Diag
begin

text \<open>
  The parser's state and its token-level operations (\<open>src/parser.c\<close>), in the state
  monad: the cursor over the token list, the shared nesting depth, the diagnostics,
  and the two statement-entry snapshots. What is written to stderr only (hints,
  source excerpts) is not modelled; the recorded errors and their count are.
\<close>

record pstate =
  ps_toks :: "token list"
  ps_pos :: nat
  g_parse_depth :: nat
  ps_diag :: diag
  g_stmt_err_base :: nat
  g_stmt_start_pos :: nat
  out_of_fuel :: bool

type_synonym 'a parser = "(pstate, 'a) state"

abbreviation ret :: "'a \<Rightarrow> 'a parser" where
  "ret \<equiv> State_Monad.return"

definition p_gets :: "(pstate \<Rightarrow> 'a) \<Rightarrow> 'a parser" where
  "p_gets f = State (\<lambda>s. (f s, s))"

definition p_modify :: "(pstate \<Rightarrow> pstate) \<Rightarrow> unit parser" where
  "p_modify f = State (\<lambda>s. ((), f s))"

lemma run_p_gets [simp]: "run_state (p_gets f) s = (f s, s)"
  by (simp add: p_gets_def)

lemma run_p_modify [simp]: "run_state (p_modify f) s = ((), f s)"
  by (simp add: p_modify_def)

definition PARSE_MAX_DEPTH :: nat where
  "PARSE_MAX_DEPTH = 256"

definition MAX_PARAMS :: nat where
  "MAX_PARAMS = 16"

definition MAX_LIST :: nat where
  "MAX_LIST = 1024"

definition MAX_MATCH_CASES :: nat where
  "MAX_MATCH_CASES = 64"

definition MAX_PATTERN_NAMES :: nat where
  "MAX_PATTERN_NAMES = 64"

subsection \<open>The cursor\<close>

text \<open>Past the end the last token stands for every further one.\<close>

definition tok_at :: "pstate \<Rightarrow> nat \<Rightarrow> token" where
  "tok_at s i = (if length (ps_toks s) \<le> i then last (ps_toks s) else ps_toks s ! i)"

definition cur_tok :: "pstate \<Rightarrow> token" where
  "cur_tok s = tok_at s (ps_pos s)"

definition p_cur :: "token parser" where
  "p_cur = p_gets cur_tok"

definition p_cur_type :: "tok_type parser" where
  "p_cur_type = p_gets (\<lambda>s. tk_type (cur_tok s))"

definition p_cur_line :: "int parser" where
  "p_cur_line = p_gets (\<lambda>s. tk_line (cur_tok s))"

definition p_peek :: "nat \<Rightarrow> token parser" where
  "p_peek offset = p_gets (\<lambda>s. tok_at s (ps_pos s + offset))"

definition p_pos :: "nat parser" where
  "p_pos = p_gets ps_pos"

definition p_step :: "pstate \<Rightarrow> pstate" where
  "p_step s = (if ps_pos s < length (ps_toks s) then s\<lparr>ps_pos := ps_pos s + 1\<rparr> else s)"

definition p_advance :: "token parser" where
  "p_advance = do { t \<leftarrow> p_cur; p_modify p_step; ret t }"

definition p_match :: "tok_type \<Rightarrow> bool parser" where
  "p_match type = do {
     t \<leftarrow> p_cur_type;
     if t = type then do { _ \<leftarrow> p_advance; ret True } else ret False }"

subsection \<open>Loops\<close>

text \<open>
  A loop: the body returns the new value and whether to go round again. Every round
  of the code's loops consumes a token, so the tokens left bound them; running out
  of that bound raises \<open>out_of_fuel\<close>, which is proved not to happen.
\<close>

definition p_out_of_fuel :: "unit parser" where
  "p_out_of_fuel = p_modify (\<lambda>s. s\<lparr>out_of_fuel := True\<rparr>)"

primrec p_loop :: "nat \<Rightarrow> ('a \<Rightarrow> ('a \<times> bool) parser) \<Rightarrow> 'a \<Rightarrow> 'a parser" where
  "p_loop 0 body a = do { _ \<leftarrow> p_out_of_fuel; ret a }"
| "p_loop (Suc n) body a = do { r \<leftarrow> body a; if snd r then p_loop n body (fst r) else ret (fst r) }"

definition tokens_left :: "pstate \<Rightarrow> nat" where
  "tokens_left s = length (ps_toks s) - ps_pos s"

definition p_while :: "('a \<Rightarrow> ('a \<times> bool) parser) \<Rightarrow> 'a \<Rightarrow> 'a parser" where
  "p_while body a = do { n \<leftarrow> p_gets tokens_left; p_loop (Suc n) body a }"

text \<open>Advance while the current token's kind satisfies \<open>P\<close>.\<close>

definition p_skip_while :: "(tok_type \<Rightarrow> bool) \<Rightarrow> unit parser" where
  "p_skip_while P =
     p_while (\<lambda>_. do {
       t \<leftarrow> p_cur_type;
       if P t then do { _ \<leftarrow> p_advance; ret ((), True) } else ret ((), False) }) ()"

definition p_skip_newlines :: "unit parser" where
  "p_skip_newlines = p_skip_while (\<lambda>t. t = TOK_NEWLINE)"

definition ends_line :: "tok_type \<Rightarrow> bool" where
  "ends_line t \<longleftrightarrow> t = TOK_NEWLINE \<or> t = TOK_EOF \<or> t = TOK_DEDENT"

definition p_skip_to_eol :: "unit parser" where
  "p_skip_to_eol = do { _ \<leftarrow> p_skip_while (\<lambda>t. \<not> ends_line t); _ \<leftarrow> p_match TOK_NEWLINE; ret () }"

subsection \<open>Errors\<close>

text \<open>\<open>g_parse_errors++\<close> alone: some diagnostics go to stderr and are not recorded.\<close>

definition p_count_error :: "unit parser" where
  "p_count_error = p_modify (\<lambda>s. s\<lparr>ps_diag := count_error (ps_diag s)\<rparr>)"

definition p_record_at :: "int \<Rightarrow> int \<Rightarrow> int \<Rightarrow> string \<Rightarrow> string \<Rightarrow> unit parser" where
  "p_record_at line col len code msg =
     p_modify (\<lambda>s. s\<lparr>ps_diag := count_error (eigs_record_first_error_code_at line col len code msg (ps_diag s))\<rparr>)"

definition p_error_at :: "token \<Rightarrow> string \<Rightarrow> unit parser" where
  "p_error_at t msg = p_record_at (tk_line t) (tk_col t) (tk_len t) ''E002'' msg"

definition p_error_line :: "int \<Rightarrow> string \<Rightarrow> unit parser" where
  "p_error_line line msg = p_record_at line (- 1) 0 ''E002'' msg"

text \<open>\<open>%s\<close> of a string that may be NULL.\<close>

definition printed :: "string option \<Rightarrow> string" where
  "printed s = (case s of None \<Rightarrow> ''(null)'' | Some str \<Rightarrow> str)"

definition p_report_error :: "token \<Rightarrow> bool \<Rightarrow> bool parser" where
  "p_report_error t operand =
     (if tok_is_report (tk_type t) then do {
        _ \<leftarrow> p_record_at (tk_line t) (tk_col t) (tk_len t) ''E005''
          (take 191 (quoted (printed (tk_str t)) @ '' is a reserved observer form; '' @
             (if operand then ''requires a variable name operand''
              else ''use it with '' @ quoted ''of variable'' @ '', never as a binding'')));
        ret True }
      else ret False)"

definition p_expect :: "tok_type \<Rightarrow> unit parser" where
  "p_expect type = do {
     t \<leftarrow> p_cur;
     if tk_type t = type then do { _ \<leftarrow> p_advance; ret () }
     else do {
       r \<leftarrow> p_report_error t False;
       if r then do { _ \<leftarrow> p_advance; ret () }
       else do {
         _ \<leftarrow> p_error_at t (take 159 (''expected '' @ tok_type_name type @ '', got '' @ tok_type_name (tk_type t)));
         _ \<leftarrow> p_advance;
         ret () } } }"

definition p_expect_ident_like :: "unit parser" where
  "p_expect_ident_like = do {
     t \<leftarrow> p_cur_type;
     if tok_is_ident_like t then do { _ \<leftarrow> p_advance; ret () } else p_expect TOK_IDENT }"

definition p_expect_dot_key :: "unit parser" where
  "p_expect_dot_key = do {
     t \<leftarrow> p_cur_type;
     if tok_is_dot_key t then do { _ \<leftarrow> p_advance; ret () } else p_expect TOK_IDENT }"

text \<open>
  The end of a statement: a NEWLINE, or EOF or DEDENT left in place. Anything else is
  reported once per statement, and the rest of the line is skipped.
\<close>

definition p_end_statement :: "unit parser" where
  "p_end_statement = do {
     m \<leftarrow> p_match TOK_NEWLINE;
     if m then ret ()
     else do {
       t \<leftarrow> p_cur;
       if tk_type t = TOK_EOF \<or> tk_type t = TOK_DEDENT then ret ()
       else do {
         reported \<leftarrow> p_gets (\<lambda>s. g_stmt_err_base s < g_parse_errors (ps_diag s));
         if reported then p_skip_to_eol
         else do {
           _ \<leftarrow> p_error_at t (take 159 (''unexpected '' @ tok_type_name (tk_type t) @ '' after statement''));
           p_skip_to_eol } } } }"

subsection \<open>Depth\<close>

definition p_deeper :: "unit parser" where
  "p_deeper = p_modify (\<lambda>s. s\<lparr>g_parse_depth := g_parse_depth s + 1\<rparr>)"

definition p_shallower :: "unit parser" where
  "p_shallower = p_modify (\<lambda>s. s\<lparr>g_parse_depth := g_parse_depth s - 1\<rparr>)"

definition p_depth_full :: "bool parser" where
  "p_depth_full = p_gets (\<lambda>s. PARSE_MAX_DEPTH \<le> g_parse_depth s)"

text \<open>Charge one element of a chain; True when the limit is reached.\<close>

definition chain_too_deep :: "bool parser" where
  "chain_too_deep = do {
     full \<leftarrow> p_depth_full;
     if full then do {
       line \<leftarrow> p_cur_line;
       _ \<leftarrow> p_error_line line ''expression too deeply nested'';
       ret True }
     else do { _ \<leftarrow> p_deeper; ret False } }"

text \<open>
  The unread arms of an \<open>elif\<close> chain the depth guard refused: the header up to the
  line end, the blank lines, and the indented block, arm by arm up to an \<open>else\<close>.
\<close>

definition skip_block_tail :: "unit parser" where
  "skip_block_tail = do {
     level \<leftarrow> p_while (\<lambda>level. do {
       t \<leftarrow> p_cur_type;
       (let level' = (if t = TOK_INDENT then level + 1 else if t = TOK_DEDENT then level - 1 else level)
        in do {
          _ \<leftarrow> p_advance;
          u \<leftarrow> p_cur_type;
          ret (level', 0 < level' \<and> u \<noteq> TOK_EOF) }) }) (0 :: int);
     ret () }"

definition p_skip_elif_tail :: "unit parser" where
  "p_skip_elif_tail = p_while (\<lambda>_. do {
     t \<leftarrow> p_cur_type;
     if t \<noteq> TOK_ELIF \<and> t \<noteq> TOK_ELSE then ret ((), False)
     else do {
       _ \<leftarrow> p_advance;
       _ \<leftarrow> p_skip_while (\<lambda>t. t \<noteq> TOK_NEWLINE \<and> t \<noteq> TOK_EOF);
       _ \<leftarrow> p_skip_newlines;
       u \<leftarrow> p_cur_type;
       _ \<leftarrow> (if u = TOK_INDENT then skip_block_tail else ret ());
       ret ((), t \<noteq> TOK_ELSE) } }) ()"

end
