(* ===== verification/Eigs_Parser.thy ===== *)
theory Eigs_Parser
  imports Eigs_Parser_Base
begin

text \<open>
  The recursive-descent grammar (\<open>src/parser.c\<close>), one definition per C function, the
  long ones one per branch. Within a level the recursion is open: \<open>pe\<close> is
  \<open>parse_expression\<close> and \<open>pu\<close> is \<open>parse_unary\<close>, \<open>ps\<close> is \<open>parse_statement\<close> and
  \<open>pb\<close> is \<open>parse_block\<close>. The knots are tied at the end by recursion on a fuel that
  the depth guards of the code bound.
\<close>

subsection \<open>Postfix chains\<close>

text \<open>\<open>xstrdup\<close> of a token's text, which is empty for NULL.\<close>

definition str_val :: "token \<Rightarrow> string" where
  "str_val t = (case tk_str t of None \<Rightarrow> [] | Some s \<Rightarrow> s)"

definition ident_node :: "token \<Rightarrow> ast" where
  "ident_node t = set_name_hash (make_node_col (AST_IDENT (str_val t)) (tk_line t) (tk_col t)) (str_val t)"

definition parse_subscript_suffix :: "ast parser \<Rightarrow> ast \<Rightarrow> ast parser" where
  "parse_subscript_suffix pe target = do {
     b \<leftarrow> p_cur;
     _ \<leftarrow> p_advance;
     t \<leftarrow> p_cur_type;
     n \<leftarrow> (if t = TOK_COLON then do {
         _ \<leftarrow> p_advance;
         u \<leftarrow> p_cur_type;
         end \<leftarrow> (if u \<noteq> TOK_RBRACKET then do { e \<leftarrow> pe; ret (Some e) } else ret None);
         ret (AST_SLICE target None end) }
       else do {
         start \<leftarrow> pe;
         u \<leftarrow> p_cur_type;
         if u = TOK_COLON then do {
           _ \<leftarrow> p_advance;
           v \<leftarrow> p_cur_type;
           end \<leftarrow> (if v \<noteq> TOK_RBRACKET then do { e \<leftarrow> pe; ret (Some e) } else ret None);
           ret (AST_SLICE target (Some start) end) }
         else ret (AST_INDEX target start) });
     _ \<leftarrow> p_expect TOK_RBRACKET;
     ret (make_node_col n (tk_line b) (tk_col b)) }"

text \<open>A \<open>.key\<close>: the line is the key's in a parenthesised target, the next token's elsewhere.\<close>

definition parse_dot_suffix :: "bool \<Rightarrow> ast \<Rightarrow> ast parser" where
  "parse_dot_suffix key_line target = do {
     _ \<leftarrow> p_advance;
     k \<leftarrow> p_cur;
     _ \<leftarrow> p_expect_dot_key;
     line \<leftarrow> p_cur_line;
     ret (set_name_hash
       (make_node_col (AST_DOT target (str_val k)) (if key_line then tk_line k else line) (tk_col k))
       (str_val k)) }"

text \<open>\<open>[i]\<close>, \<open>[a:b]\<close> and \<open>.key\<close> applied to a primary, as long as they come.\<close>

definition postfix_loop :: "ast parser \<Rightarrow> bool \<Rightarrow> ast \<Rightarrow> ast parser" where
  "postfix_loop pe key_line = p_while (\<lambda>n. do {
     t \<leftarrow> p_cur_type;
     if t = TOK_LBRACKET \<or> t = TOK_DOT then do {
       deep \<leftarrow> chain_too_deep;
       if deep then ret (n, False)
       else do {
         n' \<leftarrow> (if t = TOK_DOT then parse_dot_suffix key_line n else parse_subscript_suffix pe n);
         ret (n', True) } }
     else ret (n, False) })"

definition parse_postfix_chain :: "ast parser \<Rightarrow> ast \<Rightarrow> ast parser" where
  "parse_postfix_chain pe n = postfix_loop pe False n"

text \<open>The subscripts of a literal.\<close>

definition subscript_loop :: "ast parser \<Rightarrow> ast \<Rightarrow> ast parser" where
  "subscript_loop pe = p_while (\<lambda>n. do {
     t \<leftarrow> p_cur_type;
     if t = TOK_LBRACKET then do {
       deep \<leftarrow> chain_too_deep;
       if deep then ret (n, False)
       else do { n' \<leftarrow> parse_subscript_suffix pe n; ret (n', True) } }
     else ret (n, False) })"

subsection \<open>Primaries\<close>

text \<open>The \<open>at\<close> or \<open>when\<close> qualifier of an interrogative.\<close>

definition parse_qualifier :: "ast parser \<Rightarrow> (ast option \<times> ast option) parser" where
  "parse_qualifier pe = do {
     t \<leftarrow> p_cur_type;
     if t = TOK_AT then do { _ \<leftarrow> p_advance; e \<leftarrow> pe; ret (Some e, None) }
     else if t = TOK_WHEN then do { _ \<leftarrow> p_advance; e \<leftarrow> pe; ret (None, Some e) }
     else ret (None, None) }"

definition is_question :: "tok_type \<Rightarrow> bool" where
  "is_question t \<longleftrightarrow> tok_code TOK_WHAT \<le> tok_code t \<and> tok_code t \<le> tok_code TOK_HOW"

definition is_predicate :: "tok_type \<Rightarrow> bool" where
  "is_predicate t \<longleftrightarrow> tok_code TOK_CONVERGED \<le> tok_code t \<and> tok_code t \<le> tok_code TOK_EQUILIBRIUM"

definition primary_question :: "ast parser \<Rightarrow> token \<Rightarrow> ast parser" where
  "primary_question pe t = do {
     _ \<leftarrow> p_advance;
     u \<leftarrow> p_cur_type;
     if u = TOK_IS then do {
       _ \<leftarrow> p_advance;
       expr \<leftarrow> pe;
       q \<leftarrow> parse_qualifier pe;
       line \<leftarrow> p_cur_line;
       ret (make_node (AST_INTERROGATE (int (tok_code (tk_type t)) - int (tok_code TOK_WHAT)) expr (fst q) (snd q)) line) }
     else parse_postfix_chain pe (ident_node t) }"

definition primary_prev :: "ast parser \<Rightarrow> ast parser \<Rightarrow> token \<Rightarrow> ast parser" where
  "primary_prev pe pu t = do {
     _ \<leftarrow> p_advance;
     u \<leftarrow> p_cur_type;
     if u = TOK_OF then do {
       _ \<leftarrow> p_advance;
       expr \<leftarrow> pu;
       _ \<leftarrow> (case nd_data expr of
               AST_IDENT _ \<Rightarrow> ret ()
             | _ \<Rightarrow> p_error_line (tk_line t) (quoted ''prev of'' @ '' requires a variable name''));
       q \<leftarrow> parse_qualifier pe;
       line \<leftarrow> p_cur_line;
       ret (make_node (AST_INTERROGATE 6 expr (fst q) (snd q)) line) }
     else parse_postfix_chain pe (ident_node t) }"

definition primary_predicate :: "token \<Rightarrow> ast parser" where
  "primary_predicate t = do {
     _ \<leftarrow> p_advance;
     line \<leftarrow> p_cur_line;
     ret (make_node (AST_PREDICATE (int (tok_code (tk_type t)) - int (tok_code TOK_CONVERGED))) line) }"

definition primary_literal :: "ast parser \<Rightarrow> ast_data \<Rightarrow> ast parser" where
  "primary_literal pe d = do {
     _ \<leftarrow> p_advance;
     line \<leftarrow> p_cur_line;
     subscript_loop pe (make_node d line) }"

definition primary_report :: "token \<Rightarrow> ast parser" where
  "primary_report t = do {
     _ \<leftarrow> p_advance;
     u \<leftarrow> p_cur_type;
     _ \<leftarrow> (if u \<noteq> TOK_OF then p_report_error t False else ret False);
     ret (ident_node t) }"

text \<open>The scan that tells a lambda from a parenthesised expression: names and commas, then \<open>) =>\<close>.\<close>

definition is_param :: "tok_type \<Rightarrow> bool" where
  "is_param t \<longleftrightarrow> tok_is_ident_like t \<or> tok_is_report t"

definition lambda_ahead :: "pstate \<Rightarrow> bool" where
  "lambda_ahead s =
     (let t = tk_type (cur_tok (p_step s)) in
      (is_param t \<or> t = TOK_RPAREN) \<and>
      (case dropWhile (\<lambda>u. is_param (tk_type u) \<or> tk_type u = TOK_COMMA)
              (drop (ps_pos (p_step s)) (ps_toks s)) of
         a # b # _ \<Rightarrow> tk_type a = TOK_RPAREN \<and> tk_type b = TOK_ARROW
       | _ \<Rightarrow> False))"

text \<open>The parameters of a lambda, and whether the cap has been reported.\<close>

definition lambda_params :: "(string list \<times> bool) parser" where
  "lambda_params = p_while (\<lambda>(params, reported). do {
     t \<leftarrow> p_cur;
     if is_param (tk_type t) then do {
       _ \<leftarrow> p_report_error t False;
       if MAX_PARAMS \<le> length params then do {
         _ \<leftarrow> (if reported then ret () else p_count_error);
         _ \<leftarrow> p_advance;
         _ \<leftarrow> p_match TOK_COMMA;
         ret ((params, True), True) }
       else do {
         _ \<leftarrow> p_advance;
         _ \<leftarrow> p_match TOK_COMMA;
         ret ((params @ [str_val t], reported), True) } }
     else ret ((params, reported), False) }) ([], False)"

definition primary_lambda :: "ast parser \<Rightarrow> token \<Rightarrow> ast parser" where
  "primary_lambda pe t = do {
     _ \<leftarrow> p_advance;
     r \<leftarrow> lambda_params;
     _ \<leftarrow> p_expect TOK_RPAREN;
     _ \<leftarrow> p_expect TOK_ARROW;
     body \<leftarrow> pe;
     ret (make_node (AST_LAMBDA (if fst r = [] then [''n''] else fst r) body) (tk_line t)) }"

definition primary_group :: "ast parser \<Rightarrow> ast parser" where
  "primary_group pe = do {
     _ \<leftarrow> p_advance;
     expr \<leftarrow> pe;
     _ \<leftarrow> p_expect TOK_RPAREN;
     postfix_loop pe True (set_parenthesized expr) }"

text \<open>The elements after the first: a trailing comma is allowed, the cap ends the literal.\<close>

definition list_elems :: "ast parser \<Rightarrow> ast list \<Rightarrow> ast list parser" where
  "list_elems pe = p_while (\<lambda>elems. do {
     t \<leftarrow> p_cur_type;
     if t = TOK_COMMA then do {
       _ \<leftarrow> p_advance;
       u \<leftarrow> p_cur_type;
       if u = TOK_RBRACKET then ret (elems, False)
       else if MAX_LIST \<le> length elems then do { _ \<leftarrow> p_count_error; ret (elems, False) }
       else do { e \<leftarrow> pe; ret (elems @ [e], True) } }
     else ret (elems, False) })"

definition primary_list :: "ast parser \<Rightarrow> ast parser" where
  "primary_list pe = do {
     _ \<leftarrow> p_advance;
     t \<leftarrow> p_cur_type;
     if t = TOK_RBRACKET then do {
       _ \<leftarrow> p_advance;
       line \<leftarrow> p_cur_line;
       ret (make_node (AST_LIST []) line) }
     else do {
       first \<leftarrow> pe;
       u \<leftarrow> p_cur_type;
       if u = TOK_FOR then do {
         _ \<leftarrow> p_advance;
         var \<leftarrow> p_cur;
         _ \<leftarrow> p_expect_ident_like;
         _ \<leftarrow> p_expect TOK_IN;
         iter \<leftarrow> pe;
         v \<leftarrow> p_cur_type;
         filter \<leftarrow> (if v = TOK_IF then do { _ \<leftarrow> p_advance; e \<leftarrow> pe; ret (Some e) } else ret None);
         _ \<leftarrow> p_expect TOK_RBRACKET;
         line \<leftarrow> p_cur_line;
         ret (set_name_hash (make_node (AST_LISTCOMP first (str_val var) iter filter) line) (str_val var)) }
       else do {
         elems \<leftarrow> list_elems pe [first];
         _ \<leftarrow> p_expect TOK_RBRACKET;
         line \<leftarrow> p_cur_line;
         subscript_loop pe (make_node (AST_LIST elems) line) } } }"

definition dict_entry :: "ast parser \<Rightarrow> ast list \<times> ast list \<Rightarrow> (ast list \<times> ast list) parser" where
  "dict_entry pe kv = do {
     k \<leftarrow> pe;
     _ \<leftarrow> p_expect TOK_COLON;
     v \<leftarrow> pe;
     ret (fst kv @ [k], snd kv @ [v]) }"

definition dict_entries :: "ast parser \<Rightarrow> ast list \<times> ast list \<Rightarrow> (ast list \<times> ast list) parser" where
  "dict_entries pe = p_while (\<lambda>kv. do {
     t \<leftarrow> p_cur_type;
     if t = TOK_COMMA then do {
       _ \<leftarrow> p_advance;
       u \<leftarrow> p_cur_type;
       if u = TOK_RBRACE then ret (kv, False)
       else if MAX_LIST \<le> length (fst kv) then do { _ \<leftarrow> p_count_error; ret (kv, False) }
       else do { kv' \<leftarrow> dict_entry pe kv; ret (kv', True) } }
     else ret (kv, False) })"

definition primary_dict :: "ast parser \<Rightarrow> ast parser" where
  "primary_dict pe = do {
     _ \<leftarrow> p_advance;
     t \<leftarrow> p_cur_type;
     kv \<leftarrow> (if t \<noteq> TOK_RBRACE then do { kv \<leftarrow> dict_entry pe ([], []); dict_entries pe kv } else ret ([], []));
     _ \<leftarrow> p_expect TOK_RBRACE;
     line \<leftarrow> p_cur_line;
     postfix_loop pe False (make_node (AST_DICT (fst kv) (snd kv)) line) }"

text \<open>No primary starts here.\<close>

definition primary_error :: "token \<Rightarrow> ast parser" where
  "primary_error t = do {
     line \<leftarrow> p_cur_line;
     _ \<leftarrow> (if ends_line (tk_type t) then p_error_line (tk_line t) ''expected expression''
          else do {
            _ \<leftarrow> p_error_line (tk_line t)
              (take 159 (''unexpected '' @ tok_type_name (tk_type t) @ '' in expression''));
            _ \<leftarrow> p_advance;
            ret () });
     ret (make_node AST_NULL line) }"

definition parse_primary :: "ast parser \<Rightarrow> ast parser \<Rightarrow> ast parser" where
  "parse_primary pe pu = do {
     t \<leftarrow> p_cur;
     lambda \<leftarrow> p_gets lambda_ahead;
     (let ty = tk_type t in
      if is_question ty then primary_question pe t
      else if ty = TOK_PREV then primary_prev pe pu t
      else if ty = TOK_AT then do { _ \<leftarrow> p_advance; parse_postfix_chain pe (ident_node t) }
      else if is_predicate ty then primary_predicate t
      else if ty = TOK_NUM then primary_literal pe (AST_NUM (tk_num t))
      else if ty = TOK_STR then primary_literal pe (AST_STR (str_val t))
      else if ty = TOK_NULL then do { _ \<leftarrow> p_advance; line \<leftarrow> p_cur_line; ret (make_node AST_NULL line) }
      else if tok_is_report ty then primary_report t
      else if ty = TOK_IDENT then do { _ \<leftarrow> p_advance; parse_postfix_chain pe (ident_node t) }
      else if ty = TOK_LPAREN then (if lambda then primary_lambda pe t else primary_group pe)
      else if ty = TOK_LBRACKET then primary_list pe
      else if ty = TOK_LBRACE then primary_dict pe
      else primary_error t) }"

subsection \<open>Operators\<close>

definition parse_relation :: "ast parser \<Rightarrow> ast parser \<Rightarrow> ast parser" where
  "parse_relation pe pu = do {
     callee \<leftarrow> p_cur;
     left \<leftarrow> parse_primary pe pu;
     t \<leftarrow> p_cur_type;
     if t = TOK_OF then do {
       op_tok \<leftarrow> p_advance;
       right \<leftarrow> pu;
       _ \<leftarrow> (case nd_data right of
               AST_IDENT _ \<Rightarrow> ret False
             | _ \<Rightarrow> p_report_error callee True);
       ret (make_node_col (AST_RELATION left right) (tk_line op_tok) (tk_col op_tok)) }
     else ret left }"

definition prefix_op :: "tok_type \<Rightarrow> string option" where
  "prefix_op t =
     (if t = TOK_MINUS then Some ''-'' else if t = TOK_NOT then Some ''not''
      else if t = TOK_TILDE then Some ''~'' else None)"

definition parse_unary_body :: "ast parser \<Rightarrow> ast parser \<Rightarrow> ast parser" where
  "parse_unary_body pe pu = do {
     t \<leftarrow> p_cur_type;
     (case prefix_op t of
        Some op \<Rightarrow> do {
          op_tok \<leftarrow> p_advance;
          operand \<leftarrow> pu;
          ret (make_node_col (AST_UNARY op operand) (tk_line op_tok) (tk_col op_tok)) }
      | None \<Rightarrow> parse_relation pe pu) }"

text \<open>A left-associative level: \<open>op_of\<close> are its operators, \<open>next\<close> the tighter level.\<close>

definition binop_loop :: "(tok_type \<Rightarrow> string option) \<Rightarrow> ast parser \<Rightarrow> ast \<Rightarrow> ast parser" where
  "binop_loop op_of next = p_while (\<lambda>left. do {
     t \<leftarrow> p_cur_type;
     (case op_of t of
        None \<Rightarrow> ret (left, False)
      | Some op \<Rightarrow> do {
          deep \<leftarrow> chain_too_deep;
          if deep then ret (left, False)
          else do {
            op_tok \<leftarrow> p_advance;
            right \<leftarrow> next;
            ret (make_node_col (AST_BINOP op left right) (tk_line op_tok) (tk_col op_tok), True) } }) })"

definition binop_level :: "(tok_type \<Rightarrow> string option) \<Rightarrow> ast parser \<Rightarrow> ast parser" where
  "binop_level op_of next = do { left \<leftarrow> next; binop_loop op_of next left }"

definition mul_op :: "tok_type \<Rightarrow> string option" where
  "mul_op t = (if t = TOK_STAR then Some ''*'' else if t = TOK_SLASH then Some ''/''
     else if t = TOK_PERCENT then Some ''%'' else None)"

definition add_op :: "tok_type \<Rightarrow> string option" where
  "add_op t = (if t = TOK_PLUS then Some ''+'' else if t = TOK_MINUS then Some ''-'' else None)"

definition shift_op :: "tok_type \<Rightarrow> string option" where
  "shift_op t = (if t = TOK_SHL then Some ''<<'' else if t = TOK_SHR then Some ''>>'' else None)"

definition bitand_op :: "tok_type \<Rightarrow> string option" where
  "bitand_op t = (if t = TOK_AMP then Some ''&'' else None)"

definition bitxor_op :: "tok_type \<Rightarrow> string option" where
  "bitxor_op t = (if t = TOK_CARET then Some ''^'' else None)"

definition bitor_op :: "tok_type \<Rightarrow> string option" where
  "bitor_op t = (if t = TOK_BITOR then Some ''|'' else None)"

definition comparison_op :: "tok_type \<Rightarrow> string option" where
  "comparison_op t =
     (if t = TOK_LT then Some ''<'' else if t = TOK_GT then Some ''>''
      else if t = TOK_LE then Some ''<='' else if t = TOK_GE then Some ''>=''
      else if t = TOK_EQ then Some ''='' else if t = TOK_NE then Some ''!='' else None)"

definition and_op :: "tok_type \<Rightarrow> string option" where
  "and_op t = (if t = TOK_AND then Some ''and'' else None)"

definition or_op :: "tok_type \<Rightarrow> string option" where
  "or_op t = (if t = TOK_OR then Some ''or'' else None)"

definition parse_multiply :: "ast parser \<Rightarrow> ast parser" where
  "parse_multiply pu = binop_level mul_op pu"

definition parse_addition :: "ast parser \<Rightarrow> ast parser" where
  "parse_addition pu = binop_level add_op (parse_multiply pu)"

definition parse_shift :: "ast parser \<Rightarrow> ast parser" where
  "parse_shift pu = binop_level shift_op (parse_addition pu)"

definition parse_bitand :: "ast parser \<Rightarrow> ast parser" where
  "parse_bitand pu = binop_level bitand_op (parse_shift pu)"

definition parse_bitxor :: "ast parser \<Rightarrow> ast parser" where
  "parse_bitxor pu = binop_level bitxor_op (parse_bitand pu)"

definition parse_bitor :: "ast parser \<Rightarrow> ast parser" where
  "parse_bitor pu = binop_level bitor_op (parse_bitxor pu)"

text \<open>Comparisons do not chain.\<close>

definition parse_comparison :: "ast parser \<Rightarrow> ast parser" where
  "parse_comparison pu = do {
     left \<leftarrow> parse_bitor pu;
     t \<leftarrow> p_cur_type;
     (case comparison_op t of
        None \<Rightarrow> ret left
      | Some op \<Rightarrow> do {
          op_tok \<leftarrow> p_advance;
          right \<leftarrow> parse_bitor pu;
          ret (make_node_col (AST_BINOP op left right) (tk_line op_tok) (tk_col op_tok)) }) }"

definition parse_and :: "ast parser \<Rightarrow> ast parser" where
  "parse_and pu = binop_level and_op (parse_comparison pu)"

definition parse_or :: "ast parser \<Rightarrow> ast parser" where
  "parse_or pu = binop_level or_op (parse_and pu)"

text \<open>\<open>a |> b\<close> is \<open>b of a\<close>.\<close>

definition parse_pipe :: "ast parser \<Rightarrow> ast parser" where
  "parse_pipe pu = do {
     left \<leftarrow> parse_or pu;
     p_while (\<lambda>left. do {
       t \<leftarrow> p_cur_type;
       if t = TOK_PIPE then do {
         deep \<leftarrow> chain_too_deep;
         if deep then ret (left, False)
         else do {
           op_tok \<leftarrow> p_advance;
           fn \<leftarrow> parse_or pu;
           ret (make_node_col (AST_RELATION fn left) (tk_line op_tok) (tk_col op_tok), True) } }
       else ret (left, False) }) left }"

text \<open>The recursion guard: refuse at the limit, else one level deeper.\<close>

definition depth_guard :: "ast parser \<Rightarrow> ast parser" where
  "depth_guard m = do {
     full \<leftarrow> p_depth_full;
     if full then do {
       line \<leftarrow> p_cur_line;
       _ \<leftarrow> p_count_error;
       ret (make_node AST_NULL line) }
     else do { _ \<leftarrow> p_deeper; r \<leftarrow> m; _ \<leftarrow> p_shallower; ret r } }"

fun parse_expression :: "nat \<Rightarrow> pstate \<Rightarrow> ast \<times> pstate"
  and parse_unary :: "nat \<Rightarrow> pstate \<Rightarrow> ast \<times> pstate" where
  "parse_expression 0 s = run_state (do { _ \<leftarrow> p_out_of_fuel; ret (make_node AST_NULL 0) }) s"
| "parse_expression (Suc f) s = run_state (depth_guard (parse_pipe (State (parse_unary f)))) s"
| "parse_unary 0 s = run_state (do { _ \<leftarrow> p_out_of_fuel; ret (make_node AST_NULL 0) }) s"
| "parse_unary (Suc f) s =
     run_state (depth_guard (parse_unary_body (State (parse_expression f)) (State (parse_unary f)))) s"

text \<open>Every level of the recursion adds one to the depth, which the guard keeps to 256.\<close>

definition expr_fuel :: nat where
  "expr_fuel = PARSE_MAX_DEPTH + 1"

definition parse_expr :: "ast parser" where
  "parse_expr = State (parse_expression expr_fuel)"

definition parse_un :: "ast parser" where
  "parse_un = State (parse_unary expr_fuel)"

end
