(* ===== verification/Eigs_Statement.thy ===== *)
theory Eigs_Statement
  imports Eigs_Parser
begin

text \<open>
  Statements, blocks and programs (\<open>src/parser.c\<close>): one definition per branch of
  \<open>parse_statement_inner\<close>. \<open>ps\<close> stands for \<open>parse_statement\<close> until the knot is
  tied; it returns \<open>None\<close> where the code returns NULL. Expressions are parsed by
  \<open>parse_expr\<close>, whose fuel is always enough.
\<close>

subsection \<open>Blocks\<close>

definition p_at_end_of_block :: "bool parser" where
  "p_at_end_of_block = do { t \<leftarrow> p_cur_type; ret (t = TOK_DEDENT \<or> t = TOK_EOF) }"

text \<open>No progress on a statement: report and skip one token.\<close>

definition p_unstick :: "unit parser" where
  "p_unstick = do {
     t \<leftarrow> p_cur;
     _ \<leftarrow> p_error_line (tk_line t)
       (take 159 (''unexpected '' @ tok_type_name (tk_type t) @ '', cannot parse statement''));
     _ \<leftarrow> p_advance;
     ret () }"

text \<open>One statement of a block or program; when it consumed nothing, \<open>unstick\<close> does.\<close>

definition stmt_progress :: "unit parser \<Rightarrow> ast option parser \<Rightarrow> ast list \<Rightarrow> (ast list \<times> bool) parser" where
  "stmt_progress unstick ps stmts = do {
     pos0 \<leftarrow> p_pos;
     stmt \<leftarrow> ps;
     pos1 \<leftarrow> p_pos;
     _ \<leftarrow> (if pos1 = pos0 then unstick else ret ());
     ret (stmts @ (case stmt of None \<Rightarrow> [] | Some a \<Rightarrow> [a]), True) }"

definition block_stmts :: "ast option parser \<Rightarrow> ast list parser" where
  "block_stmts ps = p_while (\<lambda>stmts. do {
     done \<leftarrow> p_at_end_of_block;
     if done then ret (stmts, False)
     else do {
       _ \<leftarrow> p_skip_newlines;
       done' \<leftarrow> p_at_end_of_block;
       if done' then ret (stmts, False) else stmt_progress p_unstick ps stmts } }) []"

definition parse_block :: "ast option parser \<Rightarrow> ast list parser" where
  "parse_block ps = do {
     full \<leftarrow> p_depth_full;
     if full then do { _ \<leftarrow> p_count_error; ret [] }
     else do {
       _ \<leftarrow> p_deeper;
       _ \<leftarrow> p_expect TOK_INDENT;
       _ \<leftarrow> p_skip_newlines;
       stmts \<leftarrow> block_stmts ps;
       _ \<leftarrow> p_match TOK_DEDENT;
       _ \<leftarrow> p_shallower;
       ret stmts } }"

text \<open>The \<open>:\<close>, the line break and the block of a compound statement.\<close>

definition parse_suite :: "ast option parser \<Rightarrow> ast list parser" where
  "parse_suite ps = do { _ \<leftarrow> p_expect TOK_COLON; _ \<leftarrow> p_skip_newlines; parse_block ps }"

subsection \<open>Definitions\<close>

text \<open>Parameters: names, defaults, the first with a default, whether the cap has been reported.\<close>

type_synonym params_state = "string list \<times> ast option list \<times> nat option \<times> bool"

definition define_params :: "params_state parser" where
  "define_params = p_while (\<lambda>(params, defaults, first_default, reported). do {
     t \<leftarrow> p_cur;
     if is_param (tk_type t) then do {
       _ \<leftarrow> p_report_error t False;
       if MAX_PARAMS \<le> length params then do {
         _ \<leftarrow> (if reported then ret () else p_count_error);
         _ \<leftarrow> p_advance;
         is_next \<leftarrow> p_match TOK_IS;
         _ \<leftarrow> (if is_next then do { _ \<leftarrow> parse_expr; ret () } else ret ());
         _ \<leftarrow> p_match TOK_COMMA;
         ret ((params, defaults, first_default, True), True) }
       else do {
         _ \<leftarrow> p_advance;
         is_next \<leftarrow> p_match TOK_IS;
         r \<leftarrow> (if is_next then do {
                  e \<leftarrow> parse_expr;
                  ret (Some e, if first_default = None then Some (length params) else first_default) }
              else do {
                  _ \<leftarrow> (if first_default \<noteq> None then p_count_error else ret ());
                  ret (None, first_default) });
         _ \<leftarrow> p_match TOK_COMMA;
         ret ((params @ [str_val t], defaults @ [fst r], snd r, reported), True) } }
     else ret ((params, defaults, first_default, reported), False) }) ([], [], None, False)"

definition stmt_define :: "ast option parser \<Rightarrow> token \<Rightarrow> ast parser" where
  "stmt_define ps t = do {
     _ \<leftarrow> p_advance;
     name_tok \<leftarrow> p_cur;
     _ \<leftarrow> p_expect TOK_IDENT;
     paren \<leftarrow> p_match TOK_LPAREN;
     r \<leftarrow> (if paren then do { r \<leftarrow> define_params; _ \<leftarrow> p_expect TOK_RPAREN; ret r }
          else ret ([], [], None, False));
     _ \<leftarrow> p_match TOK_AS;
     body \<leftarrow> parse_suite ps;
     (case r of (ps0, ds0, fd, _) \<Rightarrow>
        let params = (if ps0 = [] then [''n''] else ps0);
            defaults = (if ps0 = [] then [None] else ds0);
            first_default = (case fd of None \<Rightarrow> length params | Some k \<Rightarrow> k)
        in ret (set_name_hash
             (make_node (AST_FUNC (str_val name_tok) params defaults first_default body) (tk_line t))
             (str_val name_tok))) }"

subsection \<open>Try and match\<close>

definition stmt_try :: "ast option parser \<Rightarrow> token \<Rightarrow> ast parser" where
  "stmt_try ps t = do {
     _ \<leftarrow> p_advance;
     try_body \<leftarrow> parse_suite ps;
     _ \<leftarrow> p_skip_newlines;
     _ \<leftarrow> p_expect TOK_CATCH;
     err_tok \<leftarrow> p_cur;
     err_name \<leftarrow> (if tok_is_ident_like (tk_type err_tok) then do { _ \<leftarrow> p_advance; ret (str_val err_tok) }
                  else ret ''err'');
     catch_body \<leftarrow> parse_suite ps;
     ret (set_name_hash (make_node (AST_TRY try_body err_name catch_body) (tk_line t)) err_name) }"

definition is_wildcard :: "token \<Rightarrow> bool" where
  "is_wildcard t \<longleftrightarrow> tk_type t = TOK_IDENT \<and> tk_str t = Some ''_''"

text \<open>One \<open>case\<close>; \<open>None\<close> is the wildcard.\<close>

definition match_case :: "ast option parser \<Rightarrow> (ast option \<times> ast list) parser" where
  "match_case ps = do {
     _ \<leftarrow> p_advance;
     t \<leftarrow> p_cur;
     pattern \<leftarrow> (if is_wildcard t then do { _ \<leftarrow> p_advance; ret None }
                 else do { e \<leftarrow> parse_expr; ret (Some e) });
     body \<leftarrow> parse_suite ps;
     _ \<leftarrow> p_skip_newlines;
     ret (pattern, body) }"

text \<open>The cases kept, and whether the cap has been reported; the excess is parsed and dropped.\<close>

definition match_cases :: "ast option parser \<Rightarrow> ((ast option \<times> ast list) list \<times> bool) parser" where
  "match_cases ps = p_while (\<lambda>(cases, reported). do {
     t \<leftarrow> p_cur_type;
     if t = TOK_CASE then
       (if MAX_MATCH_CASES \<le> length cases then do {
          _ \<leftarrow> (if reported then ret () else p_count_error);
          _ \<leftarrow> match_case ps;
          ret ((cases, True), True) }
        else do { c \<leftarrow> match_case ps; ret ((cases @ [c], reported), True) })
     else ret ((cases, reported), False) }) ([], False)"

definition stmt_match :: "ast option parser \<Rightarrow> token \<Rightarrow> ast parser" where
  "stmt_match ps t = do {
     _ \<leftarrow> p_advance;
     expr \<leftarrow> parse_expr;
     _ \<leftarrow> p_expect TOK_COLON;
     _ \<leftarrow> p_skip_newlines;
     _ \<leftarrow> p_expect TOK_INDENT;
     _ \<leftarrow> p_skip_newlines;
     r \<leftarrow> match_cases ps;
     _ \<leftarrow> p_match TOK_DEDENT;
     ret (make_node (AST_MATCH expr (map fst (fst r)) (map snd (fst r))) (tk_line t)) }"

subsection \<open>Branches and loops\<close>

text \<open>\<open>p_cur(p)->type = TOK_IF\<close>: the token list itself is rewritten.\<close>

definition p_set_type :: "tok_type \<Rightarrow> unit parser" where
  "p_set_type ty = p_modify (\<lambda>s.
     let i = (if ps_pos s < length (ps_toks s) then ps_pos s else length (ps_toks s) - 1) in
     s\<lparr>ps_toks := (ps_toks s)[i := (ps_toks s ! i)\<lparr>tk_type := ty\<rparr>]\<rparr>)"

text \<open>
  \<open>elif\<close> is \<open>else\<close> with an \<open>if\<close> inside; each arm is charged one level. The nested
  statement starts at an \<open>if\<close>, so it is not NULL.
\<close>

definition elif_arm :: "ast option parser \<Rightarrow> ast list parser" where
  "elif_arm ps = do {
     _ \<leftarrow> p_deeper;
     deep \<leftarrow> chain_too_deep;
     if deep then do { _ \<leftarrow> p_skip_elif_tail; ret [] }
     else do {
       _ \<leftarrow> p_shallower;
       _ \<leftarrow> p_set_type TOK_IF;
       stmt \<leftarrow> ps;
       ret (case stmt of None \<Rightarrow> [] | Some a \<Rightarrow> [a]) } }"

definition if_head :: "ast option parser \<Rightarrow> (ast \<times> ast list) parser" where
  "if_head ps = do {
     _ \<leftarrow> p_advance;
     cond \<leftarrow> parse_expr;
     if_body \<leftarrow> parse_suite ps;
     _ \<leftarrow> p_skip_newlines;
     ret (cond, if_body) }"

definition if_else :: "ast option parser \<Rightarrow> ast list parser" where
  "if_else ps = do {
     t \<leftarrow> p_cur_type;
     if t = TOK_ELIF then elif_arm ps
     else if t = TOK_ELSE then do { _ \<leftarrow> p_advance; parse_suite ps }
     else ret [] }"

definition stmt_if :: "ast option parser \<Rightarrow> ast parser" where
  "stmt_if ps = do {
     h \<leftarrow> if_head ps;
     else_body \<leftarrow> if_else ps;
     line \<leftarrow> p_cur_line;
     ret (make_node (AST_IF (fst h) (snd h) else_body) line) }"

definition stmt_loop :: "ast option parser \<Rightarrow> ast parser" where
  "stmt_loop ps = do {
     _ \<leftarrow> p_advance;
     _ \<leftarrow> p_match TOK_WHILE;
     cond \<leftarrow> parse_expr;
     body \<leftarrow> parse_suite ps;
     line \<leftarrow> p_cur_line;
     ret (make_node (AST_LOOP cond body) line) }"

definition stmt_unobserved :: "ast option parser \<Rightarrow> token \<Rightarrow> ast parser" where
  "stmt_unobserved ps t = do {
     _ \<leftarrow> p_advance;
     body \<leftarrow> parse_suite ps;
     ret (make_node (AST_UNOBSERVED body) (tk_line t)) }"

definition stmt_for :: "ast option parser \<Rightarrow> ast parser" where
  "stmt_for ps = do {
     _ \<leftarrow> p_advance;
     var_tok \<leftarrow> p_cur;
     _ \<leftarrow> p_expect_ident_like;
     _ \<leftarrow> p_expect TOK_IN;
     iter \<leftarrow> parse_expr;
     body \<leftarrow> parse_suite ps;
     line \<leftarrow> p_cur_line;
     ret (set_name_hash (make_node (AST_FOR (str_val var_tok) iter body) line) (str_val var_tok)) }"

subsection \<open>Simple statements\<close>

definition stmt_return :: "ast parser" where
  "stmt_return = do {
     _ \<leftarrow> p_advance;
     rt \<leftarrow> p_cur;
     expr \<leftarrow> (if ends_line (tk_type rt) then ret (make_node AST_NULL (tk_line rt)) else parse_expr);
     _ \<leftarrow> p_end_statement;
     line \<leftarrow> p_cur_line;
     ret (make_node (AST_RETURN expr) line) }"

definition stmt_import :: "token \<Rightarrow> ast parser" where
  "stmt_import t = do {
     _ \<leftarrow> p_advance;
     name_tok \<leftarrow> p_cur;
     _ \<leftarrow> p_expect TOK_IDENT;
     _ \<leftarrow> p_end_statement;
     ret (set_name_hash (make_node (AST_IMPORT (str_val name_tok)) (tk_line t)) (str_val name_tok)) }"

definition stmt_jump :: "ast_data \<Rightarrow> token \<Rightarrow> ast parser" where
  "stmt_jump d t = do { _ \<leftarrow> p_advance; _ \<leftarrow> p_end_statement; ret (make_node d (tk_line t)) }"

subsection \<open>Assignments\<close>

text \<open>The lookahead for \<open>[a, b] is\<close>: the matching bracket, then \<open>is\<close>.\<close>

fun destructure_ahead :: "nat \<Rightarrow> token list \<Rightarrow> bool" where
  "destructure_ahead depth [] = False"
| "destructure_ahead depth (t # ts) =
     (if tk_type t = TOK_LBRACKET then destructure_ahead (Suc depth) ts
      else if tk_type t = TOK_RBRACKET then
        (if depth = 0 then (case ts of u # _ \<Rightarrow> tk_type u = TOK_IS | [] \<Rightarrow> False)
         else destructure_ahead (depth - 1) ts)
      else if tk_type t = TOK_EOF then False
      else destructure_ahead depth ts)"

text \<open>The names of the pattern, and whether it is well formed.\<close>

definition pattern_names :: "(string list \<times> bool) parser" where
  "pattern_names = p_while (\<lambda>(names, _). do {
     t \<leftarrow> p_cur;
     if tk_type t \<noteq> TOK_IDENT then do {
       r \<leftarrow> p_report_error t False;
       _ \<leftarrow> (if r then ret () else p_count_error);
       ret ((names, False), False) }
     else if MAX_PATTERN_NAMES \<le> length names then do {
       _ \<leftarrow> p_count_error;
       ret ((names, False), False) }
     else do {
       _ \<leftarrow> p_advance;
       u \<leftarrow> p_cur_type;
       (let names' = names @ [str_val t] in
        if u = TOK_RBRACKET then ret ((names', True), False)
        else if u = TOK_COMMA then do {
          _ \<leftarrow> p_advance;
          v \<leftarrow> p_cur_type;
          if v = TOK_RBRACKET then do { _ \<leftarrow> p_count_error; ret ((names', False), False) }
          else ret ((names', False), True) }
        else do { _ \<leftarrow> p_count_error; ret ((names', False), False) }) } }) ([], False)"

definition stmt_destructure :: "token \<Rightarrow> ast parser" where
  "stmt_destructure t = do {
     _ \<leftarrow> p_advance;
     r \<leftarrow> pattern_names;
     (case r of (names, ok) \<Rightarrow>
        if ok then do {
          _ \<leftarrow> p_advance;
          _ \<leftarrow> p_advance;
          rhs \<leftarrow> parse_expr;
          _ \<leftarrow> p_end_statement;
          ret (make_node (AST_LIST_PATTERN_ASSIGN names (map env_name_hash names) rhs) (tk_line t)) }
        else do {
          _ \<leftarrow> p_skip_while (\<lambda>u. u \<noteq> TOK_NEWLINE \<and> u \<noteq> TOK_EOF);
          ret (make_node AST_NULL (tk_line t)) }) }"

text \<open>\<open>obj.f is e\<close> and \<open>obj.f op= e\<close>, which reads the field of a copy of the target.\<close>

definition dot_assign :: "token \<Rightarrow> u32 \<Rightarrow> ast \<Rightarrow> string \<Rightarrow> tok_type \<Rightarrow> ast parser" where
  "dot_assign t h target key op = do {
     _ \<leftarrow> p_advance;
     rhs \<leftarrow> parse_expr;
     (let value =
        (if is_compound_assign op
         then make_node_col
                (AST_BINOP (compound_to_op op)
                  (set_hash h (make_node_col (AST_DOT (clone_ast target) key) (tk_line t) (tk_col t))) rhs)
                (tk_line t) (tk_col t)
         else rhs)
      in do {
        _ \<leftarrow> p_end_statement;
        ret (set_hash h (make_node_col (AST_DOT_ASSIGN target key value) (tk_line t) (tk_col t))) }) }"

text \<open>\<open>a[i] is e\<close> and \<open>a[i] op= e\<close>, whose operator stays in the node.\<close>

definition index_assign :: "token \<Rightarrow> ast \<Rightarrow> ast \<Rightarrow> tok_type \<Rightarrow> ast parser" where
  "index_assign t target index op = do {
     _ \<leftarrow> p_advance;
     rhs \<leftarrow> parse_expr;
     _ \<leftarrow> p_end_statement;
     ret (make_node_col
       (AST_INDEX_ASSIGN target index rhs (if is_compound_assign op then compound_to_op op else []))
       (tk_line t) (tk_col t)) }"

text \<open>
  A name followed by a dot or a bracket: parse the primary and look for an assignment
  operator. Without one the cursor goes back, but what the attempt reported stays.
\<close>

definition target_assign :: "token \<Rightarrow> ast \<Rightarrow> tok_type \<Rightarrow> ast parser option" where
  "target_assign t target op =
     (if op = TOK_IS \<or> is_compound_assign op then
        (case nd_data target of
           AST_DOT tgt key \<Rightarrow> Some (dot_assign t (nd_hash target) tgt key op)
         | AST_INDEX tgt idx \<Rightarrow> Some (index_assign t tgt idx op)
         | _ \<Rightarrow> None)
      else None)"

definition stmt_target :: "token \<Rightarrow> ast option parser" where
  "stmt_target t = do {
     saved \<leftarrow> p_pos;
     target \<leftarrow> parse_primary parse_expr parse_un;
     op \<leftarrow> p_cur_type;
     (case target_assign t target op of
        Some m \<Rightarrow> do { n \<leftarrow> m; ret (Some n) }
      | None \<Rightarrow> do { _ \<leftarrow> p_modify (\<lambda>s. s\<lparr>ps_pos := saved\<rparr>); ret None }) }"

definition stmt_assign :: "token \<Rightarrow> ast parser" where
  "stmt_assign t = do {
     name_tok \<leftarrow> p_advance;
     op \<leftarrow> p_cur_type;
     _ \<leftarrow> p_advance;
     expr \<leftarrow> parse_expr;
     (let value =
        (if is_compound_assign op
         then make_node_col (AST_BINOP (compound_to_op op) (ident_node name_tok) expr) (tk_line t) (tk_col t)
         else expr)
      in do {
        _ \<leftarrow> p_end_statement;
        ret (set_name_hash
          (make_node_col (AST_ASSIGN (str_val name_tok) value False) (tk_line name_tok) (tk_col name_tok))
          (str_val name_tok)) }) }"

definition stmt_local :: "ast parser" where
  "stmt_local = do {
     local_tok \<leftarrow> p_advance;
     name_tok \<leftarrow> p_cur;
     _ \<leftarrow> p_expect_ident_like;
     _ \<leftarrow> p_expect TOK_IS;
     expr \<leftarrow> parse_expr;
     _ \<leftarrow> p_end_statement;
     ret (set_name_hash
       (make_node_col (AST_ASSIGN (str_val name_tok) expr True) (tk_line local_tok) (tk_col local_tok))
       (str_val name_tok)) }"

definition stmt_expression :: "ast parser" where
  "stmt_expression = do { expr \<leftarrow> parse_expr; _ \<leftarrow> p_end_statement; ret expr }"

subsection \<open>Statements\<close>

definition stmt_assign_or_expr :: "token \<Rightarrow> ast parser" where
  "stmt_assign_or_expr t = do {
     u \<leftarrow> p_peek 1;
     if tok_is_assign_name (tk_type t) \<and> tk_type u = TOK_IS \<or>
        tok_is_ident_like (tk_type t) \<and> is_compound_assign (tk_type u)
     then stmt_assign t
     else if tk_type t = TOK_LOCAL then stmt_local
     else stmt_expression }"

definition stmt_other :: "token \<Rightarrow> ast parser" where
  "stmt_other t = do {
     u \<leftarrow> p_peek 1;
     ahead \<leftarrow> p_gets (\<lambda>s. destructure_ahead 0 (drop (ps_pos s + 1) (ps_toks s)));
     if tk_type t = TOK_LBRACKET \<and> ahead then stmt_destructure t
     else if tk_type t = TOK_IDENT \<and> (tk_type u = TOK_DOT \<or> tk_type u = TOK_LBRACKET) then do {
       r \<leftarrow> stmt_target t;
       (case r of Some n \<Rightarrow> ret n | None \<Rightarrow> stmt_assign_or_expr t) }
     else stmt_assign_or_expr t }"

definition stmt_dispatch :: "ast option parser \<Rightarrow> token \<Rightarrow> ast parser" where
  "stmt_dispatch ps t =
     (let ty = tk_type t in
      if ty = TOK_DEFINE then stmt_define ps t
      else if ty = TOK_TRY then stmt_try ps t
      else if ty = TOK_MATCH then stmt_match ps t
      else if ty = TOK_IF then stmt_if ps
      else if ty = TOK_LOOP then stmt_loop ps
      else if ty = TOK_UNOBSERVED then stmt_unobserved ps t
      else if ty = TOK_FOR then stmt_for ps
      else if ty = TOK_RETURN then stmt_return
      else if ty = TOK_IMPORT then stmt_import t
      else if ty = TOK_BREAK then stmt_jump AST_BREAK t
      else if ty = TOK_CONTINUE then stmt_jump AST_CONTINUE t
      else stmt_other t)"

definition parse_statement_inner :: "ast option parser \<Rightarrow> ast option parser" where
  "parse_statement_inner ps = do {
     _ \<leftarrow> p_skip_newlines;
     t \<leftarrow> p_cur;
     if tk_type t = TOK_EOF \<or> tk_type t = TOK_DEDENT then ret None
     else do {
       _ \<leftarrow> p_modify (\<lambda>s. s\<lparr>g_stmt_err_base := g_parse_errors (ps_diag s), g_stmt_start_pos := ps_pos s\<rparr>);
       n \<leftarrow> stmt_dispatch ps t;
       ret (Some n) } }"

text \<open>The depth a statement's chains were charged is released at its end.\<close>

primrec parse_statement :: "nat \<Rightarrow> pstate \<Rightarrow> ast option \<times> pstate" where
  "parse_statement 0 = (\<lambda>s. run_state (do { _ \<leftarrow> p_out_of_fuel; ret None }) s)"
| "parse_statement (Suc f) = (\<lambda>s. run_state (do {
     saved \<leftarrow> p_gets g_parse_depth;
     r \<leftarrow> parse_statement_inner (State (parse_statement f));
     _ \<leftarrow> p_modify (\<lambda>s. s\<lparr>g_parse_depth := saved\<rparr>);
     ret r }) s)"

text \<open>A statement inside another is one level deeper, so this fuel is never used up.\<close>

definition stmt_fuel :: nat where
  "stmt_fuel = PARSE_MAX_DEPTH + 1"

definition p_unstick_silent :: "unit parser" where
  "p_unstick_silent = do { _ \<leftarrow> p_count_error; _ \<leftarrow> p_advance; ret () }"

definition program_stmts :: "ast list parser" where
  "program_stmts = p_while (\<lambda>stmts. do {
     t \<leftarrow> p_cur_type;
     if t = TOK_EOF then ret (stmts, False)
     else do {
       _ \<leftarrow> p_skip_newlines;
       u \<leftarrow> p_cur_type;
       if u = TOK_EOF then ret (stmts, False)
       else stmt_progress p_unstick_silent (State (parse_statement stmt_fuel)) stmts } }) []"

definition parse_program :: "ast parser" where
  "parse_program = do {
     _ \<leftarrow> p_skip_newlines;
     stmts \<leftarrow> program_stmts;
     line \<leftarrow> p_cur_line;
     ret (make_node (AST_PROGRAM stmts) line) }"

definition init_pstate :: "token list \<Rightarrow> diag \<Rightarrow> pstate" where
  "init_pstate tks d =
     \<lparr>ps_toks = tks, ps_pos = 0, g_parse_depth = 0, ps_diag = d, g_stmt_err_base = 0,
      g_stmt_start_pos = 0, out_of_fuel = False\<rparr>"

definition parse :: "token list \<Rightarrow> diag \<Rightarrow> ast \<times> pstate" where
  "parse tks d = run_state parse_program (init_pstate tks d)"

end
