(* ===== verification/Eigs_Parser_Rel.thy ===== *)
theory Eigs_Parser_Rel
  imports Eigs_Parser
begin

text \<open>
  What parsing keeps, for any token list that ends with EOF: the cursor only moves
  forward and stays inside, the depth guard's bound holds, errors accumulate, and no
  loop and no recursion exhausts the fuel the model gives it, so the parser returns
  on every input.
\<close>

subsection \<open>The relation\<close>

definition par_ok :: "pstate \<Rightarrow> bool" where
  "par_ok s \<longleftrightarrow> ps_toks s \<noteq> [] \<and> tk_type (last (ps_toks s)) = TOK_EOF \<and> ps_pos s \<le> length (ps_toks s)"

definition live :: "pstate \<Rightarrow> bool" where
  "live s \<longleftrightarrow> tk_type (cur_tok s) \<noteq> TOK_EOF"

text \<open>
  \<open>par_st\<close> says nothing of the depth a statement leaves; \<open>par_le\<close> adds it. The fuel is
  claimed to last from depth \<open>n\<close> on; nothing is claimed for an \<open>n\<close> past the limit.
\<close>

definition par_st :: "nat \<Rightarrow> pstate \<Rightarrow> pstate \<Rightarrow> bool" where
  "par_st n s s' \<longleftrightarrow> (par_ok s \<longrightarrow>
     par_ok s' \<and> length (ps_toks s') = length (ps_toks s) \<and> ps_pos s \<le> ps_pos s' \<and>
     g_parse_errors (ps_diag s) \<le> g_parse_errors (ps_diag s') \<and>
     (n \<le> g_parse_depth s \<and> n \<le> PARSE_MAX_DEPTH \<longrightarrow> out_of_fuel s' = out_of_fuel s))"

definition par_le :: "nat \<Rightarrow> pstate \<Rightarrow> pstate \<Rightarrow> bool" where
  "par_le n s s' \<longleftrightarrow> par_st n s s' \<and> (par_ok s \<longrightarrow>
     g_parse_depth s \<le> g_parse_depth s' \<and>
     (g_parse_depth s \<le> PARSE_MAX_DEPTH \<longrightarrow> g_parse_depth s' \<le> PARSE_MAX_DEPTH))"

lemma cur_tok_frame [simp]:
  "cur_tok (s\<lparr>g_parse_depth := k\<rparr>) = cur_tok s" "cur_tok (s\<lparr>ps_diag := d\<rparr>) = cur_tok s"
  by (simp_all add: cur_tok_def tok_at_def)

lemma par_le_refl [simp]: "par_le n s s"
  by (simp add: par_le_def par_st_def)

lemma par_le_trans: "par_le n a b \<Longrightarrow> par_le n b c \<Longrightarrow> par_le n a c"
  unfolding par_le_def par_st_def by (elim conjE) (auto)

lemma par_le_st_trans: "par_le n a b \<Longrightarrow> par_st n b c \<Longrightarrow> par_st n a c"
  unfolding par_le_def par_st_def by auto

lemma par_le_ok: "par_le n s s' \<Longrightarrow> par_ok s \<Longrightarrow> par_ok s'"
  by (simp add: par_le_def par_st_def)

lemma par_le_pos: "par_le n s s' \<Longrightarrow> par_ok s \<Longrightarrow> ps_pos s \<le> ps_pos s'"
  by (simp add: par_le_def par_st_def)

lemma live_pos: "par_ok s \<Longrightarrow> live s \<Longrightarrow> ps_pos s < length (ps_toks s)"
  by (auto simp: par_ok_def live_def cur_tok_def tok_at_def split: if_splits)

subsection \<open>Operations that keep it\<close>

abbreviation keeps :: "nat \<Rightarrow> 'a parser \<Rightarrow> bool" where
  "keeps n m \<equiv> state_io_rel (par_le n) m"

lemma keepsD: "keeps n m \<Longrightarrow> par_le n s (snd (run_state m s))"
  by (simp add: state_io_rel_def)

lemma keeps_ret [keeps_intros]: "keeps n (ret x)"
  by (simp add: state_io_rel_def)

lemma keeps_bind [keeps_intros]: "keeps n m \<Longrightarrow> (\<And>r. keeps n (f r)) \<Longrightarrow> keeps n (State_Monad.bind m f)"
  by (auto simp: state_io_rel_def case_prod_beta intro: par_le_trans)

lemma keeps_if [keeps_intros]: "keeps n m \<Longrightarrow> keeps n m' \<Longrightarrow> keeps n (if b then m else m')"
  by simp

lemma keeps_case_option [keeps_intros]:
  "keeps n m \<Longrightarrow> (\<And>x. keeps n (f x)) \<Longrightarrow> keeps n (case opt of None \<Rightarrow> m | Some x \<Rightarrow> f x)"
  by (cases opt) simp_all

lemma keeps_case_prod [keeps_intros]:
  "(\<And>x y. keeps n (f x y)) \<Longrightarrow> keeps n (case p of (x, y) \<Rightarrow> f x y)"
  by (cases p) simp

lemma keeps_case_ident [keeps_intros]:
  "(\<And>x. keeps n (f x)) \<Longrightarrow> keeps n m \<Longrightarrow> keeps n (case d of AST_IDENT x \<Rightarrow> f x | _ \<Rightarrow> m)"
  by (cases d) simp_all

lemma keeps_gets [keeps_intros]: "keeps n (p_gets f)"
  by (simp add: state_io_rel_def)

lemma keeps_p_cur [keeps_intros]: "keeps n p_cur" "keeps n p_cur_type" "keeps n p_cur_line"
  "keeps n (p_peek k)" "keeps n p_pos" "keeps n p_depth_full"
  by (simp_all add: p_cur_def p_cur_type_def p_cur_line_def p_peek_def p_pos_def p_depth_full_def keeps_gets)

lemma par_le_p_step: "par_le n s (p_step s)"
  by (simp add: par_le_def par_st_def par_ok_def p_step_def)

lemma keeps_p_advance [keeps_intros]: "keeps n p_advance"
  by (simp add: p_advance_def state_io_rel_def p_cur_def par_le_p_step)

lemma keeps_errors [keeps_intros]: "keeps n p_count_error" "keeps n (p_record_at l c k code m)"
  by (simp_all add: state_io_rel_def p_count_error_def p_record_at_def par_le_def par_st_def par_ok_def)

lemma keeps_p_error [keeps_intros]: "keeps n (p_error_at t m)" "keeps n (p_error_line l m)"
  by (simp_all add: p_error_at_def p_error_line_def keeps_errors)

lemma keeps_report_error [keeps_intros]: "keeps n (p_report_error t b)"
  unfolding p_report_error_def by (intro keeps_intros)

lemma keeps_p_match [keeps_intros]: "keeps n (p_match t)"
  unfolding p_match_def by (intro keeps_intros)

lemma keeps_expect [keeps_intros]: "keeps n (p_expect t)"
  unfolding p_expect_def by (intro keeps_intros)

lemma keeps_expect_names [keeps_intros]: "keeps n p_expect_ident_like" "keeps n p_expect_dot_key"
  unfolding p_expect_ident_like_def p_expect_dot_key_def by (intro keeps_intros)+

lemma keeps_chain_too_deep [keeps_intros]: "keeps n chain_too_deep"
  by (simp add: chain_too_deep_def p_depth_full_def p_cur_line_def p_error_line_def p_record_at_def
      p_deeper_def state_io_rel_def par_le_def par_st_def par_ok_def)

subsection \<open>Loops return\<close>

text \<open>
  A round from an acceptable state keeps the relation, and goes on only after having
  moved the cursor. \<open>lively\<close> asks it of rounds that start before the end.
\<close>

definition rounds :: "nat \<Rightarrow> ('a \<times> bool) parser \<Rightarrow> bool" where
  "rounds n m \<longleftrightarrow> (\<forall>s. par_ok s \<longrightarrow>
     par_le n s (snd (run_state m s)) \<and>
     (snd (fst (run_state m s)) \<longrightarrow> ps_pos s < ps_pos (snd (run_state m s))))"

definition lively :: "nat \<Rightarrow> ('a \<times> bool) parser \<Rightarrow> bool" where
  "lively n m \<longleftrightarrow> (\<forall>s. par_ok s \<and> live s \<longrightarrow>
     par_le n s (snd (run_state m s)) \<and>
     (snd (fst (run_state m s)) \<longrightarrow> ps_pos s < ps_pos (snd (run_state m s))))"

definition advances :: "nat \<Rightarrow> 'a parser \<Rightarrow> bool" where
  "advances n m \<longleftrightarrow> (\<forall>s. par_ok s \<and> live s \<longrightarrow>
     par_le n s (snd (run_state m s)) \<and> ps_pos s < ps_pos (snd (run_state m s)))"

definition still :: "'a parser \<Rightarrow> bool" where
  "still m \<longleftrightarrow> (\<forall>s. ps_toks (snd (run_state m s)) = ps_toks s \<and> ps_pos (snd (run_state m s)) = ps_pos s)"

lemma p_loop_keeps:
  assumes "\<And>a. rounds n (body a)"
  shows "par_ok s \<Longrightarrow> tokens_left s < k \<Longrightarrow> par_le n s (snd (run_state (p_loop k body a) s))"
proof (induction k arbitrary: s a)
  case 0
  then show ?case by simp
next
  case (Suc k)
  obtain r s1 where r: "run_state (body a) s = (r, s1)" by (metis surj_pair)
  have le: "par_le n s s1" and pos: "snd r \<Longrightarrow> ps_pos s < ps_pos s1"
    using assms [of a] Suc.prems(1) r unfolding rounds_def by (metis fst_conv snd_conv)+
  show ?case
  proof (cases "snd r")
    case True
    have ok: "par_ok s1" using par_le_ok [OF le Suc.prems(1)] .
    have "tokens_left s1 < k"
      using pos [OF True] ok le Suc.prems
      by (auto simp: tokens_left_def par_le_def par_st_def par_ok_def)
    then have "par_le n s1 (snd (run_state (p_loop k body (fst r)) s1))" using Suc.IH ok by blast
    then show ?thesis using True r le by (simp add: par_le_trans)
  next
    case False
    then show ?thesis using r le by simp
  qed
qed

lemma keeps_while [keeps_intros]: "(\<And>a. rounds n (body a)) \<Longrightarrow> keeps n (p_while body a)"
proof (rule state_io_relI)
  fix r s s' assume rounds: "\<And>a. rounds n (body a)" and run: "run_state (p_while body a) s = (r, s')"
  have s': "s' = snd (run_state (p_loop (Suc (tokens_left s)) body a) s)"
    using run by (simp add: p_while_def)
  show "par_le n s s'"
  proof (cases "par_ok s")
    case True
    show ?thesis unfolding s' by (rule p_loop_keeps [OF rounds True]) simp
  next
    case False
    then show ?thesis by (simp add: par_le_def par_st_def)
  qed
qed

lemma rounds_stop: "rounds n (ret (a, False))"
  by (simp add: rounds_def)

lemma roundsD:
  "rounds n m \<Longrightarrow> par_ok s \<Longrightarrow> par_le n s (snd (run_state m s))"
  "rounds n m \<Longrightarrow> par_ok s \<Longrightarrow> snd (fst (run_state m s)) \<Longrightarrow> ps_pos s < ps_pos (snd (run_state m s))"
  by (simp_all add: rounds_def)

lemma livelyD:
  "lively n m \<Longrightarrow> par_ok s \<Longrightarrow> live s \<Longrightarrow> par_le n s (snd (run_state m s))"
  "lively n m \<Longrightarrow> par_ok s \<Longrightarrow> live s \<Longrightarrow> snd (fst (run_state m s)) \<Longrightarrow>
     ps_pos s < ps_pos (snd (run_state m s))"
  by (simp_all add: lively_def)

lemma advancesD:
  "advances n m \<Longrightarrow> par_ok s \<Longrightarrow> live s \<Longrightarrow> par_le n s (snd (run_state m s))"
  "advances n m \<Longrightarrow> par_ok s \<Longrightarrow> live s \<Longrightarrow> ps_pos s < ps_pos (snd (run_state m s))"
  by (simp_all add: advances_def)

lemma stillD:
  "still m \<Longrightarrow> ps_toks (snd (run_state m s)) = ps_toks s"
  "still m \<Longrightarrow> ps_pos (snd (run_state m s)) = ps_pos s"
  by (simp_all add: still_def)

lemma snd_run_bind:
  "run_state (State_Monad.bind m f) s = run_state (f (fst (run_state m s))) (snd (run_state m s))"
  by (simp add: case_prod_beta)

lemma rounds_cur_type:
  assumes "\<And>t. t \<noteq> TOK_EOF \<Longrightarrow> lively n (f t)" and "rounds n (f TOK_EOF)"
  shows "rounds n (State_Monad.bind p_cur_type f)"
proof -
  have "par_le n s (snd (run_state (f (tk_type (cur_tok s))) s)) \<and>
      (snd (fst (run_state (f (tk_type (cur_tok s))) s)) \<longrightarrow>
        ps_pos s < ps_pos (snd (run_state (f (tk_type (cur_tok s))) s)))" if "par_ok s" for s
  proof (cases "live s")
    case True
    then show ?thesis using livelyD [OF assms(1) that True] by (simp add: live_def)
  next
    case False
    then show ?thesis using roundsD [OF assms(2) that] by (simp add: live_def)
  qed
  then show ?thesis by (simp add: rounds_def p_cur_type_def)
qed

lemma rounds_cur:
  assumes "\<And>t. tk_type t \<noteq> TOK_EOF \<Longrightarrow> lively n (f t)" and "\<And>t. tk_type t = TOK_EOF \<Longrightarrow> rounds n (f t)"
  shows "rounds n (State_Monad.bind p_cur f)"
proof -
  have "par_le n s (snd (run_state (f (cur_tok s)) s)) \<and>
      (snd (fst (run_state (f (cur_tok s)) s)) \<longrightarrow>
        ps_pos s < ps_pos (snd (run_state (f (cur_tok s)) s)))" if "par_ok s" for s
  proof (cases "live s")
    case True
    then show ?thesis using livelyD [OF assms(1) that True] by (simp add: live_def)
  next
    case False
    then show ?thesis using roundsD [OF assms(2) that] by (simp add: live_def)
  qed
  then show ?thesis by (simp add: rounds_def p_cur_def)
qed

lemma rounds_keeps:
  assumes "keeps n m" and "\<And>r. rounds n (f r)"
  shows "rounds n (State_Monad.bind m f)"
  unfolding rounds_def snd_run_bind
proof (intro allI impI conjI)
  fix s assume ok: "par_ok s"
  let ?s1 = "snd (run_state m s)" and ?r = "fst (run_state m s)"
  have le: "par_le n s ?s1" using assms(1) by (rule keepsD)
  then have ok1: "par_ok ?s1" using ok by (rule par_le_ok)
  show "par_le n s (snd (run_state (f ?r) ?s1))"
    using le roundsD(1) [OF assms(2) ok1] by (rule par_le_trans)
  show "ps_pos s < ps_pos (snd (run_state (f ?r) ?s1))" if "snd (fst (run_state (f ?r) ?s1))"
    using roundsD(2) [OF assms(2) ok1 that] par_le_pos [OF le ok] by simp
qed

lemma rounds_lively: "rounds n m \<Longrightarrow> lively n m"
  by (simp add: rounds_def lively_def)

lemma still_live: "still m \<Longrightarrow> live s \<Longrightarrow> live (snd (run_state m s))"
proof -
  assume "still m" and "live s"
  moreover from \<open>still m\<close> have "cur_tok (snd (run_state m s)) = cur_tok s"
    unfolding cur_tok_def tok_at_def by (simp only: stillD)
  ultimately show ?thesis by (simp add: live_def)
qed

lemma lively_stop: "lively n (ret (a, False))"
  by (simp add: lively_def)

lemma lively_still:
  assumes "still m" and "keeps n m" and "\<And>r. lively n (f r)"
  shows "lively n (State_Monad.bind m f)"
  unfolding lively_def snd_run_bind
proof (intro allI impI conjI; elim conjE)
  fix s assume ok: "par_ok s" and live: "live s"
  let ?s1 = "snd (run_state m s)" and ?r = "fst (run_state m s)"
  have le: "par_le n s ?s1" using assms(2) by (rule keepsD)
  then have ok1: "par_ok ?s1" using ok by (rule par_le_ok)
  have live1: "live ?s1" using assms(1) live by (rule still_live)
  show "par_le n s (snd (run_state (f ?r) ?s1))"
    using le livelyD(1) [OF assms(3) ok1 live1] by (rule par_le_trans)
  show "ps_pos s < ps_pos (snd (run_state (f ?r) ?s1))" if "snd (fst (run_state (f ?r) ?s1))"
    using livelyD(2) [OF assms(3) ok1 live1 that] stillD(2) [OF assms(1), of s] by simp
qed

lemma advances_bind:
  assumes "advances n m" and "\<And>r. keeps n (f r)"
  shows "advances n (State_Monad.bind m f)"
  unfolding advances_def snd_run_bind
proof (intro allI impI conjI; elim conjE)
  fix s assume ok: "par_ok s" and live: "live s"
  let ?s1 = "snd (run_state m s)" and ?r = "fst (run_state m s)"
  have le: "par_le n s ?s1" and pos: "ps_pos s < ps_pos ?s1" using advancesD [OF assms(1) ok live] .
  have le2: "par_le n ?s1 (snd (run_state (f ?r) ?s1))" using assms(2) by (rule keepsD)
  show "par_le n s (snd (run_state (f ?r) ?s1))" using le le2 by (rule par_le_trans)
  show "ps_pos s < ps_pos (snd (run_state (f ?r) ?s1))"
    using pos par_le_pos [OF le2 par_le_ok [OF le ok]] by simp
qed

lemma advances_lively: "advances n m \<Longrightarrow> lively n m"
  by (simp add: advances_def lively_def)

lemma lively_advance: "advances n m \<Longrightarrow> (\<And>r. keeps n (f r)) \<Longrightarrow> lively n (State_Monad.bind m f)"
  by (rule advances_lively) (rule advances_bind)

lemma advances_still:
  assumes "still m" and "keeps n m" and "\<And>r. advances n (f r)"
  shows "advances n (State_Monad.bind m f)"
  unfolding advances_def snd_run_bind
proof (intro allI impI conjI; elim conjE)
  fix s assume ok: "par_ok s" and live: "live s"
  let ?s1 = "snd (run_state m s)" and ?r = "fst (run_state m s)"
  have le: "par_le n s ?s1" using assms(2) by (rule keepsD)
  then have ok1: "par_ok ?s1" using ok by (rule par_le_ok)
  have live1: "live ?s1" using assms(1) live by (rule still_live)
  show "par_le n s (snd (run_state (f ?r) ?s1))"
    using le advancesD(1) [OF assms(3) ok1 live1] by (rule par_le_trans)
  show "ps_pos s < ps_pos (snd (run_state (f ?r) ?s1))"
    using advancesD(2) [OF assms(3) ok1 live1] stillD(2) [OF assms(1), of s] by simp
qed

lemma lively_if: "lively n m \<Longrightarrow> lively n m' \<Longrightarrow> lively n (if b then m else m')"
  by simp

lemma lively_case_option:
  "lively n m \<Longrightarrow> (\<And>x. lively n (f x)) \<Longrightarrow> lively n (case opt of None \<Rightarrow> m | Some x \<Rightarrow> f x)"
  by (cases opt) simp_all

lemma advances_p_advance: "advances n p_advance"
  unfolding advances_def
  using par_le_p_step live_pos by (auto simp: p_advance_def p_cur_def) (simp add: p_step_def)

lemma advances_if: "advances n m \<Longrightarrow> advances n m' \<Longrightarrow> advances n (if b then m else m')"
  by simp

lemma still_ops: "still (ret x)" "still (p_gets f)" "still p_cur" "still p_cur_type" "still p_cur_line"
  "still p_count_error" "still (p_record_at l c k code m)" "still chain_too_deep" "still (p_report_error t b)"
  by (simp_all add: still_def p_cur_def p_cur_type_def p_cur_line_def p_count_error_def p_record_at_def
      chain_too_deep_def p_depth_full_def p_deeper_def p_error_line_def p_report_error_def)

lemma still_if: "still m \<Longrightarrow> still m' \<Longrightarrow> still (if b then m else m')"
  by simp

lemmas round_intros =
  rounds_stop lively_stop lively_if lively_case_option advances_p_advance advances_if still_ops still_if

lemma keeps_skip_while [keeps_intros]:
  assumes "\<not> P TOK_EOF"
  shows "keeps n (p_skip_while P)"
  unfolding p_skip_while_def
  by (intro keeps_while rounds_cur_type lively_if lively_advance round_intros keeps_intros)
    (simp add: assms rounds_stop)

lemma keeps_skips [keeps_intros]: "keeps n p_skip_newlines" "keeps n p_skip_to_eol"
  unfolding p_skip_newlines_def p_skip_to_eol_def
  by (intro keeps_intros; simp add: ends_line_def)+

lemma keeps_end_statement [keeps_intros]: "keeps n p_end_statement"
  unfolding p_end_statement_def by (intro keeps_intros)

subsection \<open>Expressions\<close>

lemma advances_subscript:
  assumes "keeps n pe"
  shows "advances n (parse_subscript_suffix pe target)"
  unfolding parse_subscript_suffix_def
  by (intro advances_still [OF still_ops(3)] advances_bind advances_p_advance keeps_intros assms)

lemma advances_dot: "advances n (parse_dot_suffix b target)"
  unfolding parse_dot_suffix_def
  by (intro advances_bind advances_p_advance keeps_intros)

lemma keeps_postfix_loop [keeps_intros]:
  assumes "keeps n pe"
  shows "keeps n (postfix_loop pe b a)"
  unfolding postfix_loop_def
  by (intro keeps_while rounds_cur_type lively_if lively_still [OF still_ops(8)] lively_advance
      advances_if advances_subscript advances_dot lively_stop keeps_intros assms)
    (simp add: rounds_stop)

lemma keeps_postfix_chain [keeps_intros]: "keeps n pe \<Longrightarrow> keeps n (parse_postfix_chain pe a)"
  unfolding parse_postfix_chain_def by (intro keeps_intros)

lemma keeps_subscript_loop [keeps_intros]:
  assumes "keeps n pe"
  shows "keeps n (subscript_loop pe a)"
  unfolding subscript_loop_def
  by (intro keeps_while rounds_cur_type lively_if lively_still [OF still_ops(8)] lively_advance
      advances_subscript lively_stop keeps_intros assms)
    (simp add: rounds_stop)

lemma keeps_qualifier [keeps_intros]: "keeps n pe \<Longrightarrow> keeps n (parse_qualifier pe)"
  unfolding parse_qualifier_def by (intro keeps_intros)

lemma param_not_eof: "\<not> is_param TOK_EOF"
  by (simp add: is_param_def tok_is_ident_like_def tok_is_report_def)

lemma keeps_lambda_params [keeps_intros]: "keeps n lambda_params"
  unfolding lambda_params_def case_prod_beta
  by (intro keeps_while rounds_cur lively_if lively_still [OF still_ops(9)]
      lively_still [OF still_if [OF still_ops(1) still_ops(6)]] lively_advance
      advances_p_advance lively_stop keeps_intros)
    (simp add: rounds_stop param_not_eof)

lemma keeps_list_elems [keeps_intros]:
  assumes "keeps n pe"
  shows "keeps n (list_elems pe a)"
  unfolding list_elems_def
  by (intro keeps_while rounds_cur_type lively_if lively_advance advances_p_advance lively_stop keeps_intros assms)
    (simp add: rounds_stop)

lemma keeps_dict_entry [keeps_intros]: "keeps n pe \<Longrightarrow> keeps n (dict_entry pe kv)"
  unfolding dict_entry_def by (intro keeps_intros)

lemma keeps_dict_entries [keeps_intros]:
  assumes "keeps n pe"
  shows "keeps n (dict_entries pe a)"
  unfolding dict_entries_def
  by (intro keeps_while rounds_cur_type lively_if lively_advance advances_p_advance lively_stop keeps_intros assms)
    (simp add: rounds_stop)

lemma keeps_primaries [keeps_intros]:
  "keeps n pe \<Longrightarrow> keeps n (primary_question pe t)"
  "keeps n pe \<Longrightarrow> keeps n pu \<Longrightarrow> keeps n (primary_prev pe pu t)"
  "keeps n (primary_predicate t)"
  "keeps n pe \<Longrightarrow> keeps n (primary_literal pe d)"
  "keeps n (primary_report t)"
  "keeps n pe \<Longrightarrow> keeps n (primary_lambda pe t)"
  "keeps n pe \<Longrightarrow> keeps n (primary_group pe)"
  "keeps n pe \<Longrightarrow> keeps n (primary_list pe)"
  "keeps n pe \<Longrightarrow> keeps n (primary_dict pe)"
  "keeps n (primary_error t)"
  unfolding primary_question_def primary_prev_def primary_predicate_def primary_literal_def
    primary_report_def primary_lambda_def primary_group_def primary_list_def primary_dict_def primary_error_def
  by (intro keeps_intros; assumption)+

lemma keeps_primary [keeps_intros]: "keeps n pe \<Longrightarrow> keeps n pu \<Longrightarrow> keeps n (parse_primary pe pu)"
  unfolding parse_primary_def Let_def by (intro keeps_intros)

lemma keeps_relation [keeps_intros]: "keeps n pe \<Longrightarrow> keeps n pu \<Longrightarrow> keeps n (parse_relation pe pu)"
  unfolding parse_relation_def by (intro keeps_intros)

lemma keeps_unary_body: "keeps n pe \<Longrightarrow> keeps n pu \<Longrightarrow> keeps n (parse_unary_body pe pu)"
  unfolding parse_unary_body_def by (intro keeps_intros)

lemma keeps_binop_level [keeps_intros]:
  assumes "op_of TOK_EOF = None" and "keeps n next"
  shows "keeps n (binop_level op_of next)"
  unfolding binop_level_def binop_loop_def
  by (intro keeps_intros assms(2) keeps_while rounds_cur_type lively_case_option lively_if
      lively_still [OF still_ops(8)] lively_advance advances_p_advance lively_stop)
    (simp add: assms(1) rounds_stop)

lemma ops_eof [simp]:
  "mul_op TOK_EOF = None" "add_op TOK_EOF = None" "shift_op TOK_EOF = None" "bitand_op TOK_EOF = None"
  "bitxor_op TOK_EOF = None" "bitor_op TOK_EOF = None" "and_op TOK_EOF = None" "or_op TOK_EOF = None"
  by (simp_all add: mul_op_def add_op_def shift_op_def bitand_op_def bitxor_op_def bitor_op_def
      and_op_def or_op_def)

lemma keeps_bitor: "keeps n pu \<Longrightarrow> keeps n (parse_bitor pu)"
  unfolding parse_bitor_def parse_bitxor_def parse_bitand_def parse_shift_def parse_addition_def
    parse_multiply_def
  by (intro keeps_binop_level ops_eof)

lemma keeps_comparison: "keeps n pu \<Longrightarrow> keeps n (parse_comparison pu)"
  unfolding parse_comparison_def by (intro keeps_intros keeps_bitor)

lemma keeps_or: "keeps n pu \<Longrightarrow> keeps n (parse_or pu)"
  unfolding parse_or_def parse_and_def by (intro keeps_binop_level ops_eof keeps_comparison)

lemma keeps_pipe: "keeps n pu \<Longrightarrow> keeps n (parse_pipe pu)"
  unfolding parse_pipe_def
  by (intro keeps_intros keeps_or keeps_while rounds_cur_type lively_if
      lively_still [OF still_ops(8)] lively_advance advances_p_advance lively_stop; simp?)
    (simp add: rounds_stop)

text \<open>The guard: what is kept one level deeper is kept here.\<close>

lemma keeps_depth_guard:
  assumes "keeps (Suc n) m"
  shows "keeps n (depth_guard m)"
proof (rule state_io_relI)
  fix r s s' assume run: "run_state (depth_guard m) s = (r, s')"
  show "par_le n s s'"
  proof (cases "PARSE_MAX_DEPTH \<le> g_parse_depth s")
    case True
    then show ?thesis using run keepsD [OF keeps_errors(1), of n s]
      by (auto simp: depth_guard_def p_depth_full_def p_cur_line_def p_count_error_def)
  next
    case False
    let ?s1 = "s\<lparr>g_parse_depth := g_parse_depth s + 1\<rparr>"
    obtain r2 s2 where m: "run_state m ?s1 = (r2, s2)" by (metis surj_pair)
    have le: "par_le (Suc n) ?s1 s2" using keepsD [OF assms, of ?s1] m by simp
    have "s' = s2\<lparr>g_parse_depth := g_parse_depth s2 - 1\<rparr>"
      using run m False by (simp add: depth_guard_def p_depth_full_def p_deeper_def p_shallower_def)
    then show ?thesis using le False by (auto simp: par_le_def par_st_def par_ok_def)
  qed
qed

lemma keeps_zero: "PARSE_MAX_DEPTH < n \<Longrightarrow> keeps n (do { _ \<leftarrow> p_out_of_fuel; ret x })"
  by (auto simp: state_io_rel_def p_out_of_fuel_def par_le_def par_st_def par_ok_def)

text \<open>Fuel \<open>f\<close> is enough from depth \<open>257 - f\<close> on.\<close>

lemma parse_expression_State:
  "State (parse_expression 0) = do { _ \<leftarrow> p_out_of_fuel; ret (make_node AST_NULL 0) }"
  "State (parse_expression (Suc f)) = depth_guard (parse_pipe (State (parse_unary f)))"
  "State (parse_unary 0) = do { _ \<leftarrow> p_out_of_fuel; ret (make_node AST_NULL 0) }"
  "State (parse_unary (Suc f)) =
     depth_guard (parse_unary_body (State (parse_expression f)) (State (parse_unary f)))"
  by (rule state_ext; simp)+

lemma keeps_expression_fuel:
  "f + n = PARSE_MAX_DEPTH + 1 \<Longrightarrow> keeps n (State (parse_expression f)) \<and> keeps n (State (parse_unary f))"
proof (induction f arbitrary: n)
  case 0
  then show ?case unfolding parse_expression_State by (simp add: keeps_zero)
next
  case (Suc f)
  then have "keeps (Suc n) (State (parse_expression f)) \<and> keeps (Suc n) (State (parse_unary f))" by simp
  then show ?case
    unfolding parse_expression_State by (intro conjI keeps_depth_guard keeps_pipe keeps_unary_body) auto
qed

lemma par_le_mono: "par_le n s s' \<Longrightarrow> n \<le> m \<Longrightarrow> par_le m s s'"
  by (simp add: par_le_def par_st_def)

lemma keeps_mono: "keeps n m \<Longrightarrow> n \<le> k \<Longrightarrow> keeps k m"
  by (auto simp: state_io_rel_def intro: par_le_mono)

lemma keeps_expr [keeps_intros]: "keeps n parse_expr" "keeps n parse_un"
  using keeps_expression_fuel [of expr_fuel 0]
  by (auto simp: parse_expr_def parse_un_def expr_fuel_def intro: keeps_mono)


end
