(* ===== verification/Eigs_Parser_Inv.thy ===== *)
theory Eigs_Parser_Inv
  imports Eigs_Statement Eigs_Parser_Rel
begin

text \<open>
  What parsing keeps, for statements and programs: the cursor moves forward and stays
  inside, a statement gives back the depth it was charged, errors accumulate, and no
  loop and no recursion exhausts its fuel, so the parser returns on every input.
\<close>

subsection \<open>Statements\<close>

lemma keeps_at_end [keeps_intros]: "keeps n p_at_end_of_block"
  unfolding p_at_end_of_block_def by (intro keeps_intros)

lemma keeps_unstick [keeps_intros]: "keeps n p_unstick" "keeps n p_unstick_silent"
  unfolding p_unstick_def p_unstick_silent_def by (intro keeps_intros)+

lemma unstick_pos:
  assumes "ps_pos s < length (ps_toks s)"
  shows "ps_pos s < ps_pos (snd (run_state p_unstick s))"
    and "ps_pos s < ps_pos (snd (run_state p_unstick_silent s))"
  using assms by (simp_all add: p_unstick_def p_unstick_silent_def p_cur_def p_error_line_def
      p_record_at_def p_count_error_def p_advance_def p_step_def)

lemma lively_progress:
  assumes "keeps n ps" and "keeps n unstick"
    and "\<And>s. ps_pos s < length (ps_toks s) \<Longrightarrow> ps_pos s < ps_pos (snd (run_state unstick s))"
  shows "lively n (stmt_progress unstick ps stmts)"
  unfolding lively_def
proof (intro allI impI conjI; elim conjE)
  fix s assume ok: "par_ok s" and live: "live s"
  let ?s1 = "snd (run_state ps s)"
  let ?s2 = "snd (run_state (stmt_progress unstick ps stmts) s)"
  have le1: "par_le n s ?s1" using assms(1) by (rule keepsD)
  have s2: "?s2 = (if ps_pos ?s1 = ps_pos s then snd (run_state unstick ?s1) else ?s1)"
    by (simp add: stmt_progress_def p_pos_def case_prod_beta)
  have "par_le n ?s1 ?s2" using keepsD [OF assms(2)] by (simp add: s2)
  then show "par_le n s ?s2" by (rule par_le_trans [OF le1])
  show "ps_pos s < ps_pos ?s2"
  proof (cases "ps_pos ?s1 = ps_pos s")
    case True
    have "ps_pos ?s1 < length (ps_toks ?s1)"
      using live_pos [OF ok live] le1 ok True by (simp add: par_le_def par_st_def)
    then have "ps_pos ?s1 < ps_pos (snd (run_state unstick ?s1))" by (rule assms(3))
    then show ?thesis using True by (simp add: s2)
  next
    case False
    then show ?thesis using par_le_pos [OF le1 ok] by (simp add: s2)
  qed
qed

lemma rounds_at_end:
  fixes m :: "('a \<times> bool) parser"
  assumes "lively n m"
  shows "rounds n (do { done \<leftarrow> p_at_end_of_block; if done then ret (a, False) else m })"
proof -
  have eq: "p_at_end_of_block \<bind> f = p_cur_type \<bind> (\<lambda>t. f (t = TOK_DEDENT \<or> t = TOK_EOF))"
    for f :: "bool \<Rightarrow> ('a \<times> bool) parser"
    by (rule state_ext) (simp add: p_at_end_of_block_def p_cur_type_def)
  show ?thesis
    unfolding eq by (rule rounds_cur_type) (simp_all add: assms rounds_stop lively_stop)
qed

lemma keeps_block_stmts [keeps_intros]:
  assumes "keeps n ps"
  shows "keeps n (block_stmts ps)"
  unfolding block_stmts_def
  by (intro keeps_while rounds_at_end rounds_lively [OF rounds_keeps [OF keeps_skips(1)]]
      lively_progress assms keeps_unstick unstick_pos)

text \<open>A block is one level deeper than the statement that holds it.\<close>

lemma keeps_block [keeps_intros]:
  assumes "keeps (Suc n) ps"
  shows "keeps n (parse_block ps)"
proof (rule state_io_relI)
  fix r s s' assume run: "run_state (parse_block ps) s = (r, s')"
  show "par_le n s s'"
  proof (cases "PARSE_MAX_DEPTH \<le> g_parse_depth s")
    case True
    then show ?thesis using run keepsD [OF keeps_errors(1), of n s]
      by (auto simp: parse_block_def p_depth_full_def p_count_error_def)
  next
    case False
    let ?body = "do { _ \<leftarrow> p_expect TOK_INDENT; _ \<leftarrow> p_skip_newlines; stmts \<leftarrow> block_stmts ps;
        _ \<leftarrow> p_match TOK_DEDENT; ret stmts }"
    let ?s1 = "s\<lparr>g_parse_depth := g_parse_depth s + 1\<rparr>"
    have "keeps (Suc n) ?body" by (intro keeps_intros assms)
    then have le: "par_le (Suc n) ?s1 (snd (run_state ?body ?s1))" by (rule keepsD)
    have "s' = (snd (run_state ?body ?s1))\<lparr>g_parse_depth := g_parse_depth (snd (run_state ?body ?s1)) - 1\<rparr>"
      using run False
      by (simp add: parse_block_def p_depth_full_def p_deeper_def p_shallower_def case_prod_beta)
    then show ?thesis using le False by (auto simp: par_le_def par_st_def par_ok_def)
  qed
qed

lemma keeps_suite [keeps_intros]: "keeps (Suc n) ps \<Longrightarrow> keeps n (parse_suite ps)"
  unfolding parse_suite_def by (intro keeps_intros)

lemma keeps_define_params [keeps_intros]: "keeps n define_params"
  unfolding define_params_def case_prod_beta
  by (intro keeps_while rounds_cur lively_if lively_still [OF still_ops(9)]
      lively_still [OF still_if [OF still_ops(1) still_ops(6)]] lively_advance
      advances_p_advance lively_stop keeps_intros)
    (simp add: rounds_stop param_not_eof)

lemma advances_match_case: "keeps (Suc n) ps \<Longrightarrow> advances n (match_case ps)"
  unfolding match_case_def by (intro advances_bind advances_p_advance keeps_intros)

lemma keeps_match_cases [keeps_intros]:
  assumes "keeps (Suc n) ps"
  shows "keeps n (match_cases ps)"
  unfolding match_cases_def case_prod_beta
  by (intro keeps_while rounds_cur_type lively_if
      lively_still [OF still_if [OF still_ops(1) still_ops(6)]] lively_advance
      advances_match_case [OF assms] lively_stop keeps_intros)
    (simp add: rounds_stop)

lemma keeps_compound [keeps_intros]:
  "keeps (Suc n) ps \<Longrightarrow> keeps n (stmt_define ps t)"
  "keeps (Suc n) ps \<Longrightarrow> keeps n (stmt_try ps t)"
  "keeps (Suc n) ps \<Longrightarrow> keeps n (stmt_match ps t)"
  "keeps (Suc n) ps \<Longrightarrow> keeps n (stmt_loop ps)"
  "keeps (Suc n) ps \<Longrightarrow> keeps n (stmt_unobserved ps t)"
  "keeps (Suc n) ps \<Longrightarrow> keeps n (stmt_for ps)"
  unfolding stmt_define_def stmt_try_def stmt_match_def stmt_loop_def stmt_unobserved_def stmt_for_def Let_def
  by (intro keeps_intros; assumption)+

lemma keeps_pattern_names [keeps_intros]: "keeps n pattern_names"
  unfolding pattern_names_def case_prod_beta Let_def
  by (intro keeps_while rounds_cur lively_if lively_advance advances_p_advance lively_stop keeps_intros
      rounds_lively [OF rounds_keeps] rounds_keeps rounds_stop; simp; intro rounds_keeps rounds_stop keeps_intros)

lemma keeps_simple [keeps_intros]:
  "keeps n stmt_return" "keeps n (stmt_import t)" "keeps n (stmt_jump d t)" "keeps n (stmt_destructure t)"
  "keeps n (dot_assign t h tgt key op)" "keeps n (index_assign t tgt idx op)" "keeps n (stmt_assign t)"
  "keeps n stmt_local" "keeps n stmt_expression"
  unfolding stmt_return_def stmt_import_def stmt_jump_def stmt_destructure_def dot_assign_def
    index_assign_def stmt_assign_def stmt_local_def stmt_expression_def Let_def
  by (intro keeps_intros; simp)+

lemma keeps_target_assign: "target_assign t target op = Some m \<Longrightarrow> keeps n m"
  by (auto simp: target_assign_def split: if_splits ast_data.splits intro: keeps_simple)

lemma keeps_target [keeps_intros]: "keeps n (stmt_target t)"
proof (rule state_io_relI)
  fix r s s' assume run: "run_state (stmt_target t) s = (r, s')"
  let ?s1 = "snd (run_state (parse_primary parse_expr parse_un) s)"
  let ?a = "target_assign t (fst (run_state (parse_primary parse_expr parse_un) s)) (tk_type (cur_tok ?s1))"
  have le: "par_le n s ?s1" by (rule keepsD) (intro keeps_intros)
  show "par_le n s s'"
  proof (cases ?a)
    case None
    then have "s' = ?s1\<lparr>ps_pos := ps_pos s\<rparr>"
      using run by (simp add: stmt_target_def p_pos_def p_cur_type_def case_prod_beta)
    then show ?thesis using le by (auto simp: par_le_def par_st_def par_ok_def)
  next
    case (Some m)
    have "s' = snd (run_state m ?s1)"
      using run Some by (simp add: stmt_target_def p_pos_def p_cur_type_def case_prod_beta)
    then show ?thesis using par_le_trans [OF le keepsD [OF keeps_target_assign [OF Some]]] by simp
  qed
qed

lemma keeps_other [keeps_intros]: "keeps n (stmt_other t)"
  unfolding stmt_other_def stmt_assign_or_expr_def by (intro keeps_intros)

subsection \<open>The elif chain\<close>

lemma rounds_skip_block:
  "rounds n (do { t \<leftarrow> p_cur_type;
     (let level' = (if t = TOK_INDENT then level + 1 else if t = TOK_DEDENT then level - 1 else level :: int)
      in do { _ \<leftarrow> p_advance; u \<leftarrow> p_cur_type; ret (level', 0 < level' \<and> u \<noteq> TOK_EOF) }) })"
proof -
  have "par_le n s (p_step s) \<and> (tk_type (cur_tok (p_step s)) \<noteq> TOK_EOF \<longrightarrow> ps_pos s < ps_pos (p_step s))"
    if "par_ok s" for s
    using that par_le_p_step [of n s] by (auto simp: p_step_def cur_tok_def tok_at_def par_ok_def)
  then show ?thesis
    by (simp add: rounds_def Let_def p_cur_type_def p_advance_def p_cur_def)
qed

lemma keeps_skip_block [keeps_intros]: "keeps n skip_block_tail"
  unfolding skip_block_tail_def by (intro keeps_intros rounds_skip_block)

lemma keeps_skip_elif_tail [keeps_intros]: "keeps n p_skip_elif_tail"
  unfolding p_skip_elif_tail_def
  by (intro keeps_while rounds_cur_type lively_if lively_advance advances_p_advance lively_stop keeps_intros)
    (simp_all add: rounds_stop)

text \<open>The rewritten token is not the last one, which stays EOF.\<close>

lemma set_type_if:
  assumes ok: "par_ok s" and cur: "tk_type (cur_tok s) = TOK_ELIF"
  shows "par_le n s (snd (run_state (p_set_type TOK_IF) s))"
proof -
  have "ps_pos s \<noteq> length (ps_toks s) - 1 \<and> ps_pos s < length (ps_toks s)"
    using ok cur by (auto simp: par_ok_def cur_tok_def tok_at_def last_conv_nth split: if_splits)
  then show ?thesis
    using ok by (auto simp: par_le_def par_st_def par_ok_def p_set_type_def Let_def last_list_update)
qed

lemma elif_arm_st:
  assumes "keeps (Suc n) ps" and "par_ok s" and "tk_type (cur_tok s) = TOK_ELIF"
  shows "par_st n s (snd (run_state (elif_arm ps) s))"
proof -
  let ?s1 = "s\<lparr>g_parse_depth := g_parse_depth s + 1\<rparr>"
  have ok1: "par_ok ?s1" using assms(2) by (simp add: par_ok_def)
  have cur1: "tk_type (cur_tok ?s1) = TOK_ELIF" using assms(3) by simp
  show ?thesis
  proof (cases "PARSE_MAX_DEPTH \<le> g_parse_depth s + 1")
    case True
    have "keeps n (do { deep \<leftarrow> chain_too_deep; p_skip_elif_tail })" by (intro keeps_intros)
    then have "par_le n ?s1 (snd (run_state (do { deep \<leftarrow> chain_too_deep; p_skip_elif_tail }) ?s1))"
      by (rule keepsD)
    moreover have "snd (run_state (elif_arm ps) s) =
        snd (run_state (do { deep \<leftarrow> chain_too_deep; p_skip_elif_tail }) ?s1)"
      using True by (simp add: elif_arm_def chain_too_deep_def p_depth_full_def p_deeper_def
          p_cur_line_def p_error_line_def p_record_at_def case_prod_beta)
    ultimately show ?thesis using assms(2) ok1 by (auto simp: par_le_def par_st_def)
  next
    case False
    define s2 where "s2 = snd (run_state (p_set_type TOK_IF) ?s1)"
    have le2: "par_le (Suc n) ?s1 s2" unfolding s2_def by (rule set_type_if [OF ok1 cur1])
    have le3: "par_le (Suc n) s2 (snd (run_state ps s2))" using assms(1) by (rule keepsD)
    have "snd (run_state (elif_arm ps) s) = snd (run_state ps s2)"
      using False by (simp add: elif_arm_def chain_too_deep_def p_depth_full_def p_deeper_def
          p_shallower_def s2_def p_set_type_def case_prod_beta)
    then show ?thesis
      using par_le_trans [OF le2 le3] assms(2) ok1 False by (auto simp: par_le_def par_st_def)
  qed
qed

lemma if_else_st:
  assumes "keeps (Suc n) ps" and "par_ok s"
  shows "par_st n s (snd (run_state (if_else ps) s))"
proof (cases "tk_type (cur_tok s) = TOK_ELIF")
  case True
  then show ?thesis using elif_arm_st [OF assms(1,2)] by (simp add: if_else_def p_cur_type_def)
next
  case False
  have "keeps n (if t = TOK_ELSE then do { _ \<leftarrow> p_advance; parse_suite ps } else ret [])" for t
    by (intro keeps_intros assms)
  then show ?thesis
    using False keepsD [of n "if tk_type (cur_tok s) = TOK_ELSE then do { _ \<leftarrow> p_advance; parse_suite ps } else ret []" s]
    by (simp add: if_else_def p_cur_type_def par_le_def)
qed

lemma if_st:
  assumes "keeps (Suc n) ps" and "par_ok s"
  shows "par_st n s (snd (run_state (stmt_if ps) s))"
proof -
  have "keeps n (if_head ps)" unfolding if_head_def by (intro keeps_intros assms)
  then have le: "par_le n s (snd (run_state (if_head ps) s))" by (rule keepsD)
  let ?s1 = "snd (run_state (if_head ps) s)"
  have "par_st n ?s1 (snd (run_state (if_else ps) ?s1))"
    by (rule if_else_st [OF assms(1) par_le_ok [OF le assms(2)]])
  then have "par_st n s (snd (run_state (if_else ps) ?s1))" by (rule par_le_st_trans [OF le])
  moreover have "snd (run_state (stmt_if ps) s) = snd (run_state (if_else ps) ?s1)"
    by (simp add: stmt_if_def p_cur_line_def case_prod_beta)
  ultimately show ?thesis by simp
qed

lemma dispatch_st:
  assumes "keeps (Suc n) ps" and "par_ok s"
  shows "par_st n s (snd (run_state (stmt_dispatch ps t) s))"
proof (cases "tk_type t = TOK_IF")
  case True
  then show ?thesis using if_st [OF assms] by (simp add: stmt_dispatch_def Let_def)
next
  case False
  have "keeps n (if tk_type t = TOK_DEFINE then stmt_define ps t
      else if tk_type t = TOK_TRY then stmt_try ps t
      else if tk_type t = TOK_MATCH then stmt_match ps t
      else if tk_type t = TOK_LOOP then stmt_loop ps
      else if tk_type t = TOK_UNOBSERVED then stmt_unobserved ps t
      else if tk_type t = TOK_FOR then stmt_for ps
      else if tk_type t = TOK_RETURN then stmt_return
      else if tk_type t = TOK_IMPORT then stmt_import t
      else if tk_type t = TOK_BREAK then stmt_jump AST_BREAK t
      else if tk_type t = TOK_CONTINUE then stmt_jump AST_CONTINUE t
      else stmt_other t)" (is "keeps n ?m")
    by (intro keeps_intros assms)
  moreover have "stmt_dispatch ps t = ?m" using False unfolding stmt_dispatch_def Let_def by (simp only: if_False)
  ultimately show ?thesis using keepsD [of n ?m s] by (simp add: par_le_def)
qed

lemma statement_inner_st:
  assumes "keeps (Suc n) ps" and "par_ok s"
  shows "par_st n s (snd (run_state (parse_statement_inner ps) s))"
proof -
  let ?s1 = "snd (run_state p_skip_newlines s)"
  have le: "par_le n s ?s1" by (rule keepsD [OF keeps_skips(1)])
  show ?thesis
  proof (cases "tk_type (cur_tok ?s1) = TOK_EOF \<or> tk_type (cur_tok ?s1) = TOK_DEDENT")
    case True
    then show ?thesis using le
      by (auto simp: parse_statement_inner_def p_cur_def case_prod_beta par_le_def)
  next
    case False
    let ?s2 = "?s1\<lparr>g_stmt_err_base := g_parse_errors (ps_diag ?s1), g_stmt_start_pos := ps_pos ?s1\<rparr>"
    have le2: "par_le n s ?s2" using le by (auto simp: par_le_def par_st_def par_ok_def)
    have "par_st n ?s2 (snd (run_state (stmt_dispatch ps (cur_tok ?s1)) ?s2))"
      by (rule dispatch_st [OF assms(1) par_le_ok [OF le2 assms(2)]])
    then have "par_st n s (snd (run_state (stmt_dispatch ps (cur_tok ?s1)) ?s2))"
      by (rule par_le_st_trans [OF le2])
    moreover have "snd (run_state (parse_statement_inner ps) s) =
        snd (run_state (stmt_dispatch ps (cur_tok ?s1)) ?s2)"
      using False by (simp add: parse_statement_inner_def p_cur_def case_prod_beta)
    ultimately show ?thesis by simp
  qed
qed

lemma parse_statement_State:
  "State (parse_statement 0) = do { _ \<leftarrow> p_out_of_fuel; ret None }"
  "State (parse_statement (Suc f)) = do {
     saved \<leftarrow> p_gets g_parse_depth;
     r \<leftarrow> parse_statement_inner (State (parse_statement f));
     _ \<leftarrow> p_modify (\<lambda>s. s\<lparr>g_parse_depth := saved\<rparr>);
     ret r }"
  by (rule state_ext; simp)+

text \<open>A statement restores the depth it started at.\<close>

lemma statement_depth:
  "g_parse_depth (snd (parse_statement (Suc f) s)) = g_parse_depth s"
  by (simp add: case_prod_beta)

lemma keeps_statement_fuel: "f + n = PARSE_MAX_DEPTH + 1 \<Longrightarrow> keeps n (State (parse_statement f))"
proof (induction f arbitrary: n)
  case 0
  then show ?case unfolding parse_statement_State by (simp add: keeps_zero)
next
  case (Suc f)
  then have ps: "keeps (Suc n) (State (parse_statement f))" by simp
  show ?case
  proof (rule state_io_relI)
    fix r s s' assume run: "run_state (State (parse_statement (Suc f))) s = (r, s')"
    let ?s1 = "snd (run_state (parse_statement_inner (State (parse_statement f))) s)"
    have s': "s' = ?s1\<lparr>g_parse_depth := g_parse_depth s\<rparr>"
      using run by (auto simp: case_prod_beta)
    show "par_le n s s'"
    proof (cases "par_ok s")
      case True
      show ?thesis using statement_inner_st [OF ps True] unfolding s'
        by (auto simp: par_le_def par_st_def par_ok_def)
    next
      case False
      then show ?thesis by (simp add: par_le_def par_st_def)
    qed
  qed
qed

lemma keeps_statement: "keeps 0 (State (parse_statement stmt_fuel))"
  by (rule keeps_statement_fuel) (simp add: stmt_fuel_def)

lemma keeps_program_stmts: "keeps 0 program_stmts"
  unfolding program_stmts_def
proof (rule keeps_while, rule rounds_cur_type)
  fix stmts t assume "t \<noteq> TOK_EOF"
  have inner: "rounds 0 (do { u \<leftarrow> p_cur_type; if u = TOK_EOF then ret (stmts, False)
      else stmt_progress p_unstick_silent (State (parse_statement stmt_fuel)) stmts })"
    by (rule rounds_cur_type)
      (simp_all add: rounds_stop lively_progress keeps_statement keeps_unstick(2) unstick_pos(2))
  then show "lively 0 (if t = TOK_EOF then ret (stmts, False) else do { _ \<leftarrow> p_skip_newlines;
      u \<leftarrow> p_cur_type; if u = TOK_EOF then ret (stmts, False)
      else stmt_progress p_unstick_silent (State (parse_statement stmt_fuel)) stmts })"
    using \<open>t \<noteq> TOK_EOF\<close> rounds_lively [OF rounds_keeps [OF keeps_skips(1) inner]] by simp
qed (simp add: rounds_stop)

lemma keeps_program: "keeps 0 parse_program"
  unfolding parse_program_def by (intro keeps_intros keeps_program_stmts)

subsection \<open>Programs\<close>

text \<open>A loop that ends otherwise than by its fuel ends in a state its last round left.\<close>

lemma p_loop_post:
  assumes "\<And>a s. \<not> snd (fst (run_state (body a) s)) \<Longrightarrow> Q (snd (run_state (body a) s))"
  shows "Q (snd (run_state (p_loop k body a) s)) \<or> out_of_fuel (snd (run_state (p_loop k body a) s))"
  using assms by (induction k arbitrary: a s) (simp_all add: p_out_of_fuel_def case_prod_beta)

lemma while_post:
  assumes "\<And>a s. \<not> snd (fst (run_state (body a) s)) \<Longrightarrow> Q (snd (run_state (body a) s))"
  shows "Q (snd (run_state (p_while body a) s)) \<or> out_of_fuel (snd (run_state (p_while body a) s))"
  using p_loop_post [of body Q "Suc (tokens_left s)" a s] assms
  by (simp add: p_while_def del: p_loop.simps)

lemma p_loop_rel:
  assumes "\<And>s. R s s" and "\<And>a b c. R a b \<Longrightarrow> R b c \<Longrightarrow> R a c" and "\<And>s. R s (s\<lparr>out_of_fuel := True\<rparr>)"
    and "\<And>a s. R s (snd (run_state (body a) s))"
  shows "R s (snd (run_state (p_loop k body a) s))"
proof (induction k arbitrary: a s)
  case 0
  then show ?case using assms(3) by (simp add: p_out_of_fuel_def)
next
  case (Suc k)
  show ?case
    using assms(2) [OF assms(4) Suc] assms(4) by (simp add: case_prod_beta)
qed

definition same_depth :: "pstate \<Rightarrow> pstate \<Rightarrow> bool" where
  "same_depth s s' \<longleftrightarrow> g_parse_depth s' = g_parse_depth s"

lemma while_depth:
  assumes "\<And>a s. same_depth s (snd (run_state (body a) s))"
  shows "same_depth s (snd (run_state (p_while body a) s))"
  unfolding p_while_def
  using p_loop_rel [of same_depth body s "Suc (tokens_left s)" a] assms by (simp add: same_depth_def)

lemma depth_steps:
  "same_depth s (snd (run_state p_advance s))" "same_depth s (snd (run_state p_count_error s))"
  "same_depth s (snd (run_state p_unstick_silent s))"
  by (simp_all add: same_depth_def p_advance_def p_cur_def p_step_def p_count_error_def p_unstick_silent_def)

lemma skip_newlines_depth: "same_depth s (snd (run_state p_skip_newlines s))"
  unfolding p_skip_newlines_def p_skip_while_def
  by (rule while_depth) (simp add: p_cur_type_def case_prod_beta same_depth_def depth_steps [unfolded same_depth_def])

lemma progress_depth:
  assumes "\<And>s. same_depth s (snd (run_state ps s))"
  shows "same_depth s (snd (run_state (stmt_progress p_unstick_silent ps a) s))"
  using assms depth_steps(3) by (simp add: stmt_progress_def p_pos_def case_prod_beta same_depth_def)

lemma program_stmts_depth: "same_depth s (snd (run_state program_stmts s))"
  unfolding program_stmts_def
proof (rule while_depth)
  fix a s
  have ps: "same_depth s (snd (run_state (State (parse_statement stmt_fuel)) s))" for s
    using statement_depth by (simp add: same_depth_def stmt_fuel_def)
  show "same_depth s (snd (run_state (do { t \<leftarrow> p_cur_type; if t = TOK_EOF then ret (a, False)
      else do { _ \<leftarrow> p_skip_newlines; u \<leftarrow> p_cur_type; if u = TOK_EOF then ret (a, False)
        else stmt_progress p_unstick_silent (State (parse_statement stmt_fuel)) a } }) s))"
    using skip_newlines_depth progress_depth [OF ps]
    by (simp add: p_cur_type_def case_prod_beta same_depth_def del: parse_statement.simps)
qed

lemma program_stmts_end:
  "tk_type (cur_tok (snd (run_state program_stmts s))) = TOK_EOF \<or> out_of_fuel (snd (run_state program_stmts s))"
  unfolding program_stmts_def
  by (rule while_post)
    (auto simp: p_cur_type_def stmt_progress_def p_pos_def case_prod_beta split: if_splits)

lemma parse_state:
  "snd (parse tks d) = snd (run_state program_stmts (snd (run_state p_skip_newlines (init_pstate tks d))))"
  by (simp add: parse_def parse_program_def p_cur_line_def case_prod_beta)

lemma parse_returns:
  assumes "tks \<noteq> []" and "tk_type (last tks) = TOK_EOF"
  shows "\<not> out_of_fuel (snd (parse tks d)) \<and>
    tk_type (cur_tok (snd (parse tks d))) = TOK_EOF \<and>
    ps_pos (snd (parse tks d)) \<le> length tks \<and> length (ps_toks (snd (parse tks d))) = length tks \<and>
    g_parse_depth (snd (parse tks d)) = 0 \<and>
    g_parse_errors d \<le> g_parse_errors (ps_diag (snd (parse tks d)))"
proof -
  let ?s = "init_pstate tks d" and ?s' = "snd (parse tks d)"
  have ok: "par_ok ?s" using assms by (simp add: par_ok_def init_pstate_def)
  have le: "par_le 0 ?s ?s'" unfolding parse_def by (rule keepsD [OF keeps_program])
  have depth: "g_parse_depth ?s' = 0"
    using program_stmts_depth skip_newlines_depth
    by (simp add: parse_state same_depth_def) (simp add: init_pstate_def)
  have fuel: "\<not> out_of_fuel ?s'"
    using le ok by (auto simp: par_le_def par_st_def init_pstate_def)
  have eof: "tk_type (cur_tok ?s') = TOK_EOF" using program_stmts_end fuel unfolding parse_state by blast
  show ?thesis
    using le ok depth fuel eof by (auto simp: par_le_def par_st_def par_ok_def init_pstate_def)
qed

text \<open>
  C2: parsing a token list that ends with EOF returns with no loop and no recursion cut
  short by the model's fuel, at the EOF token, with the cursor inside the list, the
  nesting depth back at 0, and no error forgotten.
\<close>
theorem parse_total:
  assumes "tks \<noteq> []" and "tk_type (last tks) = TOK_EOF"
  shows "\<not> out_of_fuel (snd (parse tks d)) \<and>
    tk_type (cur_tok (snd (parse tks d))) = TOK_EOF \<and>
    ps_pos (snd (parse tks d)) \<le> length tks \<and> length (ps_toks (snd (parse tks d))) = length tks \<and>
    g_parse_depth (snd (parse tks d)) = 0 \<and>
    g_parse_errors d \<le> g_parse_errors (ps_diag (snd (parse tks d)))"
  by (rule parse_returns [OF assms])

definition sample_tok :: "tok_type \<Rightarrow> token" where
  "sample_tok t = \<lparr>tk_type = t, tk_num = 0, tk_str = None, tk_line = 1, tk_col = 1, tk_len = 1\<rparr>"

lemma parse_total_witness:
  "\<not> out_of_fuel (snd (parse [sample_tok TOK_ELIF, sample_tok TOK_LPAREN, sample_tok TOK_EOF] (init_diag)))"
  using parse_total [of "[sample_tok TOK_ELIF, sample_tok TOK_LPAREN, sample_tok TOK_EOF]" "init_diag"]
  by (simp add: sample_tok_def)

end
