(* ===== verification/Eigs_Parser_Wf.thy ===== *)
theory Eigs_Parser_Wf
  imports Eigs_Statement
begin

text \<open>
  The trees the parser builds are the ones the compiler relies on, whatever the tokens:
  operands are expressions, a name's hash is stored beside it, arrays that go together
  have the same length and keep the caps of \<open>src/eigenscript.h\<close>, operators and
  selectors are the known ones.
\<close>

subsection \<open>Well-formed trees\<close>

definition binary_ops :: "string list" where
  "binary_ops = [''*'', ''/'', ''%'', ''+'', ''-'', ''<<'', ''>>'', ''&'', ''^'', ''|'',
     ''<'', ''>'', ''<='', ''>='', ''='', ''!='', ''and'', ''or'']"

definition compound_ops :: "string list" where
  "compound_ops = [''+'', ''-'', ''*'', ''/'', ''%'', ''&'', ''|'', ''^'', ''<<'', ''>>'']"

definition unary_ops :: "string list" where
  "unary_ops = [''-'', ''not'', ''~'']"

text \<open>A node that holds a name holds its hash; every other node holds 0.\<close>

definition hash_ok :: "u32 \<Rightarrow> ast_data \<Rightarrow> bool" where
  "hash_ok h d \<longleftrightarrow> h =
     (case d of
        AST_IDENT s \<Rightarrow> env_name_hash s
      | AST_ASSIGN s e b \<Rightarrow> env_name_hash s
      | AST_FUNC s ps ds k b \<Rightarrow> env_name_hash s
      | AST_LISTCOMP e s i f \<Rightarrow> env_name_hash s
      | AST_FOR s i b \<Rightarrow> env_name_hash s
      | AST_TRY b s c \<Rightarrow> env_name_hash s
      | AST_DOT t s \<Rightarrow> env_name_hash s
      | AST_DOT_ASSIGN t s e \<Rightarrow> env_name_hash s
      | AST_IMPORT s \<Rightarrow> env_name_hash s
      | _ \<Rightarrow> 0)"

text \<open>The parameters before \<open>first_default\<close> have no default, and the one at it has one.\<close>

definition defaults_ok :: "nat \<Rightarrow> ast option list \<Rightarrow> bool" where
  "defaults_ok k ds \<longleftrightarrow> k = length (takeWhile (\<lambda>d. d = None) ds)"

primrec wf_ast :: "ast \<Rightarrow> bool"
  and wf_data :: "ast_data \<Rightarrow> bool" where
  "wf_ast (Node line col h p d) \<longleftrightarrow> hash_ok h d \<and> wf_data d"
| "wf_data (AST_NUM x) \<longleftrightarrow> True"
| "wf_data (AST_STR s) \<longleftrightarrow> True"
| "wf_data (AST_IDENT s) \<longleftrightarrow> True"
| "wf_data AST_NULL \<longleftrightarrow> True"
| "wf_data (AST_BINOP op l r) \<longleftrightarrow> op \<in> set binary_ops \<and> wf_ast l \<and> is_expr l \<and> wf_ast r \<and> is_expr r"
| "wf_data (AST_UNARY op e) \<longleftrightarrow> op \<in> set unary_ops \<and> wf_ast e \<and> is_expr e"
| "wf_data (AST_ASSIGN s e b) \<longleftrightarrow> wf_ast e \<and> is_expr e"
| "wf_data (AST_RELATION l r) \<longleftrightarrow> wf_ast l \<and> is_expr l \<and> wf_ast r \<and> is_expr r"
| "wf_data (AST_IF c t e) \<longleftrightarrow>
     wf_ast c \<and> is_expr c \<and> list_all (\<lambda>b. b) (map wf_ast t) \<and> list_all (\<lambda>b. b) (map wf_ast e)"
| "wf_data (AST_LOOP c b) \<longleftrightarrow> wf_ast c \<and> is_expr c \<and> list_all (\<lambda>b. b) (map wf_ast b)"
| "wf_data (AST_FUNC s ps ds k b) \<longleftrightarrow>
     ps \<noteq> [] \<and> length ps \<le> MAX_PARAMS \<and> length ds = length ps \<and> defaults_ok k ds \<and>
     list_all (pred_option (\<lambda>b. b)) (map (map_option wf_ast) ds) \<and> list_all (pred_option is_expr) ds \<and>
     list_all (\<lambda>b. b) (map wf_ast b)"
| "wf_data (AST_RETURN e) \<longleftrightarrow> wf_ast e \<and> is_expr e"
| "wf_data (AST_BLOCK b) \<longleftrightarrow> False"
| "wf_data (AST_LIST es) \<longleftrightarrow>
     length es \<le> MAX_LIST \<and> list_all (\<lambda>b. b) (map wf_ast es) \<and> list_all is_expr es"
| "wf_data (AST_INDEX t i) \<longleftrightarrow> wf_ast t \<and> is_expr t \<and> wf_ast i \<and> is_expr i"
| "wf_data (AST_LISTCOMP e s i f) \<longleftrightarrow>
     wf_ast e \<and> is_expr e \<and> wf_ast i \<and> is_expr i \<and> pred_option (\<lambda>b. b) (map_option wf_ast f) \<and> pred_option is_expr f"
| "wf_data (AST_FOR s i b) \<longleftrightarrow> wf_ast i \<and> is_expr i \<and> list_all (\<lambda>b. b) (map wf_ast b)"
| "wf_data (AST_PROGRAM b) \<longleftrightarrow> False"
| "wf_data (AST_INTERROGATE k e a w) \<longleftrightarrow>
     0 \<le> k \<and> k \<le> 6 \<and> (a = None \<or> w = None) \<and> wf_ast e \<and> is_expr e \<and>
     pred_option (\<lambda>b. b) (map_option wf_ast a) \<and> pred_option is_expr a \<and>
     pred_option (\<lambda>b. b) (map_option wf_ast w) \<and> pred_option is_expr w"
| "wf_data (AST_PREDICATE k) \<longleftrightarrow> 0 \<le> k \<and> k \<le> 5"
| "wf_data (AST_TRY b s c) \<longleftrightarrow> list_all (\<lambda>b. b) (map wf_ast b) \<and> list_all (\<lambda>b. b) (map wf_ast c)"
| "wf_data (AST_DICT ks vs) \<longleftrightarrow>
     length ks = length vs \<and> length ks \<le> MAX_LIST \<and>
     list_all (\<lambda>b. b) (map wf_ast ks) \<and> list_all is_expr ks \<and>
     list_all (\<lambda>b. b) (map wf_ast vs) \<and> list_all is_expr vs"
| "wf_data (AST_DOT t s) \<longleftrightarrow> wf_ast t \<and> is_expr t"
| "wf_data AST_BREAK \<longleftrightarrow> True"
| "wf_data AST_CONTINUE \<longleftrightarrow> True"
| "wf_data (AST_DOT_ASSIGN t s e) \<longleftrightarrow> wf_ast t \<and> is_expr t \<and> wf_ast e \<and> is_expr e"
| "wf_data (AST_IMPORT s) \<longleftrightarrow> True"
| "wf_data (AST_MATCH e ps bs) \<longleftrightarrow>
     wf_ast e \<and> is_expr e \<and> length ps = length bs \<and> length ps \<le> MAX_MATCH_CASES \<and>
     list_all (pred_option (\<lambda>b. b)) (map (map_option wf_ast) ps) \<and> list_all (pred_option is_expr) ps \<and>
     list_all (list_all (\<lambda>b. b)) (map (map wf_ast) bs)"
| "wf_data (AST_LAMBDA ps b) \<longleftrightarrow> ps \<noteq> [] \<and> length ps \<le> MAX_PARAMS \<and> wf_ast b \<and> is_expr b"
| "wf_data (AST_UNOBSERVED b) \<longleftrightarrow> list_all (\<lambda>b. b) (map wf_ast b)"
| "wf_data (AST_INDEX_ASSIGN t i e op) \<longleftrightarrow>
     wf_ast t \<and> is_expr t \<and> wf_ast i \<and> is_expr i \<and> wf_ast e \<and> is_expr e \<and> op \<in> set ([] # compound_ops)"
| "wf_data (AST_LIST_PATTERN_ASSIGN ns hs e) \<longleftrightarrow>
     ns \<noteq> [] \<and> length ns \<le> MAX_PATTERN_NAMES \<and> hs = map env_name_hash ns \<and> wf_ast e \<and> is_expr e"
| "wf_data (AST_SLICE t a b) \<longleftrightarrow>
     wf_ast t \<and> is_expr t \<and> pred_option (\<lambda>b. b) (map_option wf_ast a) \<and> pred_option is_expr a \<and>
     pred_option (\<lambda>b. b) (map_option wf_ast b) \<and> pred_option is_expr b"

definition good :: "ast \<Rightarrow> bool" where
  "good a \<longleftrightarrow> wf_ast a \<and> is_expr a"

lemma list_all_map_id [simp]: "list_all (\<lambda>b. b) (map f xs) = list_all f xs"
  by (simp add: list.pred_map comp_def)

lemma list_all_map_opt [simp]:
  "list_all (pred_option (\<lambda>b. b)) (map (map_option f) xs) = list_all (pred_option f) xs"
  "list_all (list_all (\<lambda>b. b)) (map (map f) ys) = list_all (list_all f) ys"
  "pred_option (\<lambda>b. b) (map_option f a) = pred_option f a"
  by (simp_all add: list.pred_map option.pred_map comp_def)

lemma good_list: "list_all good es \<longleftrightarrow> list_all wf_ast es \<and> list_all is_expr es"
  by (auto simp: good_def list_all_iff)

lemma good_option: "pred_option good a \<longleftrightarrow> pred_option wf_ast a \<and> pred_option is_expr a"
  by (auto simp: good_def option.pred_set)

lemma good_options: "list_all (pred_option good) ds \<longleftrightarrow> list_all (pred_option wf_ast) ds \<and> list_all (pred_option is_expr) ds"
  by (auto simp: good_option list_all_iff)

lemmas node_defs = make_node_def make_node_col_def set_name_hash_def set_hash_def set_parenthesized_def
  good_def hash_ok_def

text \<open>What the constructors of expressions need.\<close>

lemma good_nodes [simp]:
  "good (make_node_col (AST_BINOP op l r) i j) \<longleftrightarrow> op \<in> set binary_ops \<and> good l \<and> good r"
  "good (make_node_col (AST_UNARY op l) i j) \<longleftrightarrow> op \<in> set unary_ops \<and> good l"
  "good (make_node_col (AST_RELATION l r) i j) \<longleftrightarrow> good l \<and> good r"
  "good (make_node_col (AST_INDEX l r) i j) \<longleftrightarrow> good l \<and> good r"
  "good (make_node_col (AST_SLICE l a b) i j) \<longleftrightarrow> good l \<and> pred_option good a \<and> pred_option good b"
  "good (set_name_hash (make_node_col (AST_DOT l key) i j) key) \<longleftrightarrow> good l"
  "good (make_node (AST_LIST es) i) \<longleftrightarrow> length es \<le> MAX_LIST \<and> list_all good es"
  "good (make_node (AST_DICT es vs) i) \<longleftrightarrow>
     length es = length vs \<and> length es \<le> MAX_LIST \<and> list_all good es \<and> list_all good vs"
  "good (make_node (AST_LAMBDA ps l) i) \<longleftrightarrow> ps \<noteq> [] \<and> length ps \<le> MAX_PARAMS \<and> good l"
  "good (set_name_hash (make_node (AST_LISTCOMP l s r a) i) s) \<longleftrightarrow> good l \<and> good r \<and> pred_option good a"
  "good (make_node (AST_INTERROGATE k l a b) i) \<longleftrightarrow>
     0 \<le> k \<and> k \<le> 6 \<and> (a = None \<or> b = None) \<and> good l \<and> pred_option good a \<and> pred_option good b"
  "good (make_node (AST_PREDICATE k) i) \<longleftrightarrow> 0 \<le> k \<and> k \<le> 5"
  "good (make_node AST_NULL i)"
  "good (make_node (AST_NUM x) i)" "good (make_node (AST_STR s) i)"
  by (auto simp: make_node_def make_node_col_def set_name_hash_def set_hash_def hash_ok_def
      good_def good_list good_option)

lemma good_ident [simp]: "good (ident_node t)"
  by (simp add: ident_node_def node_defs)

lemma good_parenthesized [simp]: "good (set_parenthesized a) \<longleftrightarrow> good a"
  by (cases a) (simp add: node_defs)

subsection \<open>What a parser yields\<close>

definition yields :: "('a \<Rightarrow> bool) \<Rightarrow> 'a parser \<Rightarrow> bool" where
  "yields P m \<longleftrightarrow> (\<forall>s. P (fst (run_state m s)))"

lemma yields_ret: "P x \<Longrightarrow> yields P (ret x)"
  by (simp add: yields_def)

lemma yields_bind: "yields Q m \<Longrightarrow> (\<And>r. Q r \<Longrightarrow> yields P (f r)) \<Longrightarrow> yields P (State_Monad.bind m f)"
  by (simp add: yields_def case_prod_beta)

lemma yields_any: "(\<And>r. yields P (f r)) \<Longrightarrow> yields P (State_Monad.bind m f)"
  by (simp add: yields_def case_prod_beta)

lemma yields_if: "(b \<Longrightarrow> yields P m) \<Longrightarrow> (\<not> b \<Longrightarrow> yields P m') \<Longrightarrow> yields P (if b then m else m')"
  by simp

lemma yields_case_option:
  "yields P m \<Longrightarrow> (\<And>x. opt = Some x \<Longrightarrow> yields P (f x)) \<Longrightarrow> yields P (case opt of None \<Rightarrow> m | Some x \<Rightarrow> f x)"
  by (cases opt) simp_all

lemma yields_mono: "yields Q m \<Longrightarrow> (\<And>r. Q r \<Longrightarrow> P r) \<Longrightarrow> yields P m"
  by (simp add: yields_def)

lemma yieldsD: "yields P m \<Longrightarrow> P (fst (run_state m s))"
  by (simp add: yields_def)

lemma yields_loop:
  assumes "\<And>a. I a \<Longrightarrow> yields (\<lambda>r. I (fst r)) (body a)"
  shows "I a \<Longrightarrow> yields I (p_loop k body a)"
proof (induction k arbitrary: a)
  case 0
  then show ?case by (auto intro: yields_any yields_ret)
next
  case (Suc k)
  have "yields (\<lambda>r. I (fst r)) (body a)" using Suc.prems by (rule assms)
  then show ?case using Suc.IH by (auto intro!: yields_bind yields_if yields_ret)
qed

lemma yields_while:
  assumes "I a" and "\<And>a. I a \<Longrightarrow> yields (\<lambda>r. I (fst r)) (body a)"
  shows "yields I (p_while body a)"
  unfolding p_while_def using yields_loop [of I body, OF assms(2,1)] by (rule yields_any)

text \<open>A part that may be missing.\<close>

lemma yields_opt:
  assumes "yields P m"
  shows "yields (pred_option P) (if b then do { e \<leftarrow> m; ret (Some e) } else ret None)"
    and "yields (pred_option P) (if b then do { _ \<leftarrow> p_advance; e \<leftarrow> m; ret (Some e) } else ret None)"
  using assms by (auto intro!: yields_if yields_any yields_ret yields_bind [OF assms])

lemmas yields_intros = yields_ret yields_if yields_case_option yields_any

subsection \<open>Expressions\<close>

lemma good_subscript:
  assumes "yields good pe" and "good target"
  shows "yields good (parse_subscript_suffix pe target)"
proof -
  have node: "yields (\<lambda>n. \<forall>i j. good (make_node_col n i j))
     (if t = TOK_COLON then do {
         _ \<leftarrow> p_advance;
         u \<leftarrow> p_cur_type;
         end \<leftarrow> (if u \<noteq> TOK_RBRACKET then do { e \<leftarrow> pe; ret (Some e) } else ret None);
         ret (AST_SLICE target None end) }
       else do {
         start \<leftarrow> pe;
         u \<leftarrow> p_cur_type;
         if u = TOK_COLON then do {
           _ \<leftarrow> p_advance;
           v \<leftarrow> p_cur_type;
           end \<leftarrow> (if v \<noteq> TOK_RBRACKET then do { e \<leftarrow> pe; ret (Some e) } else ret None);
           ret (AST_SLICE target (Some start) end) }
         else ret (AST_INDEX target start) })" for t
    by (intro yields_bind [OF assms(1)] yields_bind [OF yields_opt(1) [OF assms(1)]] yields_intros)
      (simp_all add: assms(2))
  show ?thesis
    unfolding parse_subscript_suffix_def
    by (intro yields_bind [OF node] yields_intros) simp
qed

lemma good_dot: "good target \<Longrightarrow> yields good (parse_dot_suffix b target)"
  unfolding parse_dot_suffix_def by (intro yields_intros) simp

lemma good_postfix:
  assumes "yields good pe" and "good a"
  shows "yields good (postfix_loop pe b a)" and "yields good (subscript_loop pe a)"
    and "yields good (parse_postfix_chain pe a)"
proof -
  show post: "yields good (postfix_loop pe b a)" for b
    unfolding postfix_loop_def
    by (intro yields_while assms(2) yields_if yields_any yields_ret yields_bind [where Q = good]
        good_dot good_subscript assms(1)) simp_all
  show "yields good (subscript_loop pe a)"
    unfolding subscript_loop_def
    by (intro yields_while assms(2) yields_if yields_any yields_ret yields_bind [where Q = good]
        good_subscript assms(1)) simp_all
  show "yields good (parse_postfix_chain pe a)"
    unfolding parse_postfix_chain_def by (rule post)
qed

lemma good_qualifier:
  assumes "yields good pe"
  shows "yields (\<lambda>q. (fst q = None \<or> snd q = None) \<and> pred_option good (fst q) \<and> pred_option good (snd q))
    (parse_qualifier pe)"
  unfolding parse_qualifier_def
  by (intro yields_bind [OF assms] yields_intros) simp_all

lemma lambda_params_cap: "yields (\<lambda>r. length (fst r) \<le> MAX_PARAMS) lambda_params"
  unfolding lambda_params_def case_prod_beta
  by (intro yields_while yields_intros) simp_all

lemma good_list_elems:
  assumes "yields good pe" and "length es \<le> MAX_LIST \<and> list_all good es"
  shows "yields (\<lambda>es. length es \<le> MAX_LIST \<and> list_all good es) (list_elems pe es)"
  unfolding list_elems_def
  by (intro yields_while assms(2) yields_bind [OF assms(1)] yields_intros) simp_all

definition entries_ok :: "ast list \<times> ast list \<Rightarrow> bool" where
  "entries_ok kv \<longleftrightarrow> length (fst kv) = length (snd kv) \<and> length (fst kv) \<le> MAX_LIST \<and>
     list_all good (fst kv) \<and> list_all good (snd kv)"

lemma good_dict_entry:
  assumes "yields good pe" and "entries_ok kv" and "length (fst kv) < MAX_LIST"
  shows "yields entries_ok (dict_entry pe kv)"
  unfolding dict_entry_def
  using assms(2,3) by (intro yields_bind [OF assms(1)] yields_intros) (simp add: entries_ok_def)

lemma good_dict_entries:
  assumes "yields good pe" and "entries_ok kv"
  shows "yields entries_ok (dict_entries pe kv)"
  unfolding dict_entries_def
  by (intro yields_while assms(2) yields_bind [OF good_dict_entry [OF assms(1)]] yields_intros) simp_all

lemma question_range: "is_question t \<Longrightarrow> 0 \<le> int (tok_code t) - int (tok_code TOK_WHAT) \<and>
    int (tok_code t) - int (tok_code TOK_WHAT) \<le> 6"
  by (simp add: is_question_def tok_code_def)

lemma predicate_range: "is_predicate t \<Longrightarrow> 0 \<le> int (tok_code t) - int (tok_code TOK_CONVERGED) \<and>
    int (tok_code t) - int (tok_code TOK_CONVERGED) \<le> 5"
  by (simp add: is_predicate_def tok_code_def)

lemma good_primaries:
  assumes "yields good pe" and "yields good pu"
  shows "is_question (tk_type t) \<Longrightarrow> yields good (primary_question pe t)"
    and "yields good (primary_prev pe pu t)"
    and "is_predicate (tk_type t) \<Longrightarrow> yields good (primary_predicate t)"
    and "yields good (primary_literal pe (AST_NUM x))" "yields good (primary_literal pe (AST_STR str))"
    and "yields good (primary_report t)"
    and "yields good (primary_lambda pe t)"
    and "yields good (primary_group pe)"
    and "yields good (primary_error t)"
proof -
  show "yields good (primary_question pe t)" if "is_question (tk_type t)"
    unfolding primary_question_def
    by (intro good_postfix yields_bind [OF assms(1)] yields_bind [OF good_qualifier] assms yields_intros)
      (use question_range [OF that] in simp_all)
  show "yields good (primary_prev pe pu t)"
    unfolding primary_prev_def
    by (intro good_postfix yields_bind [OF assms(2)] yields_bind [OF good_qualifier] assms yields_intros) simp_all
  show "yields good (primary_predicate t)" if "is_predicate (tk_type t)"
    unfolding primary_predicate_def by (intro yields_intros) (use predicate_range [OF that] in simp)
  show "yields good (primary_literal pe (AST_NUM x))" "yields good (primary_literal pe (AST_STR str))"
    unfolding primary_literal_def by (intro good_postfix assms yields_intros; simp)+
  show "yields good (primary_report t)"
    unfolding primary_report_def by (intro yields_intros) simp
  show "yields good (primary_lambda pe t)"
    unfolding primary_lambda_def
    by (intro yields_bind [OF lambda_params_cap] yields_bind [OF assms(1)] yields_intros)
      (simp add: MAX_PARAMS_def)
  show "yields good (primary_group pe)"
    unfolding primary_group_def
    by (intro good_postfix yields_bind [OF assms(1)] assms yields_intros) simp
  show "yields good (primary_error t)"
    unfolding primary_error_def by (intro yields_intros) simp
qed

lemma good_literals:
  assumes "yields good pe"
  shows "yields good (primary_list pe)" and "yields good (primary_dict pe)"
proof -
  show "yields good (primary_list pe)"
    unfolding primary_list_def
    by (intro good_postfix yields_bind [OF good_list_elems] yields_bind [OF assms(1)]
        yields_bind [OF yields_opt(2) [OF assms(1)]] assms yields_intros)
      (simp_all add: MAX_LIST_def)
  have "yields entries_ok
      (if t \<noteq> TOK_RBRACE then do { kv \<leftarrow> dict_entry pe ([], []); dict_entries pe kv } else ret ([], []))" for t
    by (intro yields_if yields_bind [OF good_dict_entry [OF assms]] good_dict_entries assms yields_ret)
      (simp_all add: entries_ok_def MAX_LIST_def)
  then show "yields good (primary_dict pe)"
    unfolding primary_dict_def
    by (intro yields_any [where m = p_advance] yields_any [where m = p_cur_type] yields_bind [where Q = entries_ok])
      (auto intro!: yields_any good_postfix assms simp: entries_ok_def)
qed

lemma good_primary:
  assumes "yields good pe" and "yields good pu"
  shows "yields good (parse_primary pe pu)"
  unfolding parse_primary_def Let_def
  by (intro good_primaries [OF assms] good_literals good_postfix assms yields_intros) simp_all

lemma good_relation:
  assumes "yields good pe" and "yields good pu"
  shows "yields good (parse_relation pe pu)" and "yields good (parse_unary_body pe pu)"
proof -
  show rel: "yields good (parse_relation pe pu)"
    unfolding parse_relation_def
    by (intro yields_bind [OF good_primary [OF assms]] yields_bind [OF assms(2)] yields_intros) simp_all
  show "yields good (parse_unary_body pe pu)"
    unfolding parse_unary_body_def
    by (intro yields_bind [OF assms(2)] rel yields_intros)
      (simp_all add: prefix_op_def unary_ops_def split: if_splits)
qed

text \<open>The operators of a level are binary operators.\<close>

definition ops_ok :: "(tok_type \<Rightarrow> string option) \<Rightarrow> bool" where
  "ops_ok op_of \<longleftrightarrow> (\<forall>t. pred_option (\<lambda>op. op \<in> set binary_ops) (op_of t))"

lemma ops_are_ok:
  "ops_ok mul_op" "ops_ok add_op" "ops_ok shift_op" "ops_ok bitand_op" "ops_ok bitxor_op" "ops_ok bitor_op"
  "ops_ok comparison_op" "ops_ok and_op" "ops_ok or_op"
  by (simp_all add: ops_ok_def binary_ops_def mul_op_def add_op_def shift_op_def bitand_op_def
      bitxor_op_def bitor_op_def comparison_op_def and_op_def or_op_def)

lemma ops_okD: "ops_ok op_of \<Longrightarrow> op_of t = Some op \<Longrightarrow> op \<in> set binary_ops"
  by (metis ops_ok_def option.pred_inject(2))

lemma good_level:
  assumes "ops_ok op_of" and "yields good next"
  shows "yields good (binop_level op_of next)"
proof -
  have "yields good (binop_loop op_of next a)" if "good a" for a
    unfolding binop_loop_def
    by (intro yields_while that yields_bind [OF assms(2)] yields_intros)
      (simp_all add: ops_okD [OF assms(1)])
  then show ?thesis
    unfolding binop_level_def by (intro yields_bind [OF assms(2)])
qed

lemma good_bitor: "yields good pu \<Longrightarrow> yields good (parse_bitor pu)"
  unfolding parse_bitor_def parse_bitxor_def parse_bitand_def parse_shift_def parse_addition_def
    parse_multiply_def
  by (intro good_level ops_are_ok)

lemma good_comparison: "yields good pu \<Longrightarrow> yields good (parse_comparison pu)"
  unfolding parse_comparison_def
  by (intro yields_bind [OF good_bitor] yields_intros)
    (simp_all add: ops_okD [OF ops_are_ok(7)])

lemma good_or: "yields good pu \<Longrightarrow> yields good (parse_or pu)"
  unfolding parse_or_def parse_and_def by (intro good_level ops_are_ok good_comparison)

lemma good_pipe:
  assumes "yields good pu"
  shows "yields good (parse_pipe pu)"
  unfolding parse_pipe_def
  by (intro yields_bind [OF good_or [OF assms]] yields_while yields_intros) simp_all

lemma good_guard:
  assumes "yields good m"
  shows "yields good (depth_guard m)"
  unfolding depth_guard_def
  by (intro yields_bind [OF assms] yields_intros) simp_all

lemma good_expression_fuel:
  "yields good (State (parse_expression f)) \<and> yields good (State (parse_unary f))"
proof (induction f)
  case 0
  then show ?case by (simp add: yields_def p_out_of_fuel_def)
next
  case (Suc f)
  have "yields good (depth_guard (parse_pipe (State (parse_unary f))))"
    "yields good (depth_guard (parse_unary_body (State (parse_expression f)) (State (parse_unary f))))"
    using Suc by (auto intro: good_guard good_pipe good_relation(2))
  then show ?case by (simp add: yields_def)
qed

lemma good_parse_expr: "yields good parse_expr" "yields good parse_un"
  by (simp_all add: parse_expr_def parse_un_def good_expression_fuel)

subsection \<open>Statements\<close>

definition wf_block :: "ast list \<Rightarrow> bool" where
  "wf_block b \<longleftrightarrow> list_all wf_ast b"

lemma wf_nodes [simp]:
  "wf_ast (make_node (AST_IF e t el) i) \<longleftrightarrow> good e \<and> wf_block t \<and> wf_block el"
  "wf_ast (make_node (AST_LOOP e t) i) \<longleftrightarrow> good e \<and> wf_block t"
  "wf_ast (make_node (AST_UNOBSERVED t) i) \<longleftrightarrow> wf_block t"
  "wf_ast (set_name_hash (make_node (AST_FOR s e t) i) s) \<longleftrightarrow> good e \<and> wf_block t"
  "wf_ast (set_name_hash (make_node (AST_TRY t s el) i) s) \<longleftrightarrow> wf_block t \<and> wf_block el"
  "wf_ast (make_node (AST_RETURN e) i) \<longleftrightarrow> good e"
  "wf_ast (set_name_hash (make_node (AST_IMPORT s) i) s)"
  "wf_ast (set_name_hash (make_node_col (AST_ASSIGN s e b) i j) s) \<longleftrightarrow> good e"
  "wf_ast (make_node AST_BREAK i)" "wf_ast (make_node AST_CONTINUE i)" "wf_ast (make_node AST_NULL i)"
  "wf_ast (make_node (AST_LIST_PATTERN_ASSIGN ns (map env_name_hash ns) e) i) \<longleftrightarrow>
     ns \<noteq> [] \<and> length ns \<le> MAX_PATTERN_NAMES \<and> good e"
  "wf_ast (make_node_col (AST_INDEX_ASSIGN l r e op) i j) \<longleftrightarrow>
     good l \<and> good r \<and> good e \<and> op \<in> set ([] # compound_ops)"
  "wf_ast (set_name_hash (make_node (AST_FUNC s ps ds k t) i) s) \<longleftrightarrow>
     ps \<noteq> [] \<and> length ps \<le> MAX_PARAMS \<and> length ds = length ps \<and> defaults_ok k ds \<and>
     list_all (pred_option good) ds \<and> wf_block t"
  "wf_ast (make_node (AST_MATCH e pats bs) i) \<longleftrightarrow>
     good e \<and> length pats = length bs \<and> length pats \<le> MAX_MATCH_CASES \<and>
     list_all (pred_option good) pats \<and> list_all wf_block bs"
  by (auto simp: make_node_def make_node_col_def set_name_hash_def set_hash_def hash_ok_def
      good_def good_options wf_block_def [abs_def])

lemma compound_op_ok:
  "is_compound_assign t \<Longrightarrow> compound_to_op t \<in> set compound_ops"
  by (cases t) (simp_all add: is_compound_assign_def tok_code_def compound_to_op_def compound_ops_def)

lemma compound_op_binary: "op \<in> set compound_ops \<Longrightarrow> op \<in> set binary_ops"
  by (auto simp: compound_ops_def binary_ops_def)

abbreviation wf_stmt :: "ast option parser \<Rightarrow> bool" where
  "wf_stmt ps \<equiv> yields (pred_option wf_ast) ps"

lemma wf_block_simps [simp]: "wf_block []" "wf_block (a # b) \<longleftrightarrow> wf_ast a \<and> wf_block b"
  "wf_block (b @ c) \<longleftrightarrow> wf_block b \<and> wf_block c"
  by (simp_all add: wf_block_def)

lemma wf_progress:
  assumes "wf_stmt ps" and "wf_block b"
  shows "yields (\<lambda>r. wf_block (fst r)) (stmt_progress unstick ps b)"
  unfolding stmt_progress_def
  by (intro yields_bind [OF assms(1)] yields_intros) (auto simp: assms(2) split: option.split)

lemma wf_parse_block:
  assumes "wf_stmt ps"
  shows "yields wf_block (parse_block ps)" and "yields wf_block (parse_suite ps)"
proof -
  have stmts: "yields wf_block (block_stmts ps)"
    unfolding block_stmts_def
    by (intro yields_while wf_progress assms yields_intros) simp_all
  show block: "yields wf_block (parse_block ps)"
    unfolding parse_block_def
    by (intro yields_bind [OF stmts] yields_intros) simp_all
  show "yields wf_block (parse_suite ps)"
    unfolding parse_suite_def by (intro block yields_any)
qed

text \<open>The parameter list read so far.\<close>

definition params_ok :: "params_state \<Rightarrow> bool" where
  "params_ok r \<longleftrightarrow>
     (case r of (ps, ds, fd, _) \<Rightarrow>
        length ps \<le> MAX_PARAMS \<and> length ds = length ps \<and> list_all (pred_option good) ds \<and>
        (case fd of None \<Rightarrow> list_all (\<lambda>d. d = None) ds | Some k \<Rightarrow> defaults_ok k ds \<and> k < length ds))"

lemma takeWhile_snoc:
  "takeWhile P (xs @ [x]) = (if list_all P xs then xs @ (if P x then [x] else []) else takeWhile P xs)"
  by (induction xs) auto

lemma takeWhile_full: "length (takeWhile P xs) < length xs \<longleftrightarrow> \<not> list_all P xs"
  by (induction xs) auto

lemma params_ok_snoc:
  assumes "params_ok (ps, ds, fd, b)" and "length ps < MAX_PARAMS" and "pred_option good e"
  shows "params_ok (ps @ [x], ds @ [e],
      (if e = None then fd else if fd = None then Some (length ps) else fd), c)"
proof (cases fd)
  case None
  then show ?thesis
    using assms by (auto simp: params_ok_def defaults_ok_def takeWhile_snoc split: option.splits)
next
  case (Some k)
  then have "k < length ds" and "defaults_ok k ds" using assms(1) by (simp_all add: params_ok_def)
  then have "\<not> list_all (\<lambda>d. d = None) ds" by (simp add: defaults_ok_def flip: takeWhile_full)
  then show ?thesis
    using assms Some by (auto simp: params_ok_def defaults_ok_def takeWhile_snoc)
qed

lemma define_params_ok: "yields params_ok define_params"
  unfolding define_params_def
proof (rule yields_while)
  show "params_ok ([], [], None, False)" by (simp add: params_ok_def)
next
  fix a :: params_state assume a: "params_ok a"
  obtain ps ds fd rep where eq: "a = (ps, ds, fd, rep)" by (metis prod_cases4)
  have default: "yields (\<lambda>r. pred_option good (fst r) \<and>
      snd r = (if fst r = None then fd else if fd = None then Some (length ps) else fd))
    (if b then do { e \<leftarrow> parse_expr; ret (Some e, if fd = None then Some (length ps) else fd) }
     else do { _ \<leftarrow> (if fd \<noteq> None then p_count_error else ret ()); ret (None, fd) })" for b
    by (intro yields_bind [OF good_parse_expr(1)] yields_intros) simp_all
  have stop: "params_ok (ps, ds, fd, c)" for c using a by (simp add: eq params_ok_def)
  show "yields (\<lambda>r. params_ok (fst r)) (case a of (params, defaults, first_default, reported) \<Rightarrow> do {
     t \<leftarrow> p_cur;
     if is_param (tk_type t) then do {
       _ \<leftarrow> p_report_error t False;
       if MAX_PARAMS \<le> length params then do {
         _ \<leftarrow> (if reported then ret () else p_count_error);
         _ \<leftarrow> p_advance;
         is_next \<leftarrow> p_match TOK_IS;
         _ \<leftarrow> (if is_next then do { _ \<leftarrow> parse_expr; ret () } else ret ());
         _ \<leftarrow> p_match TOK_COMMA;
         ret ((params, defaults, first_default, True), True) }
       else do {
         _ \<leftarrow> p_advance;
         is_next \<leftarrow> p_match TOK_IS;
         r \<leftarrow> (if is_next then do {
                  e \<leftarrow> parse_expr;
                  ret (Some e, if first_default = None then Some (length params) else first_default) }
              else do {
                  _ \<leftarrow> (if first_default \<noteq> None then p_count_error else ret ());
                  ret (None, first_default) });
         _ \<leftarrow> p_match TOK_COMMA;
         ret ((params @ [str_val t], defaults @ [fst r], snd r, reported), True) } }
     else ret ((params, defaults, first_default, reported), False) })"
    unfolding eq prod.case
    by (intro yields_bind [OF default] yields_intros)
      (use stop params_ok_snoc [OF a [unfolded eq]] in \<open>simp_all add: not_le\<close>)
qed

lemma takeWhile_all: "list_all P xs \<Longrightarrow> takeWhile P xs = xs"
  by (simp add: list_all_iff)

lemma wf_define:
  assumes "wf_stmt ps"
  shows "yields wf_ast (stmt_define ps t)"
proof -
  have params: "yields params_ok (if paren then do { r \<leftarrow> define_params; _ \<leftarrow> p_expect TOK_RPAREN; ret r }
      else ret ([], [], None, False))" for paren
    by (intro yields_bind [OF define_params_ok] yields_intros) (simp_all add: params_ok_def)
  show ?thesis
    unfolding stmt_define_def Let_def case_prod_beta
    by (intro yields_bind [OF params] yields_bind [OF wf_parse_block(2) [OF assms]] yields_intros)
      (auto simp: params_ok_def defaults_ok_def MAX_PARAMS_def takeWhile_all split: option.splits)
qed

lemma wf_match:
  assumes "wf_stmt ps"
  shows "yields wf_ast (stmt_match ps t)"
proof -
  let ?case = "\<lambda>c. pred_option good (fst c) \<and> wf_block (snd c)"
  have pattern: "yields (pred_option good) (if b then do { _ \<leftarrow> p_advance; ret None }
      else do { e \<leftarrow> parse_expr; ret (Some e) })" for b
    by (intro yields_bind [OF good_parse_expr(1)] yields_intros) simp_all
  have one: "yields ?case (match_case ps)"
    unfolding match_case_def
    by (intro yields_bind [OF pattern] yields_bind [OF wf_parse_block(2) [OF assms]] yields_intros) simp
  have cases: "yields (\<lambda>r. length (fst r) \<le> MAX_MATCH_CASES \<and> list_all ?case (fst r)) (match_cases ps)"
    unfolding match_cases_def case_prod_beta
    by (intro yields_while yields_bind [OF one] yields_intros) simp_all
  show ?thesis
    unfolding stmt_match_def
    by (intro yields_bind [OF good_parse_expr(1)] yields_bind [OF cases] yields_intros)
      (simp add: list.pred_map comp_def list_all_iff)
qed

lemma wf_compound:
  assumes "wf_stmt ps"
  shows "yields wf_ast (stmt_try ps t)" and "yields wf_ast (stmt_loop ps)"
    and "yields wf_ast (stmt_unobserved ps t)" and "yields wf_ast (stmt_for ps)"
    and "yields wf_ast (stmt_if ps)"
proof -
  note suite = wf_parse_block(2) [OF assms] and expr = good_parse_expr(1)
  show "yields wf_ast (stmt_try ps t)"
    unfolding stmt_try_def by (intro yields_bind [OF suite] yields_intros) simp
  show "yields wf_ast (stmt_loop ps)"
    unfolding stmt_loop_def by (intro yields_bind [OF suite] yields_bind [OF expr] yields_intros) simp
  show "yields wf_ast (stmt_unobserved ps t)"
    unfolding stmt_unobserved_def by (intro yields_bind [OF suite] yields_intros) simp
  show "yields wf_ast (stmt_for ps)"
    unfolding stmt_for_def by (intro yields_bind [OF suite] yields_bind [OF expr] yields_intros) simp
  have head: "yields (\<lambda>h. good (fst h) \<and> wf_block (snd h)) (if_head ps)"
    unfolding if_head_def by (intro yields_bind [OF suite] yields_bind [OF expr] yields_intros) simp
  have arm: "yields wf_block (elif_arm ps)"
    unfolding elif_arm_def
    by (intro yields_bind [OF assms] yields_intros) (auto split: option.split)
  have tail: "yields wf_block (if_else ps)"
    unfolding if_else_def by (intro arm suite yields_intros) simp
  show "yields wf_ast (stmt_if ps)"
    unfolding stmt_if_def by (intro yields_bind [OF head] yields_bind [OF tail] yields_intros) simp
qed

lemma pattern_names_ok:
  "yields (\<lambda>r. length (fst r) \<le> MAX_PATTERN_NAMES \<and> (snd r \<longrightarrow> fst r \<noteq> [])) pattern_names"
  unfolding pattern_names_def case_prod_beta Let_def
  by (intro yields_while yields_intros) (simp_all add: not_le)

lemma good_dot_node: "good a \<Longrightarrow> nd_data a = AST_DOT t s \<Longrightarrow> good t \<and> nd_hash a = env_name_hash s"
  by (cases a) (auto simp: good_def hash_ok_def)

lemma good_index_node: "good a \<Longrightarrow> nd_data a = AST_INDEX t i \<Longrightarrow> good t \<and> good i"
  by (cases a) (auto simp: good_def)

lemma good_clone: "good a \<Longrightarrow> good (clone_ast a)"
  using clone_ast_expr_aux(1) [of a] by (simp add: good_def)

lemma wf_dot_assign:
  assumes "good tgt" and "h = env_name_hash key"
  shows "yields wf_ast (dot_assign t h tgt key op)"
proof -
  have node: "wf_ast (set_hash h (make_node_col (AST_DOT_ASSIGN tgt key e) i j)) \<longleftrightarrow> good e" for e i j
    using assms by (auto simp: node_defs)
  have dot: "good (set_hash h (make_node_col (AST_DOT (clone_ast tgt) key) i j))" for i j
    using good_clone [OF assms(1)] assms(2) by (simp add: node_defs)
  show ?thesis
    unfolding dot_assign_def Let_def
    by (intro yields_bind [OF good_parse_expr(1)] yields_intros)
      (simp add: node dot compound_op_binary compound_op_ok)
qed

lemma wf_index_assign:
  assumes "good tgt" and "good idx"
  shows "yields wf_ast (index_assign t tgt idx op)"
  unfolding index_assign_def
  by (intro yields_bind [OF good_parse_expr(1)] yields_intros) (simp add: assms compound_op_ok)

lemma wf_target_assign:
  assumes "good a" and "target_assign t a op = Some m"
  shows "yields wf_ast m"
proof -
  consider (dot) tgt key where "nd_data a = AST_DOT tgt key" "m = dot_assign t (nd_hash a) tgt key op"
    | (index) tgt idx where "nd_data a = AST_INDEX tgt idx" "m = index_assign t tgt idx op"
    using assms(2) by (cases "nd_data a") (simp_all add: target_assign_def split: if_splits)
  then show ?thesis
  proof cases
    case dot
    then show ?thesis using good_dot_node [OF assms(1)] by (simp add: wf_dot_assign)
  next
    case index
    then show ?thesis using good_index_node [OF assms(1)] by (simp add: wf_index_assign)
  qed
qed

lemma wf_simple:
  "yields wf_ast stmt_return" "yields wf_ast (stmt_import t)" "yields wf_ast (stmt_jump AST_BREAK t)"
  "yields wf_ast (stmt_jump AST_CONTINUE t)" "yields wf_ast (stmt_destructure t)"
  "yields wf_ast (stmt_assign t)" "yields wf_ast stmt_local" "yields wf_ast stmt_expression"
proof -
  note expr = good_parse_expr(1)
  have result: "yields good (if b then ret (make_node AST_NULL l) else parse_expr)" for b l
    by (intro yields_if yields_ret expr) simp
  show "yields wf_ast stmt_return"
    unfolding stmt_return_def by (intro yields_bind [OF result] yields_intros) simp
  show "yields wf_ast (stmt_import t)" "yields wf_ast (stmt_jump AST_BREAK t)"
    "yields wf_ast (stmt_jump AST_CONTINUE t)"
    unfolding stmt_import_def stmt_jump_def by (intro yields_intros; simp)+
  show "yields wf_ast (stmt_destructure t)"
    unfolding stmt_destructure_def case_prod_beta
    by (intro yields_bind [OF pattern_names_ok] yields_bind [OF expr] yields_intros) simp_all
  show "yields wf_ast (stmt_assign t)"
    unfolding stmt_assign_def Let_def
    by (intro yields_bind [OF expr] yields_intros) (simp add: compound_op_binary compound_op_ok)
  show "yields wf_ast stmt_local"
    unfolding stmt_local_def by (intro yields_bind [OF expr] yields_intros) simp
  show "yields wf_ast stmt_expression"
    unfolding stmt_expression_def
    by (intro yields_bind [OF expr] yields_intros) (simp add: good_def)
qed

lemma wf_target: "yields (pred_option wf_ast) (stmt_target t)"
  unfolding stmt_target_def
  by (intro yields_bind [OF good_primary [OF good_parse_expr]]
      yields_bind [OF wf_target_assign] yields_intros) simp_all

lemma wf_other: "yields wf_ast (stmt_other t)"
proof -
  have rest: "yields wf_ast (stmt_assign_or_expr t)"
    unfolding stmt_assign_or_expr_def by (intro wf_simple yields_intros)
  show ?thesis
    unfolding stmt_other_def
    by (intro rest wf_simple yields_bind [OF wf_target] yields_intros) simp
qed

lemma wf_statement_inner:
  assumes "wf_stmt ps"
  shows "wf_stmt (parse_statement_inner ps)"
proof -
  have "yields wf_ast (stmt_dispatch ps t)" for t
    unfolding stmt_dispatch_def Let_def
    by (intro wf_define wf_match wf_compound wf_simple wf_other assms yields_if)
  then have dispatch: "yields wf_ast (stmt_dispatch ps t)" for t .
  show ?thesis
    unfolding parse_statement_inner_def
    by (intro yields_bind [OF dispatch] yields_intros) simp_all
qed

lemma wf_statement: "wf_stmt (State (parse_statement f))"
proof (induction f)
  case 0
  then show ?case by (simp add: yields_def p_out_of_fuel_def)
next
  case (Suc f)
  then have "wf_stmt (parse_statement_inner (State (parse_statement f)))" by (rule wf_statement_inner)
  then show ?case by (simp add: yields_def case_prod_beta)
qed

lemma wf_program: "yields (\<lambda>a. \<exists>stmts line. a = make_node (AST_PROGRAM stmts) line \<and> wf_block stmts) parse_program"
proof -
  have "yields wf_block program_stmts"
    unfolding program_stmts_def
    by (intro yields_while wf_progress wf_statement yields_intros) simp_all
  then have stmts: "yields wf_block program_stmts" .
  show ?thesis
    unfolding parse_program_def by (intro yields_bind [OF stmts] yields_intros) auto
qed

lemma parse_wf:
  "\<exists>stmts line. fst (parse tks d) = make_node (AST_PROGRAM stmts) line \<and> list_all wf_ast stmts"
  unfolding parse_def using yieldsD [OF wf_program, of "init_pstate tks d"] by (simp add: wf_block_def)

text \<open>
  C3: whatever the token list, the parser answers a program whose statements are
  well-formed trees: operands are expression trees, names carry their hashes, the
  arrays keep their caps and agree in length, operators and selectors are known ones.
\<close>
theorem parse_well_formed:
  "\<exists>stmts line. fst (parse tks d) = make_node (AST_PROGRAM stmts) line \<and> list_all wf_ast stmts"
  by (rule parse_wf)

text \<open>
  An expression the grammar returns is an expression tree, so the copy that a
  compound assignment takes of its target is exact.
\<close>
lemma parse_expression_clones:
  "is_expr (fst (parse_expression f s)) \<and> clone_ast (fst (parse_expression f s)) = fst (parse_expression f s)"
  using yieldsD [of good "State (parse_expression f)" s] good_expression_fuel [of f] clone_ast_expr
  by (auto simp: good_def)

end
