(* ===== verification/Eigs_Probe.thy ===== *)
theory Eigs_Probe
  imports Eigs_Prelude
begin

text \<open>
  Open addressing with linear probing, the hash index the program writes five times
  (\<open>EnvHash\<close>, \<open>NameSet\<close>, the constant pool, the collector's object set and the
  module table): the probing loop, the invariant of a table without deletions, and
  what insertion and lookup do to it. The components bring their own slots and hashes.
\<close>

subsection \<open>The loop\<close>

text \<open>
  \<open>while (!stop(t[s])) s = (s + 1) & mask;\<close> on a table whose size is a power of two.
  \<open>None\<close> when no slot of the whole table stops it, where the code would not return.
\<close>

fun probe :: "nat \<Rightarrow> ('s \<Rightarrow> bool) \<Rightarrow> 's list \<Rightarrow> nat \<Rightarrow> nat option" where
  "probe 0 stop t s = None"
| "probe (Suc n) stop t s =
     (if stop (t ! s) then Some s else probe n stop t ((s + 1) AND (length t - 1)))"

definition pow2_size :: "'s list \<Rightarrow> bool" where
  "pow2_size t \<longleftrightarrow> (\<exists>k. length t = 2 ^ k)"

lemma pow2_size_pos: "pow2_size t \<Longrightarrow> 0 < length t"
  by (auto simp: pow2_size_def)

lemma and_mask:
  assumes "pow2_size t"
  shows "n AND (length t - 1) = n mod length t"
proof -
  obtain k where k: "length t = 2 ^ k" using assms by (auto simp: pow2_size_def)
  then have "length t - 1 = mask k" by (simp only: mask_eq_exp_minus_1)
  then show ?thesis by (simp only: k take_bit_eq_mask [symmetric] take_bit_eq_mod)
qed

lemmas and_masks = and_mask and_mask [unfolded One_nat_def]

text \<open>The slot \<open>d\<close> steps on from \<open>s\<close>.\<close>

definition nth_from :: "'s list \<Rightarrow> nat \<Rightarrow> nat \<Rightarrow> 's" where
  "nth_from t s d = t ! ((s + d) mod length t)"

lemma probe_Some:
  assumes "pow2_size t" and "d < n" and "stop (nth_from t s d)" and "\<forall>c<d. \<not> stop (nth_from t s c)"
    and "s < length t"
  shows "probe n stop t s = Some ((s + d) mod length t)"
  using assms
proof (induction n arbitrary: s d)
  case 0
  then show ?case by simp
next
  case (Suc n)
  let ?s = "Suc s mod length t"
  show ?case
  proof (cases d)
    case 0
    then show ?thesis using Suc.prems by (simp add: nth_from_def)
  next
    case (Suc e)
    have shift: "nth_from t ?s c = nth_from t s (Suc c)" for c
      by (simp add: nth_from_def mod_add_left_eq)
    have "\<not> stop (t ! s)" using Suc.prems(4,5) Suc by (auto simp: nth_from_def)
    moreover have "probe n stop t ?s = Some ((?s + e) mod length t)"
    proof (rule Suc.IH)
      show "?s < length t" using Suc.prems(1) by (simp add: pow2_size_pos del: length_greater_0_conv)
      show "stop (nth_from t ?s e)" "\<forall>c<e. \<not> stop (nth_from t ?s c)"
        using Suc.prems(3,4) Suc by (simp_all only: shift) auto
    qed (use Suc.prems Suc in auto)
    ultimately show ?thesis using and_mask [OF Suc.prems(1), of "s + 1"] Suc by (simp add: mod_add_left_eq)
  qed
qed

lemma probe_first:
  assumes "pow2_size t" and "s < length t" and "d < length t" and "stop (nth_from t s d)"
  obtains c where "c \<le> d" "stop (nth_from t s c)" "\<forall>b<c. \<not> stop (nth_from t s b)"
    "probe (length t) stop t s = Some ((s + c) mod length t)"
proof -
  let ?c = "LEAST c. stop (nth_from t s c)"
  have c: "stop (nth_from t s ?c)" by (rule LeastI) (rule assms(4))
  have le: "?c \<le> d" by (rule Least_le) (rule assms(4))
  have least: "\<forall>b<?c. \<not> stop (nth_from t s b)" using not_less_Least by blast
  have "probe (length t) stop t s = Some ((s + ?c) mod length t)"
    by (rule probe_Some [OF assms(1) _ c least assms(2)]) (use le assms(3) in simp)
  then show ?thesis by (rule that [OF le c least])
qed

lemma slot_reached:
  assumes "s < length t" and "j < length t"
  obtains d where "d < length t" "(s + d) mod length t = j"
proof (cases "s \<le> j")
  case True
  then show ?thesis using that [of "j - s"] assms by simp
next
  case False
  then show ?thesis using that [of "length t - s + j"] assms by (simp add: mod_if)
qed

subsection \<open>The invariant\<close>

text \<open>
  An entry at slot \<open>j\<close> is found from its home slot: no slot between is empty. \<open>e\<close> maps
  a slot to its entry, \<open>h\<close> an entry to its home.
\<close>

definition reached :: "('s \<Rightarrow> 'e option) \<Rightarrow> ('e \<Rightarrow> nat) \<Rightarrow> 's list \<Rightarrow> nat \<Rightarrow> bool" where
  "reached e h t j \<longleftrightarrow> (\<forall>x. e (t ! j) = Some x \<longrightarrow>
     (\<exists>d<length t. (h x mod length t + d) mod length t = j \<and>
        (\<forall>c<d. e (nth_from t (h x mod length t) c) \<noteq> None)))"

definition probe_ok :: "('s \<Rightarrow> 'e option) \<Rightarrow> ('e \<Rightarrow> nat) \<Rightarrow> 's list \<Rightarrow> bool" where
  "probe_ok e h t \<longleftrightarrow> pow2_size t \<and> (\<forall>j<length t. reached e h t j)"

definition entries :: "('s \<Rightarrow> 'e option) \<Rightarrow> 's list \<Rightarrow> 'e set" where
  "entries e t = {x. \<exists>j<length t. e (t ! j) = Some x}"

definition occupied :: "('s \<Rightarrow> 'e option) \<Rightarrow> 's list \<Rightarrow> nat set" where
  "occupied e t = {j. j < length t \<and> e (t ! j) \<noteq> None}"

lemma finite_occupied [simp]: "finite (occupied e t)"
  by (simp add: occupied_def)

lemma free_slot:
  assumes "card (occupied e t) < length t"
  obtains j where "j < length t" "e (t ! j) = None"
proof -
  have "\<not> {..<length t} \<subseteq> occupied e t"
    using card_mono [of "occupied e t" "{..<length t}"] assms by auto
  then show ?thesis using that by (auto simp: occupied_def)
qed

lemma probe_ok_empty:
  assumes "pow2_size t" and "\<forall>j<length t. e (t ! j) = None"
  shows "probe_ok e h t" "entries e t = {}" "card (occupied e t) = 0"
  using assms by (auto simp: probe_ok_def reached_def entries_def occupied_def)

lemma entries_update:
  assumes j: "j < length t" "e (t ! j) = None" and new: "e y = Some x"
  shows "entries e (t[j := y]) = insert x (entries e t)"
proof (rule set_eqI)
  fix z
  have keep: "t[j := y] ! i = t ! i \<and> i \<noteq> j" if "e (t ! i) = Some z" for i
    using that j by (cases "i = j") auto
  show "z \<in> entries e (t[j := y]) \<longleftrightarrow> z \<in> insert x (entries e t)"
    using j new keep by (auto simp: entries_def nth_list_update split: if_splits) (metis keep)
qed

text \<open>Insertion stops at an empty slot and keeps the invariant.\<close>

lemma probe_insert:
  assumes ok: "probe_ok e h t" and room: "card (occupied e t) < length t"
    and new: "e y = Some x" and empty: "\<And>s. stop s \<longleftrightarrow> e s = None"
  obtains j where "probe (length t) stop t (h x mod length t) = Some j" "j < length t" "e (t ! j) = None"
    "probe_ok e h (t[j := y])" "entries e (t[j := y]) = insert x (entries e t)"
    "card (occupied e (t[j := y])) = Suc (card (occupied e t))"
proof -
  let ?n = "length t" and ?s = "h x mod length t"
  have p2: "pow2_size t" using ok by (simp add: probe_ok_def)
  then have n: "0 < ?n" by (rule pow2_size_pos)
  then have s: "?s < ?n" by (rule mod_less_divisor)
  obtain f where f: "f < ?n" "e (t ! f) = None" using free_slot [OF room] .
  obtain d where d: "d < ?n" "(?s + d) mod ?n = f" using slot_reached [OF s f(1)] .
  have "stop (nth_from t ?s d)" using d f empty by (simp add: nth_from_def)
  from probe_first [of t ?s d stop, OF p2 s d(1) this] obtain c where c: "c \<le> d" "stop (nth_from t ?s c)"
      "\<forall>b<c. \<not> stop (nth_from t ?s b)" "probe ?n stop t ?s = Some ((?s + c) mod ?n)"
    by blast
  let ?j = "(?s + c) mod ?n" and ?t = "t[(?s + c) mod ?n := y]"
  have j: "?j < ?n" using n by (rule mod_less_divisor)
  have ej: "e (t ! ?j) = None" using c(2) empty by (simp add: nth_from_def)
  have grow: "e (?t ! i) \<noteq> None" if "e (t ! i) \<noteq> None" for i
    using that new j by (cases "i = ?j") auto
  have "reached e h ?t i" if "i < ?n" for i
  proof (cases "i = ?j")
    case True
    have "\<forall>b<c. e (nth_from ?t ?s b) \<noteq> None"
      using c(3) empty grow by (simp add: nth_from_def)
    moreover have "c < ?n" using c(1) d(1) by simp
    ultimately show ?thesis using True new j by (auto simp: reached_def)
  next
    case False
    then show ?thesis
      using ok that grow unfolding probe_ok_def reached_def nth_from_def by simp metis
  qed
  then have "probe_ok e h ?t" using p2 by (simp add: probe_ok_def pow2_size_def)
  moreover have "entries e ?t = insert x (entries e t)" using j ej new by (rule entries_update)
  moreover have "occupied e ?t = insert ?j (occupied e t)" "?j \<notin> occupied e t"
    using j ej new by (auto simp: occupied_def nth_list_update)
  then have "card (occupied e ?t) = Suc (card (occupied e t))" by simp
  ultimately show ?thesis using that [OF c(4) j ej] by blast
qed

text \<open>
  Lookup from the home slot stops at an empty slot or at an entry that satisfies
  \<open>P\<close>: in the first case the table has no such entry at that home.
\<close>

lemma probe_find:
  assumes ok: "probe_ok e h t" and room: "card (occupied e t) < length t"
    and stop: "\<And>s. stop s \<longleftrightarrow> (case e s of None \<Rightarrow> True | Some x \<Rightarrow> P x)"
  obtains (found) j x where "probe (length t) stop t (k mod length t) = Some j" "j < length t"
      "e (t ! j) = Some x" "x \<in> entries e t" "P x"
  | (absent) j where "probe (length t) stop t (k mod length t) = Some j" "j < length t"
      "e (t ! j) = None" "\<And>x. x \<in> entries e t \<Longrightarrow> h x mod length t = k mod length t \<Longrightarrow> \<not> P x"
proof -
  let ?n = "length t" and ?s = "k mod length t"
  have p2: "pow2_size t" using ok by (simp add: probe_ok_def)
  then have n: "0 < ?n" by (rule pow2_size_pos)
  then have s: "?s < ?n" by (rule mod_less_divisor)
  obtain f where f: "f < ?n" "e (t ! f) = None" using free_slot [OF room] .
  obtain d where d: "d < ?n" "(?s + d) mod ?n = f" using slot_reached [OF s f(1)] .
  have "stop (nth_from t ?s d)" using d f stop by (simp add: nth_from_def)
  from probe_first [of t ?s d stop, OF p2 s d(1) this] obtain c where c: "c \<le> d" "stop (nth_from t ?s c)"
      "\<forall>b<c. \<not> stop (nth_from t ?s b)" "probe ?n stop t ?s = Some ((?s + c) mod ?n)"
    by blast
  let ?j = "(?s + c) mod ?n"
  have j: "?j < ?n" using n by (rule mod_less_divisor)
  show ?thesis
  proof (cases "e (t ! ?j)")
    case (Some x)
    then show ?thesis using found [OF c(4) j Some] c(2) stop j by (auto simp: entries_def nth_from_def)
  next
    case None
    have "\<not> P x" if x: "x \<in> entries e t" "h x mod ?n = ?s" for x
    proof
      assume "P x"
      obtain i where i: "i < ?n" "e (t ! i) = Some x" using x(1) by (auto simp: entries_def)
      obtain b where b: "b < ?n" "(?s + b) mod ?n = i" "\<forall>a<b. e (nth_from t ?s a) \<noteq> None"
        using ok i x(2) unfolding probe_ok_def reached_def by metis
      have "\<not> c < b" using b(3) None by (auto simp: nth_from_def)
      moreover have "b \<noteq> c" using b(2) i(2) None by auto
      moreover have "stop (nth_from t ?s b)" using b i \<open>P x\<close> stop by (simp add: nth_from_def)
      ultimately show False using c(3) by (metis linorder_neqE_nat)
    qed
    then show ?thesis using absent [OF c(4) j None] by blast
  qed
qed

lemma probe_ok_cong:
  "probe_ok e h t \<Longrightarrow> (\<And>x. x \<in> entries e t \<Longrightarrow> h' x = h x) \<Longrightarrow> probe_ok e h' t"
  unfolding probe_ok_def reached_def entries_def by (auto; metis)

text \<open>The first position of a key in an array.\<close>

fun find_index :: "'a \<Rightarrow> 'a list \<Rightarrow> nat option" where
  "find_index k [] = None"
| "find_index k (x # xs) = (if x = k then Some 0 else map_option Suc (find_index k xs))"

lemma find_index_None: "find_index k xs = None \<longleftrightarrow> k \<notin> set xs"
  by (induction xs) auto

lemma find_index_Some: "find_index k xs = Some i \<Longrightarrow> i < length xs \<and> xs ! i = k"
  by (induction xs arbitrary: i) (auto split: if_splits)

end
