(* ===== verification/Eigs_Env_Hash.thy ===== *)
theory Eigs_Env_Hash
  imports Eigs_Probe Eigs_Ast
begin

text \<open>
  \<open>EnvHash\<close> (\<open>src/eigenscript.c\<close>): the hash index of environments and dictionaries.
  A slot is live when its generation is the table's, so that a recycled table is
  emptied by a new generation. The three parallel arrays are one list of slots.
\<close>

record env_slot =
  es_hash :: u32
  es_index :: nat
  es_generation :: u32

record env_hash =
  eh_slots :: "env_slot list"
  eh_generation :: u32

definition ENV_HASH_INIT_CAP :: nat where
  "ENV_HASH_INIT_CAP = 32"

definition env_hash_init :: "nat \<Rightarrow> env_hash" where
  "env_hash_init cap =
     \<lparr>eh_slots = replicate cap \<lparr>es_hash = 0, es_index = 0, es_generation = 0\<rparr>, eh_generation = 1\<rparr>"

definition env_home :: "u32 \<Rightarrow> env_hash \<Rightarrow> nat" where
  "env_home h ht = unat h AND (length (eh_slots ht) - 1)"

definition env_hash_insert :: "u32 \<Rightarrow> nat \<Rightarrow> env_hash \<Rightarrow> env_hash" where
  "env_hash_insert h idx ht =
     (case probe (length (eh_slots ht)) (\<lambda>s. es_generation s \<noteq> eh_generation ht) (eh_slots ht) (env_home h ht) of
        None \<Rightarrow> ht
      | Some slot \<Rightarrow>
          ht\<lparr>eh_slots := (eh_slots ht)[slot := \<lparr>es_hash = h, es_index = idx, es_generation = eh_generation ht\<rparr>]\<rparr>)"

text \<open>\<open>while (new_cap < count * 2) new_cap *= 2;\<close>\<close>

function grow_cap :: "nat \<Rightarrow> nat \<Rightarrow> nat" where
  "grow_cap cap need = (if 0 < cap \<and> cap < need then grow_cap (cap * 2) need else cap)"
  by auto
termination by (relation "measure (\<lambda>(cap, need). need - cap)") auto

declare grow_cap.simps [simp del]

text \<open>Slot-only entries, whose name is NULL, are not in the index.\<close>

definition env_hash_add_names :: "string option list \<Rightarrow> nat \<Rightarrow> env_hash \<Rightarrow> env_hash" where
  "env_hash_add_names names m ht =
     fold (\<lambda>i ht. case names ! i of None \<Rightarrow> ht | Some name \<Rightarrow> env_hash_insert (env_hash_name name) i ht) [0..<m] ht"

definition env_hash_rebuild :: "string option list \<Rightarrow> env_hash" where
  "env_hash_rebuild names =
     env_hash_add_names names (length names) (env_hash_init (grow_cap ENV_HASH_INIT_CAP (length names * 2)))"

definition env_hash_find :: "env_hash \<Rightarrow> string \<Rightarrow> u32 \<Rightarrow> string option list \<Rightarrow> nat option" where
  "env_hash_find ht name h names =
     (case probe (length (eh_slots ht))
             (\<lambda>s. es_generation s \<noteq> eh_generation ht \<or> es_hash s = h \<and> names ! es_index s = Some name)
             (eh_slots ht) (env_home h ht) of
        None \<Rightarrow> None
      | Some slot \<Rightarrow>
          (let s = eh_slots ht ! slot in
           if es_generation s = eh_generation ht then Some (es_index s) else None))"

subsection \<open>What the index holds\<close>

definition env_entry :: "u32 \<Rightarrow> env_slot \<Rightarrow> (u32 \<times> nat) option" where
  "env_entry g s = (if es_generation s = g then Some (es_hash s, es_index s) else None)"

abbreviation entry_home :: "u32 \<times> nat \<Rightarrow> nat" where
  "entry_home x \<equiv> unat (fst x)"

text \<open>The named entries among the first \<open>m\<close>, with their hashes.\<close>

definition named :: "string option list \<Rightarrow> nat \<Rightarrow> (u32 \<times> nat) set" where
  "named names m = {(env_hash_name name, i) | name i. i < m \<and> names ! i = Some name}"

definition env_indexed :: "string option list \<Rightarrow> nat \<Rightarrow> env_hash \<Rightarrow> bool" where
  "env_indexed names m ht \<longleftrightarrow>
     probe_ok (env_entry (eh_generation ht)) entry_home (eh_slots ht) \<and>
     entries (env_entry (eh_generation ht)) (eh_slots ht) = named names m"

definition env_load :: "env_hash \<Rightarrow> nat" where
  "env_load ht = card (occupied (env_entry (eh_generation ht)) (eh_slots ht))"

lemma env_entry_None [simp]: "env_entry g s = None \<longleftrightarrow> es_generation s \<noteq> g"
  by (simp add: env_entry_def)

lemma named_Suc:
  "named names (Suc m) =
     (case names ! m of None \<Rightarrow> named names m | Some name \<Rightarrow> insert (env_hash_name name, m) (named names m))"
  by (auto simp: named_def less_Suc_eq split: option.splits)

lemma env_home_mod: "pow2_size (eh_slots ht) \<Longrightarrow> env_home h ht = unat h mod length (eh_slots ht)"
  by (simp add: env_home_def and_masks)

lemma env_insert_indexed:
  assumes "env_indexed names m ht" and "env_load ht < length (eh_slots ht)" and "names ! m = Some name"
  shows "env_indexed names (Suc m) (env_hash_insert (env_hash_name name) m ht)"
    and "length (eh_slots (env_hash_insert (env_hash_name name) m ht)) = length (eh_slots ht)"
    and "env_load (env_hash_insert (env_hash_name name) m ht) = Suc (env_load ht)"
proof -
  let ?g = "eh_generation ht" and ?t = "eh_slots ht" and ?h = "env_hash_name name"
  let ?s = "\<lparr>es_hash = ?h, es_index = m, es_generation = ?g\<rparr>"
  have ok: "probe_ok (env_entry ?g) entry_home ?t" and room: "card (occupied (env_entry ?g) ?t) < length ?t"
    using assms by (simp_all add: env_indexed_def env_load_def)
  have p2: "pow2_size ?t" using ok by (simp add: probe_ok_def)
  obtain j where j: "probe (length ?t) (\<lambda>s. es_generation s \<noteq> ?g) ?t (entry_home (?h, m) mod length ?t) = Some j"
      "probe_ok (env_entry ?g) entry_home (?t[j := ?s])"
      "entries (env_entry ?g) (?t[j := ?s]) = insert (?h, m) (entries (env_entry ?g) ?t)"
      "card (occupied (env_entry ?g) (?t[j := ?s])) = Suc (card (occupied (env_entry ?g) ?t))"
    by (rule probe_insert [OF ok room, where y = ?s and x = "(?h, m)" and stop = "\<lambda>s. es_generation s \<noteq> ?g"])
      (simp_all add: env_entry_def)
  then have ins: "env_hash_insert ?h m ht = ht\<lparr>eh_slots := ?t[j := ?s]\<rparr>"
    by (simp add: env_hash_insert_def env_home_mod [OF p2])
  show "env_indexed names (Suc m) (env_hash_insert ?h m ht)"
    using j(2-4) assms(1,3) by (simp add: ins env_indexed_def named_Suc)
  show "length (eh_slots (env_hash_insert ?h m ht)) = length ?t" by (simp add: ins)
  show "env_load (env_hash_insert ?h m ht) = Suc (env_load ht)" using j(4) by (simp add: ins env_load_def)
qed

lemma env_init_indexed:
  assumes "cap = 2 ^ k"
  shows "env_indexed names 0 (env_hash_init cap)" "length (eh_slots (env_hash_init cap)) = cap"
    "env_load (env_hash_init cap) = 0"
proof -
  have "pow2_size (eh_slots (env_hash_init cap))" using assms by (auto simp: env_hash_init_def pow2_size_def)
  then show "env_indexed names 0 (env_hash_init cap)" "env_load (env_hash_init cap) = 0"
    by (simp_all add: env_indexed_def env_load_def named_def probe_ok_empty env_hash_init_def)
  show "length (eh_slots (env_hash_init cap)) = cap" by (simp add: env_hash_init_def)
qed

lemma env_add_names_indexed:
  assumes "cap = 2 ^ k" and "m \<le> cap"
  shows "env_indexed names m (env_hash_add_names names m (env_hash_init cap)) \<and>
    length (eh_slots (env_hash_add_names names m (env_hash_init cap))) = cap \<and>
    env_load (env_hash_add_names names m (env_hash_init cap)) \<le> m"
  using assms(2)
proof (induction m)
  case 0
  then show ?case using env_init_indexed [OF assms(1)] by (simp add: env_hash_add_names_def)
next
  case (Suc m)
  let ?ht = "env_hash_add_names names m (env_hash_init cap)"
  have step: "env_hash_add_names names (Suc m) (env_hash_init cap) =
      (case names ! m of None \<Rightarrow> ?ht | Some name \<Rightarrow> env_hash_insert (env_hash_name name) m ?ht)"
    by (cases "names ! m") (simp_all add: env_hash_add_names_def)
  show ?case
  proof (cases "names ! m")
    case None
    then show ?thesis using Suc by (simp add: step env_indexed_def named_Suc)
  next
    case (Some name)
    then show ?thesis using Suc env_insert_indexed [of names m ?ht name] by (simp add: step)
  qed
qed

lemma grow_cap_pow2: "cap = 2 ^ k \<Longrightarrow> \<exists>j. grow_cap cap need = 2 ^ j"
proof (induction cap need arbitrary: k rule: grow_cap.induct)
  case (1 cap need)
  show ?case
  proof (cases "cap < need")
    case True
    then have "\<exists>j. grow_cap (cap * 2) need = 2 ^ j"
      using 1(1) [of "Suc k"] 1(2) by simp
    then show ?thesis using True 1(2) by (subst grow_cap.simps) simp
  next
    case False
    then show ?thesis using 1(2) by (subst grow_cap.simps) auto
  qed
qed

text \<open>The capacity is enough, and not more than twice what is needed or the initial one.\<close>

lemma grow_cap_bounds:
  "0 < cap \<Longrightarrow> need \<le> grow_cap cap need \<and> cap \<le> grow_cap cap need \<and> (grow_cap cap need = cap \<or> grow_cap cap need < 2 * need)"
proof (induction cap need rule: grow_cap.induct)
  case (1 cap need)
  show ?case
  proof (cases "cap < need")
    case True
    then show ?thesis using 1 by (subst (1 2 3 4) grow_cap.simps) fastforce
  next
    case False
    then show ?thesis using 1(2) by (subst (1 2 3 4) grow_cap.simps) simp
  qed
qed

lemma env_rebuild_indexed:
  "env_indexed names (length names) (env_hash_rebuild names)"
  "length (eh_slots (env_hash_rebuild names)) = grow_cap ENV_HASH_INIT_CAP (length names * 2)"
  "env_load (env_hash_rebuild names) \<le> length names"
proof -
  let ?cap = "grow_cap ENV_HASH_INIT_CAP (length names * 2)"
  obtain k where k: "?cap = 2 ^ k"
    using grow_cap_pow2 [of ENV_HASH_INIT_CAP 5] by (auto simp: ENV_HASH_INIT_CAP_def)
  have "length names * 2 \<le> ?cap"
    using grow_cap_bounds [of ENV_HASH_INIT_CAP "length names * 2"] by (simp add: ENV_HASH_INIT_CAP_def)
  then show "env_indexed names (length names) (env_hash_rebuild names)"
    "length (eh_slots (env_hash_rebuild names)) = ?cap" "env_load (env_hash_rebuild names) \<le> length names"
    using env_add_names_indexed [OF k, of "length names" names] by (simp_all add: env_hash_rebuild_def)
qed

subsection \<open>Lookup\<close>

lemma env_indexed_append:
  assumes "env_indexed names (length names) ht"
  shows "env_indexed (names @ [n]) (length names) ht"
proof -
  have "named (names @ [n]) (length names) = named names (length names)"
    by (auto simp: named_def nth_append)
  then show ?thesis using assms by (simp add: env_indexed_def)
qed

lemma env_find_indexed:
  assumes "env_indexed names m ht" and "env_load ht < length (eh_slots ht)"
  shows "(\<exists>i<m. env_hash_find ht name (env_hash_name name) names = Some i \<and> names ! i = Some name) \<or>
    env_hash_find ht name (env_hash_name name) names = None \<and> (\<forall>i<m. names ! i \<noteq> Some name)"
proof -
  let ?g = "eh_generation ht" and ?t = "eh_slots ht" and ?h = "env_hash_name name"
  let ?stop = "\<lambda>s. es_generation s \<noteq> ?g \<or> es_hash s = ?h \<and> names ! es_index s = Some name"
  have ok: "probe_ok (env_entry ?g) entry_home ?t" and room: "card (occupied (env_entry ?g) ?t) < length ?t"
    and ents: "entries (env_entry ?g) ?t = named names m"
    using assms by (simp_all add: env_indexed_def env_load_def)
  have p2: "pow2_size ?t" using ok by (simp add: probe_ok_def)
  have stop: "?stop s \<longleftrightarrow> (case env_entry ?g s of None \<Rightarrow> True | Some x \<Rightarrow> fst x = ?h \<and> names ! snd x = Some name)" for s
    by (simp add: env_entry_def)
  show ?thesis
  proof (rule probe_find [OF ok room stop, where k = "unat ?h"])
    fix j x
    assume j: "probe (length ?t) ?stop ?t (unat ?h mod length ?t) = Some j"
      and x: "env_entry ?g (?t ! j) = Some x" "x \<in> entries (env_entry ?g) ?t"
        "fst x = ?h \<and> names ! snd x = Some name"
    have "env_hash_find ht name ?h names = Some (snd x)"
      using j x(1) by (auto simp: env_hash_find_def env_home_mod [OF p2] env_entry_def Let_def split: if_splits)
    moreover have "snd x < m" using x(2) ents by (auto simp: named_def)
    ultimately show ?thesis using x(3) by blast
  next
    fix j
    assume j: "probe (length ?t) ?stop ?t (unat ?h mod length ?t) = Some j"
      and empty: "env_entry ?g (?t ! j) = None"
      and none: "\<And>x. x \<in> entries (env_entry ?g) ?t \<Longrightarrow>
        entry_home x mod length ?t = unat ?h mod length ?t \<Longrightarrow> \<not> (fst x = ?h \<and> names ! snd x = Some name)"
    have "env_hash_find ht name ?h names = None"
      using j empty by (simp add: env_hash_find_def env_home_mod [OF p2] Let_def)
    moreover have "names ! i \<noteq> Some name" if "i < m" for i
    proof
      assume "names ! i = Some name"
      then have "(?h, i) \<in> entries (env_entry ?g) ?t" using that by (auto simp: ents named_def)
      from none [OF this] show False using \<open>names ! i = Some name\<close> by simp
    qed
    ultimately show ?thesis by blast
  qed
qed

subsection \<open>Generations\<close>

text \<open>
  \<open>env_clear\<close> and the free list empty a table by a new generation; when the 32-bit
  counter wraps, every slot is reset.
\<close>

definition env_hash_clear :: "env_hash \<Rightarrow> env_hash" where
  "env_hash_clear ht =
     (let g = eh_generation ht + 1 in
      if g = 0 then
        ht\<lparr>eh_slots := map (\<lambda>s. s\<lparr>es_generation := 0\<rparr>) (eh_slots ht), eh_generation := 1\<rparr>
      else ht\<lparr>eh_generation := g\<rparr>)"

text \<open>No slot has a generation still to come.\<close>

definition gens_ok :: "env_hash \<Rightarrow> bool" where
  "gens_ok ht \<longleftrightarrow> eh_generation ht \<noteq> 0 \<and> (\<forall>s\<in>set (eh_slots ht). es_generation s \<le> eh_generation ht)"

lemma gens_init: "gens_ok (env_hash_init cap)"
  by (simp add: gens_ok_def env_hash_init_def)

lemma gens_insert: "gens_ok ht \<Longrightarrow> gens_ok (env_hash_insert h i ht)"
  by (auto simp: gens_ok_def env_hash_insert_def dest: set_update_subset_insert [THEN subsetD] split: option.split)

lemma gens_add_names: "gens_ok ht \<Longrightarrow> gens_ok (env_hash_add_names names m ht)"
proof (induction m)
  case 0
  then show ?case by (simp add: env_hash_add_names_def)
next
  case (Suc m)
  then show ?case by (cases "names ! m") (simp_all add: env_hash_add_names_def gens_insert)
qed

lemma gens_rebuild: "gens_ok (env_hash_rebuild names)"
  by (simp add: env_hash_rebuild_def gens_add_names gens_init)

lemma generation_grows:
  fixes g :: u32
  assumes "g + 1 \<noteq> 0"
  shows "g < g + 1"
proof -
  have "unat g < 2 ^ 32" using unsigned_less [of g, where ?'a = nat] by simp
  moreover have "unat (g + 1) = (unat g + 1) mod 2 ^ 32" by (simp add: unat_word_ariths)
  moreover have "unat (g + 1) \<noteq> 0" using assms by (simp add: unat_eq_0)
  ultimately have "unat (g + 1) = unat g + 1" by (cases "unat g + 1 = 2 ^ 32") auto
  then show ?thesis by (simp add: word_less_nat_alt)
qed

lemma env_hash_clear_spec:
  assumes "gens_ok ht" and "pow2_size (eh_slots ht)"
  shows "gens_ok (env_hash_clear ht)" "env_indexed names 0 (env_hash_clear ht)" "env_load (env_hash_clear ht) = 0"
    "length (eh_slots (env_hash_clear ht)) = length (eh_slots ht)"
proof -
  let ?ht = "env_hash_clear ht"
  have fresh: "es_generation s \<noteq> eh_generation ?ht" if "s \<in> set (eh_slots ?ht)" for s
  proof (cases "eh_generation ht + 1 = 0")
    case True
    then show ?thesis using that by (auto simp: env_hash_clear_def)
  next
    case False
    then have "eh_generation ht < eh_generation ht + 1" by (rule generation_grows)
    then show ?thesis using that assms(1) False by (auto simp: env_hash_clear_def gens_ok_def Let_def)
  qed
  show "gens_ok ?ht"
  proof (cases "eh_generation ht + 1 = 0")
    case True
    then show ?thesis by (auto simp: env_hash_clear_def gens_ok_def)
  next
    case False
    then have "eh_generation ht \<le> eh_generation ht + 1" by (intro order.strict_implies_order generation_grows)
    then show ?thesis using assms(1) False by (auto simp: env_hash_clear_def gens_ok_def Let_def)
  qed
  show len: "length (eh_slots ?ht) = length (eh_slots ht)" by (simp add: env_hash_clear_def Let_def)
  then have "pow2_size (eh_slots ?ht)" using assms(2) by (simp add: pow2_size_def)
  then show "env_indexed names 0 ?ht" "env_load ?ht = 0"
    using fresh by (simp_all add: env_indexed_def env_load_def named_def probe_ok_empty)
qed

end
