(* ===== verification/Eigs_Name_Set.thy ===== *)
theory Eigs_Name_Set
  imports Eigs_Probe
begin

text \<open>
  A dense array of distinct keys with a hash index over it, as an interface: what the
  compiler's name sets, the dictionaries and the collector's object set have in common.
  Then \<open>NameSet\<close> of \<open>src/compiler.c\<close>, which provides it.
\<close>

subsection \<open>The interface\<close>

locale dense_index =
  fixes ok :: "'t \<Rightarrow> bool" and keys :: "'t \<Rightarrow> 'k list"
    and has :: "'t \<Rightarrow> 'k \<Rightarrow> bool" and add :: "'k \<Rightarrow> 't \<Rightarrow> 't"
  assumes ok_distinct: "ok t \<Longrightarrow> distinct (keys t)"
    and has_keys: "ok t \<Longrightarrow> has t k \<longleftrightarrow> k \<in> set (keys t)"
    and add_ok: "ok t \<Longrightarrow> ok (add k t)"
    and add_keys: "ok t \<Longrightarrow> keys (add k t) = (if k \<in> set (keys t) then keys t else keys t @ [k])"
begin

lemma has_add: "ok t \<Longrightarrow> has (add k t) l \<longleftrightarrow> l = k \<or> has t l"
  by (auto simp: has_keys add_ok add_keys)

lemma add_present: "ok t \<Longrightarrow> has t k \<Longrightarrow> keys (add k t) = keys t"
  by (simp add: has_keys add_keys)

lemma fold_add_ok: "ok t \<Longrightarrow> ok (fold add ks t)"
  by (induction ks arbitrary: t) (simp_all add: add_ok)

text \<open>Adding keys one by one appends the new ones, in the order they first come.\<close>

lemma fold_add_keys:
  "ok t \<Longrightarrow> keys (fold add ks t) = keys t @ rev (remdups (rev (filter (\<lambda>k. k \<notin> set (keys t)) ks)))"
proof (induction ks rule: rev_induct)
  case Nil
  then show ?case by simp
next
  case (snoc k ks)
  then show ?case by (simp add: add_keys fold_add_ok)
qed

lemma fold_add_has: "ok t \<Longrightarrow> has (fold add ks t) l \<longleftrightarrow> l \<in> set ks \<or> has t l"
  by (auto simp: has_keys fold_add_ok fold_add_keys)

end

subsection \<open>Name sets\<close>

record name_set =
  ns_names :: "string list"
  ns_index :: "nat list"

definition name_set_empty :: name_set where
  "name_set_empty = \<lparr>ns_names = [], ns_index = []\<rparr>"

definition name_set_hash :: "string \<Rightarrow> u32" where
  "name_set_hash name = foldl (\<lambda>h c. (h XOR of_nat (ord c)) * 16777619) 2166136261 name"

text \<open>A slot holds 0 or an index plus 1; \<open>name_slot\<close> is \<open>hash & mask\<close>.\<close>

definition name_slot :: "string \<Rightarrow> nat list \<Rightarrow> nat" where
  "name_slot name index = unat (name_set_hash name) AND (length index - 1)"

definition name_set_index_insert :: "string \<Rightarrow> nat \<Rightarrow> nat list \<Rightarrow> nat list" where
  "name_set_index_insert name idx index =
     (case probe (length index) (\<lambda>x. x = 0) index (name_slot name index) of
        None \<Rightarrow> index
      | Some slot \<Rightarrow> index[slot := idx + 1])"

text \<open>The index of the names, reinserted one by one into an empty table.\<close>

definition name_set_reindex :: "nat \<Rightarrow> string list \<Rightarrow> nat list" where
  "name_set_reindex cap names =
     fold (\<lambda>i. name_set_index_insert (names ! i) i) [0..<length names] (replicate cap 0)"

definition name_set_index_grow :: "name_set \<Rightarrow> name_set" where
  "name_set_index_grow s =
     (let cap = length (ns_index s) in
      s\<lparr>ns_index := name_set_reindex (if cap \<noteq> 0 then cap * 2 else 16) (ns_names s)\<rparr>)"

definition name_set_has :: "name_set \<Rightarrow> string \<Rightarrow> bool" where
  "name_set_has s name =
     (if ns_names s = [] then False
      else
        (case probe (length (ns_index s)) (\<lambda>x. x = 0 \<or> ns_names s ! (x - 1) = name) (ns_index s)
                (name_slot name (ns_index s)) of
           None \<Rightarrow> False
         | Some slot \<Rightarrow> ns_index s ! slot \<noteq> 0))"

definition name_set_add :: "string \<Rightarrow> name_set \<Rightarrow> name_set" where
  "name_set_add name s =
     (let s1 = (if length (ns_index s) < (length (ns_names s) + 1) * 2 then name_set_index_grow s else s) in
      if name_set_has s1 name then s1
      else s1\<lparr>ns_index := name_set_index_insert name (length (ns_names s1)) (ns_index s1),
              ns_names := ns_names s1 @ [name]\<rparr>)"

text \<open>The first occurrence is overwritten by the last name, and the index rebuilt.\<close>

definition name_set_remove :: "string \<Rightarrow> name_set \<Rightarrow> name_set" where
  "name_set_remove name s =
     (case find_index name (ns_names s) of
        None \<Rightarrow> s
      | Some i \<Rightarrow>
          (let names = butlast ((ns_names s)[i := last (ns_names s)]) in
           \<lparr>ns_names = names, ns_index = name_set_reindex (length (ns_index s)) names\<rparr>))"

definition name_set_free :: "name_set \<Rightarrow> name_set" where
  "name_set_free s = name_set_empty"

subsection \<open>The index is sound\<close>

definition slot_entry :: "nat \<Rightarrow> nat option" where
  "slot_entry x = (if x = 0 then None else Some (x - 1))"

definition name_home :: "string list \<Rightarrow> nat \<Rightarrow> nat" where
  "name_home names i = unat (name_set_hash (names ! i))"

text \<open>The table holds exactly the indices below \<open>m\<close>.\<close>

definition indexed :: "string list \<Rightarrow> nat \<Rightarrow> nat list \<Rightarrow> bool" where
  "indexed names m t \<longleftrightarrow> probe_ok slot_entry (name_home names) t \<and> entries slot_entry t = {..<m} \<and>
     card (occupied slot_entry t) = m"

lemma slot_entry_simps [simp]: "slot_entry 0 = None" "slot_entry (Suc i) = Some i"
  "slot_entry x = None \<longleftrightarrow> x = 0"
  by (simp_all add: slot_entry_def)

lemma indexed_insert:
  assumes "indexed names m t" and "m < length t" and "names ! m = name"
  shows "indexed names (Suc m) (name_set_index_insert name m t)"
    and "length (name_set_index_insert name m t) = length t"
proof -
  have ok: "probe_ok slot_entry (name_home names) t" and room: "card (occupied slot_entry t) < length t"
    using assms by (simp_all add: indexed_def)
  have p2: "pow2_size t" using ok by (simp add: probe_ok_def)
  have start: "name_slot name t = name_home names m mod length t"
    using assms(3) by (simp add: name_slot_def name_home_def and_masks [OF p2])
  obtain j where j: "probe (length t) (\<lambda>x. x = 0) t (name_home names m mod length t) = Some j"
      "probe_ok slot_entry (name_home names) (t[j := Suc m])"
      "entries slot_entry (t[j := Suc m]) = insert m (entries slot_entry t)"
      "card (occupied slot_entry (t[j := Suc m])) = Suc (card (occupied slot_entry t))"
    by (rule probe_insert [OF ok room, where y = "Suc m" and stop = "\<lambda>x. x = 0"]) simp_all
  then have ins: "name_set_index_insert name m t = t[j := Suc m]"
    by (simp add: name_set_index_insert_def start)
  show "indexed names (Suc m) (name_set_index_insert name m t)"
    using j(2-4) assms(1) by (simp add: ins indexed_def lessThan_Suc)
  show "length (name_set_index_insert name m t) = length t" by (simp add: ins)
qed

lemma indexed_fold:
  assumes "cap = 2 ^ k" and "m \<le> cap" and "m \<le> length names"
  shows "indexed names m (fold (\<lambda>i. name_set_index_insert (names ! i) i) [0..<m] (replicate cap 0)) \<and>
    length (fold (\<lambda>i. name_set_index_insert (names ! i) i) [0..<m] (replicate cap 0)) = cap"
  using assms(2,3)
proof (induction m)
  case 0
  have "pow2_size (replicate cap (0 :: nat))" using assms(1) by (auto simp: pow2_size_def)
  then show ?case by (simp add: indexed_def probe_ok_empty)
next
  case (Suc m)
  then show ?case
    using indexed_insert [of names m "fold (\<lambda>i. name_set_index_insert (names ! i) i) [0..<m] (replicate cap 0)"]
    by simp
qed

lemma indexed_reindex:
  assumes "cap = 2 ^ k" and "length names \<le> cap"
  shows "indexed names (length names) (name_set_reindex cap names)" "length (name_set_reindex cap names) = cap"
  using indexed_fold [OF assms(1), of "length names" names] assms(2) by (simp_all add: name_set_reindex_def)

lemma indexed_append:
  assumes "indexed names (length names) t"
  shows "indexed (names @ [name]) (length names) t"
proof -
  have "probe_ok slot_entry (name_home (names @ [name])) t"
    by (rule probe_ok_cong [of _ "name_home names"]) (use assms in \<open>auto simp: indexed_def name_home_def nth_append\<close>)
  then show ?thesis using assms by (simp add: indexed_def)
qed

definition name_set_ok :: "name_set \<Rightarrow> bool" where
  "name_set_ok s \<longleftrightarrow> distinct (ns_names s) \<and>
     (if ns_index s = [] then ns_names s = []
      else indexed (ns_names s) (length (ns_names s)) (ns_index s) \<and>
           (\<exists>k. length (ns_index s) = 2 ^ Suc k) \<and> length (ns_names s) * 2 \<le> length (ns_index s))"

lemma has_indexed:
  assumes "indexed names (length names) t" and "length names < length t" and "names \<noteq> []"
  shows "name_set_has \<lparr>ns_names = names, ns_index = t\<rparr> name \<longleftrightarrow> name \<in> set names"
proof -
  have ok: "probe_ok slot_entry (name_home names) t" and room: "card (occupied slot_entry t) < length t"
    and ents: "entries slot_entry t = {..<length names}"
    using assms by (simp_all add: indexed_def)
  have p2: "pow2_size t" using ok by (simp add: probe_ok_def)
  have start: "name_slot name t = unat (name_set_hash name) mod length t"
    by (simp add: name_slot_def and_masks [OF p2])
  have stop: "(x = 0 \<or> names ! (x - 1) = name) \<longleftrightarrow>
      (case slot_entry x of None \<Rightarrow> True | Some i \<Rightarrow> names ! i = name)" for x
    by (cases x) simp_all
  show ?thesis
  proof (rule probe_find [OF ok room stop, where k = "unat (name_set_hash name)"])
    fix j i
    assume "probe (length t) (\<lambda>x. x = 0 \<or> names ! (x - 1) = name) t (unat (name_set_hash name) mod length t) = Some j"
      and "slot_entry (t ! j) = Some i" and "i \<in> entries slot_entry t" and "names ! i = name"
    moreover from this have "t ! j \<noteq> 0" by (metis option.distinct(1) slot_entry_simps(1))
    ultimately show ?thesis using assms(3) ents nth_mem [of i names] by (simp add: name_set_has_def start)
  next
    fix j
    assume "probe (length t) (\<lambda>x. x = 0 \<or> names ! (x - 1) = name) t (unat (name_set_hash name) mod length t) = Some j"
      and "slot_entry (t ! j) = None"
      and none: "\<And>i. i \<in> entries slot_entry t \<Longrightarrow>
        name_home names i mod length t = unat (name_set_hash name) mod length t \<Longrightarrow> names ! i \<noteq> name"
    then have "\<not> name_set_has \<lparr>ns_names = names, ns_index = t\<rparr> name"
      by (simp add: name_set_has_def start)
    moreover have "name \<notin> set names"
      using none ents by (auto simp: in_set_conv_nth name_home_def)
    ultimately show ?thesis by simp
  qed
qed

lemma name_set_has_iff:
  assumes "name_set_ok s"
  shows "name_set_has s name \<longleftrightarrow> name \<in> set (ns_names s)"
proof (cases "ns_names s = []")
  case True
  then show ?thesis by (simp add: name_set_has_def)
next
  case False
  then have ix: "indexed (ns_names s) (length (ns_names s)) (ns_index s)"
    and le: "length (ns_names s) * 2 \<le> length (ns_index s)" and "0 < length (ns_names s)"
    using assms by (auto simp: name_set_ok_def simp del: mult_2_right split: if_splits)
  then have "length (ns_names s) < length (ns_index s)" by linarith
  then show ?thesis using has_indexed [of "ns_names s" "ns_index s" name] ix False
    by (cases s) simp
qed

subsection \<open>A set of names\<close>

lemma grow_ok:
  assumes "name_set_ok s"
  shows "name_set_ok (name_set_index_grow s)" "ns_names (name_set_index_grow s) = ns_names s"
    "(length (ns_names s) + 1) * 2 \<le> length (ns_index (name_set_index_grow s))"
proof -
  let ?cap = "if length (ns_index s) \<noteq> 0 then length (ns_index s) * 2 else 16"
  obtain k where k: "?cap = 2 ^ Suc k"
  proof (cases "ns_index s = []")
    case True
    then show ?thesis using that [of 3] by simp
  next
    case False
    then obtain k where "length (ns_index s) = 2 ^ Suc k" using assms by (auto simp: name_set_ok_def)
    then show ?thesis using that [of "Suc k"] False by simp
  qed
  have "2 \<le> length (ns_index s)" if "ns_index s \<noteq> []"
    using assms that by (auto simp: name_set_ok_def)
  then have room: "(length (ns_names s) + 1) * 2 \<le> ?cap"
    using assms by (cases "ns_index s = []") (auto simp: name_set_ok_def)
  then have ix: "indexed (ns_names s) (length (ns_names s)) (name_set_reindex ?cap (ns_names s))"
      "length (name_set_reindex ?cap (ns_names s)) = ?cap"
    using indexed_reindex [OF k, of "ns_names s"] by auto
  have g: "name_set_index_grow s = s\<lparr>ns_index := name_set_reindex ?cap (ns_names s)\<rparr>"
    by (simp add: name_set_index_grow_def Let_def)
  have d: "distinct (ns_names s)" using assms by (simp add: name_set_ok_def)
  show "ns_names (name_set_index_grow s) = ns_names s" by (simp add: g)
  show "(length (ns_names s) + 1) * 2 \<le> length (ns_index (name_set_index_grow s))"
    unfolding g using room ix(2) by simp
  show "name_set_ok (name_set_index_grow s)"
    using ix d room k by (auto simp: g name_set_ok_def)
qed

lemma name_set_add_ok:
  assumes "name_set_ok s"
  shows "name_set_ok (name_set_add name s) \<and> ns_names (name_set_add name s) =
    (if name \<in> set (ns_names s) then ns_names s else ns_names s @ [name])"
proof -
  define s1 where "s1 = (if length (ns_index s) < (length (ns_names s) + 1) * 2 then name_set_index_grow s else s)"
  have s1: "name_set_ok s1" "ns_names s1 = ns_names s" "(length (ns_names s1) + 1) * 2 \<le> length (ns_index s1)"
    using assms grow_ok [OF assms] by (auto simp: s1_def)
  have add: "name_set_add name s =
      (if name_set_has s1 name then s1
       else s1\<lparr>ns_index := name_set_index_insert name (length (ns_names s1)) (ns_index s1),
               ns_names := ns_names s1 @ [name]\<rparr>)"
    by (simp add: name_set_add_def s1_def Let_def)
  show ?thesis
  proof (cases "name \<in> set (ns_names s)")
    case True
    then show ?thesis using s1 by (simp add: add name_set_has_iff)
  next
    case False
    have ne: "ns_index s1 \<noteq> []" using s1(3) by auto
    then have ix: "indexed (ns_names s1) (length (ns_names s1)) (ns_index s1)" and
      p2: "\<exists>k. length (ns_index s1) = 2 ^ Suc k" and d: "distinct (ns_names s1)"
      using s1(1) by (auto simp: name_set_ok_def)
    let ?t = "name_set_index_insert name (length (ns_names s1)) (ns_index s1)"
    have t: "indexed (ns_names s1 @ [name]) (Suc (length (ns_names s1))) ?t" "length ?t = length (ns_index s1)"
      using indexed_insert [OF indexed_append [OF ix, of name], of name] s1(3) by simp_all
    moreover have "?t \<noteq> []" using t(2) ne by auto
    moreover have "\<not> name_set_has s1 name" using False s1 by (simp add: name_set_has_iff)
    ultimately show ?thesis
      using False s1(2,3) d p2 by (simp add: add name_set_ok_def)
  qed
qed

lemma name_set_empty_ok: "name_set_ok name_set_empty"
  by (simp add: name_set_ok_def name_set_empty_def)

lemma name_set_ok_distinct: "name_set_ok s \<Longrightarrow> distinct (ns_names s)"
  by (simp add: name_set_ok_def)

interpretation names: dense_index name_set_ok ns_names name_set_has name_set_add
  by unfold_locales (simp_all add: name_set_has_iff name_set_add_ok name_set_ok_distinct)

text \<open>Overwriting an entry by the last one and dropping the last removes it.\<close>

lemma swap_remove:
  assumes "distinct xs" and "i < length xs"
  shows "set (butlast (xs[i := last xs])) = set xs - {xs ! i}" "distinct (butlast (xs[i := last xs]))"
proof -
  obtain ys l where xs: "xs = ys @ [l]" using assms(2) by (cases xs rule: rev_cases) auto
  have "set (butlast (xs[i := last xs])) = set xs - {xs ! i} \<and> distinct (butlast (xs[i := last xs]))"
  proof (cases "i = length ys")
    case True
    then show ?thesis using assms(1) by (auto simp: xs)
  next
    case False
    then have i: "i < length ys" using assms(2) by (simp add: xs)
    then have "ys ! i \<noteq> l" using assms(1) nth_mem [OF i] by (auto simp: xs)
    then show ?thesis using assms(1) i
      by (auto simp: xs list_update_append1 butlast_append nth_append set_update_distinct distinct_list_update)
  qed
  then show "set (butlast (xs[i := last xs])) = set xs - {xs ! i}" "distinct (butlast (xs[i := last xs]))"
    by auto
qed

lemma name_set_remove_ok:
  assumes "name_set_ok s"
  shows "name_set_ok (name_set_remove name s) \<and> set (ns_names (name_set_remove name s)) = set (ns_names s) - {name}"
proof (cases "find_index name (ns_names s)")
  case None
  then have "name_set_remove name s = s" by (simp only: name_set_remove_def option.case)
  moreover have "name \<notin> set (ns_names s)" using None by (simp only: find_index_None not_False_eq_True)
  ultimately show ?thesis using assms by auto
next
  case (Some i)
  then have i: "i < length (ns_names s)" "ns_names s ! i = name" by (simp_all add: find_index_Some)
  let ?names = "butlast ((ns_names s)[i := last (ns_names s)])"
  have "ns_index s \<noteq> []" using assms i by (auto simp: name_set_ok_def split: if_splits)
  then obtain k where k: "length (ns_index s) = 2 ^ Suc k" and le: "length (ns_names s) * 2 \<le> length (ns_index s)"
    using assms by (auto simp: name_set_ok_def)
  have len: "length ?names * 2 \<le> length (ns_index s)" "length ?names \<le> length (ns_index s)" using le by auto
  note ix = indexed_reindex [OF k len(2)]
  have "name_set_remove name s = \<lparr>ns_names = ?names, ns_index = name_set_reindex (length (ns_index s)) ?names\<rparr>"
    using Some by (simp add: name_set_remove_def Let_def)
  moreover have "set ?names = set (ns_names s) - {name}" "distinct ?names"
    using swap_remove [OF name_set_ok_distinct [OF assms] i(1)] i(2) by auto
  moreover have "name_set_reindex (length (ns_index s)) ?names \<noteq> []" using ix(2) \<open>ns_index s \<noteq> []\<close> by auto
  ultimately show ?thesis using ix k len(1) by (simp add: name_set_ok_def)
qed

datatype set_op = Add string | Remove string

fun run_set_op :: "set_op \<Rightarrow> name_set \<Rightarrow> name_set" where
  "run_set_op (Add name) s = name_set_add name s"
| "run_set_op (Remove name) s = name_set_remove name s"

fun spec_set_op :: "set_op \<Rightarrow> string set \<Rightarrow> string set" where
  "spec_set_op (Add name) X = insert name X"
| "spec_set_op (Remove name) X = X - {name}"

lemma run_set_ops:
  "name_set_ok s \<Longrightarrow> name_set_ok (fold run_set_op ops s) \<and>
     set (ns_names (fold run_set_op ops s)) = fold spec_set_op ops (set (ns_names s))"
proof (induction ops arbitrary: s)
  case Nil
  then show ?case by simp
next
  case (Cons op ops)
  have "name_set_ok (run_set_op op s) \<and> set (ns_names (run_set_op op s)) = spec_set_op op (set (ns_names s))"
    using Cons.prems by (cases op) (simp_all add: name_set_add_ok name_set_remove_ok insert_absorb)
  then show ?case using Cons.IH [of "run_set_op op s"] by simp
qed

text \<open>
  C39: whatever additions and removals a name set goes through, its hash index answers
  membership as the mathematical set does, and no probe runs past its table.
\<close>
theorem name_set_refines_set:
  "name_set_has (fold run_set_op ops name_set_empty) name \<longleftrightarrow> name \<in> fold spec_set_op ops {}"
  using run_set_ops [OF name_set_empty_ok, of ops] by (simp add: name_set_has_iff name_set_empty_def)

end
