(* ===== verification/Eigs_Sandbox.thy ===== *)
theory Eigs_Sandbox
  imports Eigs_Prelude
begin

text \<open>
  The sandbox's byte budget (\<open>sandbox_charge\<close> of \<open>src/vm.c\<close>), which every growing
  allocation of a sandboxed run is charged to.
\<close>

subsection \<open>The budget\<close>

record sandbox =
  sb_attached :: bool
  g_sandbox_active :: bool
  g_sandbox_byte_max :: u64
  g_sandbox_bytes_used :: u64
  sb_refused :: bool

text \<open>Charge an allocation; a refusal raises \<open>EK_SANDBOX\<close>, here \<open>sb_refused\<close>.\<close>

definition sandbox_charge :: "u64 \<Rightarrow> sandbox \<Rightarrow> bool \<times> sandbox" where
  "sandbox_charge bytes sb =
     (if \<not> sb_attached sb then (True, sb)
      else if \<not> g_sandbox_active sb \<or> g_sandbox_byte_max sb = 0 then (True, sb)
      else if g_sandbox_byte_max sb - g_sandbox_bytes_used sb < bytes then (False, sb\<lparr>sb_refused := True\<rparr>)
      else (True, sb\<lparr>g_sandbox_bytes_used := g_sandbox_bytes_used sb + bytes\<rparr>))"

definition sandbox_ok :: "sandbox \<Rightarrow> bool" where
  "sandbox_ok sb \<longleftrightarrow> g_sandbox_bytes_used sb \<le> g_sandbox_byte_max sb"

definition sandbox_armed :: "sandbox \<Rightarrow> bool" where
  "sandbox_armed sb \<longleftrightarrow> sb_attached sb \<and> g_sandbox_active sb \<and> g_sandbox_byte_max sb \<noteq> 0"

lemma charge_step:
  assumes "sandbox_ok sb" and "sandbox_armed sb"
  shows "sandbox_ok (snd (sandbox_charge bytes sb)) \<and> sandbox_armed (snd (sandbox_charge bytes sb)) \<and>
    g_sandbox_byte_max (snd (sandbox_charge bytes sb)) = g_sandbox_byte_max sb \<and>
    unat (g_sandbox_bytes_used (snd (sandbox_charge bytes sb))) =
      unat (g_sandbox_bytes_used sb) + (if fst (sandbox_charge bytes sb) then unat bytes else 0) \<and>
    (fst (sandbox_charge bytes sb) \<longleftrightarrow>
       unat (g_sandbox_bytes_used sb) + unat bytes \<le> unat (g_sandbox_byte_max sb))"
proof -
  let ?u = "g_sandbox_bytes_used sb" and ?m = "g_sandbox_byte_max sb"
  have le: "unat ?u \<le> unat ?m" using assms(1) by (simp add: sandbox_ok_def word_le_nat_alt)
  then have sub: "unat (?m - ?u) = unat ?m - unat ?u" using assms(1) by (simp add: sandbox_ok_def unat_sub)
  show ?thesis
  proof (cases "?m - ?u < bytes")
    case True
    then have "\<not> unat ?u + unat bytes \<le> unat ?m" using sub by (simp add: word_less_nat_alt)
    then show ?thesis using True assms by (simp add: sandbox_charge_def sandbox_armed_def sandbox_ok_def)
  next
    case False
    then have fits: "unat ?u + unat bytes \<le> unat ?m" using sub le by (simp add: word_less_nat_alt)
    then have "unat (?u + bytes) = unat ?u + unat bytes"
      using unsigned_less [of ?m, where ?'a = nat] by (simp add: unat_add_lem [THEN iffD1])
    then show ?thesis using False fits assms
      by (simp add: sandbox_charge_def sandbox_armed_def sandbox_ok_def word_le_nat_alt)
  qed
qed

text \<open>The charges of a run, the refused ones included, and the bytes of the accepted ones.\<close>

fun charge_all :: "u64 list \<Rightarrow> sandbox \<Rightarrow> nat \<times> sandbox" where
  "charge_all [] sb = (0, sb)"
| "charge_all (b # bs) sb =
     (case sandbox_charge b sb of
        (ok, sb') \<Rightarrow> (case charge_all bs sb' of (n, sb'') \<Rightarrow> ((if ok then unat b else 0) + n, sb'')))"

lemma charge_all_bound:
  "sandbox_ok sb \<Longrightarrow> sandbox_armed sb \<Longrightarrow>
     unat (g_sandbox_bytes_used sb) + fst (charge_all bs sb) \<le> unat (g_sandbox_byte_max sb) \<and>
     unat (g_sandbox_bytes_used (snd (charge_all bs sb))) = unat (g_sandbox_bytes_used sb) + fst (charge_all bs sb)"
proof (induction bs arbitrary: sb)
  case Nil
  then show ?case by (simp add: sandbox_ok_def word_le_nat_alt)
next
  case (Cons b bs)
  obtain ok sb' where c: "sandbox_charge b sb = (ok, sb')" by (metis surj_pair)
  obtain n sb'' where r: "charge_all bs sb' = (n, sb'')" by (metis surj_pair)
  show ?case using charge_step [OF Cons.prems, of b] Cons.IH [of sb'] by (simp add: c r)
qed

text \<open>
  C40: in an armed sandbox, whatever sizes are asked for and in whatever order, the
  bytes granted never exceed the budget, and the counter is their exact sum: the
  64-bit additions and subtractions never wrap.
\<close>
theorem sandbox_budget_kept:
  assumes "sandbox_armed sb" and "g_sandbox_bytes_used sb = 0"
  shows "fst (charge_all bs sb) \<le> unat (g_sandbox_byte_max sb) \<and>
    unat (g_sandbox_bytes_used (snd (charge_all bs sb))) = fst (charge_all bs sb)"
  using charge_all_bound [of sb bs] assms by (simp add: sandbox_ok_def)

lemma sandbox_budget_kept_witness:
  "fst (charge_all [60, 50, 40] \<lparr>sb_attached = True, g_sandbox_active = True, g_sandbox_byte_max = 100,
     g_sandbox_bytes_used = 0, sb_refused = False\<rparr>) \<le> 100"
  using sandbox_budget_kept [of "\<lparr>sb_attached = True, g_sandbox_active = True, g_sandbox_byte_max = 100,
     g_sandbox_bytes_used = 0, sb_refused = False\<rparr>" "[60, 50, 40]"]
  by (simp add: sandbox_armed_def)

end
