(* ===== verification/Eigs_Dict.thy ===== *)
theory Eigs_Dict
  imports Eigs_Env_Hash Eigs_Name_Set Eigs_Sandbox
begin

text \<open>
  Dictionaries (\<open>src/eigenscript.c\<close>): dense
  arrays of keys and values in insertion order with a hash index, growth charged to
  the sandbox budget. Values are a type parameter: reference counts, arena promotion and the
  interning of keys are memory management and not part of the model, and neither are
  the namespace dictionaries of modules, which write through to an environment.
\<close>

subsection \<open>Dictionaries\<close>

record 'v dict =
  dc_keys :: "string list"
  dc_vals :: "'v list"
  dc_capacity :: nat
  dc_hash :: env_hash

text \<open>The sizes on the 64-bit targets: a \<open>Value\<close> has 72 bytes, a pointer 8.\<close>

definition SIZEOF_VALUE :: u64 where
  "SIZEOF_VALUE = 72"

definition SIZEOF_PTR :: u64 where
  "SIZEOF_PTR = 8"

definition make_dict :: "nat \<Rightarrow> sandbox \<Rightarrow> 'v dict \<times> sandbox" where
  "make_dict capacity sb =
     (let cap = (if capacity < 8 then 8 else capacity) in
      case sandbox_charge (SIZEOF_VALUE + of_nat cap * (SIZEOF_PTR + SIZEOF_PTR)) sb of
        (ok, sb') \<Rightarrow>
          (\<lparr>dc_keys = [], dc_vals = [], dc_capacity = (if ok then cap else 8),
            dc_hash = env_hash_init ENV_HASH_INIT_CAP\<rparr>, sb'))"

definition dict_find :: "'v dict \<Rightarrow> string \<Rightarrow> u32 \<Rightarrow> nat option" where
  "dict_find d key h = env_hash_find (dc_hash d) key h (map Some (dc_keys d))"

definition env_hash_find_dict :: "'v dict \<Rightarrow> string \<Rightarrow> u32 \<Rightarrow> nat option" where
  "env_hash_find_dict d key h = dict_find d key h"

text \<open>The append of a new key, after the arrays have room for it.\<close>

definition dict_append :: "string \<Rightarrow> u32 \<Rightarrow> 'v \<Rightarrow> 'v dict \<Rightarrow> 'v dict" where
  "dict_append key h val d =
     (let keys = dc_keys d @ [key]; count = length (dc_keys d) + 1 in
      d\<lparr>dc_keys := keys, dc_vals := dc_vals d @ [val],
        dc_hash :=
          (if length (eh_slots (dc_hash d)) * 7 < count * 10
           then env_hash_rebuild (map Some keys)
           else env_hash_insert h (count - 1) (dc_hash d))\<rparr>)"

definition dict_set_hashed_raw :: "string \<Rightarrow> u32 \<Rightarrow> 'v \<Rightarrow> 'v dict \<times> sandbox \<Rightarrow> 'v dict \<times> sandbox" where
  "dict_set_hashed_raw key h0 val ds =
     (case ds of (d, sb) \<Rightarrow>
        let h = (if h0 = 0 then env_hash_name key else h0) in
        case dict_find d key h of
          Some idx \<Rightarrow> (d\<lparr>dc_vals := (dc_vals d)[idx := val]\<rparr>, sb)
        | None \<Rightarrow>
            if dc_capacity d \<le> length (dc_keys d) then
              let new_cap = dc_capacity d * 2 in
              case sandbox_charge (of_nat (new_cap - dc_capacity d) * (SIZEOF_PTR + SIZEOF_PTR + SIZEOF_VALUE)) sb of
                (ok, sb') \<Rightarrow>
                  if \<not> ok then (d, sb')
                  else (dict_append key h val (d\<lparr>dc_capacity := new_cap\<rparr>), sb')
            else (dict_append key h val d, sb))"

definition dict_set :: "string \<Rightarrow> 'v \<Rightarrow> 'v dict \<times> sandbox \<Rightarrow> 'v dict \<times> sandbox" where
  "dict_set key val ds = dict_set_hashed_raw key (env_hash_name key) val ds"

definition dict_get_hashed :: "'v dict \<Rightarrow> string \<Rightarrow> u32 \<Rightarrow> 'v option" where
  "dict_get_hashed d key h0 =
     (let h = (if h0 = 0 then env_hash_name key else h0) in
      case dict_find d key h of Some idx \<Rightarrow> Some (dc_vals d ! idx) | None \<Rightarrow> None)"

definition dict_get :: "'v dict \<Rightarrow> string \<Rightarrow> 'v option" where
  "dict_get d key = dict_get_hashed d key (env_hash_name key)"

definition dict_has :: "'v dict \<Rightarrow> string \<Rightarrow> bool" where
  "dict_has d key \<longleftrightarrow> dict_get d key \<noteq> None"

text \<open>The entries after the removed one move down, and the index is rebuilt.\<close>

definition remove_nth :: "nat \<Rightarrow> 'x list \<Rightarrow> 'x list" where
  "remove_nth i xs = take i xs @ drop (Suc i) xs"

definition dict_remove :: "string \<Rightarrow> 'v dict \<Rightarrow> 'v dict" where
  "dict_remove key d =
     (case dict_find d key (env_hash_name key) of
        None \<Rightarrow> d
      | Some idx \<Rightarrow>
          (let keys = remove_nth idx (dc_keys d) in
           d\<lparr>dc_keys := keys, dc_vals := remove_nth idx (dc_vals d),
             dc_hash := env_hash_rebuild (map Some keys)\<rparr>))"

subsection \<open>The invariant\<close>

text \<open>The table's size is bounded by the number of entries there are, not by the past.\<close>

definition dict_ok :: "'v dict \<Rightarrow> bool" where
  "dict_ok d \<longleftrightarrow>
     distinct (dc_keys d) \<and> length (dc_vals d) = length (dc_keys d) \<and>
     env_indexed (map Some (dc_keys d)) (length (dc_keys d)) (dc_hash d) \<and>
     env_load (dc_hash d) \<le> length (dc_keys d) \<and>
     length (dc_keys d) * 10 \<le> length (eh_slots (dc_hash d)) * 7 \<and>
     length (eh_slots (dc_hash d)) \<le> max ENV_HASH_INIT_CAP (4 * length (dc_keys d)) \<and>
     ENV_HASH_INIT_CAP \<le> length (eh_slots (dc_hash d)) \<and>
     8 \<le> dc_capacity d \<and> length (dc_keys d) \<le> dc_capacity d"

definition dict_items :: "'v dict \<Rightarrow> (string \<times> 'v) list" where
  "dict_items d = zip (dc_keys d) (dc_vals d)"

lemma rebuild_table:
  fixes keys :: "string list"
  defines "t \<equiv> env_hash_rebuild (map Some keys)"
  shows "env_indexed (map Some keys) (length keys) t"
    "length keys * 10 \<le> length (eh_slots t) * 7"
    "length (eh_slots t) \<le> max ENV_HASH_INIT_CAP (4 * length keys)" "ENV_HASH_INIT_CAP \<le> length (eh_slots t)"
    "env_load t \<le> length keys"
proof -
  let ?cap = "grow_cap ENV_HASH_INIT_CAP (length keys * 2)"
  have len: "length (eh_slots t) = ?cap" using env_rebuild_indexed(2) [of "map Some keys"] by (simp add: t_def)
  have b: "length keys * 2 \<le> ?cap" "ENV_HASH_INIT_CAP \<le> ?cap"
    "?cap = ENV_HASH_INIT_CAP \<or> ?cap < 2 * (length keys * 2)"
    using grow_cap_bounds [of ENV_HASH_INIT_CAP "length keys * 2"] by (auto simp: ENV_HASH_INIT_CAP_def)
  show "env_indexed (map Some keys) (length keys) t" "env_load t \<le> length keys"
    using env_rebuild_indexed(1,3) [of "map Some keys"] by (simp_all add: t_def)
  show "length keys * 10 \<le> length (eh_slots t) * 7" "ENV_HASH_INIT_CAP \<le> length (eh_slots t)"
    using b by (simp_all add: len)
  show "length (eh_slots t) \<le> max ENV_HASH_INIT_CAP (4 * length keys)"
    using b(3) by (auto simp: len)
qed

lemma dict_find_spec:
  assumes "dict_ok d"
  shows "dict_find d key (env_hash_name key) = find_index key (dc_keys d)"
proof -
  let ?names = "map Some (dc_keys d)"
  have ix: "env_indexed ?names (length (dc_keys d)) (dc_hash d)"
    and room: "env_load (dc_hash d) < length (eh_slots (dc_hash d))"
    using assms by (auto simp: dict_ok_def ENV_HASH_INIT_CAP_def)
  from env_find_indexed [OF ix room, of key] show ?thesis
  proof (elim disjE exE conjE)
    fix i assume i: "i < length (dc_keys d)" "env_hash_find (dc_hash d) key (env_hash_name key) ?names = Some i"
      "?names ! i = Some key"
    obtain j where j: "find_index key (dc_keys d) = Some j"
      using i by (metis find_index_None nth_map nth_mem option.exhaust option.inject)
    then have "j < length (dc_keys d)" "dc_keys d ! j = key" by (simp_all add: find_index_Some)
    then have "i = j" using i(1,3) assms by (auto simp: dict_ok_def nth_eq_iff_index_eq)
    then show ?thesis using i(2) j by (simp add: dict_find_def)
  next
    assume none: "env_hash_find (dc_hash d) key (env_hash_name key) ?names = None"
      "\<forall>i<length (dc_keys d). ?names ! i \<noteq> Some key"
    then have "key \<notin> set (dc_keys d)" by (auto simp: in_set_conv_nth)
    then show ?thesis using none(1) by (simp add: dict_find_def find_index_None [THEN iffD2])
  qed
qed

lemma map_of_find_index:
  "length vs = length ks \<Longrightarrow> map_of (zip ks vs) k = map_option (nth vs) (find_index k ks)"
proof (induction ks arbitrary: vs)
  case Nil
  then show ?case by simp
next
  case (Cons x ks)
  then obtain w ws where vs: "vs = w # ws" "length ws = length ks" by (cases vs) auto
  then show ?case using Cons.IH [OF vs(2)] by (simp add: option.map_comp comp_def)
qed

lemma dict_get_spec:
  assumes "dict_ok d"
  shows "dict_get d key = map_of (dict_items d) key"
  using assms
  by (auto simp: dict_get_def dict_get_hashed_def dict_find_spec dict_items_def env_hash_name_nonzero
      map_of_find_index dict_ok_def split: option.split)

subsection \<open>Every operation keeps it\<close>

lemma make_dict_empty: "dict_items (fst (make_dict cap sb)) = []"
  by (simp add: make_dict_def Let_def case_prod_beta dict_items_def)

lemma make_dict_ok: "dict_ok (fst (make_dict cap sb))"
proof -
  have "env_indexed [] 0 (env_hash_init ENV_HASH_INIT_CAP)"
    "length (eh_slots (env_hash_init ENV_HASH_INIT_CAP)) = ENV_HASH_INIT_CAP"
    "env_load (env_hash_init ENV_HASH_INIT_CAP) = 0"
    using env_init_indexed [of ENV_HASH_INIT_CAP 5] by (simp_all add: ENV_HASH_INIT_CAP_def)
  then show ?thesis by (simp add: make_dict_def Let_def case_prod_beta dict_ok_def dict_items_def)
qed

lemma dict_append_ok:
  assumes "dict_ok d" and "key \<notin> set (dc_keys d)" and "length (dc_keys d) < dc_capacity d"
  shows "dict_ok (dict_append key (env_hash_name key) val d) \<and>
    dict_items (dict_append key (env_hash_name key) val d) = dict_items d @ [(key, val)]"
proof -
  let ?keys = "dc_keys d @ [key]"
  have len: "length (dc_vals d) = length (dc_keys d)" and dist: "distinct ?keys"
    using assms(1,2) by (simp_all add: dict_ok_def)
  show ?thesis
  proof (cases "length (eh_slots (dc_hash d)) * 7 < (length (dc_keys d) + 1) * 10")
    case True
    have ap: "dict_append key (env_hash_name key) val d =
        d\<lparr>dc_keys := ?keys, dc_vals := dc_vals d @ [val], dc_hash := env_hash_rebuild (map Some ?keys)\<rparr>"
      using True by (simp add: dict_append_def Let_def)
    show ?thesis using rebuild_table [of ?keys] assms dist len by (simp add: ap dict_ok_def dict_items_def)
  next
    case False
    let ?t = "env_hash_insert (env_hash_name key) (length (dc_keys d)) (dc_hash d)"
    have ap: "dict_append key (env_hash_name key) val d =
        d\<lparr>dc_keys := ?keys, dc_vals := dc_vals d @ [val], dc_hash := ?t\<rparr>"
      using False by (simp add: dict_append_def Let_def)
    have "env_indexed (map Some (dc_keys d) @ [Some key]) (length (map Some (dc_keys d))) (dc_hash d)"
      using assms(1) by (intro env_indexed_append) (simp add: dict_ok_def)
    then have ix: "env_indexed (map Some ?keys) (length (dc_keys d)) (dc_hash d)" by simp
    have room: "env_load (dc_hash d) < length (eh_slots (dc_hash d))"
      using assms(1) by (auto simp: dict_ok_def ENV_HASH_INIT_CAP_def)
    have "map Some ?keys ! length (dc_keys d) = Some key" by (simp add: nth_append)
    note t = env_insert_indexed [OF ix room this]
    show ?thesis using t assms dist len False by (auto simp: ap dict_ok_def dict_items_def)
  qed
qed

definition spec_set :: "string \<Rightarrow> 'v \<Rightarrow> (string \<times> 'v) list \<Rightarrow> (string \<times> 'v) list" where
  "spec_set k v al =
     (if k \<in> fst ` set al then map (\<lambda>(l, w). (l, if l = k then v else w)) al else al @ [(k, v)])"

lemma items_update:
  assumes "distinct ks" and "length vs = length ks" and "find_index k ks = Some i"
  shows "zip ks (vs[i := v]) = map (\<lambda>(l, w). (l, if l = k then v else w)) (zip ks vs)"
  using assms
proof (induction ks arbitrary: vs i)
  case Nil
  then show ?case by simp
next
  case (Cons x ks)
  then obtain w ws where vs: "vs = w # ws" "length ws = length ks" by (cases vs) auto
  show ?case
  proof (cases "x = k")
    case True
    have "map (\<lambda>(l, w). (l, if l = k then v else w)) (zip ks ws) = zip ks ws"
      by (rule map_idI) (use Cons.prems(1) True in \<open>auto dest: set_zip_leftD\<close>)
    then show ?thesis using Cons.prems True vs by simp
  next
    case False
    then show ?thesis using Cons vs by (auto split: if_splits)
  qed
qed

lemma fst_items: "dict_ok d \<Longrightarrow> fst ` set (dict_items d) = set (dc_keys d)"
  by (metis dict_items_def dict_ok_def map_fst_zip set_map)

text \<open>Setting a key is the specification's, or the budget refuses it and nothing changes.\<close>

lemma dict_set_spec:
  assumes "dict_ok d"
  shows "(dict_ok (fst (dict_set key val (d, sb))) \<and>
      dict_items (fst (dict_set key val (d, sb))) = spec_set key val (dict_items d)) \<or>
    (fst (dict_set key val (d, sb)) = d \<and> sb_refused (snd (dict_set key val (d, sb))))"
proof (cases "find_index key (dc_keys d)")
  case (Some i)
  then have "i < length (dc_keys d)" "key \<in> set (dc_keys d)" by (auto dest: find_index_Some)
  then show ?thesis
    using assms Some items_update [of "dc_keys d" "dc_vals d" key i val]
    by (simp add: dict_set_def dict_set_hashed_raw_def env_hash_name_nonzero dict_find_spec Let_def
        fst_items spec_set_def) (simp add: dict_ok_def dict_items_def)
next
  case None
  then have new: "key \<notin> set (dc_keys d)" by (simp only: find_index_None not_False_eq_True)
  then have spec: "spec_set key val (dict_items d) = dict_items d @ [(key, val)]"
    by (simp add: spec_set_def fst_items [OF assms])
  show ?thesis
  proof (cases "dc_capacity d \<le> length (dc_keys d)")
    case False
    then have "dict_set key val (d, sb) = (dict_append key (env_hash_name key) val d, sb)"
      using None assms by (simp add: dict_set_def dict_set_hashed_raw_def env_hash_name_nonzero dict_find_spec Let_def)
    then show ?thesis using dict_append_ok [OF assms new] False spec by simp
  next
    case True
    let ?d = "d\<lparr>dc_capacity := dc_capacity d * 2\<rparr>"
    obtain ok sb' where c: "sandbox_charge (of_nat (dc_capacity d) * (SIZEOF_PTR + SIZEOF_PTR + SIZEOF_VALUE)) sb = (ok, sb')"
      by (metis surj_pair)
    have set: "dict_set key val (d, sb) =
        (if ok then (dict_append key (env_hash_name key) val ?d, sb') else (d, sb'))"
      using None True assms c
      by (simp add: dict_set_def dict_set_hashed_raw_def env_hash_name_nonzero dict_find_spec Let_def mult_2_right)
    have "dict_ok ?d" "length (dc_keys d) < dc_capacity d * 2"
      using assms by (auto simp: dict_ok_def)
    then have "ok \<Longrightarrow> ?thesis" using dict_append_ok [of ?d key val] new spec by (simp add: set dict_items_def)
    moreover have "\<not> ok \<Longrightarrow> sb_refused sb'"
      using c by (auto simp: sandbox_charge_def split: if_splits)
    ultimately show ?thesis using set by auto
  qed
qed

lemma filter_remove_nth:
  assumes "distinct ks" and "length vs = length ks" and "find_index k ks = Some i"
  shows "filter (\<lambda>(l, w). l \<noteq> k) (zip ks vs) = zip (remove_nth i ks) (remove_nth i vs)"
  using assms
proof (induction ks arbitrary: vs i)
  case Nil
  then show ?case by simp
next
  case (Cons x ks)
  then obtain w ws where vs: "vs = w # ws" "length ws = length ks" by (cases vs) auto
  show ?case
  proof (cases "x = k")
    case True
    have "filter (\<lambda>(l, w). l \<noteq> k) (zip ks ws) = zip ks ws"
      by (rule filter_True) (use Cons.prems(1) True in \<open>auto dest: set_zip_leftD\<close>)
    then show ?thesis using Cons.prems True vs by (simp add: remove_nth_def)
  next
    case False
    then show ?thesis using Cons vs by (auto simp: remove_nth_def split: if_splits)
  qed
qed

lemma dict_remove_spec:
  assumes "dict_ok d"
  shows "dict_ok (dict_remove key d) \<and> dict_items (dict_remove key d) = filter (\<lambda>(l, w). l \<noteq> key) (dict_items d)"
proof (cases "find_index key (dc_keys d)")
  case None
  then have "key \<notin> set (dc_keys d)" by (simp only: find_index_None not_False_eq_True)
  then have "filter (\<lambda>(l, w). l \<noteq> key) (dict_items d) = dict_items d"
    by (intro filter_True) (auto simp: dict_items_def dest: set_zip_leftD)
  then show ?thesis using assms None by (simp add: dict_remove_def dict_find_spec)
next
  case (Some i)
  let ?keys = "remove_nth i (dc_keys d)"
  have i: "i < length (dc_keys d)" using Some by (simp add: find_index_Some)
  have rem: "dict_remove key d = d\<lparr>dc_keys := ?keys, dc_vals := remove_nth i (dc_vals d),
      dc_hash := env_hash_rebuild (map Some ?keys)\<rparr>"
    using Some assms by (simp add: dict_remove_def dict_find_spec Let_def)
  have len: "length (dc_vals d) = length (dc_keys d)" and dist: "distinct (dc_keys d)"
    using assms by (simp_all add: dict_ok_def)
  have "distinct ?keys" using dist by (simp add: remove_nth_def set_take_disj_set_drop_if_distinct)
  moreover have "length (remove_nth i (dc_vals d)) = length ?keys" "length ?keys \<le> dc_capacity d"
    using len i assms by (auto simp: remove_nth_def dict_ok_def)
  ultimately show ?thesis
    using rebuild_table [of ?keys] filter_remove_nth [OF dist len Some] assms
    by (simp add: rem dict_ok_def dict_items_def)
qed

datatype 'v dict_op = Set string 'v | Del string

fun run_dict_op :: "'v dict_op \<Rightarrow> 'v dict \<times> sandbox \<Rightarrow> 'v dict \<times> sandbox" where
  "run_dict_op (Set k v) ds = dict_set k v ds"
| "run_dict_op (Del k) ds = (case ds of (d, sb) \<Rightarrow> (dict_remove k d, sb))"

fun spec_dict_op :: "'v dict_op \<Rightarrow> (string \<times> 'v) list \<Rightarrow> (string \<times> 'v) list" where
  "spec_dict_op (Set k v) al = spec_set k v al"
| "spec_dict_op (Del k) al = filter (\<lambda>(l, w). l \<noteq> k) al"

lemma refused_stays: "sb_refused sb \<Longrightarrow> sb_refused (snd (dict_set key val (d, sb)))"
  by (auto simp: dict_set_def dict_set_hashed_raw_def sandbox_charge_def Let_def split: option.split)

lemma run_dict_ops:
  assumes "dict_ok (fst ds)"
  shows "dict_ok (fst (fold run_dict_op ops ds))" and "sb_refused (snd ds) \<Longrightarrow> sb_refused (snd (fold run_dict_op ops ds))"
    and "\<not> sb_refused (snd (fold run_dict_op ops ds)) \<Longrightarrow>
      dict_items (fst (fold run_dict_op ops ds)) = fold spec_dict_op ops (dict_items (fst ds))"
proof -
  have "dict_ok (fst (fold run_dict_op ops ds)) \<and>
    (sb_refused (snd ds) \<longrightarrow> sb_refused (snd (fold run_dict_op ops ds))) \<and>
    (\<not> sb_refused (snd (fold run_dict_op ops ds)) \<longrightarrow>
      dict_items (fst (fold run_dict_op ops ds)) = fold spec_dict_op ops (dict_items (fst ds)))"
    using assms
  proof (induction ops arbitrary: ds)
    case Nil
    then show ?case by simp
  next
    case (Cons op ops)
    let ?ds = "run_dict_op op ds"
    obtain d sb where ds: "ds = (d, sb)" by (metis surj_pair)
    have "dict_ok (fst ?ds) \<and> (sb_refused sb \<longrightarrow> sb_refused (snd ?ds)) \<and>
      (\<not> sb_refused (snd ?ds) \<longrightarrow> dict_items (fst ?ds) = spec_dict_op op (dict_items d))"
      using Cons.prems dict_set_spec [of d] dict_remove_spec [of d] refused_stays
      by (cases op) (fastforce simp: ds)+
    then show ?case using Cons.IH [of ?ds] by (auto simp: ds)
  qed
  then show "dict_ok (fst (fold run_dict_op ops ds))"
    "sb_refused (snd ds) \<Longrightarrow> sb_refused (snd (fold run_dict_op ops ds))"
    "\<not> sb_refused (snd (fold run_dict_op ops ds)) \<Longrightarrow>
      dict_items (fst (fold run_dict_op ops ds)) = fold spec_dict_op ops (dict_items (fst ds))"
    by blast+
qed

text \<open>
  C35: whatever is set in and removed from a dictionary, and unless the sandbox refused
  an allocation, its entries are those of the association list that keeps insertion
  order, and a lookup through the hash index finds the value bound there.
\<close>
theorem dict_refines_map:
  assumes "\<not> sb_refused (snd (fold run_dict_op ops (make_dict cap sb)))"
  shows "dict_items (fst (fold run_dict_op ops (make_dict cap sb))) = fold spec_dict_op ops [] \<and>
    dict_get (fst (fold run_dict_op ops (make_dict cap sb))) key = map_of (fold spec_dict_op ops []) key"
  using run_dict_ops(1,3) [OF make_dict_ok, of ops cap sb] assms
  by (simp add: dict_get_spec make_dict_empty)

text \<open>Outside an armed sandbox nothing is refused.\<close>

lemma disarmed_charge: "\<not> sandbox_armed sb \<Longrightarrow> sandbox_charge n sb = (True, sb)"
  by (auto simp: sandbox_armed_def sandbox_charge_def)

lemma disarmed_make: "\<not> sandbox_armed sb \<Longrightarrow> snd (make_dict cap sb) = sb"
  by (simp add: make_dict_def Let_def disarmed_charge)

lemma disarmed_set: "\<not> sandbox_armed sb \<Longrightarrow> snd (dict_set k v (d, sb)) = sb"
  by (simp add: dict_set_def dict_set_hashed_raw_def Let_def disarmed_charge split: option.split)

lemma disarmed_ops: "\<not> sandbox_armed (snd ds) \<Longrightarrow> snd (fold run_dict_op ops ds) = snd ds"
proof (induction ops arbitrary: ds)
  case Nil
  then show ?case by simp
next
  case (Cons op ops)
  have "snd (run_dict_op op ds) = snd ds"
    using Cons.prems by (cases op; cases ds) (simp_all add: disarmed_set)
  then show ?case using Cons by simp
qed

definition host :: sandbox where
  "host = \<lparr>sb_attached = True, g_sandbox_active = False, g_sandbox_byte_max = 0, g_sandbox_bytes_used = 0,
     sb_refused = False\<rparr>"

lemma dict_refines_map_witness:
  "dict_get (fst (fold run_dict_op [Set ''a'' (1 :: int), Set ''b'' 2, Del ''a''] (make_dict 0 host))) ''b'' = Some 2"
proof -
  have "\<not> sb_refused (snd (fold run_dict_op [Set ''a'' (1 :: int), Set ''b'' 2, Del ''a''] (make_dict 0 host)))"
    by (subst disarmed_ops) (simp_all add: disarmed_make host_def sandbox_armed_def)
  from dict_refines_map [OF this, of "''b''"] show ?thesis by (simp add: spec_set_def)
qed

text \<open>
  The hash table of a dictionary keeps a load of at most 70%, so every probe ends,
  and never has more than 32 slots or four times its entries, however many keys have
  come and gone and whether or not allocations were refused.
\<close>
lemma dict_table_bounded:
  "let d = fst (fold run_dict_op ops (make_dict cap sb)); slots = length (eh_slots (dc_hash d)) in
     length (dc_keys d) * 10 \<le> slots * 7 \<and> slots \<le> max 32 (4 * length (dc_keys d)) \<and>
     length (dc_vals d) = length (dc_keys d) \<and> distinct (dc_keys d)"
  using run_dict_ops(1) [OF make_dict_ok, of ops cap sb] by (auto simp: Let_def dict_ok_def ENV_HASH_INIT_CAP_def)

end
