(* ===== verification/Eigs_Slot.thy ===== *)
theory Eigs_Slot
  imports Eigs_Double
begin

text \<open>
  The order on doubles, the finite-number guard (\<open>src/eigenscript.h\<close>) and the
  NaN-boxed slots that hold every value (\<open>src/value_slot.h\<close>): a slot is a 64-bit
  word, a number is its own pattern, and the other kinds live among the negative
  quiet NaNs, which the guard keeps numbers away from.
\<close>

subsection \<open>Comparing doubles\<close>

definition dbl_neg :: "double \<Rightarrow> bool" where
  "dbl_neg x \<longleftrightarrow> bit x 63"

definition dbl_mag :: "double \<Rightarrow> double" where
  "dbl_mag x = x AND mask 63"

definition dbl_nan :: "double \<Rightarrow> bool" where
  "dbl_nan x \<longleftrightarrow> 0x7FF0000000000000 < dbl_mag x"

text \<open>The patterns of one sign are ordered as their values are.\<close>

definition dbl_key :: "double \<Rightarrow> int" where
  "dbl_key x = (if dbl_neg x then - uint (dbl_mag x) else uint (dbl_mag x))"

definition fp_lt :: "double \<Rightarrow> double \<Rightarrow> bool" where
  "fp_lt x y \<longleftrightarrow> \<not> dbl_nan x \<and> \<not> dbl_nan y \<and> dbl_key x < dbl_key y"

definition fp_le :: "double \<Rightarrow> double \<Rightarrow> bool" where
  "fp_le x y \<longleftrightarrow> \<not> dbl_nan x \<and> \<not> dbl_nan y \<and> dbl_key x \<le> dbl_key y"

definition fp_eq :: "double \<Rightarrow> double \<Rightarrow> bool" where
  "fp_eq x y \<longleftrightarrow> \<not> dbl_nan x \<and> \<not> dbl_nan y \<and> dbl_key x = dbl_key y"

definition fp_neg :: "double \<Rightarrow> double" where
  "fp_neg x = x XOR 0x8000000000000000"

subsection \<open>The guard\<close>

text \<open>The double nearest \<open>1e308\<close>, and the sticky status bits.\<close>

definition EIGS_NUM_MAX :: double where
  "EIGS_NUM_MAX = 0x7FE1CCF385EBC8A0"

definition EIGS_MATH_OVERFLOW :: nat where
  "EIGS_MATH_OVERFLOW = 1"

definition EIGS_MATH_INVALID :: nat where
  "EIGS_MATH_INVALID = 2"

record math_state =
  g_math_flags :: nat
  g_strict :: bool
  ms_raised :: bool

text \<open>Under \<open>EIGS_STRICT\<close> a NaN also raises; the call still answers 0.\<close>

definition num_guard :: "double \<Rightarrow> math_state \<Rightarrow> double \<times> math_state" where
  "num_guard x m =
     (if \<not> fp_eq x x then
        (0, m\<lparr>g_math_flags := g_math_flags m OR EIGS_MATH_INVALID, ms_raised := ms_raised m \<or> g_strict m\<rparr>)
      else if fp_lt EIGS_NUM_MAX x then
        (EIGS_NUM_MAX, m\<lparr>g_math_flags := g_math_flags m OR EIGS_MATH_OVERFLOW\<rparr>)
      else if fp_lt x (fp_neg EIGS_NUM_MAX) then
        (fp_neg EIGS_NUM_MAX, m\<lparr>g_math_flags := g_math_flags m OR EIGS_MATH_OVERFLOW\<rparr>)
      else (x, m))"

subsection \<open>Slots\<close>

type_synonym slot = u64

definition SLOT_QNAN_MASK :: slot where
  "SLOT_QNAN_MASK = 0xFFF8000000000000"

definition SLOT_TAG_MASK :: slot where
  "SLOT_TAG_MASK = 0xFFFF000000000000"

definition SLOT_PAYLOAD_MASK :: slot where
  "SLOT_PAYLOAD_MASK = 0x0000FFFFFFFFFFFF"

definition SLOT_NULL_BITS :: slot where
  "SLOT_NULL_BITS = 0xFFF8000000000000"

definition SLOT_FALSE_BITS :: slot where
  "SLOT_FALSE_BITS = 0xFFF9000000000000"

definition SLOT_TRUE_BITS :: slot where
  "SLOT_TRUE_BITS = 0xFFF9000000000001"

definition TAG_BOOL :: slot where
  "TAG_BOOL = 0xFFF9000000000000"

definition TAG_HEAP :: slot where
  "TAG_HEAP = 0xFFFB000000000000"

definition slot_is_num :: "slot \<Rightarrow> bool" where
  "slot_is_num s \<longleftrightarrow> s AND SLOT_QNAN_MASK \<noteq> SLOT_QNAN_MASK"

definition slot_is_null :: "slot \<Rightarrow> bool" where
  "slot_is_null s \<longleftrightarrow> s = SLOT_NULL_BITS"

definition slot_is_bool :: "slot \<Rightarrow> bool" where
  "slot_is_bool s \<longleftrightarrow> s AND SLOT_TAG_MASK = TAG_BOOL"

definition slot_is_ptr :: "slot \<Rightarrow> bool" where
  "slot_is_ptr s \<longleftrightarrow> s AND SLOT_TAG_MASK = TAG_HEAP"

definition slot_as_num :: "slot \<Rightarrow> double" where
  "slot_as_num s = s"

definition slot_as_bool :: "slot \<Rightarrow> bool" where
  "slot_as_bool s \<longleftrightarrow> s AND 1 \<noteq> 0"

definition slot_as_ptr :: "slot \<Rightarrow> u64" where
  "slot_as_ptr s = s AND SLOT_PAYLOAD_MASK"

definition slot_from_num :: "double \<Rightarrow> slot" where
  "slot_from_num d = d"

definition slot_from_heap :: "u64 \<Rightarrow> slot" where
  "slot_from_heap v = TAG_HEAP OR (v AND SLOT_PAYLOAD_MASK)"

definition slot_null :: slot where
  "slot_null = SLOT_NULL_BITS"

definition slot_from_bool :: "bool \<Rightarrow> slot" where
  "slot_from_bool b = TAG_BOOL OR (if b then 1 else 0)"

text \<open>Truthiness of an immediate; \<open>None\<close> where the caller decides on the heap value.\<close>

definition slot_truthy_immediate :: "slot \<Rightarrow> bool option" where
  "slot_truthy_immediate s =
     (if slot_is_num s then Some (\<not> fp_eq (slot_as_num s) 0)
      else if slot_is_null s \<or> s = SLOT_FALSE_BITS then Some False
      else if s = SLOT_TRUE_BITS then Some True
      else None)"

subsection \<open>Every kind reads back\<close>

lemma and_not_mask_div:
  fixes s :: u64
  assumes "n < 64"
  shows "uint (s AND NOT (mask n)) = 2 ^ n * (uint s div 2 ^ n)"
proof -
  have "s AND NOT (mask n) = push_bit n (drop_bit n s)"
    by (rule bit_word_eqI) (auto simp: bit_simps)
  moreover have "uint (drop_bit n s) = uint s div 2 ^ n"
    using unsigned_less [of s, where ?'a = int]
    by (simp only: unsigned_drop_bit_eq) (simp add: drop_bit_eq_div take_bit_int_eq_self)
  moreover have "2 ^ n * (uint s div 2 ^ n) < 2 ^ 64"
    using unsigned_less [of s, where ?'a = int]
    by (simp add: minus_mod_eq_mult_div [symmetric]) (smt (verit) pos_mod_sign zero_less_power)
  ultimately show ?thesis
    by (simp only: unsigned_push_bit_eq) (simp add: push_bit_eq_mult take_bit_int_eq_self pos_imp_zdiv_nonneg_iff mult.commute)
qed

lemma masks: "SLOT_QNAN_MASK = NOT (mask 51)" "SLOT_TAG_MASK = NOT (mask 48)" "SLOT_PAYLOAD_MASK = mask 48"
  by (simp_all add: SLOT_QNAN_MASK_def SLOT_TAG_MASK_def SLOT_PAYLOAD_MASK_def mask_eq_exp_minus_1)

lemma slot_is_num_iff: "slot_is_num s \<longleftrightarrow> uint s div 2 ^ 51 \<noteq> 8191"
proof -
  have "slot_is_num s \<longleftrightarrow> uint (s AND NOT (mask 51)) \<noteq> uint (NOT (mask 51) :: u64)"
    by (simp only: slot_is_num_def masks word_uint_eq_iff)
  also have "uint (NOT (mask 51) :: u64) = 2 ^ 51 * 8191" by (simp add: mask_eq_exp_minus_1)
  finally show ?thesis by (simp add: and_not_mask_div)
qed

lemma tag_iff:
  assumes "uint t = 2 ^ 48 * k"
  shows "s AND SLOT_TAG_MASK = t \<longleftrightarrow> uint s div 2 ^ 48 = k"
proof -
  have "s AND SLOT_TAG_MASK = t \<longleftrightarrow> uint (s AND NOT (mask 48)) = uint t"
    by (simp only: masks word_uint_eq_iff)
  then show ?thesis by (simp add: and_not_mask_div assms)
qed

lemma slot_tags:
  "slot_is_bool s \<longleftrightarrow> uint s div 2 ^ 48 = 0xFFF9" "slot_is_ptr s \<longleftrightarrow> uint s div 2 ^ 48 = 0xFFFB"
  unfolding slot_is_bool_def slot_is_ptr_def by (rule tag_iff; simp add: TAG_BOOL_def TAG_HEAP_def)+

lemma slot_is_null_tag: "slot_is_null s \<Longrightarrow> uint s div 2 ^ 48 = 0xFFF8"
  by (simp add: slot_is_null_def SLOT_NULL_BITS_def)

lemma slot_kinds_disjoint_aux:
  "(if slot_is_num s then 1 else 0) + (if slot_is_null s then 1 else 0) + (if slot_is_bool s then 1 else 0) +
   (if slot_is_ptr s then 1 else 0) \<le> (1 :: nat)"
proof -
  have "uint s div 2 ^ 51 = uint s div 2 ^ 48 div 2 ^ 3" by (simp flip: div_mult2_eq)
  then have "slot_is_num s \<Longrightarrow> uint s div 2 ^ 48 div 8 \<noteq> 8191" by (simp add: slot_is_num_iff)
  then show ?thesis using slot_is_null_tag [of s] by (auto simp: slot_tags)
qed

text \<open>
  A slot has at most one kind: no pattern is read both as a number and as null, a
  boolean or a pointer, nor as two of these.
\<close>
lemma slot_kinds_disjoint:
  "(if slot_is_num s then 1 else 0) + (if slot_is_null s then 1 else 0) + (if slot_is_bool s then 1 else 0) +
   (if slot_is_ptr s then 1 else 0) \<le> (1 :: nat)"
  by (rule slot_kinds_disjoint_aux)

lemma from_heap_reads: "slot_is_ptr (slot_from_heap v)" "slot_as_ptr (slot_from_heap v) = take_bit 48 v"
proof -
  have t: "TAG_HEAP AND NOT (mask 48) = TAG_HEAP" "TAG_HEAP AND mask 48 = 0"
    by (simp_all add: TAG_HEAP_def mask_eq_exp_minus_1)
  have "slot_from_heap v AND SLOT_TAG_MASK = TAG_HEAP AND NOT (mask 48)"
    unfolding slot_from_heap_def masks by (rule bit_word_eqI) (auto simp: bit_simps)
  then show "slot_is_ptr (slot_from_heap v)" by (simp add: slot_is_ptr_def t)
  have "slot_as_ptr (slot_from_heap v) = (TAG_HEAP AND mask 48) OR take_bit 48 v"
    unfolding slot_as_ptr_def slot_from_heap_def masks by (rule bit_word_eqI) (auto simp: bit_simps)
  then show "slot_as_ptr (slot_from_heap v) = take_bit 48 v" by (simp add: t)
qed

lemma from_bool_reads: "slot_is_bool (slot_from_bool b) \<and> slot_as_bool (slot_from_bool b) = b"
  by (cases b) (simp_all add: slot_is_bool_def slot_as_bool_def slot_from_bool_def TAG_BOOL_def SLOT_TAG_MASK_def)

subsection \<open>Guarded numbers\<close>

lemma top_bit: "uint x div 2 ^ 63 = (if dbl_neg x then 1 else 0)"
proof -
  have "dbl_neg x \<longleftrightarrow> bit (uint x) 63" by (simp add: dbl_neg_def bit_uint_iff)
  then have odd: "dbl_neg x \<longleftrightarrow> odd (uint x div 2 ^ 63)" by (simp only: bit_iff_odd)
  have "uint x < 2 ^ 64" using unsigned_less [of x, where ?'a = int] by simp
  then have lt: "uint x div 2 ^ 63 < 2" by simp
  have ge: "0 \<le> uint x div 2 ^ 63" by (rule pos_imp_zdiv_nonneg_iff [THEN iffD2]) simp_all
  from lt ge consider "uint x div 2 ^ 63 = 0" | "uint x div 2 ^ 63 = 1" by linarith
  then show ?thesis by cases (simp_all only: odd, simp_all)
qed

lemma uint_mag: "uint (dbl_mag x) = uint x mod 2 ^ 63"
proof -
  have "dbl_mag x = take_bit 63 x" by (simp only: dbl_mag_def take_bit_eq_mask)
  then have "uint (dbl_mag x) = take_bit 63 (uint x)" by (simp only: unsigned_take_bit_eq)
  then show ?thesis by (simp only: take_bit_eq_mod)
qed

lemma uint_split: "uint x = uint (dbl_mag x) + (if dbl_neg x then 2 ^ 63 else 0)"
  using div_mult_mod_eq [of "uint x" "2 ^ 63"] unfolding top_bit uint_mag by (cases "dbl_neg x") simp_all

lemma not_nan_is_num:
  assumes "\<not> dbl_nan x"
  shows "slot_is_num x"
proof -
  have "uint (dbl_mag x) \<le> 0x7FF0000000000000" using assms by (simp add: dbl_nan_def word_less_def)
  then have "uint x < 8191 * 2 ^ 51" using uint_split [of x] by (simp split: if_splits)
  then have "uint x div 2 ^ 51 < 8191" by simp
  then show ?thesis by (simp add: slot_is_num_iff)
qed

lemma num_max_facts [simp]:
  "\<not> dbl_nan EIGS_NUM_MAX" "\<not> dbl_nan (fp_neg EIGS_NUM_MAX)" "\<not> dbl_nan 0"
  "dbl_key (fp_neg EIGS_NUM_MAX) = - dbl_key EIGS_NUM_MAX" "dbl_key 0 = 0" "0 < dbl_key EIGS_NUM_MAX"
  by (simp_all add: EIGS_NUM_MAX_def fp_neg_def dbl_nan_def dbl_mag_def dbl_key_def dbl_neg_def
      mask_eq_exp_minus_1 bit_iff_odd)

lemma guarded_range:
  "fp_le (fp_neg EIGS_NUM_MAX) (fst (num_guard x m))" "fp_le (fst (num_guard x m)) EIGS_NUM_MAX"
  using num_max_facts(6) by (auto simp: num_guard_def fp_le_def fp_lt_def fp_eq_def simp del: num_max_facts(6))

lemma guarded_not_nan: "\<not> dbl_nan (fst (num_guard x m))"
  using guarded_range(1) [of x m] by (simp add: fp_le_def)

text \<open>
  A guarded number is never NaN nor infinite: it lies between \<open>-1e308\<close> and \<open>1e308\<close>,
  and a number already there passes unchanged and leaves the status flags alone.
\<close>
lemma num_guard_finite:
  "fp_le (fp_neg EIGS_NUM_MAX) (fst (num_guard x m)) \<and> fp_le (fst (num_guard x m)) EIGS_NUM_MAX \<and>
   num_guard (fst (num_guard x m)) n = (fst (num_guard x m), n)"
proof -
  let ?r = "fst (num_guard x m)"
  have "num_guard ?r n = (?r, n)"
    using guarded_range [of x m] by (simp add: num_guard_def [of ?r] fp_le_def fp_lt_def fp_eq_def)
  then show ?thesis using guarded_range [of x m] by simp
qed

text \<open>
  Every kind of value reads back from its slot: a guarded number as a number with
  the same bits, a 48-bit pointer as that pointer, a boolean and null as themselves.
\<close>
lemma slots_read_back:
  "slot_is_num (slot_from_num (fst (num_guard x m))) \<and>
   slot_as_num (slot_from_num (fst (num_guard x m))) = fst (num_guard x m) \<and>
   slot_is_ptr (slot_from_heap p) \<and> slot_as_ptr (slot_from_heap p) = take_bit 48 p \<and>
   slot_is_bool (slot_from_bool b) \<and> slot_as_bool (slot_from_bool b) = b \<and> slot_is_null slot_null"
  using guarded_not_nan [of x m]
  by (simp add: slot_from_num_def slot_as_num_def not_nan_is_num from_heap_reads from_bool_reads
      slot_is_null_def slot_null_def)

text \<open>What an immediate decides about truth is what its kind says.\<close>

lemma truthy_bool: "slot_truthy_immediate (slot_from_bool b) = Some b"
proof -
  have "\<not> slot_is_num (slot_from_bool b)" "\<not> slot_is_null (slot_from_bool b)"
    using slot_kinds_disjoint_aux [of "slot_from_bool b"] from_bool_reads [of b] by auto
  then show ?thesis
    by (cases b) (simp_all add: slot_truthy_immediate_def slot_from_bool_def TAG_BOOL_def SLOT_FALSE_BITS_def SLOT_TRUE_BITS_def)
qed

lemma truthy_ptr: "slot_truthy_immediate (slot_from_heap p) = None"
proof -
  have "\<not> slot_is_num (slot_from_heap p)" "\<not> slot_is_null (slot_from_heap p)" "\<not> slot_is_bool (slot_from_heap p)"
    using slot_kinds_disjoint_aux [of "slot_from_heap p"] from_heap_reads(1) [of p] by auto
  then show ?thesis
    using from_bool_reads [of True] from_bool_reads [of False]
    by (auto simp: slot_truthy_immediate_def slot_from_bool_def TAG_BOOL_def SLOT_FALSE_BITS_def SLOT_TRUE_BITS_def)
qed

end
