(* ===== verification/Eigs_Env.thy ===== *)
theory Eigs_Env
  imports Eigs_Env_Hash Eigs_Slot
begin

text \<open>
  One environment of \<open>src/eigenscript.c\<close>: names, values and assignment counts in
  parallel arrays with the hash index over the names. Values are slots. The first
  \<open>count\<close> entries of the arrays are the lists; an entry reserved for a compiled local
  has no name. The model is that of one thread, where the locks are no-ops, and leaves
  reference counts of values and arena promotion out.
\<close>

definition ENV_INIT_CAP :: nat where
  "ENV_INIT_CAP = 16"

definition ENV_LOOP_BIND_HEADROOM :: nat where
  "ENV_LOOP_BIND_HEADROOM = 2"

record env =
  en_names :: "string option list"
  en_values :: "slot list"
  en_assign_counts :: "nat list"
  en_capacity :: nat
  en_parent :: "nat option"
  is_loop_env :: bool
  env_refcount :: int
  binding_version :: u32
  en_hash :: env_hash

text \<open>A hash of 0 means that the caller has not computed it.\<close>

definition name_hash_or :: "string \<Rightarrow> u32 \<Rightarrow> u32" where
  "name_hash_or name h = (if h = 0 then env_hash_name name else h)"

definition env_lookup :: "env \<Rightarrow> string \<Rightarrow> u32 \<Rightarrow> nat option" where
  "env_lookup e name h = env_hash_find (en_hash e) name h (en_names e)"

definition env_store_slot :: "nat \<Rightarrow> slot \<Rightarrow> env \<Rightarrow> env" where
  "env_store_slot idx s e = e\<lparr>en_values := (en_values e)[idx := s]\<rparr>"

definition env_count_assign :: "nat \<Rightarrow> env \<Rightarrow> env" where
  "env_count_assign idx e = e\<lparr>en_assign_counts := (en_assign_counts e)[idx := en_assign_counts e ! idx + 1]\<rparr>"

text \<open>The append of a new binding: the arrays grow, then the index is extended or rebuilt.\<close>

definition env_append :: "string \<Rightarrow> u32 \<Rightarrow> slot \<Rightarrow> env \<Rightarrow> env" where
  "env_append name h s e =
     (let count = length (en_names e); names = en_names e @ [Some name] in
      e\<lparr>en_capacity := (if en_capacity e \<le> count then en_capacity e * 2 else en_capacity e),
        en_names := names, en_values := en_values e @ [s], en_assign_counts := en_assign_counts e @ [1],
        binding_version := binding_version e + 1,
        en_hash :=
          (if length (eh_slots (en_hash e)) * 7 < (count + 1) * 10
           then env_hash_rebuild names
           else env_hash_insert h count (en_hash e))\<rparr>)"

definition env_bind_fresh_param_slot :: "string \<Rightarrow> u32 \<Rightarrow> slot \<Rightarrow> env \<Rightarrow> env" where
  "env_bind_fresh_param_slot interned h s e = env_append interned h s e"

definition env_set_local_pre_interned_slot :: "string \<Rightarrow> u32 \<Rightarrow> slot \<Rightarrow> env \<Rightarrow> env" where
  "env_set_local_pre_interned_slot interned h s e =
     (case env_lookup e interned h of
        Some idx \<Rightarrow> env_count_assign idx (env_store_slot idx s e)
      | None \<Rightarrow> env_append interned h s e)"

definition env_set_local_hashed_slot :: "string \<Rightarrow> u32 \<Rightarrow> slot \<Rightarrow> env \<Rightarrow> env" where
  "env_set_local_hashed_slot name h s e = env_set_local_pre_interned_slot name (name_hash_or name h) s e"

text \<open>The setter for a \<open>Value\<close>, here the slot that \<open>slot_from_value\<close> makes of it.\<close>

definition env_set_local_hashed :: "string \<Rightarrow> u32 \<Rightarrow> slot \<Rightarrow> env \<Rightarrow> env" where
  "env_set_local_hashed name h0 s e =
     (let h = name_hash_or name h0 in
      case env_lookup e name h of
        Some idx \<Rightarrow> env_count_assign idx (e\<lparr>en_values := (en_values e)[idx := s]\<rparr>)
      | None \<Rightarrow> env_append name h s e)"

definition env_set_local :: "string \<Rightarrow> slot \<Rightarrow> env \<Rightarrow> env" where
  "env_set_local name s e = env_set_local_hashed name (env_hash_name name) s e"

definition env_reserve_slots :: "nat \<Rightarrow> env \<Rightarrow> env" where
  "env_reserve_slots slots e =
     (let count = length (en_names e) in
      if slots \<le> count then e
      else
        let want_cap = slots + ENV_LOOP_BIND_HEADROOM;
            new_cap = (if en_capacity e < want_cap
                       then grow_cap (if en_capacity e \<noteq> 0 then en_capacity e else ENV_INIT_CAP) want_cap
                       else en_capacity e) in
        e\<lparr>en_capacity := new_cap,
          en_names := en_names e @ replicate (slots - count) None,
          en_values := en_values e @ replicate (slots - count) slot_null,
          en_assign_counts := en_assign_counts e @ replicate (slots - count) 0\<rparr>)"

definition env_clear :: "env \<Rightarrow> env" where
  "env_clear e =
     e\<lparr>en_names := [], en_values := [], en_assign_counts := [], binding_version := binding_version e + 1,
       en_hash := env_hash_clear (en_hash e)\<rparr>"

subsection \<open>The invariant\<close>

definition env_ok :: "env \<Rightarrow> bool" where
  "env_ok e \<longleftrightarrow>
     length (en_values e) = length (en_names e) \<and> length (en_assign_counts e) = length (en_names e) \<and>
     length (en_names e) \<le> en_capacity e \<and> 0 < en_capacity e \<and>
     distinct (filter (\<lambda>n. n \<noteq> None) (en_names e)) \<and>
     env_indexed (en_names e) (length (en_names e)) (en_hash e) \<and> gens_ok (en_hash e) \<and>
     env_load (en_hash e) \<le> length (en_names e) \<and>
     env_load (en_hash e) * 10 \<le> length (eh_slots (en_hash e)) * 7 \<and>
     ENV_HASH_INIT_CAP \<le> length (eh_slots (en_hash e))"

text \<open>What an environment is: its names with the position of each.\<close>

definition env_index :: "env \<Rightarrow> string \<Rightarrow> nat option" where
  "env_index e name = find_index (Some name) (en_names e)"

lemma env_room: "env_ok e \<Longrightarrow> env_load (en_hash e) < length (eh_slots (en_hash e))"
  by (auto simp: env_ok_def ENV_HASH_INIT_CAP_def)

lemma find_index_first:
  assumes "distinct (filter (\<lambda>n. n \<noteq> None) names)" and "i < length names" and "names ! i = Some x"
  shows "find_index (Some x) names = Some i"
  using assms
proof (induction names arbitrary: i)
  case Nil
  then show ?case by simp
next
  case (Cons n ns)
  show ?case
  proof (cases i)
    case 0
    then show ?thesis using Cons.prems by simp
  next
    case (Suc j)
    then have j: "j < length ns" "ns ! j = Some x" using Cons.prems by simp_all
    then have "Some x \<in> set ns" by (metis nth_mem)
    then have "n \<noteq> Some x" using Cons.prems(1) by auto
    moreover have "distinct (filter (\<lambda>n. n \<noteq> None) ns)" using Cons.prems(1) by (simp split: if_splits)
    ultimately show ?thesis using Cons.IH [of j] j Suc by simp
  qed
qed

lemma env_lookup_index:
  assumes "env_ok e"
  shows "env_lookup e name (env_hash_name name) = env_index e name"
proof -
  have ix: "env_indexed (en_names e) (length (en_names e)) (en_hash e)"
    and dist: "distinct (filter (\<lambda>n. n \<noteq> None) (en_names e))"
    using assms by (simp_all add: env_ok_def)
  from env_find_indexed [OF ix env_room [OF assms], of name] show ?thesis
  proof (elim disjE exE conjE)
    fix i assume i: "i < length (en_names e)" "en_names e ! i = Some name"
      "env_hash_find (en_hash e) name (env_hash_name name) (en_names e) = Some i"
    then show ?thesis using find_index_first [OF dist i(1,2)] by (simp add: env_lookup_def env_index_def)
  next
    assume none: "env_hash_find (en_hash e) name (env_hash_name name) (en_names e) = None"
      "\<forall>i<length (en_names e). en_names e ! i \<noteq> Some name"
    then have "Some name \<notin> set (en_names e)" by (auto simp: in_set_conv_nth)
    then have "find_index (Some name) (en_names e) = None" by (simp only: find_index_None not_False_eq_True)
    then show ?thesis using none(1) by (simp add: env_lookup_def env_index_def)
  qed
qed

lemma env_index_Some: "env_index e name = Some i \<Longrightarrow> i < length (en_names e) \<and> en_names e ! i = Some name"
  by (simp add: env_index_def find_index_Some)

subsection \<open>Every operation keeps it\<close>

lemma find_index_append:
  "find_index k (xs @ ys) =
     (case find_index k xs of Some i \<Rightarrow> Some i | None \<Rightarrow> map_option (\<lambda>j. length xs + j) (find_index k ys))"
proof (induction xs)
  case Nil
  show ?case by (cases "find_index k ys") simp_all
next
  case (Cons x xs)
  then show ?case by (cases "find_index k ys") (auto split: option.splits)
qed

lemma env_store_ok: "env_ok e \<Longrightarrow> env_ok (env_store_slot idx s e)"
  by (simp add: env_ok_def env_store_slot_def)

lemma env_count_ok: "env_ok e \<Longrightarrow> env_ok (env_count_assign idx e)"
  by (simp add: env_ok_def env_count_assign_def)

lemma env_append_ok:
  assumes "env_ok e" and "env_index e name = None"
  shows "env_ok (env_append name (env_hash_name name) s e)"
proof -
  let ?names = "en_names e @ [Some name]"
  have new: "Some name \<notin> set (en_names e)"
    using assms(2) by (simp only: env_index_def find_index_None not_False_eq_True)
  then have dist: "distinct (filter (\<lambda>n. n \<noteq> None) ?names)" using assms(1) by (simp add: env_ok_def)
  show ?thesis
  proof (cases "length (eh_slots (en_hash e)) * 7 < (length (en_names e) + 1) * 10")
    case True
    have tbl: "length (eh_slots (env_hash_rebuild ?names)) = grow_cap ENV_HASH_INIT_CAP (length ?names * 2)"
      by (rule env_rebuild_indexed(2))
    have cap: "length ?names * 2 \<le> grow_cap ENV_HASH_INIT_CAP (length ?names * 2)"
      "ENV_HASH_INIT_CAP \<le> grow_cap ENV_HASH_INIT_CAP (length ?names * 2)"
      using grow_cap_bounds [of ENV_HASH_INIT_CAP "length ?names * 2"] by (simp_all add: ENV_HASH_INIT_CAP_def)
    show ?thesis
      using assms(1) True dist tbl cap env_rebuild_indexed(1,3) [of ?names] gens_rebuild [of ?names]
      by (simp add: env_ok_def env_append_def Let_def)
  next
    case False
    let ?t = "env_hash_insert (env_hash_name name) (length (en_names e)) (en_hash e)"
    have ix: "env_indexed ?names (length (en_names e)) (en_hash e)"
      using assms(1) by (intro env_indexed_append) (simp add: env_ok_def)
    have at: "?names ! length (en_names e) = Some name" by simp
    have "gens_ok ?t" using assms(1) by (intro gens_insert) (simp add: env_ok_def)
    then show ?thesis
      using assms(1) False dist env_insert_indexed [OF ix env_room [OF assms(1)] at]
      by (auto simp: env_ok_def env_append_def Let_def)
  qed
qed

lemma env_append_index:
  assumes "env_index e name = None"
  shows "env_index (env_append name h s e) m = (if m = name then Some (length (en_names e)) else env_index e m)"
proof -
  have "find_index (Some m) (en_names e @ [Some name]) =
      (if m = name then Some (length (en_names e)) else find_index (Some m) (en_names e))"
    using assms by (auto simp: env_index_def find_index_append split: option.split)
  then show ?thesis by (simp add: env_append_def env_index_def Let_def)
qed

lemma env_set_local_pre_ok:
  "env_ok e \<Longrightarrow> env_ok (env_set_local_pre_interned_slot name (env_hash_name name) s e)"
  by (auto simp: env_set_local_pre_interned_slot_def env_lookup_index env_store_ok env_count_ok env_append_ok
      split: option.split)

text \<open>The setters agree: the value and the slot setters, hashed or not.\<close>

lemma set_local_agree:
  "env_set_local_hashed name h s e = env_set_local_hashed_slot name h s e"
  by (simp add: env_set_local_hashed_def env_set_local_hashed_slot_def env_set_local_pre_interned_slot_def
      env_store_slot_def Let_def split: option.split)

lemma name_hash_or_own [simp]: "name_hash_or name (env_hash_name name) = env_hash_name name"
  "name_hash_or name 0 = env_hash_name name"
  by (simp_all add: name_hash_or_def)

lemma named_replicate_None: "named (names @ replicate n None) (length names + n) = named names (length names)"
proof -
  have "(names @ replicate n None) ! i = Some x \<longleftrightarrow> i < length names \<and> names ! i = Some x" if "i < length names + n" for i x
    using that by (auto simp: nth_append)
  then show ?thesis by (auto simp: named_def)
qed

lemma env_reserve_ok:
  assumes "env_ok e"
  shows "env_ok (env_reserve_slots slots e)" and "env_index (env_reserve_slots slots e) m = env_index e m"
proof -
  let ?n = "length (en_names e)"
  have "env_ok (env_reserve_slots slots e) \<and> env_index (env_reserve_slots slots e) m = env_index e m"
  proof (cases "slots \<le> ?n")
    case True
    then show ?thesis using assms by (simp add: env_reserve_slots_def)
  next
    case False
    let ?cap = "if en_capacity e < slots + 2 then grow_cap (en_capacity e) (slots + 2) else en_capacity e"
    have pos: "0 < en_capacity e" using assms by (simp add: env_ok_def)
    have res: "env_reserve_slots slots e =
        e\<lparr>en_capacity := ?cap, en_names := en_names e @ replicate (slots - ?n) None,
          en_values := en_values e @ replicate (slots - ?n) slot_null,
          en_assign_counts := en_assign_counts e @ replicate (slots - ?n) 0\<rparr>"
      using False pos by (simp add: env_reserve_slots_def Let_def ENV_LOOP_BIND_HEADROOM_def)
    have cap: "slots + 2 \<le> ?cap" using grow_cap_bounds [OF pos, of "slots + 2"] by auto
    have same: "named (en_names e @ replicate (slots - ?n) None) slots = named (en_names e) ?n"
      using named_replicate_None [of "en_names e" "slots - ?n"] False by simp
    have "find_index (Some m) (replicate k None) = None" for k
      by (simp only: find_index_None) simp
    then have "find_index (Some m) (en_names e @ replicate (slots - ?n) None) = find_index (Some m) (en_names e)"
      by (simp add: find_index_append split: option.split)
    moreover have "env_indexed (en_names e @ replicate (slots - ?n) None) slots (en_hash e)"
      using assms same by (simp add: env_ok_def env_indexed_def)
    ultimately show ?thesis
      using assms False cap by (simp add: res env_ok_def env_index_def)
  qed
  then show "env_ok (env_reserve_slots slots e)" "env_index (env_reserve_slots slots e) m = env_index e m" by blast+
qed

lemma env_clear_ok:
  assumes "env_ok e"
  shows "env_ok (env_clear e)" and "env_index (env_clear e) m = None"
proof -
  have "pow2_size (eh_slots (en_hash e))" using assms by (simp add: env_ok_def env_indexed_def probe_ok_def)
  then show "env_ok (env_clear e)"
    using env_hash_clear_spec [of "en_hash e"] assms by (simp add: env_ok_def env_clear_def)
  show "env_index (env_clear e) m = None" by (simp add: env_clear_def env_index_def)
qed

end
