(* ===== verification/Eigs_Env_Heap.thy ===== *)
theory Eigs_Env_Heap
  imports Eigs_Env
begin

text \<open>
  The environments of a program (\<open>src/eigenscript.c\<close>): addresses, parent links that
  own a reference, the free list of destroyed environments, and the walks along the
  parent chain. An address is an index of the heap; an address whose memory was freed
  holds \<open>None\<close>. A new environment takes the head of the free list, or the address the
  allocator answers, which is an argument.
\<close>

definition ENV_FREELIST_CAP :: nat where
  "ENV_FREELIST_CAP = 1024"

definition ENV_FREELIST_MAX_BINDINGS :: nat where
  "ENV_FREELIST_MAX_BINDINGS = 64"

record env_heap =
  hp_envs :: "env option list"
  g_env_freelist :: "nat list"

definition env_at :: "env_heap \<Rightarrow> nat \<Rightarrow> env option" where
  "env_at H a = (if a < length (hp_envs H) then hp_envs H ! a else None)"

definition env_place :: "nat \<Rightarrow> env option \<Rightarrow> env_heap \<Rightarrow> env_heap" where
  "env_place a x H =
     H\<lparr>hp_envs := (if a < length (hp_envs H) then (hp_envs H)[a := x] else hp_envs H @ [x])\<rparr>"

definition env_upd :: "nat \<Rightarrow> (env \<Rightarrow> env) \<Rightarrow> env_heap \<Rightarrow> env_heap" where
  "env_upd a f H = (case env_at H a of None \<Rightarrow> H | Some e \<Rightarrow> env_place a (Some (f e)) H)"

definition env_heap_empty :: env_heap where
  "env_heap_empty = \<lparr>hp_envs = [], g_env_freelist = []\<rparr>"

definition env_incref :: "nat option \<Rightarrow> env_heap \<Rightarrow> env_heap" where
  "env_incref env H =
     (case env of None \<Rightarrow> H | Some a \<Rightarrow> env_upd a (\<lambda>e. e\<lparr>env_refcount := env_refcount e + 1\<rparr>) H)"

definition env_blank :: env where
  "env_blank =
     \<lparr>en_names = [], en_values = [], en_assign_counts = [], en_capacity = ENV_INIT_CAP, en_parent = None,
       is_loop_env = False, env_refcount = 0, binding_version = 0, en_hash = env_hash_init ENV_HASH_INIT_CAP\<rparr>"

definition env_new :: "nat option \<Rightarrow> nat \<Rightarrow> env_heap \<Rightarrow> nat \<times> env_heap" where
  "env_new parent addr H =
     (let (a, e, H1) =
        (case g_env_freelist H of
           a # rest \<Rightarrow> (a, (the (env_at H a))\<lparr>en_names := [], en_values := [], en_assign_counts := []\<rparr>,
                       H\<lparr>g_env_freelist := rest\<rparr>)
         | [] \<Rightarrow> (addr, env_blank, H)) in
      (a, env_place a (Some (e\<lparr>en_parent := parent, is_loop_env := False, env_refcount := 1\<rparr>)) (env_incref parent H1)))"

text \<open>\<open>OP_LOOP_ENV_FRESH\<close> marks the environment it made.\<close>

definition env_mark_loop :: "nat \<Rightarrow> env_heap \<Rightarrow> env_heap" where
  "env_mark_loop a H = env_upd a (\<lambda>e. e\<lparr>is_loop_env := True\<rparr>) H"

text \<open>
  The destructor of the last reference parks the environment on the free list or frees
  it, and then drops the reference its parent link owned. The recursion along the chain
  is bounded by the number of environments.
\<close>

definition env_park :: "nat list \<Rightarrow> env \<Rightarrow> env" where
  "env_park freelist e =
     e\<lparr>en_names := [], en_values := [], en_assign_counts := [], env_refcount := 0,
       binding_version := binding_version e + 1, en_hash := env_hash_clear (en_hash e),
       en_parent := (case freelist of [] \<Rightarrow> None | f # _ \<Rightarrow> Some f)\<rparr>"

definition env_destroy :: "nat \<Rightarrow> env \<Rightarrow> env_heap \<Rightarrow> env_heap" where
  "env_destroy a e H =
     (if en_capacity e \<le> ENV_FREELIST_MAX_BINDINGS \<and> length (g_env_freelist H) < ENV_FREELIST_CAP
      then (env_place a (Some (env_park (g_env_freelist H) e)) H)\<lparr>g_env_freelist := a # g_env_freelist H\<rparr>
      else env_place a None H)"

fun env_decref :: "nat \<Rightarrow> nat option \<Rightarrow> env_heap \<Rightarrow> env_heap" where
  "env_decref fuel None H = H"
| "env_decref 0 (Some a) H = H"
| "env_decref (Suc fuel) (Some a) H =
     (case env_at H a of
        None \<Rightarrow> H
      | Some e \<Rightarrow>
          let newrc = env_refcount e - 1 in
          if 0 < newrc then env_place a (Some (e\<lparr>env_refcount := newrc\<rparr>)) H
          else env_decref fuel (en_parent e) (env_destroy a e H))"

definition env_drop :: "nat \<Rightarrow> env_heap \<Rightarrow> env_heap" where
  "env_drop a H = env_decref (length (hp_envs H)) (Some a) H"

subsection \<open>Walks along the chain\<close>

fun resolve_loop :: "nat \<Rightarrow> env_heap \<Rightarrow> nat option \<Rightarrow> string \<Rightarrow> u32 \<Rightarrow> nat \<Rightarrow> (nat \<times> nat \<times> nat) option" where
  "resolve_loop fuel H None name h depth = None"
| "resolve_loop 0 H (Some a) name h depth = None"
| "resolve_loop (Suc fuel) H (Some a) name h depth =
     (case env_at H a of
        None \<Rightarrow> None
      | Some e \<Rightarrow>
          (case env_lookup e name h of
             Some idx \<Rightarrow> Some (a, idx, depth)
           | None \<Rightarrow> resolve_loop fuel H (en_parent e) name h (depth + 1)))"

definition env_resolve_chain :: "nat \<Rightarrow> string \<Rightarrow> u32 \<Rightarrow> env_heap \<Rightarrow> (nat \<times> nat \<times> nat) option" where
  "env_resolve_chain start name h H = resolve_loop (length (hp_envs H)) H (Some start) name (name_hash_or name h) 0"

text \<open>The other walkers run the same loop and act where it stops.\<close>

definition env_set_at :: "nat \<Rightarrow> nat \<Rightarrow> slot \<Rightarrow> env_heap \<Rightarrow> env_heap" where
  "env_set_at a idx s H = env_upd a (\<lambda>e. env_count_assign idx (env_store_slot idx s e)) H"

definition env_set_hashed_slot :: "nat \<Rightarrow> string \<Rightarrow> u32 \<Rightarrow> slot \<Rightarrow> env_heap \<Rightarrow> env_heap" where
  "env_set_hashed_slot a name h s H =
     (case env_resolve_chain a name h H of
        Some (b, idx, _) \<Rightarrow> env_set_at b idx s H
      | None \<Rightarrow> env_upd a (env_set_local_hashed_slot name (name_hash_or name h) s) H)"

definition env_set_hashed :: "nat \<Rightarrow> string \<Rightarrow> u32 \<Rightarrow> slot \<Rightarrow> env_heap \<Rightarrow> env_heap" where
  "env_set_hashed a name h s H =
     (case env_resolve_chain a name h H of
        Some (b, idx, _) \<Rightarrow> env_set_at b idx s H
      | None \<Rightarrow> env_upd a (env_set_local_hashed name (name_hash_or name h) s) H)"

definition env_set :: "nat \<Rightarrow> string \<Rightarrow> slot \<Rightarrow> env_heap \<Rightarrow> env_heap" where
  "env_set a name s H = env_set_hashed a name (env_hash_name name) s H"

definition env_get_hashed_slot :: "nat \<Rightarrow> string \<Rightarrow> u32 \<Rightarrow> env_heap \<Rightarrow> slot \<times> bool" where
  "env_get_hashed_slot a name h H =
     (case env_resolve_chain a name h H of
        Some (b, idx, _) \<Rightarrow> (en_values (the (env_at H b)) ! idx, True)
      | None \<Rightarrow> (slot_null, False))"

definition env_get_assign_count :: "nat \<Rightarrow> string \<Rightarrow> u32 \<Rightarrow> env_heap \<Rightarrow> nat" where
  "env_get_assign_count a name h H =
     (case env_resolve_chain a name h H of
        Some (b, idx, _) \<Rightarrow> en_assign_counts (the (env_at H b)) ! idx
      | None \<Rightarrow> 0)"

text \<open>Where a new binding is created: the nearest environment that is not a loop's.\<close>

fun env_binding_home :: "nat \<Rightarrow> env_heap \<Rightarrow> nat \<Rightarrow> nat" where
  "env_binding_home 0 H a = a"
| "env_binding_home (Suc fuel) H a =
     (case env_at H a of
        None \<Rightarrow> a
      | Some e \<Rightarrow>
          if is_loop_env e then (case en_parent e of None \<Rightarrow> a | Some p \<Rightarrow> env_binding_home fuel H p) else a)"

subsection \<open>The heap\<close>

lemma env_at_place:
  "a \<le> length (hp_envs H) \<Longrightarrow> env_at (env_place a x H) b = (if b = a then x else env_at H b)"
  by (auto simp: env_at_def env_place_def nth_append)

lemma env_at_bound: "env_at H a = Some e \<Longrightarrow> a < length (hp_envs H)"
  by (simp add: env_at_def split: if_splits)

lemma env_at_upd: "env_at (env_upd a f H) b = (if b = a then map_option f (env_at H a) else env_at H b)"
proof (cases "env_at H a")
  case (Some e)
  then show ?thesis using env_at_bound [OF Some] by (simp add: env_upd_def env_at_place)
next
  case None
  then show ?thesis by (simp add: env_upd_def)
qed

lemma length_env_upd [simp]: "length (hp_envs (env_upd a f H)) = length (hp_envs H)"
  by (cases "env_at H a") (auto simp: env_upd_def env_place_def dest!: env_at_bound)

lemma freelist_place [simp]: "g_env_freelist (env_place a x H) = g_env_freelist H"
  by (simp add: env_place_def)

lemma freelist_upd [simp]: "g_env_freelist (env_upd a f H) = g_env_freelist H"
  by (simp add: env_upd_def split: option.split)

lemma env_at_freelist [simp]: "env_at (H\<lparr>g_env_freelist := fl\<rparr>) a = env_at H a"
  by (simp add: env_at_def)

definition live :: "env_heap \<Rightarrow> nat \<Rightarrow> bool" where
  "live H a \<longleftrightarrow> (\<exists>e. env_at H a = Some e \<and> 0 < env_refcount e)"

definition parent_of :: "env_heap \<Rightarrow> nat \<Rightarrow> nat option" where
  "parent_of H a = (case env_at H a of None \<Rightarrow> None | Some e \<Rightarrow> en_parent e)"

definition children :: "env_heap \<Rightarrow> nat \<Rightarrow> nat set" where
  "children H a = {c. live H c \<and> parent_of H c = Some a}"

text \<open>
  The invariant, relative to the references \<open>held\<close> by frames, closures and other
  owners outside the heap: counts are exact, parents of live environments are live and
  the chains end.
\<close>

definition counted :: "(nat \<Rightarrow> nat) \<Rightarrow> env_heap \<Rightarrow> bool" where
  "counted held H \<longleftrightarrow>
     (\<forall>a e. env_at H a = Some e \<longrightarrow> env_ok e \<and> 0 \<le> env_refcount e \<and>
        (0 < env_refcount e \<longrightarrow> env_refcount e = int (held a + card (children H a))))"

definition rooted :: "(nat \<Rightarrow> nat) \<Rightarrow> env_heap \<Rightarrow> bool" where
  "rooted held H \<longleftrightarrow>
     (\<forall>a. 0 < held a \<longrightarrow> live H a) \<and> (\<forall>a p. live H a \<longrightarrow> parent_of H a = Some p \<longrightarrow> live H p) \<and>
     (\<exists>r :: nat \<Rightarrow> nat. \<forall>a p. live H a \<longrightarrow> parent_of H a = Some p \<longrightarrow> r p < r a)"

definition parked :: "env_heap \<Rightarrow> bool" where
  "parked H \<longleftrightarrow> distinct (g_env_freelist H) \<and>
     (\<forall>a\<in>set (g_env_freelist H). \<exists>e. env_at H a = Some e \<and> env_refcount e = 0 \<and> en_names e = [])"

definition heap_ok :: "(nat \<Rightarrow> nat) \<Rightarrow> env_heap \<Rightarrow> bool" where
  "heap_ok held H \<longleftrightarrow> counted held H \<and> rooted held H \<and> parked H"

lemma live_bound: "live H a \<Longrightarrow> a < length (hp_envs H)"
  by (auto simp: live_def dest: env_at_bound)

lemma finite_live: "finite {a. live H a}"
  by (rule finite_subset [of _ "{..<length (hp_envs H)}"]) (auto dest: live_bound)

lemma card_live: "card {a. live H a} \<le> length (hp_envs H)"
  using card_mono [of "{..<length (hp_envs H)}" "{a. live H a}"] by (auto dest: live_bound)

lemma finite_children [simp]: "finite (children H a)"
  by (rule finite_subset [OF _ finite_live [of H]]) (auto simp: children_def)

lemma heap_okD:
  assumes "heap_ok held H"
  shows "env_at H a = Some e \<Longrightarrow> env_ok e" "env_at H a = Some e \<Longrightarrow> 0 \<le> env_refcount e"
    "env_at H a = Some e \<Longrightarrow> 0 < env_refcount e \<Longrightarrow> env_refcount e = int (held a + card (children H a))"
    "0 < held a \<Longrightarrow> live H a" "live H a \<Longrightarrow> parent_of H a = Some p \<Longrightarrow> live H p"
    "distinct (g_env_freelist H)"
    "a \<in> set (g_env_freelist H) \<Longrightarrow> \<exists>e. env_at H a = Some e \<and> env_refcount e = 0 \<and> en_names e = []"
    "\<exists>r :: nat \<Rightarrow> nat. \<forall>a p. live H a \<longrightarrow> parent_of H a = Some p \<longrightarrow> r p < r a"
  using assms unfolding heap_ok_def counted_def rooted_def parked_def by blast+

lemma live_not_parked: "heap_ok held H \<Longrightarrow> live H a \<Longrightarrow> a \<notin> set (g_env_freelist H)"
  using heap_okD(7) [of held H a] by (auto simp: live_def)

lemma env_ok_refcount [simp]: "env_ok (e\<lparr>env_refcount := n\<rparr>) = env_ok e"
  by (simp add: env_ok_def)

text \<open>How an environment may change in one operation, as an inline cache sees it.\<close>

definition env_le :: "env \<Rightarrow> env \<Rightarrow> bool" where
  "env_le e e' \<longleftrightarrow>
     (binding_version e' = binding_version e \<and> env_index e' = env_index e \<and> en_parent e' = en_parent e \<and>
        (0 < env_refcount e \<longrightarrow> 0 < env_refcount e')) \<or>
     binding_version e' = binding_version e + 1"

definition heap_le :: "env_heap \<Rightarrow> env_heap \<Rightarrow> bool" where
  "heap_le H H' \<longleftrightarrow>
     length (hp_envs H) \<le> length (hp_envs H') \<and>
     (\<forall>a<length (hp_envs H). env_at H a = None \<longrightarrow> env_at H' a = None) \<and>
     (\<forall>a e e'. env_at H a = Some e \<longrightarrow> env_at H' a = Some e' \<longrightarrow>
        (if 0 < env_refcount e then env_le e e' else binding_version e' = binding_version e)) \<and>
     (\<forall>a e'. length (hp_envs H) \<le> a \<longrightarrow> env_at H' a = Some e' \<longrightarrow> binding_version e' = 0)"

lemma env_le_refl [simp]: "env_le e e"
  by (simp add: env_le_def)

lemma env_at_outside [simp]: "length (hp_envs H) \<le> a \<Longrightarrow> env_at H a = None"
  by (simp add: env_at_def)

lemma heap_le_refl [simp]: "heap_le H H"
  by (auto simp: heap_le_def)

text \<open>An update of one live environment.\<close>

lemma heap_upd:
  assumes "heap_ok held H" and "live H a"
    and "\<And>e. env_ok e \<Longrightarrow> env_ok (f e)" "\<And>e. en_parent (f e) = en_parent e" "\<And>e. env_refcount (f e) = env_refcount e"
  shows "heap_ok held (env_upd a f H)"
proof -
  let ?H = "env_upd a f H"
  have par: "parent_of ?H = parent_of H" and liv: "live ?H = live H"
    using assms(4,5) by (auto simp: parent_of_def live_def env_at_upd fun_eq_iff split: option.split)
  then have ch: "children ?H = children H" by (simp add: children_def fun_eq_iff)
  have "a \<notin> set (g_env_freelist H)" by (rule live_not_parked [OF assms(1,2)])
  then have "parked ?H" using assms(1) by (auto simp: heap_ok_def parked_def env_at_upd)
  moreover have "counted held ?H"
    using assms(1,3,5) by (auto simp: heap_ok_def counted_def env_at_upd ch)
  ultimately show ?thesis using assms(1) by (simp add: heap_ok_def rooted_def par liv)
qed

lemma heap_le_upd:
  assumes "live H a" and "\<And>e. env_at H a = Some e \<Longrightarrow> env_le e (f e)"
  shows "heap_le H (env_upd a f H)"
  using assms by (auto simp: heap_le_def env_at_upd live_def split: if_splits)

lemma heap_hold:
  assumes "heap_ok held H" and "live H a"
  shows "heap_ok (held(a := held a + 1)) (env_incref (Some a) H)" and "heap_le H (env_incref (Some a) H)"
proof -
  let ?H = "env_incref (Some a) H"
  have at: "env_at ?H b = (if b = a then map_option (\<lambda>e. e\<lparr>env_refcount := env_refcount e + 1\<rparr>) (env_at H a) else env_at H b)" for b
    by (simp add: env_incref_def env_at_upd)
  obtain e where e: "env_at H a = Some e" "0 < env_refcount e" using assms(2) by (auto simp: live_def)
  have par: "parent_of ?H = parent_of H" and liv: "live ?H = live H"
    using e by (auto simp: parent_of_def live_def at fun_eq_iff split: option.split)
  then have ch: "children ?H = children H" by (simp add: children_def fun_eq_iff)
  have "a \<notin> set (g_env_freelist H)" by (rule live_not_parked [OF assms])
  moreover have fl: "g_env_freelist ?H = g_env_freelist H" by (simp add: env_incref_def)
  ultimately have "parked ?H" using assms(1) by (auto simp: heap_ok_def parked_def at)
  moreover have "rooted (held(a := held a + 1)) ?H"
    using assms by (simp add: heap_ok_def rooted_def par liv)
  moreover have "counted (held(a := held a + 1)) ?H"
    using assms(1) heap_okD(3) [OF assms(1) e] e by (auto simp: heap_ok_def counted_def at ch env_ok_refcount)
  ultimately show "heap_ok (held(a := held a + 1)) ?H" by (simp add: heap_ok_def)
  show "heap_le H ?H"
    unfolding env_incref_def option.case
    by (rule heap_le_upd) (use assms(2) in \<open>auto simp: env_le_def env_index_def\<close>)
qed

subsection \<open>Creation\<close>

lemma env_blank_ok: "env_ok (env_blank\<lparr>en_parent := p, is_loop_env := False, env_refcount := 1\<rparr>)"
  using env_init_indexed [where cap = ENV_HASH_INIT_CAP and k = 5] gens_init [of ENV_HASH_INIT_CAP]
  by (simp add: env_ok_def env_blank_def ENV_INIT_CAP_def ENV_HASH_INIT_CAP_def)

text \<open>The new environment, whether it is recycled or from the allocator.\<close>

definition new_addr :: "env_heap \<Rightarrow> nat \<Rightarrow> nat" where
  "new_addr H addr = (case g_env_freelist H of a # _ \<Rightarrow> a | [] \<Rightarrow> addr)"

lemma env_new_addr: "fst (env_new parent addr H) = new_addr H addr"
  by (simp add: env_new_def new_addr_def Let_def case_prod_beta split: list.split)

definition new_env :: "nat option \<Rightarrow> env_heap \<Rightarrow> env" where
  "new_env parent H =
     (case g_env_freelist H of
        a # _ \<Rightarrow> (the (env_at H a))\<lparr>en_names := [], en_values := [], en_assign_counts := []\<rparr>
      | [] \<Rightarrow> env_blank)\<lparr>en_parent := parent, is_loop_env := False, env_refcount := 1\<rparr>"

lemma new_env_fields [simp]:
  "env_refcount (new_env parent H) = 1" "en_parent (new_env parent H) = parent"
  "en_names (new_env parent H) = []" "\<not> is_loop_env (new_env parent H)"
  by (simp_all add: new_env_def env_blank_def split: list.split)

lemma new_env_ok: "heap_ok held H \<Longrightarrow> env_ok (new_env parent H)"
proof (cases "g_env_freelist H")
  case (Cons a rest)
  assume ok: "heap_ok held H"
  obtain e where e: "env_at H a = Some e" "en_names e = []" using heap_okD(7) [OF ok, of a] Cons by auto
  then show ?thesis using heap_okD(1) [OF ok e(1)] Cons by (simp add: new_env_def env_ok_def)
qed (use env_blank_ok in \<open>simp add: new_env_def\<close>)

lemma env_new_at:
  assumes "heap_ok held H" and "addr = length (hp_envs H)"
  defines "a \<equiv> new_addr H addr"
  shows "env_at (snd (env_new parent addr H)) b =
      (if b = a then Some (new_env parent H)
       else if Some b = parent then map_option (\<lambda>e. e\<lparr>env_refcount := env_refcount e + 1\<rparr>) (env_at H b)
       else env_at H b)"
    and "g_env_freelist (snd (env_new parent addr H)) = tl (g_env_freelist H)"
    and "\<not> live H a" and "a \<notin> set (tl (g_env_freelist H))"
    and "length (hp_envs (snd (env_new parent addr H))) = max (length (hp_envs H)) (Suc a)"
    and "a \<le> length (hp_envs H)" and "env_at H a = None \<Longrightarrow> a = length (hp_envs H)"
    and "env_at H a = Some e \<Longrightarrow> binding_version (new_env parent H) = binding_version e"
    and "env_at H a = None \<Longrightarrow> binding_version (new_env parent H) = 0"
proof -
  let ?G = "H\<lparr>g_env_freelist := tl (g_env_freelist H)\<rparr>"
  have inc: "env_at (env_incref parent ?G) b =
      (if Some b = parent then map_option (\<lambda>e. e\<lparr>env_refcount := env_refcount e + 1\<rparr>) (env_at H b) else env_at H b)" for b
    by (auto simp: env_incref_def env_at_upd split: option.split)
  have len: "length (hp_envs (env_incref parent ?G)) = length (hp_envs H)"
    and fl: "g_env_freelist (env_incref parent ?G) = tl (g_env_freelist H)"
    by (simp_all add: env_incref_def split: option.split)
  have al: "a \<le> length (hp_envs H) \<and> \<not> live H a \<and> a \<notin> set (tl (g_env_freelist H)) \<and>
      (env_at H a = None \<longrightarrow> a = length (hp_envs H) \<and> new_env parent H = env_blank\<lparr>en_parent := parent, is_loop_env := False, env_refcount := 1\<rparr>) \<and>
      (\<forall>e. env_at H a = Some e \<longrightarrow> binding_version (new_env parent H) = binding_version e)"
  proof (cases "g_env_freelist H")
    case Nil
    then show ?thesis using assms(2) by (simp add: a_def new_addr_def new_env_def live_def)
  next
    case (Cons x rest)
    then obtain e where e: "env_at H x = Some e" "env_refcount e = 0" using heap_okD(7) [OF assms(1), of x] by auto
    then show ?thesis
      using Cons heap_okD(6) [OF assms(1)] env_at_bound [OF e(1)]
      by (simp add: a_def new_addr_def new_env_def live_def)
  qed
  have snd: "snd (env_new parent addr H) = env_place a (Some (new_env parent H)) (env_incref parent ?G)"
    by (cases H; cases "g_env_freelist H") (simp_all add: env_new_def new_env_def a_def new_addr_def Let_def)
  show "env_at (snd (env_new parent addr H)) b =
      (if b = a then Some (new_env parent H)
       else if Some b = parent then map_option (\<lambda>e. e\<lparr>env_refcount := env_refcount e + 1\<rparr>) (env_at H b)
       else env_at H b)"
    using al by (simp add: snd env_at_place len inc)
  show "g_env_freelist (snd (env_new parent addr H)) = tl (g_env_freelist H)" by (simp add: snd fl)
  show "length (hp_envs (snd (env_new parent addr H))) = max (length (hp_envs H)) (Suc a)"
    using al len by (auto simp: snd env_place_def)
  show "\<not> live H a" "a \<notin> set (tl (g_env_freelist H))" "a \<le> length (hp_envs H)"
    "env_at H a = None \<Longrightarrow> a = length (hp_envs H)"
    "env_at H a = Some e \<Longrightarrow> binding_version (new_env parent H) = binding_version e"
    "env_at H a = None \<Longrightarrow> binding_version (new_env parent H) = 0"
    using al by (simp_all add: env_blank_def)
qed

lemma heap_new:
  assumes "heap_ok held H" and "addr = length (hp_envs H)" and "\<And>p. parent = Some p \<Longrightarrow> live H p"
  shows "heap_ok (held(new_addr H addr := 1)) (snd (env_new parent addr H))"
    and "heap_le H (snd (env_new parent addr H))"
proof -
  let ?a = "new_addr H addr" and ?H = "snd (env_new parent addr H)"
  note at = env_new_at(1) [OF assms(1,2), of parent] and fl = env_new_at(2) [OF assms(1,2), of parent] env_new_at(4) [OF assms(1,2)]
    and dead = env_new_at(3) [OF assms(1,2)] and len = env_new_at(5) [OF assms(1,2), of parent] env_new_at(6,7) [OF assms(1,2)]
    and ver = env_new_at(8,9) [OF assms(1,2), where parent = parent]
  have pa: "parent \<noteq> Some ?a" using assms(3) dead by auto
  have liv: "live ?H b \<longleftrightarrow> b = ?a \<or> live H b" for b
    using assms(3) by (auto simp: live_def at)
  have par: "parent_of ?H b = (if b = ?a then parent else parent_of H b)" for b
    by (auto simp: parent_of_def at split: option.split)
  have ch: "children ?H b = (if parent = Some b then insert ?a (children H b) else children H b)" for b
    using dead by (auto simp: children_def liv par)
  have ca: "children H ?a = {}" using dead heap_okD(5) [OF assms(1)] by (auto simp: children_def)
  have fresh: "?a \<notin> children H b" for b using dead by (simp add: children_def)
  have held0: "held ?a = 0" using heap_okD(4) [OF assms(1), of ?a] dead by auto
  have "counted (held(?a := 1)) ?H"
    unfolding counted_def
  proof (intro allI impI)
    fix b e assume b: "env_at ?H b = Some e"
    show "env_ok e \<and> 0 \<le> env_refcount e \<and>
        (0 < env_refcount e \<longrightarrow> env_refcount e = int ((held(?a := 1)) b + card (children ?H b)))"
    proof (cases "b = ?a")
      case True
      then show ?thesis using b new_env_ok [OF assms(1)] ca pa by (auto simp: at ch)
    next
      case False
      then obtain e0 where e0: "env_at H b = Some e0"
          "e = (if Some b = parent then e0\<lparr>env_refcount := env_refcount e0 + 1\<rparr> else e0)"
        using b by (auto simp: at split: if_splits)
      have pl: "0 < env_refcount e0" if "Some b = parent" using assms(3) [of b] that e0(1) by (auto simp: live_def)
      show ?thesis
        using heap_okD(1-3) [OF assms(1) e0(1)] e0(2) pl False fresh [of b] by (auto simp: ch)
    qed
  qed
  moreover have "rooted (held(?a := 1)) ?H"
  proof -
    obtain r :: "nat \<Rightarrow> nat" where r: "\<And>b p. live H b \<Longrightarrow> parent_of H b = Some p \<Longrightarrow> r p < r b"
      using heap_okD(8) [OF assms(1)] by blast
    let ?r = "r(?a := (case parent of None \<Rightarrow> 0 | Some p \<Rightarrow> Suc (r p)))"
    have "?r p < ?r b" if "live ?H b" "parent_of ?H b = Some p" for b p
    proof (cases "b = ?a")
      case True
      then show ?thesis using that(2) pa by (auto simp: par)
    next
      case False
      then have "live H b" "parent_of H b = Some p" using that by (simp_all add: liv par)
      moreover from this have "p \<noteq> ?a" using heap_okD(5) [OF assms(1)] dead by auto
      ultimately show ?thesis using r False by simp
    qed
    then have "\<exists>r :: nat \<Rightarrow> nat. \<forall>b p. live ?H b \<longrightarrow> parent_of ?H b = Some p \<longrightarrow> r p < r b" by blast
    moreover have "live ?H p" if "live ?H b" "parent_of ?H b = Some p" for b p
      using that assms(3) heap_okD(5) [OF assms(1)] by (auto simp: liv par split: if_splits)
    moreover have "live ?H b" if "0 < (held(?a := 1)) b" for b
      using that heap_okD(4) [OF assms(1)] by (auto simp: liv split: if_splits)
    ultimately show ?thesis unfolding rooted_def by blast
  qed
  moreover have "parked ?H"
  proof -
    have "\<exists>e. env_at ?H b = Some e \<and> env_refcount e = 0 \<and> en_names e = []" if "b \<in> set (tl (g_env_freelist H))" for b
    proof -
      have bs: "b \<in> set (g_env_freelist H)" using that by (cases "g_env_freelist H") auto
      from heap_okD(7) [OF assms(1) this] obtain e
        where e: "env_at H b = Some e" "env_refcount e = 0" "en_names e = []" by blast
      have "Some b \<noteq> parent" using assms(3) [of b] live_not_parked [OF assms(1)] bs by auto
      then show ?thesis using e that fl(2) by (auto simp: at)
    qed
    then show ?thesis using heap_okD(6) [OF assms(1)] by (simp add: parked_def fl(1) distinct_tl)
  qed
  ultimately show "heap_ok (held(?a := 1)) ?H" by (simp add: heap_ok_def)
  show "heap_le H ?H"
    unfolding heap_le_def
  proof (intro conjI allI impI)
    show "length (hp_envs H) \<le> length (hp_envs ?H)" by (simp only: len(1) max.cobounded1)
  next
    fix b assume b: "b < length (hp_envs H)" "env_at H b = None"
    have "b \<noteq> ?a"
    proof
      assume "b = ?a"
      then have "env_at H ?a = None" using b(2) by simp
      from len(3) [OF this] show False using b(1) \<open>b = ?a\<close> by simp
    qed
    then show "env_at ?H b = None" using b(2) by (simp add: at)
  next
    fix b e e' assume b: "env_at H b = Some e" "env_at ?H b = Some e'"
    show "if 0 < env_refcount e then env_le e e' else binding_version e' = binding_version e"
    proof (cases "b = ?a")
      case True
      then have "\<not> 0 < env_refcount e" using dead b(1) by (auto simp: live_def)
      then show ?thesis using b True ver(1) by (simp add: at)
    next
      case False
      then show ?thesis using b by (auto simp: at env_le_def env_index_def split: if_splits)
    qed
  next
    fix b e' assume b: "length (hp_envs H) \<le> b" "env_at ?H b = Some e'"
    then have none: "env_at H b = None" by simp
    show "binding_version e' = 0"
    proof (cases "b = ?a")
      case True
      then have "e' = new_env parent H" using b(2) by (simp add: at)
      moreover have "env_at H ?a = None" using none True by simp
      ultimately show ?thesis using ver(2) by blast
    next
      case False
      then show ?thesis using b(2) none by (simp add: at split: if_splits)
    qed
  qed
qed

subsection \<open>Destruction\<close>

lemma env_park_ok:
  assumes "env_ok e"
  shows "env_ok (env_park fl e)"
proof -
  have "pow2_size (eh_slots (en_hash e))" using assms by (simp add: env_ok_def env_indexed_def probe_ok_def)
  then show ?thesis using env_hash_clear_spec [of "en_hash e"] assms by (simp add: env_ok_def env_park_def)
qed

lemma env_park_fields [simp]:
  "env_refcount (env_park fl e) = 0" "en_names (env_park fl e) = []"
  "binding_version (env_park fl e) = binding_version e + 1"
  by (simp_all add: env_park_def)

text \<open>
  An environment whose only reference is the one dropped is destroyed, and the
  reference of its parent link becomes a reference held outside.
\<close>

lemma heap_destroy:
  assumes ok: "heap_ok held H" and e: "env_at H a = Some e" "env_refcount e = 1" and h: "0 < held a"
  defines "H' \<equiv> env_destroy a e H"
    and "held' \<equiv> (case en_parent e of None \<Rightarrow> held(a := 0) | Some p \<Rightarrow> held(a := 0, p := held p + 1))"
  shows "heap_ok held' H'" and "\<And>b. live H' b \<longleftrightarrow> live H b \<and> b \<noteq> a"
    and "\<And>b. b \<noteq> a \<Longrightarrow> env_at H' b = env_at H b"
    and "env_at H' a = None \<or> env_at H' a = Some (env_park (g_env_freelist H) e)"
    and "length (hp_envs H') = length (hp_envs H)"
proof -
  have la: "live H a" using e by (auto simp: live_def)
  have al: "a < length (hp_envs H)" by (rule env_at_bound [OF e(1)])
  have one: "held a = 1 \<and> children H a = {}"
  proof -
    have "1 = int (held a + card (children H a))" using heap_okD(3) [OF ok e(1)] e(2) by simp
    then have "held a + card (children H a) = 1" by linarith
    then have "held a = 1" "card (children H a) = 0" using h by linarith+
    then show ?thesis by simp
  qed
  show same: "env_at H' b = env_at H b" if "b \<noteq> a" for b
    using that al by (simp add: H'_def env_destroy_def env_at_place)
  show at: "env_at H' a = None \<or> env_at H' a = Some (env_park (g_env_freelist H) e)"
    using al by (simp add: H'_def env_destroy_def env_at_place)
  show "length (hp_envs H') = length (hp_envs H)" using al by (simp add: H'_def env_destroy_def env_place_def)
  show liv: "live H' b \<longleftrightarrow> live H b \<and> b \<noteq> a" for b
    using at by (cases "b = a") (auto simp: live_def same)
  have par: "parent_of H' b = parent_of H b" if "b \<noteq> a" for b using that by (simp add: parent_of_def same)
  have pa: "parent_of H a = en_parent e" using e by (simp add: parent_of_def)
  have ch: "children H' b = children H b - {a}" for b by (auto simp: children_def liv par)
  have cha: "a \<in> children H b \<longleftrightarrow> en_parent e = Some b" for b using la pa by (simp add: children_def)
  have pne: "en_parent e \<noteq> Some a" using one cha [of a] by auto
  have "counted held' H'"
    unfolding counted_def
  proof (intro allI impI)
    fix b eb assume b: "env_at H' b = Some eb"
    show "env_ok eb \<and> 0 \<le> env_refcount eb \<and>
        (0 < env_refcount eb \<longrightarrow> env_refcount eb = int (held' b + card (children H' b)))"
    proof (cases "b = a")
      case True
      then show ?thesis using b at env_park_ok [OF heap_okD(1) [OF ok e(1)]] by auto
    next
      case False
      then have b0: "env_at H b = Some eb" using b same by simp
      have "held' b + card (children H' b) = held b + card (children H b)"
      proof (cases "en_parent e = Some b")
        case True
        then have "a \<in> children H b" using cha by simp
        then have "card (children H b) = Suc (card (children H b - {a}))" by (rule card.remove [OF finite_children])
        moreover have "held' b = held b + 1" using True by (simp add: held'_def)
        ultimately show ?thesis unfolding ch by linarith
      next
        case other: False
        then have "a \<notin> children H b" using cha by simp
        then show ?thesis using False other by (auto simp: ch held'_def split: option.split)
      qed
      then show ?thesis using heap_okD(1-3) [OF ok b0] by simp
    qed
  qed
  moreover have "rooted held' H'"
  proof -
    have "live H' b" if "0 < held' b" for b
      using that heap_okD(4,5) [OF ok] la pa pne by (auto simp: liv held'_def split: option.splits if_splits)
    moreover have "live H' p" if "live H' b" "parent_of H' b = Some p" for b p
    proof -
      have b: "live H b" "b \<noteq> a" "parent_of H b = Some p" using that par by (auto simp: liv)
      then have "b \<in> children H p" by (simp add: children_def)
      then have "p \<noteq> a" using one by auto
      then show ?thesis using heap_okD(5) [OF ok b(1,3)] by (simp add: liv)
    qed
    moreover have "\<exists>r :: nat \<Rightarrow> nat. \<forall>b p. live H' b \<longrightarrow> parent_of H' b = Some p \<longrightarrow> r p < r b"
      using heap_okD(8) [OF ok] by (metis liv par)
    ultimately show ?thesis unfolding rooted_def by blast
  qed
  moreover have "parked H'"
  proof -
    have "a \<notin> set (g_env_freelist H)" by (rule live_not_parked [OF ok la])
    then show ?thesis
      using heap_okD(6,7) [OF ok] al by (auto simp: parked_def H'_def env_destroy_def env_at_place)
  qed
  ultimately show "heap_ok held' H'" by (simp add: heap_ok_def)
qed

text \<open>Dropping a held reference, with enough fuel for the whole chain.\<close>

lemma heap_decref:
  assumes "heap_ok held H" and "0 < held a" and "card {x. live H x} \<le> fuel"
  shows "heap_ok (held(a := held a - 1)) (env_decref fuel (Some a) H) \<and> heap_le H (env_decref fuel (Some a) H) \<and>
    length (hp_envs (env_decref fuel (Some a) H)) = length (hp_envs H)"
  using assms
proof (induction fuel arbitrary: a held H)
  case 0
  then show ?case using heap_okD(4) [OF 0(1,2)] by (simp add: finite_live)
next
  case (Suc fuel)
  obtain e where e: "env_at H a = Some e" "0 < env_refcount e"
    using heap_okD(4) [OF Suc.prems(1,2)] by (auto simp: live_def)
  have al: "a < length (hp_envs H)" by (rule env_at_bound [OF e(1)])
  show ?case
  proof (cases "0 < env_refcount e - 1")
    case True
    let ?H = "env_upd a (\<lambda>e. e\<lparr>env_refcount := env_refcount e - 1\<rparr>) H"
    have H: "env_decref (Suc fuel) (Some a) H = ?H" using True e by (simp add: env_upd_def)
    have par: "parent_of ?H = parent_of H" and liv: "live ?H = live H"
      using e True by (auto simp: parent_of_def live_def env_at_upd fun_eq_iff split: option.split)
    then have ch: "children ?H = children H" by (simp add: children_def fun_eq_iff)
    have "parked ?H"
      using Suc.prems(1) live_not_parked [OF Suc.prems(1), of a] e by (auto simp: heap_ok_def parked_def env_at_upd live_def)
    moreover have "rooted (held(a := held a - 1)) ?H"
      using Suc.prems(1,2) by (auto simp: heap_ok_def rooted_def par liv)
    moreover have "counted (held(a := held a - 1)) ?H"
      using Suc.prems(1,2) heap_okD(3) [OF Suc.prems(1) e] e True
      by (auto simp: heap_ok_def counted_def env_at_upd ch of_nat_diff)
    moreover have "heap_le H ?H"
      by (rule heap_le_upd) (use e True in \<open>auto simp: live_def env_le_def env_index_def\<close>)
    ultimately show ?thesis unfolding H heap_ok_def by (intro conjI) (assumption | rule length_env_upd)+
  next
    case False
    then have one: "env_refcount e = 1" using e(2) by simp
    let ?H = "env_destroy a e H"
    note d = heap_destroy [OF Suc.prems(1) e(1) one Suc.prems(2)]
    have h1: "held a = 1" using heap_okD(3) [OF Suc.prems(1) e] one Suc.prems(2) by simp
    have H: "env_decref (Suc fuel) (Some a) H = env_decref fuel (en_parent e) ?H" using False e by (simp add: Let_def)
    have less: "{x. live ?H x} = {x. live H x} - {a}" using d(2) by auto
    have "a \<in> {x. live H x}" using e by (simp add: live_def)
    then have card: "card {x. live ?H x} \<le> fuel" using Suc.prems(3) by (simp add: less finite_live)
    have le: "heap_le H G" if G: "heap_le ?H G" "length (hp_envs G) = length (hp_envs ?H)" for G
      unfolding heap_le_def
    proof (intro conjI allI impI)
      show "length (hp_envs H) \<le> length (hp_envs G)" using G(2) d(5) by simp
    next
      fix b assume "b < length (hp_envs H)" "env_at H b = None"
      then show "env_at G b = None" using G(1) d(3) [of b] d(5) e(1) by (cases "b = a") (auto simp: heap_le_def)
    next
      fix b eb eb' assume b: "env_at H b = Some eb" "env_at G b = Some eb'"
      show "if 0 < env_refcount eb then env_le eb eb' else binding_version eb' = binding_version eb"
      proof (cases "b = a")
        case True
        then have "env_at ?H a \<noteq> None" using G(1) b(2) al d(5) by (auto simp: heap_le_def)
        then have "env_at ?H a = Some (env_park (g_env_freelist H) e)" using d(4) by auto
        then have "binding_version eb' = binding_version e + 1" using G(1) b(2) True by (fastforce simp: heap_le_def)
        then show ?thesis using b(1) True e by (simp add: env_le_def)
      next
        case False
        then have "env_at ?H b = Some eb" using b(1) d(3) by simp
        then show ?thesis using G(1) b(2) by (auto simp: heap_le_def)
      qed
    next
      fix b eb' assume "length (hp_envs H) \<le> b" "env_at G b = Some eb'"
      then show "binding_version eb' = 0" using G d(5) by (simp add: heap_le_def)
    qed
    show ?thesis
    proof (cases "en_parent e")
      case None
      have eq: "held(a := held a - 1) = held(a := 0)" using h1 by simp
      have D: "env_decref (Suc fuel) (Some a) H = ?H" by (rule trans [OF H]) (simp add: None)
      have "heap_ok (held(a := 0)) ?H" using d(1) None by (simp only: option.case)
      then show ?thesis unfolding D eq using d(5) le [OF heap_le_refl refl] by (intro conjI)
    next
      case (Some p)
      let ?held = "held(a := 0, p := held p + 1)"
      have pne: "p \<noteq> a"
        using Some heap_okD(8) [OF Suc.prems(1)] e by (auto simp: parent_of_def live_def)
      have ok: "heap_ok ?held ?H" using d(1) Some by simp
      have eq: "(?held)(p := ?held p - 1) = held(a := held a - 1)" using h1 pne by auto
      have "0 < ?held p" by simp
      note IH = Suc.IH [OF ok this card, unfolded eq]
      note IHs = IH [THEN conjunct1] IH [THEN conjunct2, THEN conjunct1] IH [THEN conjunct2, THEN conjunct2]
      show ?thesis unfolding H Some
        by (intro conjI IHs(1) le [OF IHs(2,3)] trans [OF IHs(3) d(5)])
    qed
  qed
qed

lemma heap_drop:
  assumes "heap_ok held H" and "0 < held a"
  shows "heap_ok (held(a := held a - 1)) (env_drop a H)" "heap_le H (env_drop a H)"
  using heap_decref [OF assms card_live] by (simp_all add: env_drop_def)

subsection \<open>Lexical scope\<close>

text \<open>The binding of a name nearest to an environment, and how many links away it is.\<close>

inductive nearest :: "env_heap \<Rightarrow> string \<Rightarrow> nat \<Rightarrow> nat \<Rightarrow> nat \<Rightarrow> nat \<Rightarrow> bool" for H name where
  here: "env_at H a = Some e \<Longrightarrow> env_index e name = Some i \<Longrightarrow> nearest H name a a i 0"
| outer: "env_at H a = Some e \<Longrightarrow> env_index e name = None \<Longrightarrow> en_parent e = Some p \<Longrightarrow>
    nearest H name p b i d \<Longrightarrow> nearest H name a b i (Suc d)"

inductive_cases nearestE: "nearest H name a b i d"

lemma nearest_iff:
  "env_at H a = Some e \<Longrightarrow> nearest H name a b i d \<longleftrightarrow>
     (case env_index e name of
        Some j \<Rightarrow> b = a \<and> i = j \<and> d = 0
      | None \<Rightarrow> (\<exists>p d'. en_parent e = Some p \<and> nearest H name p b i d' \<and> d = Suc d'))"
  by (auto elim: nearestE intro: nearest.intros split: option.split)

lemma nearest_bound:
  "nearest H name a b i d \<Longrightarrow> \<exists>e. env_at H b = Some e \<and> env_index e name = Some i"
  by (induction rule: nearest.induct) auto

lemma nearest_live: "nearest H name a b i d \<Longrightarrow> heap_ok held H \<Longrightarrow> live H a \<Longrightarrow> live H b"
proof (induction rule: nearest.induct)
  case (outer a e p b i d)
  then have "parent_of H a = Some p" by (simp add: parent_of_def)
  then have "live H p" using heap_okD(5) [OF outer.prems(1,2)] by blast
  then show ?case using outer by blast
qed

lemma resolve_loop_nearest:
  assumes "heap_ok held H" and r: "\<And>a p. live H a \<Longrightarrow> parent_of H a = Some p \<Longrightarrow> r p < (r a :: nat)"
  shows "live H a \<Longrightarrow> card {x. live H x \<and> r x \<le> r a} \<le> fuel \<Longrightarrow>
    resolve_loop fuel H (Some a) name (env_hash_name name) k = Some (b, i, d) \<longleftrightarrow>
    (\<exists>d'. nearest H name a b i d' \<and> d = k + d')"
proof (induction fuel arbitrary: a k)
  case 0
  have "finite {x. live H x \<and> r x \<le> r a}" by (rule finite_subset [OF _ finite_live [of H]]) auto
  then show ?case using 0 by auto
next
  case (Suc fuel)
  obtain e where e: "env_at H a = Some e" using Suc.prems(1) by (auto simp: live_def)
  have look: "env_lookup e name (env_hash_name name) = env_index e name"
    by (rule env_lookup_index [OF heap_okD(1) [OF assms(1) e]])
  show ?case
  proof (cases "env_index e name")
    case (Some j)
    then show ?thesis using e look by (auto simp: nearest_iff)
  next
    case none: None
    show ?thesis
    proof (cases "en_parent e")
      case None
      then show ?thesis using e look none by (auto simp: nearest_iff)
    next
      case (Some p)
      then have par: "parent_of H a = Some p" using e by (simp add: parent_of_def)
      have lp: "live H p" by (rule heap_okD(5) [OF assms(1) Suc.prems(1) par])
      have "r p < r a" by (rule r [OF Suc.prems(1) par])
      then have "{x. live H x \<and> r x \<le> r p} \<subseteq> {x. live H x \<and> r x \<le> r a}"
        "a \<in> {x. live H x \<and> r x \<le> r a}" "a \<notin> {x. live H x \<and> r x \<le> r p}"
        using Suc.prems(1) by auto
      then have "{x. live H x \<and> r x \<le> r p} \<subset> {x. live H x \<and> r x \<le> r a}" by blast
      moreover have "finite {x. live H x \<and> r x \<le> r a}" by (rule finite_subset [OF _ finite_live [of H]]) auto
      ultimately have "card {x. live H x \<and> r x \<le> r p} < card {x. live H x \<and> r x \<le> r a}"
        by (intro psubset_card_mono)
      then have "card {x. live H x \<and> r x \<le> r p} \<le> fuel" using Suc.prems(2) by simp
      from Suc.IH [OF lp this, of "k + 1"] show ?thesis using e look none Some by (auto simp: nearest_iff)
    qed
  qed
qed

lemma resolve_nearest:
  assumes "heap_ok held H" and "live H a"
  shows "env_resolve_chain a name (env_hash_name name) H = Some (b, i, d) \<longleftrightarrow> nearest H name a b i d"
proof -
  obtain r :: "nat \<Rightarrow> nat" where r: "\<And>a p. live H a \<Longrightarrow> parent_of H a = Some p \<Longrightarrow> r p < r a"
    using heap_okD(8) [OF assms(1)] by blast
  have "card {x. live H x \<and> r x \<le> r a} \<le> card {x. live H x}" by (intro card_mono finite_live) auto
  then have "card {x. live H x \<and> r x \<le> r a} \<le> length (hp_envs H)" using card_live [of H] by simp
  from resolve_loop_nearest [OF assms(1) r assms(2) this, of name 0]
  show ?thesis by (simp add: env_resolve_chain_def)
qed

lemma env_binding_home_live: "heap_ok held H \<Longrightarrow> live H a \<Longrightarrow> live H (env_binding_home n H a)"
proof (induction n arbitrary: a)
  case 0
  then show ?case by simp
next
  case (Suc n)
  obtain e where e: "env_at H a = Some e" using Suc.prems(2) by (auto simp: live_def)
  show ?case
  proof (cases "en_parent e")
    case None
    then show ?thesis using Suc.prems e by simp
  next
    case (Some p)
    then have "live H p" using heap_okD(5) [OF Suc.prems] e by (simp add: parent_of_def)
    then show ?thesis using Suc Some e by simp
  qed
qed

end
