(* ===== verification/Eigs_Inline_Cache.thy ===== *)
theory Eigs_Inline_Cache
  imports Eigs_Env_Heap
begin

text \<open>
  The name instructions of the virtual machine (\<open>src/vm.c\<close>) and their inline caches: a
  chunk has one cache per constant, which remembers where the constant's name was found
  and is trusted while the binding versions it recorded stand.
\<close>

record env_ic =
  starting_env :: "nat option"
  starting_ver :: u32
  target_ver :: u32
  slot_idx :: nat
  walk_depth :: nat

definition ic_empty :: env_ic where
  "ic_empty = \<lparr>starting_env = None, starting_ver = 0, target_ver = 0, slot_idx = 0, walk_depth = 0\<rparr>"

record names_vm =
  nv_heap :: env_heap
  env_ics :: "env_ic list"

abbreviation env_of :: "env_heap \<Rightarrow> nat \<Rightarrow> env" where
  "env_of H a \<equiv> the (env_at H a)"

text \<open>The fast path: the target of a cache that is still valid for this environment.\<close>

definition ic_target :: "env_ic \<Rightarrow> nat \<Rightarrow> env_heap \<Rightarrow> nat option" where
  "ic_target ic start H =
     (if starting_env ic = Some start \<and> starting_ver ic = binding_version (env_of H start) then
        (case (if walk_depth ic \<noteq> 0 then en_parent (env_of H start) else Some start) of
           Some target \<Rightarrow> if binding_version (env_of H target) = target_ver ic then Some target else None
         | None \<Rightarrow> None)
      else None)"

definition ic_fill :: "nat \<Rightarrow> nat \<Rightarrow> nat \<Rightarrow> nat \<Rightarrow> env_heap \<Rightarrow> env_ic" where
  "ic_fill start target idx depth H =
     \<lparr>starting_env = Some start, starting_ver = binding_version (env_of H start),
       target_ver = binding_version (env_of H target), slot_idx = idx, walk_depth = depth\<rparr>"

text \<open>\<open>OP_GET_NAME\<close>; no value is the error \<open>EK_UNDEFINED_NAME\<close>.\<close>

definition get_name :: "string list \<Rightarrow> nat \<Rightarrow> nat \<Rightarrow> names_vm \<Rightarrow> slot option \<times> names_vm" where
  "get_name cs idx start vm =
     (let ic = env_ics vm ! idx; H = nv_heap vm in
      case ic_target ic start H of
        Some target \<Rightarrow> (Some (en_values (env_of H target) ! slot_idx ic), vm)
      | None \<Rightarrow>
          let name = cs ! idx in
          (case env_resolve_chain start name (env_hash_name name) H of
             None \<Rightarrow> (None, vm)
           | Some (target, i, depth) \<Rightarrow>
               (Some (en_values (env_of H target) ! i),
                if depth \<le> 1 then vm\<lparr>env_ics := (env_ics vm)[idx := ic_fill start target i depth H]\<rparr> else vm)))"

text \<open>\<open>OP_SET_NAME\<close>.\<close>

definition set_name :: "string list \<Rightarrow> nat \<Rightarrow> nat \<Rightarrow> slot \<Rightarrow> names_vm \<Rightarrow> names_vm" where
  "set_name cs idx start s vm =
     (let ic = env_ics vm ! idx; H = nv_heap vm in
      case ic_target ic start H of
        Some target \<Rightarrow> vm\<lparr>nv_heap := env_set_at target (slot_idx ic) s H\<rparr>
      | None \<Rightarrow>
          let name = cs ! idx; h = env_hash_name name in
          (case env_resolve_chain start name h H of
             Some (target, i, depth) \<Rightarrow>
               let H' = env_set_at target i s H in
               vm\<lparr>nv_heap := H',
                 env_ics := (if depth \<le> 1 then (env_ics vm)[idx := ic_fill start target i depth H'] else env_ics vm)\<rparr>
           | None \<Rightarrow>
               let H' = env_upd (env_binding_home (length (hp_envs H)) H start)
                          (env_set_local_pre_interned_slot name h s) H in
               vm\<lparr>nv_heap := H',
                 env_ics :=
                   (case env_resolve_chain start name h H' of
                      Some (target, i, depth) \<Rightarrow>
                        if target = start then (env_ics vm)[idx := ic_fill start start i 0 H'] else env_ics vm
                    | None \<Rightarrow> env_ics vm)\<rparr>))"

text \<open>\<open>OP_SET_NAME_LOCAL\<close>.\<close>

definition set_name_local :: "string list \<Rightarrow> nat \<Rightarrow> nat \<Rightarrow> slot \<Rightarrow> names_vm \<Rightarrow> names_vm" where
  "set_name_local cs idx start s vm =
     (let ic = env_ics vm ! idx; H = nv_heap vm; ver = binding_version (env_of H start) in
      if starting_env ic = Some start \<and> starting_ver ic = ver \<and> walk_depth ic = 0 \<and> target_ver ic = ver then
        vm\<lparr>nv_heap := env_set_at start (slot_idx ic) s H\<rparr>
      else
        let name = cs ! idx; h = env_hash_name name;
            H' = env_upd start (env_set_local_pre_interned_slot name h s) H in
        vm\<lparr>nv_heap := H',
          env_ics :=
            (case env_resolve_chain start name h H' of
               Some (target, i, depth) \<Rightarrow>
                 if target = start then (env_ics vm)[idx := ic_fill start start i 0 H'] else env_ics vm
             | None \<Rightarrow> env_ics vm)\<rparr>)"

text \<open>
  \<open>OP_SET_FN_NAME_LOCAL\<close> writes to the function's environment, or, in the entry chunk of
  an import, to the environment between the current one and it that binds the name.
\<close>

fun search_to :: "nat \<Rightarrow> env_heap \<Rightarrow> nat option \<Rightarrow> nat \<Rightarrow> nat \<Rightarrow> nat" where
  "search_to fuel H None found home = home"
| "search_to 0 H (Some a) found home = home"
| "search_to (Suc fuel) H (Some a) found home =
     (if a = home then home else if a = found then a
      else search_to fuel H (en_parent (env_of H a)) found home)"

definition fn_name_write_target :: "bool \<Rightarrow> string \<Rightarrow> nat \<Rightarrow> nat \<Rightarrow> env_heap \<Rightarrow> nat" where
  "fn_name_write_target module_scope_writes name env home H =
     (if module_scope_writes \<and> env \<noteq> home then
        (case env_resolve_chain env name (env_hash_name name) H of
           None \<Rightarrow> home
         | Some (found, _, _) \<Rightarrow> search_to (length (hp_envs H)) H (Some env) found home)
      else home)"

definition set_fn_name_local :: "bool \<Rightarrow> string list \<Rightarrow> nat \<Rightarrow> nat \<Rightarrow> nat \<Rightarrow> slot \<Rightarrow> names_vm \<Rightarrow> names_vm" where
  "set_fn_name_local module_scope_writes cs idx env home s vm =
     set_name_local cs idx (fn_name_write_target module_scope_writes (cs ! idx) env home (nv_heap vm)) s vm"

text \<open>
  \<open>OP_GET_LOCAL\<close> and \<open>OP_SET_LOCAL\<close> address the function's environment by slot: a read
  out of range is null, which is how a missing parameter reads, a write out of range is
  the error \<open>EK_INTERNAL\<close>.
\<close>

definition get_local :: "nat \<Rightarrow> env \<Rightarrow> slot" where
  "get_local slot e = (if slot < length (en_names e) then en_values e ! slot else slot_null)"

definition set_local :: "nat \<Rightarrow> slot \<Rightarrow> env \<Rightarrow> env option" where
  "set_local slot s e = (if slot < length (en_names e) then Some (env_store_slot slot s e) else None)"

subsection \<open>The same instructions without caches\<close>

definition plain_get :: "string \<Rightarrow> nat \<Rightarrow> env_heap \<Rightarrow> slot option" where
  "plain_get name start H =
     (case env_resolve_chain start name (env_hash_name name) H of
        Some (target, i, _) \<Rightarrow> Some (en_values (env_of H target) ! i)
      | None \<Rightarrow> None)"

definition plain_set :: "string \<Rightarrow> nat \<Rightarrow> slot \<Rightarrow> env_heap \<Rightarrow> env_heap" where
  "plain_set name start s H =
     (case env_resolve_chain start name (env_hash_name name) H of
        Some (target, i, _) \<Rightarrow> env_set_at target i s H
      | None \<Rightarrow> env_upd (env_binding_home (length (hp_envs H)) H start)
                  (env_set_local_pre_interned_slot name (env_hash_name name) s) H)"

definition plain_set_local :: "string \<Rightarrow> nat \<Rightarrow> slot \<Rightarrow> env_heap \<Rightarrow> env_heap" where
  "plain_set_local name start s H = env_upd start (env_set_local_pre_interned_slot name (env_hash_name name) s) H"

subsection \<open>What a cache remembers\<close>

definition ic_ok :: "string \<Rightarrow> env_ic \<Rightarrow> env_heap \<Rightarrow> bool" where
  "ic_ok name ic H \<longleftrightarrow>
     (\<forall>a. starting_env ic = Some a \<longrightarrow> a < length (hp_envs H) \<and>
        (\<forall>e. env_at H a = Some e \<longrightarrow>
           unat (starting_ver ic) \<le> unat (binding_version e) \<and>
           (starting_ver ic = binding_version e \<longrightarrow> 0 < env_refcount e \<and>
              (if walk_depth ic = 0 then target_ver ic = starting_ver ic \<and> env_index e name = Some (slot_idx ic)
               else walk_depth ic = 1 \<and> env_index e name = None \<and>
                 (\<exists>p pe. en_parent e = Some p \<and> env_at H p = Some pe \<and>
                    unat (target_ver ic) \<le> unat (binding_version pe) \<and>
                    (target_ver ic = binding_version pe \<longrightarrow> env_index pe name = Some (slot_idx ic)))))))"

lemma ic_empty_ok [simp]: "ic_ok name ic_empty H"
  by (simp add: ic_ok_def ic_empty_def)

lemma ic_fill_ok:
  assumes "nearest H name a b i d" and "d \<le> 1" and "live H a"
  shows "ic_ok name (ic_fill a b i d H) H"
proof -
  obtain e where e: "env_at H a = Some e" "0 < env_refcount e" using assms(3) by (auto simp: live_def)
  have al: "a < length (hp_envs H)" by (rule env_at_bound [OF e(1)])
  show ?thesis
  proof (cases "env_index e name")
    case (Some j)
    then have "b = a" "i = j" "d = 0" using assms(1) e by (simp_all add: nearest_iff)
    then show ?thesis using Some e al by (simp add: ic_ok_def ic_fill_def)
  next
    case None
    then obtain p d' where p: "en_parent e = Some p" "nearest H name p b i d'" "d = Suc d'"
      using assms(1) e by (auto simp: nearest_iff)
    then have d: "d' = 0" "d = 1" using assms(2) by auto
    then have "b = p" using p(2) by (auto elim: nearestE)
    then show ?thesis using None e al p d nearest_bound [OF p(2)] by (auto simp: ic_ok_def ic_fill_def)
  qed
qed

lemma search_to_live:
  "heap_ok held H \<Longrightarrow> live H home \<Longrightarrow> live H found \<Longrightarrow> live H (search_to n H a found home)"
  by (induction n H a found home rule: search_to.induct) auto

text \<open>The target is live, so the write is one that the run below includes.\<close>

lemma fn_target_live:
  assumes "heap_ok held H" and "live H env" and "live H home"
  shows "live H (fn_name_write_target m name env home H)"
  using search_to_live [OF assms(1,3)] nearest_live [OF _ assms(1,2)] assms(3)
  by (auto simp: fn_name_write_target_def resolve_nearest [OF assms(1,2)] split: option.split)

text \<open>A cache that hits answers what the walk would.\<close>

lemma ic_hit:
  assumes "ic_ok name ic H" and "live H a" and "ic_target ic a H = Some t"
  shows "\<exists>d. nearest H name a t (slot_idx ic) d"
proof -
  obtain e where e: "env_at H a = Some e" "0 < env_refcount e" using assms(2) by (auto simp: live_def)
  have st: "starting_env ic = Some a" "starting_ver ic = binding_version e"
    using assms(3) e by (auto simp: ic_target_def split: if_splits)
  show ?thesis
  proof (cases "walk_depth ic = 0")
    case True
    then have "t = a" using assms(3) e st by (auto simp: ic_target_def split: if_splits)
    then show ?thesis using assms(1) st e True by (auto simp: ic_ok_def intro: nearest.here)
  next
    case False
    then obtain p pe where p: "env_index e name = None" "en_parent e = Some p" "env_at H p = Some pe"
        "target_ver ic = binding_version pe \<longrightarrow> env_index pe name = Some (slot_idx ic)"
      using assms(1) st e by (auto simp: ic_ok_def)
    have "t = p \<and> target_ver ic = binding_version pe"
      using assms(3) e st False p by (auto simp: ic_target_def split: if_splits)
    then show ?thesis using p e by (blast intro: nearest.intros)
  qed
qed

text \<open>No operation makes a cache wrong, as long as no version counter wraps.\<close>

definition versions_below :: "nat \<Rightarrow> env_heap \<Rightarrow> bool" where
  "versions_below n H \<longleftrightarrow> (\<forall>a e. env_at H a = Some e \<longrightarrow> unat (binding_version e) \<le> n)"

lemma unat_next: "unat (v :: u32) < 2 ^ 32 - 1 \<Longrightarrow> unat (v + 1) = unat v + 1"
  by (simp add: unat_word_ariths)

lemma env_le_version:
  assumes "env_le e e'" and "unat (binding_version e) \<le> n" and "n < 2 ^ 32 - 1"
  shows "binding_version e' = binding_version e \<and> env_index e' = env_index e \<and> en_parent e' = en_parent e \<and>
      (0 < env_refcount e \<longrightarrow> 0 < env_refcount e') \<or>
    unat (binding_version e') = unat (binding_version e) + 1"
  using assms unat_next [of "binding_version e"] by (auto simp: env_le_def)

lemma versions_step:
  assumes "versions_below n H" and "heap_le H H'" and "n < 2 ^ 32 - 1"
  shows "versions_below (Suc n) H'"
  unfolding versions_below_def
proof (intro allI impI)
  fix a e' assume a: "env_at H' a = Some e'"
  show "unat (binding_version e') \<le> Suc n"
  proof (cases "env_at H a")
    case None
    then have "length (hp_envs H) \<le> a" using assms(2) a by (metis heap_le_def leI option.distinct(1))
    then show ?thesis using assms(2) a by (simp add: heap_le_def)
  next
    case (Some e)
    then have n: "unat (binding_version e) \<le> n" using assms(1) by (simp add: versions_below_def)
    have "env_le e e' \<or> binding_version e' = binding_version e"
      using assms(2) Some a unfolding heap_le_def by metis
    then show ?thesis using env_le_version [OF _ n assms(3)] n by fastforce
  qed
qed

lemma ic_step:
  assumes "ic_ok name ic H" and "heap_ok held H" and "heap_ok held' H'" and "heap_le H H'"
    and "versions_below n H" and "n < 2 ^ 32 - 1"
  shows "ic_ok name ic H'"
  unfolding ic_ok_def
proof (intro allI impI conjI)
  fix a assume st: "starting_env ic = Some a"
  then have al: "a < length (hp_envs H)" using assms(1) by (simp add: ic_ok_def)
  then show "a < length (hp_envs H')" using assms(4) by (simp add: heap_le_def)
  fix e' assume a': "env_at H' a = Some e'"
  then obtain e where a: "env_at H a = Some e" using assms(4) al by (metis heap_le_def option.exhaust option.distinct(1))
  have old: "unat (starting_ver ic) \<le> unat (binding_version e)" using assms(1) st a by (simp add: ic_ok_def)
  have n: "unat (binding_version e) \<le> n" using assms(5) a by (simp add: versions_below_def)
  have step: "if 0 < env_refcount e then env_le e e' else binding_version e' = binding_version e"
    using assms(4) a a' by (simp add: heap_le_def)
  then have mono: "unat (binding_version e) \<le> unat (binding_version e')"
    using env_le_version [OF _ n assms(6)] by (fastforce split: if_splits)
  then show "unat (starting_ver ic) \<le> unat (binding_version e')" using old by simp
  assume same: "starting_ver ic = binding_version e'"
  then have "unat (binding_version e) = unat (binding_version e')" using old mono by simp
  then have ve: "binding_version e = binding_version e'" by (simp add: word_unat_eq_iff)
  have was: "0 < env_refcount e \<and>
      (if walk_depth ic = 0 then target_ver ic = starting_ver ic \<and> env_index e name = Some (slot_idx ic)
       else walk_depth ic = 1 \<and> env_index e name = None \<and>
         (\<exists>p pe. en_parent e = Some p \<and> env_at H p = Some pe \<and>
            unat (target_ver ic) \<le> unat (binding_version pe) \<and>
            (target_ver ic = binding_version pe \<longrightarrow> env_index pe name = Some (slot_idx ic))))"
    using assms(1) st a same [folded ve] unfolding ic_ok_def by blast
  have keep: "env_index e' = env_index e" "en_parent e' = en_parent e" "0 < env_refcount e'"
  proof -
    have "env_le e e'" using step was by simp
    from env_le_version [OF this n assms(6)] ve was
    show "env_index e' = env_index e" "en_parent e' = en_parent e" "0 < env_refcount e'" by auto
  qed
  then show "0 < env_refcount e'" by simp
  show "if walk_depth ic = 0 then target_ver ic = starting_ver ic \<and> env_index e' name = Some (slot_idx ic)
      else walk_depth ic = 1 \<and> env_index e' name = None \<and>
        (\<exists>p pe. en_parent e' = Some p \<and> env_at H' p = Some pe \<and>
           unat (target_ver ic) \<le> unat (binding_version pe) \<and>
           (target_ver ic = binding_version pe \<longrightarrow> env_index pe name = Some (slot_idx ic)))"
  proof (cases "walk_depth ic = 0")
    case True
    then show ?thesis using was keep by simp
  next
    case False
    then obtain p pe where p: "en_parent e = Some p" "env_at H p = Some pe"
        "unat (target_ver ic) \<le> unat (binding_version pe)"
        "target_ver ic = binding_version pe \<Longrightarrow> env_index pe name = Some (slot_idx ic)"
      using was by auto
    have "live H p"
      using heap_okD(5) [OF assms(2), of a p] a p(1) was by (auto simp: live_def parent_of_def)
    then have rc: "0 < env_refcount pe" using p(2) by (auto simp: live_def)
    have "live H' p"
      using heap_okD(5) [OF assms(3), of a p] a' p(1) keep by (auto simp: live_def parent_of_def)
    then obtain pe' where pe': "env_at H' p = Some pe'" by (auto simp: live_def)
    have np: "unat (binding_version pe) \<le> n" using assms(5) p(2) by (simp add: versions_below_def)
    have "env_le pe pe'" using assms(4) p(2) pe' rc unfolding heap_le_def by metis
    from env_le_version [OF this np assms(6)]
    have "unat (target_ver ic) \<le> unat (binding_version pe') \<and>
        (target_ver ic = binding_version pe' \<longrightarrow> env_index pe' name = Some (slot_idx ic))"
      using p(3,4) by auto
    then show ?thesis using was False keep p(1) pe' by auto
  qed
qed

subsection \<open>Operations on the heap\<close>

lemma env_count_store_fields [simp]:
  "en_names (env_count_assign i (env_store_slot i s e)) = en_names e"
  "en_parent (env_count_assign i (env_store_slot i s e)) = en_parent e"
  "env_refcount (env_count_assign i (env_store_slot i s e)) = env_refcount e"
  "binding_version (env_count_assign i (env_store_slot i s e)) = binding_version e"
  "env_index (env_count_assign i (env_store_slot i s e)) = env_index e"
  by (simp_all add: env_count_assign_def env_store_slot_def env_index_def fun_eq_iff)

lemma set_at_ok:
  assumes "heap_ok held H" and "live H a"
  shows "heap_ok held (env_set_at a i s H)" "heap_le H (env_set_at a i s H)"
  unfolding env_set_at_def
  using heap_upd [OF assms, of "\<lambda>e. env_count_assign i (env_store_slot i s e)"]
    heap_le_upd [OF assms(2), of "\<lambda>e. env_count_assign i (env_store_slot i s e)"]
  by (simp_all add: env_store_ok env_count_ok env_le_def)

lemma set_at_nearest:
  "nearest (env_set_at c j s H) name a b i d \<longleftrightarrow> nearest H name a b i d"
proof
  assume "nearest H name a b i d"
  then show "nearest (env_set_at c j s H) name a b i d"
  proof (induction rule: nearest.induct)
    case (here a e i)
    then show ?case
      by (intro nearest.here [where e = "if a = c then env_count_assign j (env_store_slot j s e) else e"])
        (auto simp: env_set_at_def env_at_upd env_index_def)
  next
    case (outer a e p b i d)
    then show ?case
      by (intro nearest.outer [where e = "if a = c then env_count_assign j (env_store_slot j s e) else e" and p = p])
        (auto simp: env_set_at_def env_at_upd env_index_def)
  qed
next
  assume "nearest (env_set_at c j s H) name a b i d"
  then show "nearest H name a b i d"
  proof (induction rule: nearest.induct)
    case (here a e i)
    then show ?case by (auto simp: env_set_at_def env_at_upd env_index_def split: if_splits intro: nearest.here)
  next
    case (outer a e p b i d)
    then show ?case by (auto simp: env_set_at_def env_at_upd env_index_def split: if_splits intro: nearest.outer)
  qed
qed

lemma append_fields [simp]:
  "en_parent (env_append name h s e) = en_parent e" "env_refcount (env_append name h s e) = env_refcount e"
  "binding_version (env_append name h s e) = binding_version e + 1"
  by (simp_all add: env_append_def Let_def)

lemma set_local_fields [simp]:
  "en_parent (env_set_local_pre_interned_slot name h s e) = en_parent e"
  "env_refcount (env_set_local_pre_interned_slot name h s e) = env_refcount e"
  by (simp_all add: env_set_local_pre_interned_slot_def split: option.split)

lemma set_local_le: "env_le e (env_set_local_pre_interned_slot name h s e)"
  by (auto simp: env_set_local_pre_interned_slot_def env_le_def env_index_def split: option.split)

lemma set_local_ok:
  assumes "heap_ok held H" and "live H a"
  shows "heap_ok held (env_upd a (env_set_local_pre_interned_slot name (env_hash_name name) s) H)"
    "heap_le H (env_upd a (env_set_local_pre_interned_slot name (env_hash_name name) s) H)"
  by (rule heap_upd [OF assms], simp_all add: env_set_local_pre_ok)
    (rule heap_le_upd [OF assms(2)], rule set_local_le)

lemma plain_set_ok:
  assumes "heap_ok held H" and "live H a"
  shows "heap_ok held (plain_set name a s H)" "heap_le H (plain_set name a s H)"
proof -
  have "heap_ok held (plain_set name a s H) \<and> heap_le H (plain_set name a s H)"
  proof (cases "env_resolve_chain a name (env_hash_name name) H")
    case None
    then show ?thesis
      using set_local_ok [OF assms(1) env_binding_home_live [OF assms]] by (simp add: plain_set_def)
  next
    case (Some r)
    obtain b i d where r: "r = (b, i, d)" by (metis prod_cases3)
    then have "live H b" using Some nearest_live [OF _ assms] by (simp add: resolve_nearest [OF assms])
    then show ?thesis using set_at_ok [OF assms(1)] Some r by (simp add: plain_set_def)
  qed
  then show "heap_ok held (plain_set name a s H)" "heap_le H (plain_set name a s H)" by blast+
qed

subsection \<open>Cached and plain instructions agree\<close>

definition vm_ok :: "string list \<Rightarrow> nat \<Rightarrow> (nat \<Rightarrow> nat) \<Rightarrow> names_vm \<Rightarrow> bool" where
  "vm_ok cs n held vm \<longleftrightarrow>
     heap_ok held (nv_heap vm) \<and> versions_below n (nv_heap vm) \<and> length (env_ics vm) = length cs \<and>
     (\<forall>i<length cs. ic_ok (cs ! i) (env_ics vm ! i) (nv_heap vm))"

lemma vm_step:
  assumes "vm_ok cs n held vm" and "heap_ok held' H'" and "heap_le (nv_heap vm) H'" and "n < 2 ^ 32 - 1"
    and "ics = env_ics vm \<or> (\<exists>ic. ics = (env_ics vm)[idx := ic] \<and> ic_ok (cs ! idx) ic H')"
  shows "vm_ok cs (Suc n) held' \<lparr>nv_heap = H', env_ics = ics\<rparr>"
proof -
  have ok: "heap_ok held (nv_heap vm)" "versions_below n (nv_heap vm)" "length (env_ics vm) = length cs"
    "\<And>i. i < length cs \<Longrightarrow> ic_ok (cs ! i) (env_ics vm ! i) (nv_heap vm)"
    using assms(1) by (simp_all add: vm_ok_def)
  have "ic_ok (cs ! i) (env_ics vm ! i) H'" if "i < length cs" for i
    by (rule ic_step [OF ok(4) [OF that] ok(1) assms(2,3) ok(2) assms(4)])
  then have "ic_ok (cs ! i) (ics ! i) H'" if "i < length cs" for i
    using that assms(5) ok(3) by (cases "i = idx") auto
  moreover have "length ics = length cs" using assms(5) ok(3) by auto
  ultimately show ?thesis using assms(2) versions_step [OF ok(2) assms(3,4)] by (simp add: vm_ok_def)
qed

lemma get_name_plain:
  assumes "vm_ok cs n held vm" and "live (nv_heap vm) a" and "idx < length cs"
  shows "fst (get_name cs idx a vm) = plain_get (cs ! idx) a (nv_heap vm)"
    and "nv_heap (snd (get_name cs idx a vm)) = nv_heap vm"
    and "env_ics (snd (get_name cs idx a vm)) = env_ics vm \<or>
      (\<exists>ic. env_ics (snd (get_name cs idx a vm)) = (env_ics vm)[idx := ic] \<and> ic_ok (cs ! idx) ic (nv_heap vm))"
proof -
  let ?H = "nv_heap vm" and ?ic = "env_ics vm ! idx" and ?x = "cs ! idx"
  have ok: "heap_ok held ?H" and ic: "ic_ok ?x ?ic ?H" using assms by (simp_all add: vm_ok_def)
  note res = resolve_nearest [OF ok assms(2)]
  have "fst (get_name cs idx a vm) = plain_get ?x a ?H \<and> nv_heap (snd (get_name cs idx a vm)) = ?H \<and>
    (env_ics (snd (get_name cs idx a vm)) = env_ics vm \<or>
      (\<exists>ic. env_ics (snd (get_name cs idx a vm)) = (env_ics vm)[idx := ic] \<and> ic_ok ?x ic ?H))"
  proof (cases "ic_target ?ic a ?H")
    case (Some t)
    then obtain d where "nearest ?H ?x a t (slot_idx ?ic) d" using ic_hit [OF ic assms(2)] by blast
    then have "env_resolve_chain a ?x (env_hash_name ?x) ?H = Some (t, slot_idx ?ic, d)" by (simp add: res)
    then show ?thesis using Some by (simp add: get_name_def plain_get_def)
  next
    case None
    then show ?thesis
      using ic_fill_ok [OF _ _ assms(2)] res
      by (auto simp: get_name_def plain_get_def Let_def split: option.split)
  qed
  then show "fst (get_name cs idx a vm) = plain_get ?x a ?H" "nv_heap (snd (get_name cs idx a vm)) = ?H"
    "env_ics (snd (get_name cs idx a vm)) = env_ics vm \<or>
      (\<exists>ic. env_ics (snd (get_name cs idx a vm)) = (env_ics vm)[idx := ic] \<and> ic_ok ?x ic ?H)" by blast+
qed

lemma refill_ok:
  assumes "heap_ok held H'" and "live H' a"
  shows "(case env_resolve_chain a x (env_hash_name x) H' of
      Some (target, i, depth) \<Rightarrow> if target = a then ics[idx := ic_fill a a i 0 H'] else ics
    | None \<Rightarrow> ics) = ics \<or>
    (\<exists>ic. (case env_resolve_chain a x (env_hash_name x) H' of
      Some (target, i, depth) \<Rightarrow> if target = a then ics[idx := ic_fill a a i 0 H'] else ics
    | None \<Rightarrow> ics) = ics[idx := ic] \<and> ic_ok x ic H')"
proof (cases "env_resolve_chain a x (env_hash_name x) H'")
  case (Some r)
  obtain b i d where r: "r = (b, i, d)" by (metis prod_cases3)
  then have near: "nearest H' x a b i d" using Some by (simp add: resolve_nearest [OF assms])
  show ?thesis
  proof (cases "b = a")
    case True
    have "nearest H' x a a i 0" using near nearest_bound [OF near] True by (auto intro: nearest.here)
    from ic_fill_ok [OF this _ assms(2)] show ?thesis using Some r True by auto
  next
    case False
    then show ?thesis using Some r by simp
  qed
qed simp

lemma live_upd:
  "(\<And>e. env_refcount (f e) = env_refcount e) \<Longrightarrow> live (env_upd b f H) a = live H a"
  by (auto simp: live_def env_at_upd)

lemma set_name_plain:
  assumes "vm_ok cs n held vm" and "live (nv_heap vm) a" and "idx < length cs"
  shows "nv_heap (set_name cs idx a s vm) = plain_set (cs ! idx) a s (nv_heap vm)"
    and "env_ics (set_name cs idx a s vm) = env_ics vm \<or>
      (\<exists>ic. env_ics (set_name cs idx a s vm) = (env_ics vm)[idx := ic] \<and>
        ic_ok (cs ! idx) ic (nv_heap (set_name cs idx a s vm)))"
proof -
  let ?H = "nv_heap vm" and ?ic = "env_ics vm ! idx" and ?x = "cs ! idx"
  have ok: "heap_ok held ?H" and ic: "ic_ok ?x ?ic ?H" using assms by (simp_all add: vm_ok_def)
  note res = resolve_nearest [OF ok assms(2)]
  have "nv_heap (set_name cs idx a s vm) = plain_set ?x a s ?H \<and>
    (env_ics (set_name cs idx a s vm) = env_ics vm \<or>
      (\<exists>ic. env_ics (set_name cs idx a s vm) = (env_ics vm)[idx := ic] \<and>
        ic_ok ?x ic (nv_heap (set_name cs idx a s vm))))"
  proof (cases "ic_target ?ic a ?H")
    case (Some t)
    then obtain d where "nearest ?H ?x a t (slot_idx ?ic) d" using ic_hit [OF ic assms(2)] by blast
    then have "env_resolve_chain a ?x (env_hash_name ?x) ?H = Some (t, slot_idx ?ic, d)" by (simp add: res)
    then show ?thesis using Some by (simp add: set_name_def plain_set_def)
  next
    case miss: None
    show ?thesis
    proof (cases "env_resolve_chain a ?x (env_hash_name ?x) ?H")
      case None
      let ?home = "env_binding_home (length (hp_envs ?H)) ?H a"
      let ?H' = "env_upd ?home (env_set_local_pre_interned_slot ?x (env_hash_name ?x) s) ?H"
      have "heap_ok held ?H'" by (rule set_local_ok(1) [OF ok env_binding_home_live [OF ok assms(2)]])
      moreover have "live ?H' a" using assms(2) by (simp add: live_upd)
      ultimately show ?thesis
        using refill_ok [where held = held and H' = ?H' and a = a and x = ?x and ics = "env_ics vm" and idx = idx] miss None by (simp add: set_name_def plain_set_def Let_def)
    next
      case (Some r)
      obtain b i d where r: "r = (b, i, d)" by (metis prod_cases3)
      then have near: "nearest ?H ?x a b i d" using Some by (simp add: res)
      let ?H' = "env_set_at b i s ?H"
      have "live ?H' a" using assms(2) by (simp add: env_set_at_def live_upd)
      then have "d \<le> 1 \<Longrightarrow> ic_ok ?x (ic_fill a b i d ?H') ?H'"
        using near by (intro ic_fill_ok) (simp_all add: set_at_nearest)
      then show ?thesis using miss Some r by (auto simp: set_name_def plain_set_def Let_def)
    qed
  qed
  then show "nv_heap (set_name cs idx a s vm) = plain_set ?x a s ?H"
    "env_ics (set_name cs idx a s vm) = env_ics vm \<or>
      (\<exists>ic. env_ics (set_name cs idx a s vm) = (env_ics vm)[idx := ic] \<and>
        ic_ok ?x ic (nv_heap (set_name cs idx a s vm)))" by blast+
qed

lemma set_name_local_plain:
  assumes "vm_ok cs n held vm" and "live (nv_heap vm) a" and "idx < length cs"
  shows "nv_heap (set_name_local cs idx a s vm) = plain_set_local (cs ! idx) a s (nv_heap vm)"
    and "env_ics (set_name_local cs idx a s vm) = env_ics vm \<or>
      (\<exists>ic. env_ics (set_name_local cs idx a s vm) = (env_ics vm)[idx := ic] \<and>
        ic_ok (cs ! idx) ic (nv_heap (set_name_local cs idx a s vm)))"
proof -
  let ?H = "nv_heap vm" and ?ic = "env_ics vm ! idx" and ?x = "cs ! idx"
  have ok: "heap_ok held ?H" and ic: "ic_ok ?x ?ic ?H" using assms by (simp_all add: vm_ok_def)
  obtain e where e: "env_at ?H a = Some e" using assms(2) by (auto simp: live_def)
  let ?hit = "starting_env ?ic = Some a \<and> starting_ver ?ic = binding_version (env_of ?H a) \<and> walk_depth ?ic = 0 \<and>
      target_ver ?ic = binding_version (env_of ?H a)"
  have "nv_heap (set_name_local cs idx a s vm) = plain_set_local ?x a s ?H \<and>
    (env_ics (set_name_local cs idx a s vm) = env_ics vm \<or>
      (\<exists>ic. env_ics (set_name_local cs idx a s vm) = (env_ics vm)[idx := ic] \<and>
        ic_ok ?x ic (nv_heap (set_name_local cs idx a s vm))))"
  proof (cases ?hit)
    case True
    then have "env_index e ?x = Some (slot_idx ?ic)" using ic e by (auto simp: ic_ok_def)
    then have "env_set_local_pre_interned_slot ?x (env_hash_name ?x) s e =
        env_count_assign (slot_idx ?ic) (env_store_slot (slot_idx ?ic) s e)"
      by (simp add: env_set_local_pre_interned_slot_def env_lookup_index [OF heap_okD(1) [OF ok e]])
    then have "env_set_at a (slot_idx ?ic) s ?H = plain_set_local ?x a s ?H"
      using e by (simp add: plain_set_local_def env_set_at_def env_upd_def)
    then show ?thesis using True by (simp add: set_name_local_def Let_def)
  next
    case False
    let ?H' = "env_upd a (env_set_local_pre_interned_slot ?x (env_hash_name ?x) s) ?H"
    have "heap_ok held ?H'" by (rule set_local_ok(1) [OF ok assms(2)])
    moreover have "live ?H' a" using assms(2) by (simp add: live_upd)
    ultimately show ?thesis
      using refill_ok [where held = held and H' = ?H' and a = a and x = ?x and ics = "env_ics vm" and idx = idx]
      unfolding set_name_local_def Let_def if_not_P [OF False] by (simp add: plain_set_local_def)
  qed
  then show "nv_heap (set_name_local cs idx a s vm) = plain_set_local ?x a s ?H"
    "env_ics (set_name_local cs idx a s vm) = env_ics vm \<or>
      (\<exists>ic. env_ics (set_name_local cs idx a s vm) = (env_ics vm)[idx := ic] \<and>
        ic_ok ?x ic (nv_heap (set_name_local cs idx a s vm)))" by blast+
qed

end
