(* ===== verification/Eigs_Name_Run.thy ===== *)
theory Eigs_Name_Run
  imports Eigs_Inline_Cache
begin

text \<open>
  Runs of the operations on environments, with the inline caches and without, and the
  properties of every state they reach. The second component of a state counts the
  references that owners outside the heap hold.
\<close>

datatype name_op =
    NewEnv "nat option"
  | HoldEnv nat
  | DropEnv nat
  | LoopEnv nat
  | ClearEnv nat
  | ReserveSlots nat nat
  | BindParam nat string slot
  | StoreLocal nat nat slot
  | GetName nat nat
  | SetName nat nat slot
  | SetNameLocal nat nat slot
  | SetFnNameLocal bool nat nat nat slot

type_synonym held_refs = "nat \<Rightarrow> nat"

text \<open>What the callers guarantee, the allocator's answer being an address never used before.\<close>

fun legal :: "string list \<Rightarrow> name_op \<Rightarrow> env_heap \<times> held_refs \<Rightarrow> bool" where
  "legal cs (NewEnv p) (H, held) = (case p of None \<Rightarrow> True | Some a \<Rightarrow> live H a)"
| "legal cs (DropEnv a) (H, held) = (0 < held a)"
| "legal cs (BindParam a name s) (H, held) = (live H a \<and> env_index (env_of H a) name = None)"
| "legal cs (GetName a idx) (H, held) = (live H a \<and> idx < length cs)"
| "legal cs (SetName a idx s) (H, held) = (live H a \<and> idx < length cs)"
| "legal cs (SetNameLocal a idx s) (H, held) = (live H a \<and> idx < length cs)"
| "legal cs (SetFnNameLocal m a home idx s) (H, held) = (live H a \<and> live H home \<and> idx < length cs)"
| "legal cs (HoldEnv a) (H, held) = live H a"
| "legal cs (LoopEnv a) (H, held) = live H a"
| "legal cs (ClearEnv a) (H, held) = live H a"
| "legal cs (ReserveSlots a n) (H, held) = live H a"
| "legal cs (StoreLocal a i s) (H, held) = live H a"

text \<open>The operations that name no constant, on the heap alone.\<close>

fun heap_op :: "name_op \<Rightarrow> env_heap \<times> held_refs \<Rightarrow> env_heap \<times> held_refs" where
  "heap_op (NewEnv p) (H, held) =
     (case env_new p (length (hp_envs H)) H of (a, H') \<Rightarrow> (H', held(a := 1)))"
| "heap_op (HoldEnv a) (H, held) = (env_incref (Some a) H, held(a := held a + 1))"
| "heap_op (DropEnv a) (H, held) = (env_drop a H, held(a := held a - 1))"
| "heap_op (LoopEnv a) (H, held) = (env_mark_loop a H, held)"
| "heap_op (ClearEnv a) (H, held) = (env_upd a env_clear H, held)"
| "heap_op (ReserveSlots a n) (H, held) = (env_upd a (env_reserve_slots n) H, held)"
| "heap_op (BindParam a name s) (H, held) =
     (env_upd a (env_bind_fresh_param_slot name (env_hash_name name) s) H, held)"
| "heap_op (StoreLocal a i s) (H, held) = (env_upd a (\<lambda>e. case set_local i s e of Some e' \<Rightarrow> e' | None \<Rightarrow> e) H, held)"
| "heap_op _ st = st"

fun plain_op :: "string list \<Rightarrow> name_op \<Rightarrow> env_heap \<times> held_refs \<Rightarrow> slot option \<times> env_heap \<times> held_refs" where
  "plain_op cs (GetName a idx) (H, held) = (plain_get (cs ! idx) a H, H, held)"
| "plain_op cs (SetName a idx s) (H, held) = (None, plain_set (cs ! idx) a s H, held)"
| "plain_op cs (SetNameLocal a idx s) (H, held) = (None, plain_set_local (cs ! idx) a s H, held)"
| "plain_op cs (SetFnNameLocal m a home idx s) (H, held) =
     (None, plain_set_local (cs ! idx) (fn_name_write_target m (cs ! idx) a home H) s H, held)"
| "plain_op cs op st = (None, heap_op op st)"

fun cached_op :: "string list \<Rightarrow> name_op \<Rightarrow> names_vm \<times> held_refs \<Rightarrow> slot option \<times> names_vm \<times> held_refs" where
  "cached_op cs (GetName a idx) (vm, held) = (case get_name cs idx a vm of (r, vm') \<Rightarrow> (r, vm', held))"
| "cached_op cs (SetName a idx s) (vm, held) = (None, set_name cs idx a s vm, held)"
| "cached_op cs (SetNameLocal a idx s) (vm, held) = (None, set_name_local cs idx a s vm, held)"
| "cached_op cs (SetFnNameLocal m a home idx s) (vm, held) = (None, set_fn_name_local m cs idx a home s vm, held)"
| "cached_op cs op (vm, held) =
     (case heap_op op (nv_heap vm, held) of (H', held') \<Rightarrow> (None, vm\<lparr>nv_heap := H'\<rparr>, held'))"

fun plain_run :: "string list \<Rightarrow> name_op list \<Rightarrow> env_heap \<times> held_refs \<Rightarrow> slot option list \<times> env_heap \<times> held_refs" where
  "plain_run cs [] st = ([], st)"
| "plain_run cs (op # ops) st =
     (case plain_op cs op st of (r, st') \<Rightarrow> (case plain_run cs ops st' of (rs, st'') \<Rightarrow> (r # rs, st'')))"

fun cached_run :: "string list \<Rightarrow> name_op list \<Rightarrow> names_vm \<times> held_refs \<Rightarrow> slot option list \<times> names_vm \<times> held_refs" where
  "cached_run cs [] st = ([], st)"
| "cached_run cs (op # ops) st =
     (case cached_op cs op st of (r, st') \<Rightarrow> (case cached_run cs ops st' of (rs, st'') \<Rightarrow> (r # rs, st'')))"

fun legal_run :: "string list \<Rightarrow> name_op list \<Rightarrow> env_heap \<times> held_refs \<Rightarrow> bool" where
  "legal_run cs [] st = True"
| "legal_run cs (op # ops) st = (legal cs op st \<and> legal_run cs ops (snd (plain_op cs op st)))"

definition start_heap :: "env_heap \<times> held_refs" where
  "start_heap = (env_heap_empty, \<lambda>_. 0)"

definition start_vm :: "string list \<Rightarrow> names_vm \<times> held_refs" where
  "start_vm cs = (\<lparr>nv_heap = env_heap_empty, env_ics = replicate (length cs) ic_empty\<rparr>, \<lambda>_. 0)"

subsection \<open>Every operation keeps the invariant\<close>

lemma env_at_empty [simp]: "env_at env_heap_empty a = None"
  by (simp add: env_at_def env_heap_empty_def)

lemma start_ok: "heap_ok (\<lambda>_. 0) env_heap_empty"
  by (simp add: heap_ok_def counted_def rooted_def parked_def live_def) (simp add: env_heap_empty_def)

lemma reserve_fields [simp]:
  "en_parent (env_reserve_slots n e) = en_parent e" "env_refcount (env_reserve_slots n e) = env_refcount e"
  "binding_version (env_reserve_slots n e) = binding_version e"
  by (simp_all add: env_reserve_slots_def Let_def)

lemma clear_fields [simp]:
  "en_parent (env_clear e) = en_parent e" "env_refcount (env_clear e) = env_refcount e"
  "binding_version (env_clear e) = binding_version e + 1"
  by (simp_all add: env_clear_def)

lemma store_fields [simp]:
  "en_parent (env_store_slot i s e) = en_parent e" "env_refcount (env_store_slot i s e) = env_refcount e"
  "binding_version (env_store_slot i s e) = binding_version e" "env_index (env_store_slot i s e) = env_index e"
  by (simp_all add: env_store_slot_def env_index_def fun_eq_iff)

text \<open>An update whose result depends on what is stored there.\<close>

lemma upd_ok:
  assumes "heap_ok held H" and "live H a" and "env_at H a = Some e"
    and "env_ok (f e)" "en_parent (f e) = en_parent e" "env_refcount (f e) = env_refcount e" "env_le e (f e)"
  shows "heap_ok held (env_upd a f H)" "heap_le H (env_upd a f H)"
proof -
  let ?g = "\<lambda>x. if x = e then f e else x"
  have g: "env_upd a f H = env_upd a ?g H" using assms(3) by (simp add: env_upd_def)
  show "heap_ok held (env_upd a f H)"
    unfolding g by (rule heap_upd [OF assms(1,2)]) (use assms(4-6) in auto)
  show "heap_le H (env_upd a f H)"
    unfolding g by (rule heap_le_upd [OF assms(2)]) (use assms(7) in auto)
qed

lemma heap_op_ok:
  assumes "heap_ok held H" and "legal cs op (H, held)" and "heap_op op (H, held) = (H', held')"
  shows "heap_ok held' H' \<and> heap_le H H'"
proof (cases op)
  case (NewEnv p)
  have "\<And>q. p = Some q \<Longrightarrow> live H q" using assms(2) NewEnv by simp
  note new = heap_new [where parent = p, OF assms(1) refl this]
  obtain a where a: "env_new p (length (hp_envs H)) H = (a, H')" "held' = held(a := 1)"
    using assms(3) NewEnv by (auto split: prod.splits)
  then have "a = new_addr H (length (hp_envs H))" using env_new_addr [of p "length (hp_envs H)" H] by simp
  then show ?thesis using new a by simp
next
  case (HoldEnv a)
  then show ?thesis using assms heap_hold [OF assms(1), of a] by auto
next
  case (DropEnv a)
  then show ?thesis using assms heap_drop [OF assms(1), of a] by auto
next
  case (LoopEnv a)
  then have "H' = env_mark_loop a H" "held' = held" "live H a" using assms(2,3) by simp_all
  moreover have "env_index (e\<lparr>is_loop_env := True\<rparr>) = env_index e" for e
    by (rule ext) (simp add: env_index_def)
  ultimately show ?thesis
    using heap_upd [OF assms(1), of a "is_loop_env_update (\<lambda>_. True)"]
      heap_le_upd [of H a "is_loop_env_update (\<lambda>_. True)"]
    by (auto simp: env_mark_loop_def env_ok_def env_le_def env_index_def)
next
  case (ClearEnv a)
  then obtain e where e: "env_at H a = Some e" using assms(2) by (auto simp: live_def)
  then show ?thesis
    using assms ClearEnv upd_ok [OF assms(1) _ e, of env_clear] heap_okD(1) [OF assms(1) e]
    by (auto simp: env_clear_ok env_le_def)
next
  case (ReserveSlots a n)
  then obtain e where e: "env_at H a = Some e" using assms(2) by (auto simp: live_def)
  have "env_index (env_reserve_slots n e) = env_index e"
    using env_reserve_ok(2) [OF heap_okD(1) [OF assms(1) e]] by (rule ext)
  then show ?thesis
    using assms ReserveSlots upd_ok [OF assms(1) _ e, of "env_reserve_slots n"] heap_okD(1) [OF assms(1) e]
    by (auto simp: env_reserve_ok(1) env_le_def)
next
  case (BindParam a name s)
  then obtain e where e: "env_at H a = Some e" using assms(2) by (auto simp: live_def)
  then have "env_index e name = None" using assms(2) BindParam by simp
  then show ?thesis
    using assms BindParam upd_ok [OF assms(1) _ e, of "env_bind_fresh_param_slot name (env_hash_name name) s"]
      heap_okD(1) [OF assms(1) e]
    by (auto simp: env_bind_fresh_param_slot_def env_append_ok env_le_def)
next
  case (StoreLocal a i s)
  let ?f = "\<lambda>e. case set_local i s e of Some e' \<Rightarrow> e' | None \<Rightarrow> e"
  show ?thesis
    using assms StoreLocal heap_upd [OF assms(1), of a ?f] heap_le_upd [of H a ?f]
    by (auto simp: set_local_def env_store_ok env_le_def)
qed (use assms in simp_all)

lemma plain_op_ok:
  assumes "heap_ok held H" and "legal cs op (H, held)" and "plain_op cs op (H, held) = (r, H', held')"
  shows "heap_ok held' H' \<and> heap_le H H'"
proof (cases op)
  case (GetName a idx)
  then show ?thesis using assms by simp
next
  case (SetName a idx s)
  then show ?thesis using assms plain_set_ok [OF assms(1), of a "cs ! idx" s] by auto
next
  case (SetNameLocal a idx s)
  then show ?thesis using assms set_local_ok [OF assms(1), of a "cs ! idx" s] by (auto simp: plain_set_local_def)
next
  case (SetFnNameLocal m a home idx s)
  then show ?thesis
    using assms set_local_ok [OF assms(1) fn_target_live [OF assms(1)], of a home m "cs ! idx" "cs ! idx" s]
    by (auto simp: plain_set_local_def)
qed (use heap_op_ok [OF assms(1,2)] assms(3) in auto)

lemma cached_op_plain:
  assumes "vm_ok cs n held vm" and "n < 2 ^ 32 - 1" and "legal cs op (nv_heap vm, held)"
    and "cached_op cs op (vm, held) = (r, vm', held')"
  shows "plain_op cs op (nv_heap vm, held) = (r, nv_heap vm', held') \<and> vm_ok cs (Suc n) held' vm'"
proof -
  have ok: "heap_ok held (nv_heap vm)" using assms(1) by (simp add: vm_ok_def)
  have plain: "plain_op cs op (nv_heap vm, held) = (r, nv_heap vm', held') \<and>
    (env_ics vm' = env_ics vm \<or> (\<exists>idx ic. env_ics vm' = (env_ics vm)[idx := ic] \<and> ic_ok (cs ! idx) ic (nv_heap vm')))"
  proof (cases op)
    case (GetName a idx)
    then have g: "get_name cs idx a vm = (r, vm')" "held' = held" "live (nv_heap vm) a" "idx < length cs"
      using assms(3,4) by (auto split: prod.splits)
    show ?thesis
      using get_name_plain [OF assms(1) g(3,4)] GetName g(1,2) by auto
  next
    case (SetName a idx s)
    then show ?thesis using assms(3,4) set_name_plain [OF assms(1), of a idx s] by auto
  next
    case (SetNameLocal a idx s)
    then show ?thesis using assms(3,4) set_name_local_plain [OF assms(1), of a idx s] by auto
  next
    case (SetFnNameLocal m a home idx s)
    then have "live (nv_heap vm) (fn_name_write_target m (cs ! idx) a home (nv_heap vm))" "idx < length cs"
      using assms(3) fn_target_live [OF ok] by simp_all
    note local = set_name_local_plain [OF assms(1) this, of s]
    have "vm' = set_name_local cs idx (fn_name_write_target m (cs ! idx) a home (nv_heap vm)) s vm" "r = None" "held' = held"
      using assms(4) SetFnNameLocal by (auto simp: set_fn_name_local_def)
    then show ?thesis using local SetFnNameLocal by auto
  qed (use assms(4) in \<open>auto split: prod.splits\<close>)
  then have "heap_ok held' (nv_heap vm') \<and> heap_le (nv_heap vm) (nv_heap vm')"
    using plain_op_ok [OF ok assms(3)] by blast
  then have "vm_ok cs (Suc n) held' \<lparr>nv_heap = nv_heap vm', env_ics = env_ics vm'\<rparr>"
    using plain vm_step [OF assms(1) _ _ assms(2), of held' "nv_heap vm'"] by blast
  then show ?thesis using plain by (cases vm') simp
qed

lemma cached_run_plain:
  assumes "vm_ok cs n held vm" and "n + length ops < 2 ^ 32" and "legal_run cs ops (nv_heap vm, held)"
    and "cached_run cs ops (vm, held) = (rs, vm', held')"
  shows "plain_run cs ops (nv_heap vm, held) = (rs, nv_heap vm', held')"
  using assms
proof (induction ops arbitrary: n held vm rs)
  case Nil
  then show ?case by simp
next
  case (Cons op ops)
  obtain r vm1 held1 where c: "cached_op cs op (vm, held) = (r, vm1, held1)" by (metis prod_cases3)
  obtain rs1 where rs: "cached_run cs ops (vm1, held1) = (rs1, vm', held')" "rs = r # rs1"
    using Cons.prems(4) c by (auto split: prod.splits)
  have "n < 2 ^ 32 - 1" "legal cs op (nv_heap vm, held)" using Cons.prems(2,3) by simp_all
  from cached_op_plain [OF Cons.prems(1) this c]
  have p: "plain_op cs op (nv_heap vm, held) = (r, nv_heap vm1, held1)" "vm_ok cs (Suc n) held1 vm1" by blast+
  then have "plain_run cs ops (nv_heap vm1, held1) = (rs1, nv_heap vm', held')"
    using Cons.prems(2,3) rs(1) by (intro Cons.IH [of "Suc n"]) simp_all
  then show ?case using p(1) rs(2) by simp
qed

lemma plain_run_ok:
  "heap_ok held H \<Longrightarrow> legal_run cs ops (H, held) \<Longrightarrow> plain_run cs ops (H, held) = (rs, H', held') \<Longrightarrow> heap_ok held' H'"
proof (induction ops arbitrary: held H rs)
  case Nil
  then show ?case by simp
next
  case (Cons op ops)
  obtain r H1 held1 where p: "plain_op cs op (H, held) = (r, H1, held1)" by (metis prod_cases3)
  then have "heap_ok held1 H1" using plain_op_ok [OF Cons.prems(1) _ p] Cons.prems(2) by simp
  moreover obtain rs1 where "plain_run cs ops (H1, held1) = (rs1, H', held')"
    using Cons.prems(3) p by (auto split: prod.splits)
  ultimately show ?case using Cons.IH Cons.prems(2) p by auto
qed

subsection \<open>The properties\<close>

lemma start_vm_ok: "vm_ok cs 0 (\<lambda>_. 0) (fst (start_vm cs))"
  using start_ok by (simp add: vm_ok_def start_vm_def versions_below_def)

text \<open>
  C22: over any run of fewer than \<open>2 ^ 32\<close> legal operations, creations, recycling and
  clearing of environments included, the name instructions with their inline caches
  answer and store exactly what they would by walking the chain every time.
\<close>
theorem inline_caches_transparent:
  assumes "legal_run cs ops start_heap" and "length ops < 2 ^ 32"
  shows "fst (cached_run cs ops (start_vm cs)) = fst (plain_run cs ops start_heap) \<and>
    nv_heap (fst (snd (cached_run cs ops (start_vm cs)))) = fst (snd (plain_run cs ops start_heap))"
proof -
  obtain rs vm held where r: "cached_run cs ops (start_vm cs) = (rs, vm, held)" by (metis prod_cases3)
  have "plain_run cs ops (nv_heap (fst (start_vm cs)), \<lambda>_. 0) = (rs, nv_heap vm, held)"
    by (rule cached_run_plain [OF start_vm_ok])
      (use assms r in \<open>simp_all add: start_heap_def start_vm_def\<close>)
  then show ?thesis using r by (simp add: start_heap_def start_vm_def)
qed

lemma run_heap_ok:
  "legal_run cs ops start_heap \<Longrightarrow>
     heap_ok (snd (snd (plain_run cs ops start_heap))) (fst (snd (plain_run cs ops start_heap)))"
  using plain_run_ok [OF start_ok, of cs ops] by (cases "plain_run cs ops start_heap") (auto simp: start_heap_def)

lemma plain_get_nearest:
  assumes "heap_ok held H" and "live H a"
  shows "plain_get x a H = Some v \<longleftrightarrow> (\<exists>b i d. nearest H x a b i d \<and> v = en_values (env_of H b) ! i)"
proof -
  have "plain_get x a H = Some v \<longleftrightarrow>
      (\<exists>b i d. env_resolve_chain a x (env_hash_name x) H = Some (b, i, d) \<and> v = en_values (env_of H b) ! i)"
    by (auto simp: plain_get_def split: option.split)
  then show ?thesis by (simp add: resolve_nearest [OF assms])
qed

lemma nearest_unique: "nearest H x a b i d \<Longrightarrow> nearest H x a b' i' d' \<Longrightarrow> b' = b \<and> i' = i \<and> d' = d"
  by (induction arbitrary: d' rule: nearest.induct) (auto simp: nearest_iff)

lemma plain_get_after_set:
  assumes ok: "heap_ok held H" and a: "live H a" and c: "live H c" and nb: "nearest H x a b i d"
  shows "plain_get y c (plain_set x a s H) = (if \<exists>d'. nearest H y c b i d' then Some s else plain_get y c H)"
proof -
  obtain e where e: "env_at H b = Some e" "env_index e x = Some i" using nearest_bound [OF nb] by blast
  have i: "i < length (en_values e)"
    using heap_okD(1) [OF ok e(1)] env_index_Some [OF e(2)] by (simp add: env_ok_def)
  have set: "plain_set x a s H = env_set_at b i s H"
    using nb by (simp add: plain_set_def resolve_nearest [OF ok a, THEN iffD2])
  have ok': "heap_ok held (env_set_at b i s H)"
    by (rule set_at_ok(1) [OF ok nearest_live [OF nb ok a]])
  have c': "live (env_set_at b i s H) c" using c by (simp add: env_set_at_def live_upd)
  have val: "en_values (env_of (env_set_at b i s H) b') ! i' =
      (if b' = b \<and> i' = i then s else en_values (env_of H b') ! i')" if "nearest H y c b' i' d'" for b' i' d'
    using e i by (auto simp: env_set_at_def env_at_upd env_count_assign_def env_store_slot_def nth_list_update)
  show ?thesis
  proof (cases "plain_get y c H")
    case None
    then have "\<not> nearest H y c b' i' d'" for b' i' d'
      using plain_get_nearest [OF ok c, of y] by auto
    then have "plain_get y c (env_set_at b i s H) \<noteq> Some v" for v
      by (simp add: plain_get_nearest [OF ok' c'] set_at_nearest)
    then show ?thesis using None \<open>\<And>b' i' d'. \<not> nearest H y c b' i' d'\<close> set by (cases "plain_get y c (env_set_at b i s H)") auto
  next
    case (Some v)
    then obtain b' i' d' where n: "nearest H y c b' i' d'" "v = en_values (env_of H b') ! i'"
      using plain_get_nearest [OF ok c, of y] by auto
    have "plain_get y c (env_set_at b i s H) = Some (en_values (env_of (env_set_at b i s H) b') ! i')"
      unfolding plain_get_nearest [OF ok' c'] set_at_nearest using n(1) by blast
    then have "plain_get y c (env_set_at b i s H) = Some (if b' = b \<and> i' = i then s else v)"
      using val [OF n(1)] n(2) by simp
    moreover have "(\<exists>d'. nearest H y c b i d') \<longleftrightarrow> b' = b \<and> i' = i"
      using n(1) nearest_unique by blast
    ultimately show ?thesis using Some set by simp
  qed
qed

text \<open>
  C29: in every state a legal run reaches, a name read in a live environment is that of
  the nearest enclosing binding, and an assignment to a bound name is seen by exactly
  the names that resolve to that binding, in whatever environment they are read.
\<close>
theorem names_resolve_lexically:
  assumes "legal_run cs ops start_heap" and "H = fst (snd (plain_run cs ops start_heap))"
    and "live H a" and "live H c" and "nearest H x a b i d"
  shows "plain_get x a H = Some (en_values (env_of H b) ! i) \<and>
    plain_get y c (plain_set x a s H) = (if \<exists>d'. nearest H y c b i d' then Some s else plain_get y c H)"
proof -
  have ok: "heap_ok (snd (snd (plain_run cs ops start_heap))) H" using run_heap_ok [OF assms(1)] assms(2) by simp
  show ?thesis
    using plain_get_nearest [OF ok assms(3), of x] plain_get_after_set [OF ok assms(3-5)] assms(5) by blast
qed

text \<open>
  C30: an environment someone holds, and every environment its parent links lead to, is
  never on the free list nor freed, and its reference count is exactly the references
  held from outside and by the live environments below it.
\<close>
theorem held_environments_live:
  assumes "legal_run cs ops start_heap" and "plain_run cs ops start_heap = (rs, H, held)"
    and "0 < held a" and "(a, b) \<in> {(x, p). parent_of H x = Some p}\<^sup>*"
  shows "live H b \<and> b \<notin> set (g_env_freelist H) \<and>
    env_refcount (env_of H b) = int (held b + card (children H b))"
proof -
  have ok: "heap_ok held H" using run_heap_ok [OF assms(1)] assms(2) by simp
  have live: "live H b"
    using assms(4)
  proof (induction rule: rtrancl_induct)
    case base
    then show ?case by (rule heap_okD(4) [OF ok assms(3)])
  next
    case (step y z)
    then show ?case using heap_okD(5) [OF ok] by blast
  qed
  then obtain e where "env_at H b = Some e" "0 < env_refcount e" by (auto simp: live_def)
  then show ?thesis using live live_not_parked [OF ok live] heap_okD(3) [OF ok] by auto
qed

subsection \<open>Witnesses\<close>

definition one_param :: "name_op list" where
  "one_param = [NewEnv None, BindParam 0 ''x'' 7, NewEnv (Some 0)]"

definition param_env :: env where
  "param_env =
     env_bind_fresh_param_slot ''x'' (env_hash_name ''x'') 7 (env_blank\<lparr>en_parent := None, is_loop_env := False, env_refcount := 1\<rparr>)"

lemma param_env_facts [simp]:
  "env_index param_env ''x'' = Some 0" "env_refcount param_env = 1" "en_parent param_env = None"
  by (simp_all add: param_env_def env_bind_fresh_param_slot_def env_append_def env_blank_def env_index_def Let_def)

lemma bind_fields [simp]:
  "env_refcount (env_bind_fresh_param_slot name h s e) = env_refcount e"
  by (simp add: env_bind_fresh_param_slot_def)

lemma one_param_run:
  "legal_run cs one_param start_heap"
  "snd (plain_run cs one_param start_heap) =
     (\<lparr>hp_envs = [Some (param_env\<lparr>env_refcount := 2\<rparr>),
        Some (env_blank\<lparr>en_parent := Some 0, is_loop_env := False, env_refcount := 1\<rparr>)], g_env_freelist = []\<rparr>,
      (\<lambda>_. 0)(0 := 1, 1 := 1))"
  by (simp_all add: one_param_def start_heap_def env_heap_empty_def env_new_def env_incref_def env_place_def env_upd_def
      env_at_def live_def param_env_def)
    (simp_all add: env_index_def env_blank_def)

lemma inline_caches_transparent_witness:
  "fst (cached_run [''x''] one_param (start_vm [''x''])) = fst (plain_run [''x''] one_param start_heap)"
  using inline_caches_transparent [OF one_param_run(1), of "[''x'']"] by (simp add: one_param_def)

lemma names_resolve_lexically_witness:
  "plain_get ''x'' 1 (plain_set ''x'' 0 9 (fst (snd (plain_run [] one_param start_heap)))) = Some 9"
proof -
  let ?H = "fst (snd (plain_run [] one_param start_heap))"
  have at: "env_at ?H 0 = Some (param_env\<lparr>env_refcount := 2\<rparr>)"
    "env_at ?H 1 = Some (env_blank\<lparr>en_parent := Some 0, is_loop_env := False, env_refcount := 1\<rparr>)"
    by (simp_all add: one_param_run(2) env_at_def)
  have ix: "env_index (param_env\<lparr>env_refcount := 2\<rparr>) ''x'' = Some 0"
    using param_env_facts(1) by (simp add: env_index_def)
  have "live ?H 0" "live ?H 1" using at by (auto simp: live_def)
  moreover have here: "nearest ?H ''x'' 0 0 0 0" using at(1) ix by (rule nearest.here)
  moreover have "nearest ?H ''x'' 1 0 0 (Suc 0)"
    by (rule nearest.outer [OF at(2) _ _ here]) (simp_all add: env_index_def env_blank_def)
  ultimately show ?thesis
    using names_resolve_lexically [OF one_param_run(1) refl, where a = 0 and c = 1 and y = "''x''" and s = 9] by auto
qed

lemma held_environments_live_witness:
  "live (fst (snd (plain_run [] one_param start_heap))) 0"
proof -
  let ?r = "plain_run [] one_param start_heap"
  have run: "?r = (fst ?r, fst (snd ?r), snd (snd ?r))" by simp
  have "(1, 0) \<in> {(x, p). parent_of (fst (snd ?r)) x = Some p}\<^sup>*"
    by (rule r_into_rtrancl) (simp add: one_param_run(2) parent_of_def env_at_def)
  moreover have "0 < snd (snd ?r) 1" by (simp add: one_param_run(2))
  ultimately show ?thesis using held_environments_live [OF one_param_run(1) run] by blast
qed

subsection \<open>A reused address\<close>

text \<open>
  The hypothesis on the allocator matters. An environment with more than 64 bindings is
  freed, not parked; when the allocator answers its address again, the version counter
  of the new environment restarts at 0 and a cache filled for the old one can hit.
\<close>

definition big_env :: env where
  "big_env = env_reserve_slots 63 (env_blank\<lparr>en_parent := None, is_loop_env := False, env_refcount := 1\<rparr>)"

definition single :: "env \<Rightarrow> env_heap" where
  "single e = \<lparr>hp_envs = [Some e], g_env_freelist = []\<rparr>"

lemma single_at [simp]: "env_at (single e) 0 = Some e" "env_upd 0 f (single e) = single (f e)"
  by (simp_all add: single_def env_at_def env_upd_def env_place_def)

lemma resolve_single:
  "env_ok e \<Longrightarrow> env_index e x = Some i \<Longrightarrow> env_resolve_chain 0 x (env_hash_name x) (single e) = Some (0, i, 0)"
  by (simp add: env_resolve_chain_def single_def env_at_def env_lookup_index)

text \<open>A local assignment that misses its cache creates the binding and fills the cache.\<close>

lemma set_local_miss:
  assumes "env_ok e" and "env_index e (cs ! idx) = None" and "starting_ver (ics ! idx) \<noteq> binding_version e \<or> starting_env (ics ! idx) = None"
  shows "set_name_local cs idx 0 s \<lparr>nv_heap = single e, env_ics = ics\<rparr> =
    (let e' = env_append (cs ! idx) (env_hash_name (cs ! idx)) s e in
     \<lparr>nv_heap = single e', env_ics = ics[idx := ic_fill 0 0 (length (en_names e)) 0 (single e')]\<rparr>)"
proof -
  have "env_resolve_chain 0 (cs ! idx) (env_hash_name (cs ! idx)) (single (env_append (cs ! idx) (env_hash_name (cs ! idx)) s e)) =
      Some (0, length (en_names e), 0)"
    using assms(1,2) by (intro resolve_single env_append_ok) (simp_all add: env_append_index)
  then show ?thesis
    using assms by (auto simp: set_name_local_def Let_def env_set_local_pre_interned_slot_def env_lookup_index)
qed

lemma big_env_facts:
  "env_ok big_env" "env_index big_env x = None" "length (en_names big_env) = 63" "length (en_values big_env) = 63"
  "binding_version big_env = 0" "en_parent big_env = None" "env_refcount big_env = 1" "64 < en_capacity big_env"
proof -
  let ?e = "env_blank\<lparr>en_parent := None, is_loop_env := False, env_refcount := 1\<rparr>"
  show "env_ok big_env" unfolding big_env_def by (rule env_reserve_ok(1) [OF env_blank_ok])
  show "env_index big_env x = None"
    unfolding big_env_def env_reserve_ok(2) [OF env_blank_ok] by (simp add: env_index_def env_blank_def)
  show "length (en_names big_env) = 63" "length (en_values big_env) = 63" "binding_version big_env = 0"
    "en_parent big_env = None" "env_refcount big_env = 1"
    by (simp_all add: big_env_def env_reserve_slots_def env_blank_def Let_def)
  show "64 < en_capacity big_env"
    using grow_cap_bounds [of 16 65]
    by (simp add: big_env_def env_reserve_slots_def env_blank_def Let_def ENV_INIT_CAP_def ENV_LOOP_BIND_HEADROOM_def)
qed

text \<open>One environment for two calls of a function: first \<open>a\<close> then \<open>b\<close>, then the other way round.\<close>

definition two_calls :: "string list \<Rightarrow> names_vm" where
  "two_calls cs =
     (let vm0 = \<lparr>nv_heap = single big_env, env_ics = [ic_empty, ic_empty]\<rparr>;
          vm1 = set_name_local cs 1 0 2 (set_name_local cs 0 0 1 vm0);
          H = snd (env_new None 0 (env_drop 0 (nv_heap vm1)));
          vm2 = vm1\<lparr>nv_heap := env_upd 0 (env_reserve_slots 63) H\<rparr> in
      set_name_local cs 0 0 1 (set_name_local cs 1 0 2 vm2))"

text \<open>
  C33: without that hypothesis the caches are not transparent: when the address of a freed
  environment of two calls is reused, and the second call binds its names in the other
  order, the cached instructions store \<open>a\<close> over \<open>b\<close>, which then reads 1; walking the
  chain, it is 2.
\<close>
theorem stale_cache_after_reuse:
  "fst (get_name [''a'', ''b''] 1 0 (two_calls [''a'', ''b''])) = Some 1 \<and>
   plain_get ''b'' 0 (plain_set_local ''a'' 0 1 (plain_set_local ''b'' 0 2 (single big_env))) = Some 2"
proof -
  let ?cs = "[''a'', ''b'']" and ?ap = "\<lambda>x s e. env_append x (env_hash_name x) s e"
  let ?ea = "?ap ''a'' 1 big_env" and ?eb = "?ap ''b'' 2 big_env"
  let ?eab = "?ap ''b'' 2 ?ea"
  let ?ic = "\<lparr>starting_env = Some 0, starting_ver = 1, target_ver = 1, slot_idx = 63, walk_depth = 0\<rparr>"
  have ok: "env_ok ?ea" by (rule env_append_ok) (simp_all add: big_env_facts)
  have names: "length (en_names ?ea) = 64" "64 < en_capacity ?eab" "en_capacity ?ea = en_capacity big_env"
    using big_env_facts(3,8) by (simp_all add: env_append_def Let_def)
  have s1: "set_name_local ?cs 0 0 1 \<lparr>nv_heap = single big_env, env_ics = [ic_empty, ic_empty]\<rparr> =
      \<lparr>nv_heap = single ?ea, env_ics = [?ic, ic_empty]\<rparr>"
    using set_local_miss [of big_env ?cs 0 "[ic_empty, ic_empty]" 1] big_env_facts
    by (simp add: ic_empty_def ic_fill_def Let_def)
  have s2: "set_name_local ?cs 1 0 2 \<lparr>nv_heap = single ?ea, env_ics = [?ic, ic_empty]\<rparr> =
      \<lparr>nv_heap = single ?eab, env_ics = [?ic, ?ic\<lparr>starting_ver := 2, target_ver := 2, slot_idx := 64\<rparr>]\<rparr>"
    using set_local_miss [of ?ea ?cs 1 "[?ic, ic_empty]" 2] ok big_env_facts names(1)
    by (simp add: ic_empty_def ic_fill_def Let_def env_append_index)
  have drop: "env_drop 0 (single ?eab) = \<lparr>hp_envs = [None], g_env_freelist = []\<rparr>"
    using big_env_facts(6,7) names(2)
    by (simp add: env_drop_def single_def env_at_def env_destroy_def env_place_def ENV_FREELIST_MAX_BINDINGS_def Let_def)
  have new: "env_upd 0 (env_reserve_slots 63) (snd (env_new None 0 \<lparr>hp_envs = [None], g_env_freelist = []\<rparr>)) = single big_env"
    by (simp add: env_new_def env_incref_def env_place_def env_upd_def env_at_def single_def big_env_def Let_def)
  have s3: "set_name_local ?cs 1 0 2
      \<lparr>nv_heap = single big_env, env_ics = [?ic, ?ic\<lparr>starting_ver := 2, target_ver := 2, slot_idx := 64\<rparr>]\<rparr> =
      \<lparr>nv_heap = single ?eb, env_ics = [?ic, ?ic]\<rparr>"
    using set_local_miss [of big_env ?cs 1 "[?ic, ?ic\<lparr>starting_ver := 2, target_ver := 2, slot_idx := 64\<rparr>]" 2] big_env_facts
    by (simp add: ic_fill_def Let_def)
  have s4: "set_name_local ?cs 0 0 1 \<lparr>nv_heap = single ?eb, env_ics = [?ic, ?ic]\<rparr> =
      \<lparr>nv_heap = env_set_at 0 63 1 (single ?eb), env_ics = [?ic, ?ic]\<rparr>"
    using big_env_facts(5) by (simp add: set_name_local_def Let_def)
  have "two_calls ?cs = \<lparr>nv_heap = env_set_at 0 63 1 (single ?eb), env_ics = [?ic, ?ic]\<rparr>"
    unfolding two_calls_def Let_def s1 s2 names_vm.select_convs names_vm.update_convs drop new s3 s4 ..
  then have cached: "fst (get_name ?cs 1 0 (two_calls ?cs)) = Some 1"
    using big_env_facts(3-5)
    by (simp add: get_name_def ic_target_def env_set_at_def env_count_assign_def env_store_slot_def env_append_def Let_def)
  have okb: "env_ok ?eb" by (rule env_append_ok) (simp_all add: big_env_facts)
  let ?eba = "?ap ''a'' 1 ?eb"
  have oka: "env_ok ?eba" by (rule env_append_ok [OF okb]) (simp add: env_append_index big_env_facts)
  have "plain_set_local ''b'' 0 2 (single big_env) = single ?eb" "plain_set_local ''a'' 0 1 (single ?eb) = single ?eba"
    by (simp_all add: plain_set_local_def env_set_local_pre_interned_slot_def env_lookup_index okb env_append_index big_env_facts)
  moreover have "env_index ?eba ''b'' = Some 63" by (simp add: env_append_index big_env_facts)
  moreover have "en_values ?eba ! 63 = 2" using big_env_facts(4) by (simp add: env_append_def Let_def nth_append)
  ultimately show ?thesis using cached resolve_single [OF oka] by (simp add: plain_get_def)
qed

end
