(* ===== verification/Eigs_Chunk.thy ===== *)
theory Eigs_Chunk
  imports Eigs_Name_Set Eigs_Slot Eigs_Ast Eigs_Diag
begin

text \<open>
  Bytecode chunks (\<open>src/chunk.c\<close>): the emission of code with its line and column tables,
  jumps and their patches, and the constant pool with its deduplication index. The
  arrays are lists, whose lengths are the counts; nested functions are a parameter.
\<close>

subsection \<open>Chunks\<close>

text \<open>A constant is a number, a string or another value, known by its identity.\<close>

datatype const_val = VAL_NUM double | VAL_STR string | VAL_OTHER nat

record 'f chunk =
  code :: "u8 list"
  lines :: "int list"
  cols :: "int list"
  cur_col :: int
  constants :: "const_val list"
  const_hashes :: "u32 list"
  const_interns :: "string option list"
  const_dedup :: "nat list"
  fn_chunks :: "'f list"

definition chunk_new :: "'f chunk" where
  "chunk_new =
     \<lparr>code = [], lines = [], cols = [], cur_col = 0, constants = [], const_hashes = [], const_interns = [],
       const_dedup = [], fn_chunks = []\<rparr>"

subsection \<open>Emission\<close>

definition chunk_emit :: "u8 \<Rightarrow> int \<Rightarrow> 'f chunk \<Rightarrow> 'f chunk" where
  "chunk_emit byte line c =
     c\<lparr>code := code c @ [byte], lines := lines c @ [line], cols := cols c @ [cur_col c]\<rparr>"

definition chunk_emit_u16 :: "16 word \<Rightarrow> int \<Rightarrow> 'f chunk \<Rightarrow> 'f chunk" where
  "chunk_emit_u16 val line c =
     chunk_emit (ucast (drop_bit 8 val AND 0xFF)) line (chunk_emit (ucast (val AND 0xFF)) line c)"

definition chunk_emit_u32 :: "u32 \<Rightarrow> int \<Rightarrow> 'f chunk \<Rightarrow> 'f chunk" where
  "chunk_emit_u32 val line c =
     chunk_emit (ucast (drop_bit 24 val AND 0xFF)) line
      (chunk_emit (ucast (drop_bit 16 val AND 0xFF)) line
       (chunk_emit (ucast (drop_bit 8 val AND 0xFF)) line
        (chunk_emit (ucast (val AND 0xFF)) line c)))"

definition chunk_emit_jump :: "u8 \<Rightarrow> int \<Rightarrow> 'f chunk \<Rightarrow> nat \<times> 'f chunk" where
  "chunk_emit_jump op line c =
     (let c1 = chunk_emit op line c; patch = length (code c1) in (patch, chunk_emit_u16 0xFFFF line c1))"

text \<open>A jump too long for its operand is counted as an error and patched to 0.\<close>

definition chunk_patch_jump :: "nat \<Rightarrow> 'f chunk \<times> diag \<Rightarrow> 'f chunk \<times> diag" where
  "chunk_patch_jump offset cd =
     (case cd of (c, d) \<Rightarrow>
        let jump0 = int (length (code c)) - int offset - 2;
            d1 = (if 0xFFFF < jump0 then d\<lparr>g_parse_errors := g_parse_errors d + 1\<rparr> else d);
            jump = (if 0xFFFF < jump0 then 0 else jump0);
            w = (word_of_int jump :: u32) in
        (c\<lparr>code := (code c)[offset := ucast (w AND 0xFF), offset + 1 := ucast (drop_bit 8 w AND 0xFF)]\<rparr>, d1))"

text \<open>The readers of the virtual machine.\<close>

definition read_u16 :: "u8 list \<Rightarrow> nat \<Rightarrow> nat" where
  "read_u16 bs ip = unat ((ucast (bs ! ip) :: u32) OR push_bit 8 (ucast (bs ! (ip + 1))))"

definition read_u32 :: "u8 list \<Rightarrow> nat \<Rightarrow> u32" where
  "read_u32 bs ip =
     ucast (bs ! ip) OR push_bit 8 (ucast (bs ! (ip + 1))) OR push_bit 16 (ucast (bs ! (ip + 2))) OR
     push_bit 24 (ucast (bs ! (ip + 3)))"

lemma emit_fields [simp]:
  "code (chunk_emit b l c) = code c @ [b]" "lines (chunk_emit b l c) = lines c @ [l]"
  "cols (chunk_emit b l c) = cols c @ [cur_col c]"
  by (simp_all add: chunk_emit_def)

definition lo_byte :: "u32 \<Rightarrow> u8" where
  "lo_byte w = ucast (w AND 0xFF)"

definition hi_byte :: "u32 \<Rightarrow> u8" where
  "hi_byte w = ucast (drop_bit 8 w AND 0xFF)"

lemma ff_mask: "0xFF = (mask 8 :: 'a::len word)" "0xFFFF = (mask 16 :: 'a::len word)"
  by (simp_all add: mask_eq_exp_minus_1)

lemma bytes_join: "(ucast (lo_byte w) :: u32) OR push_bit 8 (ucast (hi_byte w)) = take_bit 16 w"
  unfolding lo_byte_def hi_byte_def ff_mask by (rule bit_word_eqI) (auto simp: bit_simps)

lemma read_patched:
  assumes "bs ! ip = lo_byte w" and "bs ! (ip + 1) = hi_byte w" and "w = word_of_int j" and "0 \<le> j" and "j \<le> 0xFFFF"
  shows "int (read_u16 bs ip) = j"
proof -
  have "int (read_u16 bs ip) = uint (take_bit 16 w)"
    using assms(1,2) by (simp add: read_u16_def bytes_join)
  also have "\<dots> = take_bit 16 (uint w)" by (simp only: unsigned_take_bit_eq)
  also have "uint w = j" using assms(3-5) by (simp add: uint_word_of_int)
  finally show ?thesis using assms(4,5) by (simp add: take_bit_eq_mod)
qed

text \<open>16-bit and 32-bit operands are read back.\<close>

lemma emit_u16_read:
  "int (read_u16 (code (chunk_emit_u16 val line c)) (length (code c))) = uint val"
proof -
  let ?bs = "code (chunk_emit_u16 val line c)" and ?w = "ucast val :: u32"
  have "(ucast (drop_bit 8 val AND 0xFF) :: u8) = hi_byte ?w" "(ucast (val AND 0xFF) :: u8) = lo_byte ?w"
    unfolding lo_byte_def hi_byte_def ff_mask by (rule bit_word_eqI; auto simp: bit_simps)+
  then have "?bs ! length (code c) = lo_byte ?w" "?bs ! (length (code c) + 1) = hi_byte ?w"
    by (simp_all add: chunk_emit_u16_def nth_append)
  moreover have "0 \<le> uint val" "uint val \<le> 0xFFFF"
    using unsigned_less [of val, where ?'a = int] by simp_all
  ultimately show ?thesis by (intro read_patched [where w = ?w]) simp_all
qed

lemma emit_u32_read: "read_u32 (code (chunk_emit_u32 val line c)) (length (code c)) = val"
proof -
  let ?n = "length (code c)" and ?bs = "code (chunk_emit_u32 val line c)"
  have b: "?bs ! ?n = ucast (val AND 0xFF)" "?bs ! (?n + 1) = ucast (drop_bit 8 val AND 0xFF)"
    "?bs ! (?n + 2) = ucast (drop_bit 16 val AND 0xFF)" "?bs ! (?n + 3) = ucast (drop_bit 24 val AND 0xFF)"
    by (simp_all add: chunk_emit_u32_def nth_append numeral_2_eq_2 numeral_3_eq_3)
  show ?thesis
    unfolding read_u32_def b ff_mask
  proof (rule bit_word_eqI)
    fix n assume "n < LENGTH(32)"
    then consider "n < 8" | "8 \<le> n" "n < 16" | "16 \<le> n" "n < 24" | "24 \<le> n" "n < 32" by fastforce
    then show "bit (ucast (ucast (val AND mask 8) :: u8) OR push_bit 8 (ucast (ucast (drop_bit 8 val AND mask 8) :: u8)) OR
        push_bit 16 (ucast (ucast (drop_bit 16 val AND mask 8) :: u8)) OR
        push_bit 24 (ucast (ucast (drop_bit 24 val AND mask 8) :: u8)) :: u32) n = bit val n"
      by cases (auto simp: bit_simps)
  qed
qed

lemma emit_u16_length [simp]: "length (code (chunk_emit_u16 v l c)) = length (code c) + 2"
  by (simp add: chunk_emit_u16_def)

lemma emit_u32_length [simp]: "length (code (chunk_emit_u32 v l c)) = length (code c) + 4"
  by (simp add: chunk_emit_u32_def)

text \<open>Emitting bytes, one after the other.\<close>

definition emit_all :: "u8 list \<Rightarrow> int \<Rightarrow> 'f chunk \<Rightarrow> 'f chunk" where
  "emit_all bs line c = fold (\<lambda>b. chunk_emit b line) bs c"

lemma emit_all_code [simp]: "code (emit_all bs l c) = code c @ bs"
  by (induction bs arbitrary: c) (simp_all add: emit_all_def)

lemma patch_jump_code:
  assumes "code c = pre @ [x, y] @ body"
  defines "j \<equiv> if length body \<le> 0xFFFF then int (length body) else 0"
  shows "code (fst (chunk_patch_jump (length pre) (c, d))) =
      pre @ [lo_byte (word_of_int j), hi_byte (word_of_int j)] @ body"
    and "snd (chunk_patch_jump (length pre) (c, d)) =
      (if length body \<le> 0xFFFF then d else d\<lparr>g_parse_errors := g_parse_errors d + 1\<rparr>)"
proof -
  have len: "int (length (code c)) - int (length pre) - 2 = int (length body)" using assms(1) by simp
  have upd: "(code c)[length pre := a, length pre + 1 := b] = pre @ [a, b] @ body" for a b
    using assms(1) by (simp add: list_update_append)
  show "code (fst (chunk_patch_jump (length pre) (c, d))) =
      pre @ [lo_byte (word_of_int j), hi_byte (word_of_int j)] @ body"
    unfolding chunk_patch_jump_def prod.case Let_def len fst_conv chunk.select_convs chunk.update_convs j_def
    by (cases "length body \<le> 0xFFFF") (simp_all only: chunk.select_convs chunk.simps upd [symmetric] lo_byte_def hi_byte_def, simp_all)
  show "snd (chunk_patch_jump (length pre) (c, d)) =
      (if length body \<le> 0xFFFF then d else d\<lparr>g_parse_errors := g_parse_errors d + 1\<rparr>)"
    unfolding chunk_patch_jump_def prod.case Let_def len by simp
qed

text \<open>
  C31: a jump emitted before any body and patched after it reads back as the length of
  the body, so that from the end of its operand it leads exactly past the body, and
  the error count is unchanged; a body of more than 65535 bytes is counted as an error
  and the jump reads as 0. No other byte changes.
\<close>
theorem patched_jump_spans_body:
  "let (patch, c1) = chunk_emit_jump op l c; c2 = emit_all body l' c1;
       (c3, d') = chunk_patch_jump patch (c2, d) in
   patch + 2 + length body = length (code c3) \<and>
   take patch (code c3) = code c @ [op] \<and> drop (patch + 2) (code c3) = body \<and>
   (if length body \<le> 0xFFFF then read_u16 (code c3) patch = length body \<and> d' = d
    else read_u16 (code c3) patch = 0 \<and> g_parse_errors d' = g_parse_errors d + 1)"
proof -
  let ?pre = "code c @ [op]" and ?j = "if length body \<le> 0xFFFF then int (length body) else 0"
  let ?w = "word_of_int ?j :: u32" and ?c2 = "emit_all body l' (chunk_emit_u16 0xFFFF l (chunk_emit op l c))"
  obtain x y where u16: "code (chunk_emit_u16 0xFFFF l (chunk_emit op l c)) = code c @ [op, x, y]"
    by (simp add: chunk_emit_u16_def)
  then have c2: "code ?c2 = ?pre @ [x, y] @ body" by simp
  define bs where "bs = ?pre @ [lo_byte ?w, hi_byte ?w] @ body"
  have c3: "code (fst (chunk_patch_jump (length ?pre) (?c2, d))) = bs"
    unfolding bs_def by (rule patch_jump_code(1) [OF c2])
  have d3: "snd (chunk_patch_jump (length ?pre) (?c2, d)) =
      (if length body \<le> 0xFFFF then d else d\<lparr>g_parse_errors := g_parse_errors d + 1\<rparr>)"
    by (rule patch_jump_code(2) [OF c2])
  have "int (read_u16 bs (length ?pre)) = ?j"
    by (rule read_patched [where w = ?w]) (simp_all add: bs_def nth_append)
  then have rd: "read_u16 bs (length ?pre) = (if length body \<le> 0xFFFF then length body else 0)" by (simp split: if_splits)
  have "take (length ?pre) bs = ?pre" "drop (length ?pre + 2) bs = body" "length ?pre + 2 + length body = length bs"
    by (simp_all add: bs_def)
  moreover have "chunk_emit_jump op l c = (length ?pre, chunk_emit_u16 0xFFFF l (chunk_emit op l c))"
    by (simp add: chunk_emit_jump_def Let_def)
  ultimately show ?thesis
    using rd c3 d3 by (simp only: Let_def prod.case case_prod_beta split: if_splits) auto
qed

end
