(* ===== verification/Eigs_Const_Pool.thy ===== *)
theory Eigs_Const_Pool
  imports Eigs_Chunk
begin

text \<open>
  The constant pool of a chunk (\<open>src/chunk.c\<close>): numbers and strings are deduplicated
  through an open-addressing index whose slots hold 0 or a position plus 1. The property
  is that of the linear scan the index replaced.
\<close>

definition hashable :: "const_val \<Rightarrow> bool" where
  "hashable v = (case v of VAL_OTHER _ \<Rightarrow> False | _ \<Rightarrow> True)"

text \<open>Called on numbers and strings only.\<close>

definition const_hash_value :: "const_val \<Rightarrow> u32" where
  "const_hash_value v =
     (case v of
        VAL_NUM d \<Rightarrow>
          (let bits0 = (if fp_eq d 0 then 0 else d);
               bits1 = bits0 XOR drop_bit 33 bits0;
               bits2 = bits1 * 0xff51afd7ed558ccd;
               bits3 = bits2 XOR drop_bit 33 bits2 in
           ucast bits3)
      | VAL_STR str \<Rightarrow> foldl (\<lambda>h c. (h XOR of_nat (ord c)) * 16777619) 2166136261 str
      | VAL_OTHER _ \<Rightarrow> 0)"

definition const_equal :: "const_val \<Rightarrow> const_val \<Rightarrow> bool" where
  "const_equal a b =
     (case (a, b) of
        (VAL_NUM x, VAL_NUM y) \<Rightarrow> fp_eq x y
      | (VAL_STR x, VAL_STR y) \<Rightarrow> x = y
      | _ \<Rightarrow> False)"

definition dedup_slot :: "u32 \<Rightarrow> nat list \<Rightarrow> nat" where
  "dedup_slot h t = unat h AND (length t - 1)"

definition const_dedup_insert :: "u32 \<Rightarrow> nat \<Rightarrow> nat list \<Rightarrow> nat list" where
  "const_dedup_insert h idx t =
     (case probe (length t) (\<lambda>s. s = 0) t (dedup_slot h t) of
        None \<Rightarrow> t
      | Some s \<Rightarrow> t[s := idx + 1])"

definition dedup_fill :: "const_val list \<Rightarrow> nat \<Rightarrow> nat list \<Rightarrow> nat list" where
  "dedup_fill cs m t =
     fold (\<lambda>i t. if hashable (cs ! i) then const_dedup_insert (const_hash_value (cs ! i)) i t else t) [0..<m] t"

definition const_dedup_grow :: "'f chunk \<Rightarrow> 'f chunk" where
  "const_dedup_grow c =
     (let cap = length (const_dedup c); new_cap = (if cap \<noteq> 0 then cap * 2 else 64) in
      c\<lparr>const_dedup := dedup_fill (constants c) (length (constants c)) (replicate new_cap 0)\<rparr>)"

text \<open>The search: the position of an equal constant, when one is met before an empty slot.\<close>

definition const_search :: "const_val \<Rightarrow> bool \<Rightarrow> 'f chunk \<Rightarrow> nat option" where
  "const_search val dedup c =
     (let t = const_dedup c in
      case probe (length t) (\<lambda>s. s = 0 \<or> dedup \<and> const_equal val (constants c ! (s - 1))) t
             (dedup_slot (const_hash_value val) t) of
        Some s \<Rightarrow> if t ! s \<noteq> 0 then Some (t ! s - 1) else None
      | None \<Rightarrow> None)"

definition const_append :: "const_val \<Rightarrow> 'f chunk \<Rightarrow> nat \<times> 'f chunk" where
  "const_append val c =
     (let count = length (constants c) in
      (count,
       c\<lparr>constants := constants c @ [val],
         const_interns := const_interns c @ [case val of VAL_STR s \<Rightarrow> Some s | _ \<Rightarrow> None],
         const_hashes := const_hashes c @ [case val of VAL_STR s \<Rightarrow> env_hash_name s | _ \<Rightarrow> 0],
         const_dedup :=
           (if hashable val then const_dedup_insert (const_hash_value val) count (const_dedup c)
            else const_dedup c)\<rparr>))"

definition chunk_add_constant_ex :: "const_val \<Rightarrow> bool \<Rightarrow> 'f chunk \<Rightarrow> nat \<times> 'f chunk" where
  "chunk_add_constant_ex val dedup c =
     (if hashable val then
        let c1 = (if length (const_dedup c) < (length (constants c) + 1) * 2 then const_dedup_grow c else c) in
        (case const_search val dedup c1 of
           Some idx \<Rightarrow> (idx, c1)
         | None \<Rightarrow> const_append val c1)
      else const_append val c)"

definition chunk_add_constant :: "const_val \<Rightarrow> 'f chunk \<Rightarrow> nat \<times> 'f chunk" where
  "chunk_add_constant val c = chunk_add_constant_ex val True c"

definition chunk_add_constant_positional :: "const_val \<Rightarrow> 'f chunk \<Rightarrow> nat \<times> 'f chunk" where
  "chunk_add_constant_positional val c = chunk_add_constant_ex val False c"

definition chunk_add_function :: "'f \<Rightarrow> 'f chunk \<Rightarrow> nat \<times> 'f chunk" where
  "chunk_add_function f c = (length (fn_chunks c), c\<lparr>fn_chunks := fn_chunks c @ [f]\<rparr>)"

subsection \<open>Equal constants hash alike\<close>

lemma signed_eq:
  fixes u v :: int
  assumes "0 \<le> u" "0 \<le> v" and "(if p then - u else u) = (if q then - v else v)"
  shows "p = q \<and> u = v \<or> (if p then - u else u) = 0"
proof (cases "p = q")
  case True
  then show ?thesis using assms(3) by (cases q) simp_all
next
  case False
  then show ?thesis using assms by (cases q) simp_all
qed

lemma dbl_key_eq:
  assumes "dbl_key x = dbl_key y"
  shows "x = y \<or> dbl_key x = 0"
proof -
  have "dbl_neg x = dbl_neg y \<and> uint (dbl_mag x) = uint (dbl_mag y) \<or> dbl_key x = 0"
    using assms signed_eq [of "uint (dbl_mag x)" "uint (dbl_mag y)" "dbl_neg x" "dbl_neg y"]
    unfolding dbl_key_def by (simp only: unsigned_greater_eq simp_thms)
  then show ?thesis using uint_split [of x] uint_split [of y] by (auto simp: word_uint_eq_iff)
qed

lemma fp_eq_zero_cong: "fp_eq x y \<Longrightarrow> x = y \<or> fp_eq x 0 \<and> fp_eq y 0"
  using dbl_key_eq [of x y] by (auto simp: fp_eq_def)

lemma const_equal_hash:
  assumes "const_equal a b"
  shows "const_hash_value a = const_hash_value b"
proof -
  consider x y where "a = VAL_NUM x" "b = VAL_NUM y" "fp_eq x y" | s where "a = VAL_STR s" "b = VAL_STR s"
    using assms by (auto simp: const_equal_def split: const_val.splits)
  then show ?thesis
  proof cases
    case (1 x y)
    from fp_eq_zero_cong [OF 1(3)] show ?thesis
      using 1(1,2) by (elim disjE conjE) (simp_all add: const_hash_value_def)
  next
    case (2 s)
    then show ?thesis by simp
  qed
qed

lemma const_equal_hashable: "const_equal a b \<Longrightarrow> hashable a \<and> hashable b"
  by (auto simp: const_equal_def hashable_def split: const_val.splits)

subsection \<open>The index\<close>

definition const_home :: "const_val list \<Rightarrow> nat \<Rightarrow> nat" where
  "const_home cs i = unat (const_hash_value (cs ! i))"

definition hashables :: "const_val list \<Rightarrow> nat \<Rightarrow> nat set" where
  "hashables cs m = {i. i < m \<and> hashable (cs ! i)}"

definition deduped :: "const_val list \<Rightarrow> nat \<Rightarrow> nat list \<Rightarrow> bool" where
  "deduped cs m t \<longleftrightarrow> probe_ok slot_entry (const_home cs) t \<and> entries slot_entry t = hashables cs m \<and>
     card (occupied slot_entry t) = card (hashables cs m)"

lemma finite_hashables [simp]: "finite (hashables cs m)"
  by (simp add: hashables_def)

lemma hashables_fresh [simp]: "m \<notin> hashables cs m"
  by (simp add: hashables_def)

lemma hashables_Suc: "hashables cs (Suc m) = (if hashable (cs ! m) then insert m (hashables cs m) else hashables cs m)"
  by (auto simp: hashables_def less_Suc_eq)

lemma card_hashables_Suc:
  "card (hashables cs (Suc m)) = (if hashable (cs ! m) then Suc (card (hashables cs m)) else card (hashables cs m))"
  by (simp add: hashables_Suc)

lemma card_hashables: "card (hashables cs m) \<le> m"
  using card_mono [of "{..<m}" "hashables cs m"] by (auto simp: hashables_def)

lemma dedup_insert:
  assumes "deduped cs m t" and "card (hashables cs m) < length t" and "hashable (cs ! m)"
  shows "deduped cs (Suc m) (const_dedup_insert (const_hash_value (cs ! m)) m t)"
    and "length (const_dedup_insert (const_hash_value (cs ! m)) m t) = length t"
proof -
  have ok: "probe_ok slot_entry (const_home cs) t" and room: "card (occupied slot_entry t) < length t"
    using assms by (simp_all add: deduped_def)
  have p2: "pow2_size t" using ok by (simp add: probe_ok_def)
  have start: "dedup_slot (const_hash_value (cs ! m)) t = const_home cs m mod length t"
    by (simp add: dedup_slot_def const_home_def and_masks [OF p2])
  obtain j where j: "probe (length t) (\<lambda>x. x = 0) t (const_home cs m mod length t) = Some j"
      "probe_ok slot_entry (const_home cs) (t[j := Suc m])"
      "entries slot_entry (t[j := Suc m]) = insert m (entries slot_entry t)"
      "card (occupied slot_entry (t[j := Suc m])) = Suc (card (occupied slot_entry t))"
    by (rule probe_insert [OF ok room, where y = "Suc m" and stop = "\<lambda>x. x = 0"]) simp_all
  then have ins: "const_dedup_insert (const_hash_value (cs ! m)) m t = t[j := Suc m]"
    by (simp add: const_dedup_insert_def start)
  show "deduped cs (Suc m) (const_dedup_insert (const_hash_value (cs ! m)) m t)"
    using j(2-4) assms(1,3) by (simp add: ins deduped_def hashables_Suc)
  show "length (const_dedup_insert (const_hash_value (cs ! m)) m t) = length t" by (simp add: ins)
qed

lemma dedup_fill_ok:
  assumes "cap = 2 ^ k" and "card (hashables cs m) < cap"
  shows "deduped cs m (dedup_fill cs m (replicate cap 0)) \<and> length (dedup_fill cs m (replicate cap 0)) = cap"
  using assms(2)
proof (induction m)
  case 0
  have "pow2_size (replicate cap (0 :: nat))" using assms(1) by (auto simp: pow2_size_def)
  then show ?case by (simp add: deduped_def probe_ok_empty dedup_fill_def hashables_def)
next
  case (Suc m)
  let ?t = "dedup_fill cs m (replicate cap 0)"
  have step: "dedup_fill cs (Suc m) (replicate cap 0) =
      (if hashable (cs ! m) then const_dedup_insert (const_hash_value (cs ! m)) m ?t else ?t)"
    by (simp add: dedup_fill_def)
  have le: "card (hashables cs m) < cap" using Suc.prems by (simp add: card_hashables_Suc split: if_splits)
  show ?case
  proof (cases "hashable (cs ! m)")
    case True
    then show ?thesis using Suc.IH [OF le] dedup_insert [of cs m ?t] le by (simp add: step)
  next
    case False
    then show ?thesis using Suc.IH [OF le] by (simp add: step deduped_def hashables_Suc)
  qed
qed

lemma deduped_append: "deduped cs (length cs) t \<Longrightarrow> deduped (cs @ [v]) (length cs) t"
proof -
  assume d: "deduped cs (length cs) t"
  have h: "hashables (cs @ [v]) (length cs) = hashables cs (length cs)" by (auto simp: hashables_def nth_append)
  have "probe_ok slot_entry (const_home (cs @ [v])) t"
    by (rule probe_ok_cong [of _ "const_home cs"])
      (use d in \<open>auto simp: deduped_def const_home_def nth_append hashables_def\<close>)
  then show ?thesis using d h by (simp add: deduped_def)
qed

subsection \<open>The pool\<close>

definition pool_ok :: "'f chunk \<Rightarrow> bool" where
  "pool_ok c \<longleftrightarrow>
     length (const_hashes c) = length (constants c) \<and> length (const_interns c) = length (constants c) \<and>
     (\<forall>i<length (constants c). \<forall>s. constants c ! i = VAL_STR s \<longrightarrow>
        const_interns c ! i = Some s \<and> const_hashes c ! i = env_hash_name s) \<and>
     (if const_dedup c = [] then hashables (constants c) (length (constants c)) = {}
      else deduped (constants c) (length (constants c)) (const_dedup c) \<and>
        2 * card (hashables (constants c) (length (constants c))) \<le> length (const_dedup c))"

lemma pool_new: "pool_ok chunk_new"
  by (simp add: pool_ok_def chunk_new_def hashables_def)

lemma new_constants: "constants chunk_new = []"
  by (simp add: chunk_new_def)

lemma pool_grow_ok:
  assumes "pool_ok c"
  shows "pool_ok (const_dedup_grow c)" "const_dedup (const_dedup_grow c) \<noteq> []"
    "2 * Suc (card (hashables (constants c) (length (constants c)))) \<le> length (const_dedup (const_dedup_grow c))"
proof -
  let ?k = "card (hashables (constants c) (length (constants c)))"
  let ?cap = "if length (const_dedup c) \<noteq> 0 then length (const_dedup c) * 2 else 64"
  have "\<exists>k. ?cap = 2 ^ k"
  proof (cases "const_dedup c = []")
    case True
    then show ?thesis by (intro exI [of _ 6]) simp
  next
    case False
    then obtain k where "length (const_dedup c) = 2 ^ k"
      using assms by (auto simp: pool_ok_def deduped_def probe_ok_def pow2_size_def)
    then have "?cap = 2 ^ Suc k" by simp
    then show ?thesis by blast
  qed
  then obtain k where k: "?cap = 2 ^ k" by blast
  have room: "2 * Suc ?k \<le> ?cap"
  proof (cases "const_dedup c = []")
    case True
    then show ?thesis using assms by (simp add: pool_ok_def)
  next
    case False
    then have "2 * ?k \<le> length (const_dedup c)" "0 < length (const_dedup c)" using assms by (simp_all add: pool_ok_def)
    then have "2 * Suc ?k \<le> length (const_dedup c) * 2" by arith
    then show ?thesis using False by simp
  qed
  then have "deduped (constants c) (length (constants c)) (const_dedup (const_dedup_grow c))"
    "length (const_dedup (const_dedup_grow c)) = ?cap"
    using dedup_fill_ok [OF k, of "constants c" "length (constants c)"] by (simp_all add: const_dedup_grow_def Let_def)
  moreover have "constants (const_dedup_grow c) = constants c" "const_hashes (const_dedup_grow c) = const_hashes c"
    "const_interns (const_dedup_grow c) = const_interns c" by (simp_all add: const_dedup_grow_def Let_def)
  moreover have "?cap \<noteq> 0" by simp
  ultimately show "pool_ok (const_dedup_grow c)" "const_dedup (const_dedup_grow c) \<noteq> []"
    "2 * Suc ?k \<le> length (const_dedup (const_dedup_grow c))"
    using assms room by (auto simp: pool_ok_def simp del: length_0_conv)
qed

lemma search_ok:
  assumes "pool_ok c" and "const_dedup c \<noteq> []"
  shows "case const_search val dedup c of
      Some i \<Rightarrow> dedup \<and> i < length (constants c) \<and> const_equal val (constants c ! i)
    | None \<Rightarrow> dedup \<longrightarrow> (\<forall>i<length (constants c). \<not> const_equal val (constants c ! i))"
proof -
  let ?t = "const_dedup c" and ?cs = "constants c"
  let ?P = "\<lambda>i. dedup \<and> const_equal val (?cs ! i)" and ?k = "unat (const_hash_value val)"
  let ?stop = "\<lambda>s. s = 0 \<or> dedup \<and> const_equal val (?cs ! (s - 1))"
  have d: "probe_ok slot_entry (const_home ?cs) ?t" "entries slot_entry ?t = hashables ?cs (length ?cs)"
    "card (occupied slot_entry ?t) = card (hashables ?cs (length ?cs))"
    "2 * card (hashables ?cs (length ?cs)) \<le> length ?t"
    using assms by (simp_all add: pool_ok_def deduped_def)
  have p2: "pow2_size ?t" using d(1) by (simp add: probe_ok_def)
  have room: "card (occupied slot_entry ?t) < length ?t"
    using d(3,4) pow2_size_pos [OF p2] by linarith
  have start: "dedup_slot (const_hash_value val) ?t = ?k mod length ?t"
    by (simp add: dedup_slot_def and_masks [OF p2])
  have stop: "?stop s \<longleftrightarrow> (case slot_entry s of None \<Rightarrow> True | Some x \<Rightarrow> ?P x)" for s
    by (cases s) simp_all
  show ?thesis
  proof (rule probe_find [OF d(1) room stop, where k = ?k])
    fix j x
    assume j: "probe (length ?t) ?stop ?t (?k mod length ?t) = Some j"
      and x: "slot_entry (?t ! j) = Some x" "x \<in> entries slot_entry ?t" "?P x"
    have "?t ! j = Suc x" using x(1) by (auto simp: slot_entry_def split: if_splits)
    then have "const_search val dedup c = Some x" using j by (simp add: const_search_def start Let_def)
    then show ?thesis using x(2,3) d(2) by (simp add: hashables_def)
  next
    fix j
    assume j: "probe (length ?t) ?stop ?t (?k mod length ?t) = Some j" and empty: "slot_entry (?t ! j) = None"
      and none: "\<And>x. x \<in> entries slot_entry ?t \<Longrightarrow> const_home ?cs x mod length ?t = ?k mod length ?t \<Longrightarrow> \<not> ?P x"
    have "const_search val dedup c = None" using j empty by (simp add: const_search_def start Let_def)
    moreover have "\<not> const_equal val (?cs ! i)" if "i < length ?cs" "dedup" for i
    proof
      assume eq: "const_equal val (?cs ! i)"
      then have "i \<in> entries slot_entry ?t"
        using that const_equal_hashable d(2) by (auto simp: hashables_def)
      from none [OF this] show False using eq that(2) by (simp add: const_home_def const_equal_hash [OF eq])
    qed
    ultimately show ?thesis by simp
  qed
qed

lemma append_ok:
  assumes "pool_ok c"
    and "hashable val \<Longrightarrow> const_dedup c \<noteq> [] \<and>
      2 * Suc (card (hashables (constants c) (length (constants c)))) \<le> length (const_dedup c)"
  shows "pool_ok (snd (const_append val c))"
proof -
  let ?cs = "constants c" and ?c = "snd (const_append val c)"
  let ?cs' = "?cs @ [val]"
  have h: "hashables ?cs' (length ?cs) = hashables ?cs (length ?cs)" by (auto simp: hashables_def nth_append)
  have Suc: "hashables ?cs' (Suc (length ?cs)) =
      (if hashable val then insert (length ?cs) (hashables ?cs (length ?cs)) else hashables ?cs (length ?cs))"
    using hashables_Suc [of ?cs' "length ?cs"] h by simp
  have strs: "\<forall>i<length (constants ?c). \<forall>s. constants ?c ! i = VAL_STR s \<longrightarrow>
      const_interns ?c ! i = Some s \<and> const_hashes ?c ! i = env_hash_name s"
    using assms(1) by (auto simp: pool_ok_def const_append_def Let_def nth_append less_Suc_eq)
  show ?thesis
  proof (cases "hashable val")
    case True
    let ?t = "const_dedup_insert (const_hash_value val) (length ?cs) (const_dedup c)"
    have ne: "const_dedup c \<noteq> []" and room: "2 * Suc (card (hashables ?cs (length ?cs))) \<le> length (const_dedup c)"
      using assms(2) [OF True] by simp_all
    have "deduped ?cs' (length ?cs) (const_dedup c)"
      using assms(1) ne by (intro deduped_append) (simp add: pool_ok_def)
    from dedup_insert [OF this, of] True h room
    have t: "deduped ?cs' (Suc (length ?cs)) ?t" "length ?t = length (const_dedup c)" by simp_all
    have "?t \<noteq> []" using t(2) ne by (metis length_0_conv)
    then show ?thesis
      using assms(1) t room strs True Suc by (simp add: pool_ok_def const_append_def Let_def)
  next
    case False
    then have "const_dedup c \<noteq> [] \<Longrightarrow> deduped ?cs' (Suc (length ?cs)) (const_dedup c)"
      using assms(1) deduped_append [of ?cs "const_dedup c" val] Suc h by (simp add: pool_ok_def deduped_def)
    then show ?thesis
      using assms(1) strs False Suc by (auto simp: pool_ok_def const_append_def Let_def)
  qed
qed

text \<open>One addition, against the pool as a list.\<close>

lemma add_constant:
  assumes "pool_ok c"
  shows "pool_ok (snd (chunk_add_constant_ex val dedup c))" (is ?A)
    and "if dedup \<and> (\<exists>w\<in>set (constants c). const_equal val w)
      then fst (chunk_add_constant_ex val dedup c) < length (constants c) \<and>
        const_equal val (constants c ! fst (chunk_add_constant_ex val dedup c)) \<and>
        constants (snd (chunk_add_constant_ex val dedup c)) = constants c
      else fst (chunk_add_constant_ex val dedup c) = length (constants c) \<and>
        constants (snd (chunk_add_constant_ex val dedup c)) = constants c @ [val]" (is ?B)
proof -
  have cons [simp]: "constants (snd (const_append val e)) = constants e @ [val]"
    "fst (const_append val e) = length (constants e)" for e :: "'a chunk"
    by (simp_all add: const_append_def Let_def)
  have "?A \<and> ?B"
  proof (cases "hashable val")
    case False
    then have "\<not> const_equal val w" for w using const_equal_hashable by blast
    moreover have "pool_ok (snd (const_append val c))" by (rule append_ok [OF assms]) (use False in simp)
    ultimately show ?thesis using False by (simp add: chunk_add_constant_ex_def)
  next
    case True
    let ?k = "card (hashables (constants c) (length (constants c)))"
    let ?c = "if length (const_dedup c) < (length (constants c) + 1) * 2 then const_dedup_grow c else c"
    have same: "constants ?c = constants c" by (simp add: const_dedup_grow_def Let_def)
    have "pool_ok ?c \<and> const_dedup ?c \<noteq> [] \<and> 2 * Suc ?k \<le> length (const_dedup ?c)"
    proof (cases "length (const_dedup c) < (length (constants c) + 1) * 2")
      case True
      then show ?thesis using pool_grow_ok [OF assms] by simp
    next
      case False
      moreover have "?k \<le> length (constants c)" by (rule card_hashables)
      ultimately show ?thesis using assms by auto
    qed
    then have ok: "pool_ok ?c" "const_dedup ?c \<noteq> []" "2 * Suc ?k \<le> length (const_dedup ?c)" by blast+
    have add: "chunk_add_constant_ex val dedup c =
        (case const_search val dedup ?c of Some idx \<Rightarrow> (idx, ?c) | None \<Rightarrow> const_append val ?c)"
      using True by (simp add: chunk_add_constant_ex_def Let_def)
    show ?thesis
    proof (cases "const_search val dedup ?c")
      case (Some idx)
      then have "dedup" "idx < length (constants c)" "const_equal val (constants c ! idx)"
        using search_ok [OF ok(1,2), where val = val and dedup = dedup] same by (simp_all only: option.case)
      moreover from this have "\<exists>w\<in>set (constants c). const_equal val w" by (meson nth_mem)
      ultimately show ?thesis using add Some ok(1) same by simp
    next
      case None
      then have nc: "\<not> (dedup \<and> (\<exists>w\<in>set (constants c). const_equal val w))"
        using search_ok [OF ok(1,2), where val = val and dedup = dedup] same by (auto simp: in_set_conv_nth)
      have "pool_ok (snd (const_append val ?c))"
        by (rule append_ok [OF ok(1)]) (use ok(2,3) same in simp)
      then show ?thesis unfolding if_not_P [OF nc] using add None same by simp
    qed
  qed
  then show ?A ?B by blast+
qed

text \<open>The linear scan.\<close>

definition scan_add :: "const_val \<times> bool \<Rightarrow> const_val list \<Rightarrow> const_val list" where
  "scan_add vd cs =
     (case vd of (v, dedup) \<Rightarrow> if dedup \<and> (\<exists>w\<in>set cs. const_equal v w) then cs else cs @ [v])"

definition add_const :: "const_val \<times> bool \<Rightarrow> 'f chunk \<Rightarrow> 'f chunk" where
  "add_const vd c = snd (chunk_add_constant_ex (fst vd) (snd vd) c)"

lemma add_all:
  "pool_ok c \<Longrightarrow> pool_ok (fold add_const vds c) \<and> constants (fold add_const vds c) = fold scan_add vds (constants c)"
proof (induction vds arbitrary: c)
  case Nil
  then show ?case by simp
next
  case (Cons vd vds)
  obtain v d where vd: "vd = (v, d)" by (metis surj_pair)
  have "pool_ok (add_const vd c)" by (simp add: add_const_def add_constant(1) [OF Cons.prems])
  moreover have "constants (add_const vd c) = scan_add vd (constants c)"
    using add_constant(2) [OF Cons.prems, where val = v and dedup = d]
    by (cases "d \<and> (\<exists>w\<in>set (constants c). const_equal v w)") (simp_all add: vd add_const_def scan_add_def)
  ultimately show ?case using Cons.IH by simp
qed

text \<open>
  C32: whatever numbers, strings and other values are added to a chunk's pool, with or
  without deduplication, the hash index leaves exactly the pool that comparing each
  value with all before it leaves; the position answered is that of an equal constant
  when there is one, NaN being equal to nothing and 0 to -0, and of the appended value
  otherwise; and a string constant is stored with its own name and name hash.
\<close>
theorem const_pool_is_linear_scan:
  "let c = fold add_const vds (chunk_new :: 'f chunk); cs = fold scan_add vds []; r = chunk_add_constant_ex v dedup c in
   constants c = cs \<and>
   (if dedup \<and> (\<exists>w\<in>set cs. const_equal v w)
    then fst r < length cs \<and> const_equal v (cs ! fst r) \<and> constants (snd r) = cs
    else fst r = length cs \<and> constants (snd r) = cs @ [v]) \<and>
   list_all2 (\<lambda>w (name, h). case w of VAL_STR s \<Rightarrow> name = Some s \<and> h = env_hash_name s | _ \<Rightarrow> True)
     cs (zip (const_interns c) (const_hashes c))"
proof -
  let ?c = "fold add_const vds (chunk_new :: 'f chunk)" and ?cs = "fold scan_add vds []"
  have ok: "pool_ok ?c" and cs: "constants ?c = ?cs"
    by (simp_all add: add_all [OF pool_new] new_constants)
  have "list_all2 (\<lambda>w (name, h). case w of VAL_STR s \<Rightarrow> name = Some s \<and> h = env_hash_name s | _ \<Rightarrow> True)
      (constants ?c) (zip (const_interns ?c) (const_hashes ?c))"
    unfolding list_all2_conv_all_nth
  proof (intro conjI allI impI)
    show "length (constants ?c) = length (zip (const_interns ?c) (const_hashes ?c))"
      using ok by (simp add: pool_ok_def)
    fix i assume i: "i < length (constants ?c)"
    then have "zip (const_interns ?c) (const_hashes ?c) ! i = (const_interns ?c ! i, const_hashes ?c ! i)"
      using ok by (simp add: pool_ok_def)
    then show "case zip (const_interns ?c) (const_hashes ?c) ! i of (name, h) \<Rightarrow>
        (case constants ?c ! i of VAL_STR s \<Rightarrow> name = Some s \<and> h = env_hash_name s | _ \<Rightarrow> True)"
      using ok i by (simp add: pool_ok_def split: const_val.split)
  qed
  then show ?thesis
    using add_constant(2) [OF ok, where val = v and dedup = dedup] unfolding Let_def cs by (intro conjI refl)
qed

end
