(* ===== verification/Eigs_Opcode.thy ===== *)
theory Eigs_Opcode
  imports Eigs_Prelude
begin

text \<open>
  The opcodes of the virtual machine (\<open>src/vm.h\<close>) in the order of the enumeration, which
  is their encoding, and the two tables of \<open>src/chunk.c\<close> about them: the operands an
  instruction has, and what it does to the height of the operand stack.
\<close>

datatype (plugins only: size) opcode =
    OP_CONST | OP_NULL | OP_NUM_ZERO | OP_NUM_ONE | OP_ADD | OP_SUB | OP_MUL | OP_DIV | OP_MOD |
    OP_BAND | OP_BOR | OP_BXOR | OP_SHL | OP_SHR | OP_NEG | OP_NOT | OP_BNOT | OP_EQ | OP_NE | OP_LT |
    OP_GT | OP_LE | OP_GE | OP_GET_LOCAL | OP_SET_LOCAL | OP_GET_NAME | OP_SET_NAME |
    OP_SET_NAME_LOCAL | OP_SET_FN_NAME_LOCAL | OP_JUMP | OP_JUMP_BACK | OP_JUMP_IF_FALSE |
    OP_JUMP_IF_TRUE | OP_JUMP_IF_FALSE_PEEK | OP_JUMP_IF_TRUE_PEEK | OP_POP | OP_DUP | OP_DUP2 |
    OP_CLOSURE | OP_CALL | OP_RETURN | OP_RETURN_NULL | OP_LIST | OP_DICT | OP_INDEX_GET |
    OP_INDEX_SET | OP_DOT_GET | OP_DOT_SET | OP_ITER_SETUP | OP_ITER_NEXT | OP_LOOP_ENV_FRESH |
    OP_LOOP_ENV_END | OP_BREAK | OP_CONTINUE | OP_TRY_BEGIN | OP_TRY_END | OP_OBSERVE_ASSIGN |
    OP_OBSERVE_ASSIGN_LOCAL | OP_INTERROGATE | OP_PREDICATE | OP_UNOBSERVED_BEGIN | OP_UNOBSERVED_END |
    OP_LOOP_STALL_CHECK | OP_LOOP_CAP_CHECK | OP_IMPORT | OP_MATCH | OP_LISTCOMP_BEGIN |
    OP_LISTCOMP_APPEND | OP_LINE | OP_WIDE | OP_DISPATCH | OP_LOCAL_DOT_GET | OP_LOCAL_DOT_SET |
    OP_LOCAL_IDX_GET | OP_LOCAL_IDX_DOT_GET | OP_LOCAL_IDX_DOT_SET | OP_INTERROGATE_NAMED |
    OP_INTERROGATE_NAMED_AT | OP_DEFAULT_PARAM | OP_DESTRUCTURE_UNPACK | OP_SLICE_GET | OP_REPORT_SLOT |
    OP_OBSERVE_NAME_POST | OP_REPORT_NAME | OP_OBSERVE_VALUE_SLOT | OP_OBSERVE_VALUE_NAME |
    OP_LOOP_ENV_CLEAR | OP_PREDICATE_SLOT | OP_PREDICATE_NAME | OP_REPORT_VALUE_SLOT |
    OP_REPORT_VALUE_NAME | OP_TRAJECTORY_SLOT | OP_TRAJECTORY_NAME | OP_INTERROGATE_NAMED_WHEN

definition opcodes :: "opcode list" where
  "opcodes =
    [OP_CONST, OP_NULL, OP_NUM_ZERO, OP_NUM_ONE, OP_ADD, OP_SUB, OP_MUL, OP_DIV, OP_MOD, OP_BAND,
     OP_BOR, OP_BXOR, OP_SHL, OP_SHR, OP_NEG, OP_NOT, OP_BNOT, OP_EQ, OP_NE, OP_LT, OP_GT, OP_LE, OP_GE,
     OP_GET_LOCAL, OP_SET_LOCAL, OP_GET_NAME, OP_SET_NAME, OP_SET_NAME_LOCAL, OP_SET_FN_NAME_LOCAL,
     OP_JUMP, OP_JUMP_BACK, OP_JUMP_IF_FALSE, OP_JUMP_IF_TRUE, OP_JUMP_IF_FALSE_PEEK,
     OP_JUMP_IF_TRUE_PEEK, OP_POP, OP_DUP, OP_DUP2, OP_CLOSURE, OP_CALL, OP_RETURN, OP_RETURN_NULL,
     OP_LIST, OP_DICT, OP_INDEX_GET, OP_INDEX_SET, OP_DOT_GET, OP_DOT_SET, OP_ITER_SETUP, OP_ITER_NEXT,
     OP_LOOP_ENV_FRESH, OP_LOOP_ENV_END, OP_BREAK, OP_CONTINUE, OP_TRY_BEGIN, OP_TRY_END,
     OP_OBSERVE_ASSIGN, OP_OBSERVE_ASSIGN_LOCAL, OP_INTERROGATE, OP_PREDICATE, OP_UNOBSERVED_BEGIN,
     OP_UNOBSERVED_END, OP_LOOP_STALL_CHECK, OP_LOOP_CAP_CHECK, OP_IMPORT, OP_MATCH, OP_LISTCOMP_BEGIN,
     OP_LISTCOMP_APPEND, OP_LINE, OP_WIDE, OP_DISPATCH, OP_LOCAL_DOT_GET, OP_LOCAL_DOT_SET,
     OP_LOCAL_IDX_GET, OP_LOCAL_IDX_DOT_GET, OP_LOCAL_IDX_DOT_SET, OP_INTERROGATE_NAMED,
     OP_INTERROGATE_NAMED_AT, OP_DEFAULT_PARAM, OP_DESTRUCTURE_UNPACK, OP_SLICE_GET, OP_REPORT_SLOT,
     OP_OBSERVE_NAME_POST, OP_REPORT_NAME, OP_OBSERVE_VALUE_SLOT, OP_OBSERVE_VALUE_NAME,
     OP_LOOP_ENV_CLEAR, OP_PREDICATE_SLOT, OP_PREDICATE_NAME, OP_REPORT_VALUE_SLOT,
     OP_REPORT_VALUE_NAME, OP_TRAJECTORY_SLOT, OP_TRAJECTORY_NAME, OP_INTERROGATE_NAMED_WHEN]"

text \<open>\<open>OP_COUNT\<close> and a byte as an opcode.\<close>

definition OP_COUNT :: nat where
  "OP_COUNT = length opcodes"

definition opcode_of :: "nat \<Rightarrow> opcode" where
  "opcode_of b = opcodes ! b"

definition op_name :: "nat \<Rightarrow> string" where
  "op_name b =
    (if OP_COUNT \<le> b then ''???''
     else
      [''CONST'', ''NULL'', ''NUM_ZERO'', ''NUM_ONE'', ''ADD'', ''SUB'', ''MUL'', ''DIV'', ''MOD'',
       ''BAND'', ''BOR'', ''BXOR'', ''SHL'', ''SHR'', ''NEG'', ''NOT'', ''BNOT'', ''EQ'', ''NE'',
       ''LT'', ''GT'', ''LE'', ''GE'', ''GET_LOCAL'', ''SET_LOCAL'', ''GET_NAME'', ''SET_NAME'',
       ''SET_NAME_LOCAL'', ''SET_FN_NAME_LOCAL'', ''JUMP'', ''JUMP_BACK'', ''JUMP_IF_FALSE'',
       ''JUMP_IF_TRUE'', ''JUMP_IF_FALSE_PEEK'', ''JUMP_IF_TRUE_PEEK'', ''POP'', ''DUP'', ''DUP2'',
       ''CLOSURE'', ''CALL'', ''RETURN'', ''RETURN_NULL'', ''LIST'', ''DICT'', ''INDEX_GET'',
       ''INDEX_SET'', ''DOT_GET'', ''DOT_SET'', ''ITER_SETUP'', ''ITER_NEXT'', ''LOOP_ENV_FRESH'',
       ''LOOP_ENV_END'', ''BREAK'', ''CONTINUE'', ''TRY_BEGIN'', ''TRY_END'', ''OBSERVE_ASSIGN'',
       ''OBSERVE_ASSIGN_LOCAL'', ''INTERROGATE'', ''PREDICATE'', ''UNOBSERVED_BEGIN'',
       ''UNOBSERVED_END'', ''LOOP_STALL_CHECK'', ''LOOP_CAP_CHECK'', ''IMPORT'', ''MATCH'',
       ''LISTCOMP_BEGIN'', ''LISTCOMP_APPEND'', ''LINE'', ''WIDE'', ''DISPATCH'', ''LOCAL_DOT_GET'',
       ''LOCAL_DOT_SET'', ''LOCAL_IDX_GET'', ''LOCAL_IDX_DOT_GET'', ''LOCAL_IDX_DOT_SET'',
       ''INTERROGATE_NAMED'', ''INTERROGATE_NAMED_AT'', ''DEFAULT_PARAM'', ''DESTRUCTURE_UNPACK'',
       ''SLICE_GET'', ''REPORT_SLOT'', ''OBSERVE_NAME_POST'', ''REPORT_NAME'', ''OBSERVE_VALUE_SLOT'',
       ''OBSERVE_VALUE_NAME'', ''LOOP_ENV_CLEAR'', ''PREDICATE_SLOT'', ''PREDICATE_NAME'',
       ''REPORT_VALUE_SLOT'', ''REPORT_VALUE_NAME'', ''TRAJECTORY_SLOT'', ''TRAJECTORY_NAME'',
       ''INTERROGATE_NAMED_WHEN''] ! b)"

subsection \<open>Operands\<close>

datatype verify_role = VR_RAW | VR_CONST | VR_NAME | VR_FN | VR_JFWD | VR_JBACK

text \<open>The roles of the 16-bit operands; that of \<open>OP_LINE\<close>, with 32 bits, is apart.\<close>

definition op_verify_operands :: "opcode \<Rightarrow> verify_role list" where
  "op_verify_operands op =
    (if op = OP_CONST then [VR_CONST]
     else if op \<in> {OP_GET_NAME, OP_SET_NAME, OP_SET_NAME_LOCAL, OP_SET_FN_NAME_LOCAL, OP_DOT_GET, OP_DOT_SET,
       OP_REPORT_NAME, OP_OBSERVE_VALUE_NAME, OP_OBSERVE_NAME_POST, OP_REPORT_VALUE_NAME, OP_TRAJECTORY_NAME,
       OP_IMPORT} then [VR_NAME]
     else if op = OP_CLOSURE then [VR_FN]
     else if op \<in> {OP_JUMP, OP_JUMP_IF_FALSE, OP_JUMP_IF_TRUE, OP_JUMP_IF_FALSE_PEEK, OP_JUMP_IF_TRUE_PEEK, OP_ITER_NEXT,
       OP_TRY_BEGIN, OP_LOOP_STALL_CHECK, OP_LOOP_CAP_CHECK} then [VR_JFWD]
     else if op = OP_JUMP_BACK then [VR_JBACK]
     else if op \<in> {OP_GET_LOCAL, OP_SET_LOCAL, OP_CALL, OP_LIST, OP_DICT, OP_OBSERVE_ASSIGN, OP_OBSERVE_ASSIGN_LOCAL,
       OP_REPORT_SLOT, OP_OBSERVE_VALUE_SLOT, OP_REPORT_VALUE_SLOT, OP_TRAJECTORY_SLOT, OP_INTERROGATE,
       OP_PREDICATE, OP_MATCH, OP_DESTRUCTURE_UNPACK} then [VR_RAW]
     else if op \<in> {OP_LOCAL_DOT_GET, OP_LOCAL_DOT_SET} then [VR_RAW, VR_NAME]
     else if op = OP_LOCAL_IDX_GET then [VR_RAW, VR_RAW]
     else if op \<in> {OP_INTERROGATE_NAMED, OP_INTERROGATE_NAMED_AT, OP_INTERROGATE_NAMED_WHEN} then [VR_RAW, VR_NAME]
     else if op = OP_PREDICATE_SLOT then [VR_RAW, VR_RAW]
     else if op = OP_PREDICATE_NAME then [VR_RAW, VR_NAME]
     else if op = OP_DEFAULT_PARAM then [VR_RAW, VR_JFWD]
     else if op \<in> {OP_LOCAL_IDX_DOT_GET, OP_LOCAL_IDX_DOT_SET} then [VR_RAW, VR_RAW, VR_NAME]
     else [])"

subsection \<open>Stack effects\<close>

datatype verify_flow = FL_NEXT | FL_BRANCH | FL_JUMP | FL_END

record stack_effect =
  se_need :: int
  se_pops :: int
  se_pushes :: int
  se_bpushes :: int
  se_flow :: verify_flow

abbreviation EFF :: "int \<Rightarrow> int \<Rightarrow> int \<Rightarrow> stack_effect" where
  "EFF n p u \<equiv> \<lparr>se_need = n, se_pops = p, se_pushes = u, se_bpushes = 0, se_flow = FL_NEXT\<rparr>"

abbreviation EFF_BR :: "int \<Rightarrow> int \<Rightarrow> int \<Rightarrow> int \<Rightarrow> stack_effect" where
  "EFF_BR n p u b \<equiv> \<lparr>se_need = n, se_pops = p, se_pushes = u, se_bpushes = b, se_flow = FL_BRANCH\<rparr>"

text \<open>\<open>a\<close> is the first operand, the count of the opcodes of variable arity.\<close>

definition op_verify_stack_effect :: "opcode \<Rightarrow> int \<Rightarrow> stack_effect" where
  "op_verify_stack_effect op a =
    (if op \<in> {OP_CONST, OP_NULL, OP_NUM_ZERO, OP_NUM_ONE, OP_GET_LOCAL, OP_GET_NAME, OP_CLOSURE, OP_LOCAL_DOT_GET,
       OP_LOCAL_IDX_GET, OP_LOCAL_IDX_DOT_GET, OP_IMPORT, OP_MATCH, OP_LISTCOMP_BEGIN, OP_PREDICATE,
       OP_PREDICATE_SLOT, OP_PREDICATE_NAME, OP_REPORT_SLOT, OP_REPORT_NAME, OP_REPORT_VALUE_SLOT,
       OP_REPORT_VALUE_NAME, OP_OBSERVE_VALUE_SLOT, OP_OBSERVE_VALUE_NAME, OP_TRAJECTORY_SLOT,
       OP_TRAJECTORY_NAME} then EFF 0 0 1
     else if op \<in> {OP_SET_LOCAL, OP_SET_NAME, OP_SET_NAME_LOCAL, OP_SET_FN_NAME_LOCAL, OP_LOCAL_DOT_SET,
       OP_LOCAL_IDX_DOT_SET, OP_OBSERVE_ASSIGN, OP_OBSERVE_ASSIGN_LOCAL, OP_OBSERVE_NAME_POST} then EFF 1 0 0
     else if op \<in> {OP_NEG, OP_NOT, OP_BNOT} then EFF 1 1 1
     else if op \<in> {OP_ADD, OP_SUB, OP_MUL, OP_BAND, OP_BOR, OP_BXOR, OP_SHL, OP_SHR, OP_EQ, OP_NE, OP_LT, OP_GT, OP_LE,
       OP_GE, OP_INDEX_GET, OP_DOT_SET} then EFF 2 2 1
     else if op \<in> {OP_DIV, OP_MOD} then EFF 2 2 1
     else if op \<in> {OP_DOT_GET, OP_ITER_SETUP, OP_INTERROGATE, OP_INTERROGATE_NAMED, OP_INTERROGATE_NAMED_AT,
       OP_INTERROGATE_NAMED_WHEN} then EFF 1 1 1
     else if op \<in> {OP_INDEX_SET, OP_SLICE_GET, OP_DISPATCH} then EFF 3 3 1
     else if op = OP_POP then EFF 1 1 0
     else if op = OP_DUP then EFF 1 0 1
     else if op = OP_DUP2 then EFF 2 0 2
     else if op = OP_LIST then EFF a a 1
     else if op = OP_DICT then EFF (2 * a) (2 * a) 1
     else if op = OP_CALL then EFF (a + 1) (a + 1) 1
     else if op = OP_DESTRUCTURE_UNPACK then EFF 1 1 a
     else if op = OP_LISTCOMP_APPEND then EFF 2 1 0
     else if op \<in> {OP_JUMP_IF_FALSE, OP_JUMP_IF_TRUE} then EFF_BR 1 1 0 0
     else if op \<in> {OP_JUMP_IF_FALSE_PEEK, OP_JUMP_IF_TRUE_PEEK} then EFF_BR 1 0 0 0
     else if op = OP_ITER_NEXT then EFF_BR 1 0 1 0
     else if op \<in> {OP_LOOP_STALL_CHECK, OP_LOOP_CAP_CHECK, OP_DEFAULT_PARAM} then EFF_BR 0 0 0 0
     else if op = OP_TRY_BEGIN then EFF_BR 0 0 0 1
     else if op \<in> {OP_JUMP, OP_JUMP_BACK} then \<lparr>se_need = 0, se_pops = 0, se_pushes = 0, se_bpushes = 0, se_flow = FL_JUMP\<rparr>
     else if op \<in> {OP_RETURN, OP_RETURN_NULL} then \<lparr>se_need = 0, se_pops = 0, se_pushes = 0, se_bpushes = 0, se_flow = FL_END\<rparr>
     else EFF 0 0 0)"

end
