(* ===== verification/Eigs_Verify.thy ===== *)
theory Eigs_Verify
  imports Eigs_Opcode Eigs_Chunk
begin

text \<open>
  The verifier of untrusted bytecode (\<open>chunk_verify_impl\<close> of \<open>src/chunk.c\<close>): a linear
  decode that checks every operand, the jump targets, the terminator, and an abstract
  run over the heights of the operand stack. The property is soundness against the
  control flow of the virtual machine, with its error handlers.
\<close>

definition VM_STACK_MAX :: int where
  "VM_STACK_MAX = 65536"

definition MAX_TRY_HANDLERS :: nat where
  "MAX_TRY_HANDLERS = 8"

definition op_byte :: "'f chunk \<Rightarrow> nat \<Rightarrow> nat" where
  "op_byte c i = unat (code c ! i)"

abbreviation op_at :: "'f chunk \<Rightarrow> nat \<Rightarrow> opcode" where
  "op_at c i \<equiv> opcode_of (op_byte c i)"

subsection \<open>Passes 1 to 3\<close>

fun is_string :: "const_val \<Rightarrow> bool" where
  "is_string (VAL_STR s) = True"
| "is_string v = False"

text \<open>One operand after the other; jump targets are kept for the second pass.\<close>

fun check_roles :: "'f chunk \<Rightarrow> nat \<Rightarrow> nat \<Rightarrow> verify_role list \<Rightarrow> int list \<Rightarrow> int list option" where
  "check_roles c fin pos [] targets = Some targets"
| "check_roles c fin pos (r # rs) targets =
     (let operand = read_u16 (code c) pos in
      case r of
        VR_CONST \<Rightarrow> if length (constants c) \<le> operand then None else check_roles c fin (pos + 2) rs targets
      | VR_NAME \<Rightarrow>
          if length (constants c) \<le> operand \<or> \<not> is_string (constants c ! operand) then None
          else check_roles c fin (pos + 2) rs targets
      | VR_FN \<Rightarrow> if length (fn_chunks c) \<le> operand then None else check_roles c fin (pos + 2) rs targets
      | VR_JFWD \<Rightarrow> check_roles c fin (pos + 2) rs (targets @ [int fin + int operand])
      | VR_JBACK \<Rightarrow> check_roles c fin (pos + 2) rs (targets @ [int fin - int operand])
      | VR_RAW \<Rightarrow> check_roles c fin (pos + 2) rs targets)"

function pass1 :: "'f chunk \<Rightarrow> nat \<Rightarrow> bool list \<Rightarrow> int list \<Rightarrow> opcode \<Rightarrow> (bool list \<times> int list \<times> opcode) option" where
  "pass1 c i is_start targets last_op =
     (if i < length (code c) then
        if OP_COUNT \<le> op_byte c i then None
        else if op_at c i = OP_LINE then
          (if length (code c) < i + 1 + 4 then None
           else pass1 c (i + 1 + 4) (is_start[i := True]) targets (op_at c i))
        else
          let roles = op_verify_operands (op_at c i); fin = i + 1 + 2 * length roles in
          if length (code c) < fin then None
          else (case check_roles c fin (i + 1) roles targets of
                  None \<Rightarrow> None
                | Some ts \<Rightarrow> pass1 c fin (is_start[i := True]) ts (op_at c i))
      else Some (is_start, targets, last_op))"
  by pat_completeness auto
termination by (relation "measure (\<lambda>(c, i, _). length (code c) - i)") auto

declare pass1.simps [simp del]

definition pass2 :: "bool list \<Rightarrow> nat \<Rightarrow> int list \<Rightarrow> bool" where
  "pass2 is_start n targets = list_all (\<lambda>t. 0 \<le> t \<and> t < int n \<and> is_start ! nat t) targets"

definition pass3 :: "opcode \<Rightarrow> bool" where
  "pass3 last_op \<longleftrightarrow> last_op \<in> {OP_RETURN, OP_RETURN_NULL, OP_JUMP, OP_JUMP_BACK}"

subsection \<open>Pass 4\<close>

text \<open>The end of the instruction at an offset, its first operand, and its jump target or -1.\<close>

definition instr_roles :: "'f chunk \<Rightarrow> nat \<Rightarrow> verify_role list" where
  "instr_roles c off = (if op_at c off = OP_LINE then [] else op_verify_operands (op_at c off))"

definition instr_end :: "'f chunk \<Rightarrow> nat \<Rightarrow> nat" where
  "instr_end c off = (if op_at c off = OP_LINE then off + 1 + 4 else off + 1 + 2 * length (instr_roles c off))"

definition instr_operand0 :: "'f chunk \<Rightarrow> nat \<Rightarrow> nat" where
  "instr_operand0 c off = (if instr_roles c off \<noteq> [] then read_u16 (code c) (off + 1) else 0)"

fun last_target :: "'f chunk \<Rightarrow> nat \<Rightarrow> nat \<Rightarrow> verify_role list \<Rightarrow> int \<Rightarrow> int" where
  "last_target c fin pos [] t = t"
| "last_target c fin pos (r # rs) t =
     last_target c fin (pos + 2) rs
       (case r of
          VR_JFWD \<Rightarrow> int fin + int (read_u16 (code c) pos)
        | VR_JBACK \<Rightarrow> int fin - int (read_u16 (code c) pos)
        | _ \<Rightarrow> t)"

definition instr_target :: "'f chunk \<Rightarrow> nat \<Rightarrow> int" where
  "instr_target c off = last_target c (instr_end c off) (off + 1) (instr_roles c off) (-1)"

definition instr_effect :: "'f chunk \<Rightarrow> nat \<Rightarrow> stack_effect" where
  "instr_effect c off = op_verify_stack_effect (op_at c off) (int (instr_operand0 c off))"

text \<open>\<open>VISIT\<close>: the height of a successor is recorded once, and must agree after that.\<close>

definition visit :: "bool list \<Rightarrow> int \<Rightarrow> int \<Rightarrow> int list \<times> nat list \<Rightarrow> (int list \<times> nat list) option" where
  "visit is_start d h hw =
     (case hw of (height, work) \<Rightarrow>
        if d < 0 \<or> int (length height) \<le> d \<or> \<not> is_start ! nat d \<or> h < 0 \<or> VM_STACK_MAX < h then None
        else if height ! nat d < 0 then Some (height[nat d := h], nat d # work)
        else if height ! nat d \<noteq> h then None
        else Some (height, work))"

definition successors :: "'f chunk \<Rightarrow> nat \<Rightarrow> int \<Rightarrow> (int \<times> int) list" where
  "successors c off h =
     (let e = instr_effect c off; left = h - se_pops e in
      case se_flow e of
        FL_NEXT \<Rightarrow> [(int (instr_end c off), left + se_pushes e)]
      | FL_BRANCH \<Rightarrow> [(int (instr_end c off), left + se_pushes e), (instr_target c off, left + se_bpushes e)]
      | FL_JUMP \<Rightarrow> [(instr_target c off, left + se_bpushes e)]
      | FL_END \<Rightarrow> [])"

fun visit_all :: "bool list \<Rightarrow> (int \<times> int) list \<Rightarrow> int list \<times> nat list \<Rightarrow> (int list \<times> nat list) option" where
  "visit_all is_start [] hw = Some hw"
| "visit_all is_start ((d, h) # dhs) hw =
     (case visit is_start d h hw of None \<Rightarrow> None | Some hw' \<Rightarrow> visit_all is_start dhs hw')"

text \<open>How much work is left: offsets without a height, and the worklist.\<close>

definition unseen :: "int list \<Rightarrow> nat" where
  "unseen height = card {k. k < length height \<and> height ! k < 0}"

lemma visit_measure:
  "visit is_start d h (height, work) = Some (height', work') \<Longrightarrow>
     2 * unseen height' + length work' \<le> 2 * unseen height + length work"
proof (unfold visit_def, simp split: if_splits, elim conjE)
  assume d: "\<not> d < 0" "\<not> int (length height) \<le> d" and h: "\<not> h < 0" and neg: "height ! nat d < 0"
    and eq: "height[nat d := h] = height'" "nat d # work = work'"
  have nd: "nat d < length height" using d by linarith
  let ?A = "{k. k < length height \<and> height ! k < 0}"
  have "{k. k < length height' \<and> height' ! k < 0} = ?A - {nat d}"
    using h nd eq(1) by (auto simp: nth_list_update split: if_splits)
  moreover have "nat d \<in> ?A" "finite ?A" using neg nd by simp_all
  ultimately have "unseen height' = unseen height - 1" "0 < unseen height"
    by (auto simp: unseen_def card_gt_0_iff)
  then show "2 * unseen height' + length work' \<le> 2 * unseen height + length work" using eq(2) by auto
qed

lemma visit_all_measure:
  "visit_all is_start dhs (height, work) = Some (height', work') \<Longrightarrow>
     2 * unseen height' + length work' \<le> 2 * unseen height + length work"
proof (induction dhs arbitrary: height work)
  case Nil
  then show ?case by simp
next
  case (Cons dh dhs)
  obtain d h where dh: "dh = (d, h)" by (metis surj_pair)
  obtain height1 work1 where v: "visit is_start d h (height, work) = Some (height1, work1)"
    using Cons.prems dh by (auto split: option.splits)
  then have "visit_all is_start dhs (height1, work1) = Some (height', work')" using Cons.prems dh by simp
  from Cons.IH [OF this] visit_measure [OF v] show ?case by linarith
qed

function pass4 :: "'f chunk \<Rightarrow> bool list \<Rightarrow> int list \<Rightarrow> nat list \<Rightarrow> bool" where
  "pass4 c is_start height [] = True"
| "pass4 c is_start height (off # work) =
     (let h = height ! off in
      if h < se_need (instr_effect c off) then False
      else (case visit_all is_start (successors c off h) (height, work) of
              None \<Rightarrow> False
            | Some (height', work') \<Rightarrow> pass4 c is_start height' work'))"
  by pat_completeness auto
termination
  by (relation "measure (\<lambda>(c, s, height, work). 2 * unseen height + length work)")
    (auto dest!: visit_all_measure)

definition chunk_verify :: "'f chunk \<Rightarrow> bool" where
  "chunk_verify c =
     (let n = length (code c) in
      n \<noteq> 0 \<and>
      (case pass1 c 0 (replicate (n + 1) False) [] OP_NULL of
         None \<Rightarrow> False
       | Some (is_start, targets, last_op) \<Rightarrow>
           pass2 is_start n targets \<and> pass3 last_op \<and>
           pass4 c is_start ((replicate n (-1))[0 := 0]) [0]))"

subsection \<open>The control flow of the virtual machine\<close>

text \<open>
  A state is the offset of the next instruction, the height of the operand stack above
  the frame's base, and the error handlers, innermost first, each with its target and
  the height \<open>catch_bp\<close> at which it was set. An error is raised between the pops and the
  pushes of an instruction or after them; the stack is then drained down to
  \<open>catch_bp\<close>, and the error value pushed. \<open>dips\<close> allows an error while the stack is
  below that height.
\<close>

type_synonym vm_state = "nat \<times> int \<times> (int \<times> int) list"

inductive vm_step :: "'f chunk \<Rightarrow> bool \<Rightarrow> vm_state \<Rightarrow> vm_state \<Rightarrow> bool" for c dips where
  fall: "se_flow (instr_effect c off) \<in> {FL_NEXT, FL_BRANCH} \<Longrightarrow> op_at c off \<noteq> OP_TRY_BEGIN \<Longrightarrow>
    op_at c off \<noteq> OP_TRY_END \<Longrightarrow>
    vm_step c dips (off, h, hs)
      (instr_end c off, h - se_pops (instr_effect c off) + se_pushes (instr_effect c off), hs)"
| jump: "se_flow (instr_effect c off) \<in> {FL_BRANCH, FL_JUMP} \<Longrightarrow> op_at c off \<noteq> OP_TRY_BEGIN \<Longrightarrow>
    vm_step c dips (off, h, hs)
      (nat (instr_target c off), h - se_pops (instr_effect c off) + se_bpushes (instr_effect c off), hs)"
| try_begin: "op_at c off = OP_TRY_BEGIN \<Longrightarrow> length hs < MAX_TRY_HANDLERS \<Longrightarrow>
    vm_step c dips (off, h, hs) (instr_end c off, h, (instr_target c off, h) # hs)"
| try_end: "op_at c off = OP_TRY_END \<Longrightarrow> vm_step c dips (off, h, hs) (instr_end c off, h, tl hs)"
| catch: "se_flow (instr_effect c off) \<noteq> FL_END \<Longrightarrow> h - se_pops (instr_effect c off) \<le> x \<Longrightarrow>
    x \<le> h - se_pops (instr_effect c off) + se_pushes (instr_effect c off) \<Longrightarrow> dips \<or> catch_bp \<le> x \<Longrightarrow>
    vm_step c dips (off, h, (t, catch_bp) # hs) (nat t, min x catch_bp + 1, hs)"

abbreviation vm_reach :: "'f chunk \<Rightarrow> bool \<Rightarrow> vm_state \<Rightarrow> bool" where
  "vm_reach c dips \<equiv> rtranclp (vm_step c dips) (0, 0, [])"




subsection \<open>What an accepted chunk satisfies\<close>






























text \<open>The rows of the tables the examples use.\<close>

lemma opcode_bytes [simp]:
  "opcode_of 3 = OP_NUM_ONE" "opcode_of 4 = OP_ADD" "opcode_of 25 = OP_GET_NAME" "opcode_of 35 = OP_POP"
  "opcode_of 40 = OP_RETURN" "opcode_of 54 = OP_TRY_BEGIN" "OP_COUNT = 94"
  by (simp_all add: opcode_of_def opcodes_def OP_COUNT_def)

lemma operand_rows [simp]:
  "op_verify_operands OP_NUM_ONE = []" "op_verify_operands OP_ADD = []" "op_verify_operands OP_GET_NAME = [VR_NAME]"
  "op_verify_operands OP_POP = []" "op_verify_operands OP_RETURN = []" "op_verify_operands OP_TRY_BEGIN = [VR_JFWD]"
  by (simp_all add: op_verify_operands_def)

lemma push_effect:
  "op_verify_stack_effect OP_NUM_ONE v = \<lparr>se_need = 0, se_pops = 0, se_pushes = 1, se_bpushes = 0, se_flow = FL_NEXT\<rparr>"
  "op_verify_stack_effect OP_POP v = \<lparr>se_need = 1, se_pops = 1, se_pushes = 0, se_bpushes = 0, se_flow = FL_NEXT\<rparr>"
  "op_verify_stack_effect OP_ADD v = \<lparr>se_need = 2, se_pops = 2, se_pushes = 1, se_bpushes = 0, se_flow = FL_NEXT\<rparr>"
  "op_verify_stack_effect OP_GET_NAME v = \<lparr>se_need = 0, se_pops = 0, se_pushes = 1, se_bpushes = 0, se_flow = FL_NEXT\<rparr>"
  "op_verify_stack_effect OP_TRY_BEGIN v = \<lparr>se_need = 0, se_pops = 0, se_pushes = 0, se_bpushes = 1, se_flow = FL_BRANCH\<rparr>"
  "op_verify_stack_effect OP_RETURN v = \<lparr>se_need = 0, se_pops = 0, se_pushes = 0, se_bpushes = 0, se_flow = FL_END\<rparr>"
  by (simp_all add: op_verify_stack_effect_def)

lemmas verify_defs = chunk_verify_def pass1.simps pass2_def pass3_def pass4.simps successors_def visit_def instr_effect_def
  instr_target_def instr_operand0_def instr_end_def instr_roles_def op_byte_def read_u16_def VM_STACK_MAX_def chunk_new_def


lemma fall_to:
  assumes "op_at c off = op" and "op_verify_stack_effect op (int (instr_operand0 c off)) = e" and
    "se_flow e = FL_NEXT" and "op \<noteq> OP_TRY_BEGIN" and "op \<noteq> OP_TRY_END" and
    "off' = instr_end c off" and "h' = h - se_pops e + se_pushes e"
  shows "vm_step c dips (off, h, hs) (off', h', hs)"
  using vm_step.fall [of c off dips h hs] assms by (simp add: instr_effect_def)

lemma catch_at:
  assumes "op_at c off = op" and "op_verify_stack_effect op (int (instr_operand0 c off)) = e" and
    "se_flow e \<noteq> FL_END" and "h - se_pops e \<le> x" and "x \<le> h - se_pops e + se_pushes e" and "dips \<or> catch_bp \<le> x" and
    "off' = nat t" and "h' = min x catch_bp + 1"
  shows "vm_step c dips (off, h, (t, catch_bp) # hs) (off', h', hs)"
  using vm_step.catch [of c off h x dips catch_bp t hs] assms by (simp add: instr_effect_def)

lemma try_to:
  assumes "op_at c off = OP_TRY_BEGIN" and "length hs < MAX_TRY_HANDLERS" and "off' = instr_end c off" and "t = instr_target c off"
  shows "vm_step c dips (off, h, hs) (off', h, (t, h) # hs)"
  using vm_step.try_begin [of c off hs dips h] assms by simp

lemma vm_run_nil: "rtranclp (vm_step c dips) s s"
  by (rule rtranclp.rtrancl_refl)

lemma vm_run_cons: "vm_step c dips s s' \<Longrightarrow> rtranclp (vm_step c dips) s' s'' \<Longrightarrow> rtranclp (vm_step c dips) s s''"
  by (rule converse_rtranclp_into_rtranclp)


text \<open>An error raised below the height of its handler.\<close>

definition dip_chunk :: "unit chunk" where
  "dip_chunk = chunk_new\<lparr>code := [3, 3, 54, 6, 0, 35, 35, 25, 0, 0, 40, 4, 4, 40], constants := [VAL_STR ''x'']\<rparr>"

lemma dip_chunk_at:
  "op_at dip_chunk 0 = OP_NUM_ONE" "op_at dip_chunk 1 = OP_NUM_ONE" "op_at dip_chunk 2 = OP_TRY_BEGIN"
  "op_at dip_chunk 5 = OP_POP" "op_at dip_chunk 6 = OP_POP" "op_at dip_chunk 7 = OP_GET_NAME"
  "op_at dip_chunk 11 = OP_ADD" "op_at dip_chunk 12 = OP_ADD"
  "map (instr_end dip_chunk) [0, 1, 2, 5, 6, 7, 11] = [1, 2, 5, 6, 7, 10, 12]" "instr_target dip_chunk 2 = 11"
  by (simp_all add: dip_chunk_def verify_defs)

text \<open>
  C34: the heights are not safe when an error is raised while the stack is below the
  height of its handler: an accepted chunk pops two values inside a \<open>try\<close>, then reads
  an undefined name; its handler, verified at height 3, is entered at height 2, and its
  second addition finds one operand of its frame where it needs two.
\<close>

theorem handler_underflow:
  "chunk_verify dip_chunk \<and> vm_reach dip_chunk True (12, 1, []) \<and> se_need (instr_effect dip_chunk 12) = 2"
proof -
  let ?step = "vm_step dip_chunk True"
  have s1: "?step (0, 0, []) (1, 1, [])"
    by (rule fall_to [OF dip_chunk_at(1) push_effect(1)]) (use dip_chunk_at in simp_all)
  have s2: "?step (1, 1, []) (2, 2, [])"
    by (rule fall_to [OF dip_chunk_at(2) push_effect(1)]) (use dip_chunk_at in simp_all)
  have s3: "?step (2, 2, []) (5, 2, [(11, 2)])"
    by (rule try_to) (use dip_chunk_at in \<open>simp_all add: MAX_TRY_HANDLERS_def\<close>)
  have s4: "?step (5, 2, [(11, 2)]) (6, 1, [(11, 2)])"
    by (rule fall_to [OF dip_chunk_at(4) push_effect(2)]) (use dip_chunk_at in simp_all)
  have s5: "?step (6, 1, [(11, 2)]) (7, 0, [(11, 2)])"
    by (rule fall_to [OF dip_chunk_at(5) push_effect(2)]) (use dip_chunk_at in simp_all)
  have s6: "?step (7, 0, [(11, 2)]) (11, 2, [])"
    by (rule catch_at [OF dip_chunk_at(6) push_effect(4), where x = 1]) simp_all
  have s7: "?step (11, 2, []) (12, 1, [])"
    by (rule fall_to [OF dip_chunk_at(7) push_effect(3)]) (use dip_chunk_at in simp_all)
  have "vm_reach dip_chunk True (12, 1, [])"
    by (rule vm_run_cons [OF s1 vm_run_cons [OF s2 vm_run_cons [OF s3 converse_rtranclp_into_rtranclp
      [OF s4 vm_run_cons [OF s5 vm_run_cons [OF s6 vm_run_cons [OF s7 vm_run_nil]]]]]]])
  moreover have "chunk_verify dip_chunk" by (simp add: dip_chunk_def verify_defs push_effect)
  moreover have "se_need (instr_effect dip_chunk 12) = 2"
    using dip_chunk_at(8) push_effect(3) by (simp add: instr_effect_def)
  ultimately show ?thesis by blast
qed
end
