(* ===== verification/Eigs_Handle.thy ===== *)
theory Eigs_Handle
  imports Eigs_Prelude
begin

text \<open>
  The handle table of \<open>src/eigenscript.c\<close>: a resource is named by a slot and the
  generation at which the slot was handed out. The property refines it to a map from
  handles that are never issued twice. The mutex is left out: every operation holds it
  from start to end, so that operations are atomic.
\<close>

definition HANDLE_TABLE_SIZE :: nat where
  "HANDLE_TABLE_SIZE = 256"

datatype handle_type = HANDLE_STORE | HANDLE_THREAD | HANDLE_CHANNEL | HANDLE_TASK | HANDLE_NET

datatype claim_why =
  HANDLE_CLAIM_OK | HANDLE_CLAIM_GONE | HANDLE_CLAIM_STALE | HANDLE_CLAIM_TYPE | HANDLE_CLAIM_BADVALUE

text \<open>A pointer is a value of the parameter type, \<open>NULL\<close> is \<open>None\<close>.\<close>

record 'p hslot =
  hs_ptr :: "'p option"
  hs_type :: handle_type
  hs_gen :: u32

record 'p htable =
  ht_slots :: "'p hslot list"
  ht_next :: nat

definition handle_init :: "'p htable" where
  "handle_init =
     \<lparr>ht_slots = replicate HANDLE_TABLE_SIZE \<lparr>hs_ptr = None, hs_type = HANDLE_STORE, hs_gen = 0\<rparr>, ht_next = 0\<rparr>"

text \<open>The first free slot from the cursor on, slot 0 excepted.\<close>

definition handle_free_slot :: "'p htable \<Rightarrow> nat option" where
  "handle_free_slot t =
     find (\<lambda>idx. idx \<noteq> 0 \<and> hs_ptr (ht_slots t ! idx) = None)
       (map (\<lambda>i. (ht_next t + i) mod HANDLE_TABLE_SIZE) [0..<HANDLE_TABLE_SIZE])"

definition handle_next_gen :: "u32 \<Rightarrow> u32" where
  "handle_next_gen gen = (let g = gen + 1 in if g = 0 then 1 else g)"

text \<open>The answer is the slot, or -1, with the generation, or 0.\<close>

definition handle_register :: "'p \<Rightarrow> handle_type \<Rightarrow> 'p htable \<Rightarrow> (int \<times> u32) \<times> 'p htable" where
  "handle_register p ty t =
     (case handle_free_slot t of
        None \<Rightarrow> ((-1, 0), t)
      | Some idx \<Rightarrow>
          let g = handle_next_gen (hs_gen (ht_slots t ! idx)) in
          ((int idx, g),
           t\<lparr>ht_slots := (ht_slots t)[idx := \<lparr>hs_ptr = Some p, hs_type = ty, hs_gen = g\<rparr>],
             ht_next := (idx + 1) mod HANDLE_TABLE_SIZE\<rparr>))"

definition handle_in_range :: "int \<Rightarrow> bool" where
  "handle_in_range hid \<longleftrightarrow> 0 < hid \<and> hid < int HANDLE_TABLE_SIZE"

definition handle_lookup :: "int \<Rightarrow> u32 \<Rightarrow> handle_type \<Rightarrow> 'p htable \<Rightarrow> 'p option \<times> claim_why" where
  "handle_lookup hid gen ty t =
     (if \<not> handle_in_range hid then (None, HANDLE_CLAIM_BADVALUE)
      else let sl = ht_slots t ! nat hid in
        if hs_ptr sl = None then (None, HANDLE_CLAIM_GONE)
        else if hs_gen sl \<noteq> gen then (None, HANDLE_CLAIM_STALE)
        else if hs_type sl \<noteq> ty then (None, HANDLE_CLAIM_TYPE)
        else (hs_ptr sl, HANDLE_CLAIM_OK))"

definition handle_lookup_slot :: "int \<Rightarrow> handle_type \<Rightarrow> 'p htable \<Rightarrow> 'p option" where
  "handle_lookup_slot idx ty t =
     (if \<not> handle_in_range idx then None
      else let sl = ht_slots t ! nat idx in
        if hs_ptr sl \<noteq> None \<and> hs_type sl = ty then hs_ptr sl else None)"

definition handle_claim :: "int \<Rightarrow> u32 \<Rightarrow> handle_type \<Rightarrow> 'p htable \<Rightarrow> ('p option \<times> claim_why) \<times> 'p htable" where
  "handle_claim hid gen ty t =
     (if \<not> handle_in_range hid then ((None, HANDLE_CLAIM_GONE), t)
      else let sl = ht_slots t ! nat hid in
        if hs_ptr sl = None then ((None, HANDLE_CLAIM_GONE), t)
        else if hs_gen sl \<noteq> gen then ((None, HANDLE_CLAIM_STALE), t)
        else if hs_type sl \<noteq> ty then ((None, HANDLE_CLAIM_TYPE), t)
        else ((hs_ptr sl, HANDLE_CLAIM_OK), t\<lparr>ht_slots := (ht_slots t)[nat hid := sl\<lparr>hs_ptr := None\<rparr>]\<rparr>))"

definition handle_release :: "int \<Rightarrow> u32 \<Rightarrow> 'p htable \<Rightarrow> 'p htable" where
  "handle_release hid gen t =
     (if \<not> handle_in_range hid then t
      else let sl = ht_slots t ! nat hid in
        if hs_gen sl = gen then t\<lparr>ht_slots := (ht_slots t)[nat hid := sl\<lparr>hs_ptr := None\<rparr>]\<rparr> else t)"

subsection \<open>Sequences of operations, and the map they implement\<close>

datatype 'p hop = H_Register 'p handle_type | H_Claim int u32 handle_type | H_Release int u32

type_synonym handle = "int \<times> u32"

text \<open>The handles issued so far, the latest first, and the table.\<close>

definition hop_step :: "'p hop \<Rightarrow> handle list \<times> 'p htable \<Rightarrow> handle list \<times> 'p htable" where
  "hop_step op s =
     (case s of (issued, t) \<Rightarrow>
        case op of
          H_Register p ty \<Rightarrow>
            (case handle_register p ty t of (h, t') \<Rightarrow> (if fst h < 0 then issued else h # issued, t'))
        | H_Claim hid gen ty \<Rightarrow> (issued, snd (handle_claim hid gen ty t))
        | H_Release hid gen \<Rightarrow> (issued, handle_release hid gen t))"

text \<open>
  The specification: a map from handles to resources. An operation is told the handle
  the table answered; a registration that answers -1 changes nothing.
\<close>

type_synonym 'p hmap = "handle \<Rightarrow> ('p \<times> handle_type) option"

definition hmap_step :: "'p hop \<Rightarrow> handle \<Rightarrow> 'p hmap \<Rightarrow> 'p hmap" where
  "hmap_step op h m =
     (case op of
        H_Register p ty \<Rightarrow> if fst h < 0 then m else m(h \<mapsto> (p, ty))
      | H_Claim hid gen ty \<Rightarrow> if \<exists>p. m (hid, gen) = Some (p, ty) then m((hid, gen) := None) else m
      | H_Release hid gen \<Rightarrow> m((hid, gen) := None))"

definition hop_answer :: "'p hop \<Rightarrow> 'p htable \<Rightarrow> handle" where
  "hop_answer op t = (case op of H_Register p ty \<Rightarrow> fst (handle_register p ty t) | _ \<Rightarrow> (0, 0))"

fun run_hops :: "'p hop list \<Rightarrow> handle list \<times> 'p htable \<Rightarrow> handle list \<times> 'p htable" where
  "run_hops [] s = s"
| "run_hops (op # ops) s = run_hops ops (hop_step op s)"

fun run_hmap :: "'p hop list \<Rightarrow> handle list \<times> 'p htable \<Rightarrow> 'p hmap \<Rightarrow> 'p hmap" where
  "run_hmap [] s m = m"
| "run_hmap (op # ops) s m = run_hmap ops (hop_step op s) (hmap_step op (hop_answer op (snd s)) m)"

definition abs_handles :: "'p htable \<Rightarrow> 'p hmap" where
  "abs_handles t h =
     (if handle_in_range (fst h) \<and> hs_gen (ht_slots t ! nat (fst h)) = snd h
      then map_option (\<lambda>p. (p, hs_type (ht_slots t ! nat (fst h)))) (hs_ptr (ht_slots t ! nat (fst h)))
      else None)"

lemma lookup_abs:
  "fst (handle_lookup hid gen ty t) =
     (case abs_handles t (hid, gen) of Some (p, ty') \<Rightarrow> if ty' = ty then Some p else None | None \<Rightarrow> None)"
  by (auto simp: handle_lookup_def abs_handles_def Let_def split: option.splits)

text \<open>
  After \<open>n\<close> registrations every generation is at most \<open>n\<close>, and every handle issued has
  a slot whose generation is no lower.
\<close>

definition handles_ok :: "nat \<Rightarrow> handle list \<times> 'p htable \<Rightarrow> bool" where
  "handles_ok n s \<longleftrightarrow>
     (case s of (issued, t) \<Rightarrow>
        length (ht_slots t) = HANDLE_TABLE_SIZE \<and> distinct issued \<and>
        (\<forall>k<HANDLE_TABLE_SIZE. unat (hs_gen (ht_slots t ! k)) \<le> n) \<and>
        (\<forall>h\<in>set issued. handle_in_range (fst h) \<and> snd h \<noteq> 0 \<and>
           unat (snd h) \<le> unat (hs_gen (ht_slots t ! nat (fst h)))))"

lemma free_slot_bound:
  assumes "handle_free_slot t = Some idx"
  shows "0 < idx" and "idx < HANDLE_TABLE_SIZE" and "hs_ptr (ht_slots t ! idx) = None"
  using assms by (auto simp: handle_free_slot_def find_Some_iff HANDLE_TABLE_SIZE_def)

lemma next_gen_unat:
  assumes "unat g < 2 ^ 32 - 1"
  shows "unat (handle_next_gen g) = unat g + 1" and "handle_next_gen g \<noteq> 0"
proof -
  have "unat (g + 1) = unat g + 1" using assms by (simp add: unat_word_ariths)
  then show "unat (handle_next_gen g) = unat g + 1" and "handle_next_gen g \<noteq> 0"
    by (auto simp: handle_next_gen_def Let_def)
qed

lemma handles_init: "handles_ok n ([], handle_init)"
  by (simp add: handles_ok_def handle_init_def)

lemma handles_ok_gens:
  assumes "handles_ok n (issued, t)" and "length (ht_slots t') = length (ht_slots t)" and
    "\<And>k. hs_gen (ht_slots t' ! k) = hs_gen (ht_slots t ! k)"
  shows "handles_ok (Suc n) (issued, t')"
  using assms by (auto simp: handles_ok_def le_SucI)

lemma handles_step:
  assumes ok: "handles_ok n s" and n: "n < 2 ^ 32 - 1"
  shows "handles_ok (Suc n) (hop_step op s)"
proof -
  obtain issued t where s: "s = (issued, t)" by fastforce
  have len: "length (ht_slots t) = HANDLE_TABLE_SIZE" using ok s by (simp add: handles_ok_def)
  show ?thesis
  proof (cases op)
    case (H_Register p ty)
    show ?thesis
    proof (cases "handle_free_slot t")
      case None
      then show ?thesis
        using handles_ok_gens [of n issued t t] ok s H_Register by (simp add: hop_step_def handle_register_def)
    next
      case (Some idx)
      note idx = free_slot_bound [OF Some]
      let ?old = "hs_gen (ht_slots t ! idx)"
      let ?g = "handle_next_gen ?old"
      have old: "unat ?old \<le> n" using ok s idx(2) by (simp add: handles_ok_def)
      then have g: "unat ?g = unat ?old + 1" "?g \<noteq> 0" using next_gen_unat [of ?old] n by simp_all
      have "(int idx, ?g) \<notin> set issued" using ok s g(1) by (fastforce simp: handles_ok_def)
      moreover have "handle_in_range (int idx)" using idx by (simp add: handle_in_range_def)
      ultimately show ?thesis
        using ok s idx g old Some H_Register
        by (auto simp: hop_step_def handle_register_def Let_def handles_ok_def nth_list_update le_SucI
            handle_in_range_def)
    qed
  next
    case (H_Claim hid gen ty)
    then show ?thesis
      using ok s len
      by (auto simp: hop_step_def handle_claim_def Let_def nth_list_update handle_in_range_def
          intro!: handles_ok_gens [of n issued t])
  next
    case (H_Release hid gen)
    then show ?thesis
      using ok s len
      by (auto simp: hop_step_def handle_release_def Let_def nth_list_update handle_in_range_def
          intro!: handles_ok_gens [of n issued t])
  qed
qed

lemma abs_upd:
  assumes "length (ht_slots t) = HANDLE_TABLE_SIZE" and "k < HANDLE_TABLE_SIZE" and "ht_slots t' = (ht_slots t)[k := sl]"
  shows "abs_handles t' h =
    (if nat (fst h) = k \<and> handle_in_range (fst h)
     then (if hs_gen sl = snd h then map_option (\<lambda>p. (p, hs_type sl)) (hs_ptr sl) else None)
     else abs_handles t h)"
  using assms by (auto simp: abs_handles_def)

text \<open>An operation that empties the slot of a handle in range.\<close>

lemma abs_drop:
  assumes "length (ht_slots t) = HANDLE_TABLE_SIZE" and "handle_in_range hid" and
    "hs_gen (ht_slots t ! nat hid) = gen"
  shows "abs_handles (t\<lparr>ht_slots := (ht_slots t)[nat hid := (ht_slots t ! nat hid)\<lparr>hs_ptr := None\<rparr>]\<rparr>) =
    (abs_handles t)((hid, gen) := None)"
proof (rule ext)
  fix h :: handle
  have "nat hid < HANDLE_TABLE_SIZE" using assms(2) by (auto simp: handle_in_range_def)
  then show "abs_handles (t\<lparr>ht_slots := (ht_slots t)[nat hid := (ht_slots t ! nat hid)\<lparr>hs_ptr := None\<rparr>]\<rparr>) h =
    ((abs_handles t)((hid, gen) := None)) h"
    using assms abs_upd [OF assms(1), of "nat hid" _ "(ht_slots t ! nat hid)\<lparr>hs_ptr := None\<rparr>" h]
    by (cases h) (auto simp: abs_handles_def handle_in_range_def nat_eq_iff2)
qed

lemma abs_step:
  assumes "handles_ok n (issued, t)" and "n < 2 ^ 32 - 1"
  shows "abs_handles (snd (hop_step op (issued, t))) = hmap_step op (hop_answer op t) (abs_handles t)"
proof (cases op)
  case (H_Register p ty)
  have len: "length (ht_slots t) = HANDLE_TABLE_SIZE" using assms by (simp add: handles_ok_def)
  show ?thesis
  proof (cases "handle_free_slot t")
    case None
    then show ?thesis using H_Register by (simp add: hop_step_def handle_register_def hmap_step_def hop_answer_def)
  next
    case (Some idx)
    note idx = free_slot_bound [OF Some]
    let ?g = "handle_next_gen (hs_gen (ht_slots t ! idx))"
    let ?t = "snd (handle_register p ty t)"
    have at: "ht_slots ?t = (ht_slots t)[idx := \<lparr>hs_ptr = Some p, hs_type = ty, hs_gen = ?g\<rparr>]"
      using Some by (simp add: handle_register_def Let_def)
    have "abs_handles ?t h = ((abs_handles t)((int idx, ?g) \<mapsto> (p, ty))) h" for h
    proof (cases "nat (fst h) = idx \<and> handle_in_range (fst h)")
      case True
      then have "abs_handles t h = None" using idx(3) by (simp add: abs_handles_def)
      moreover have "h = (int idx, ?g) \<longleftrightarrow> snd h = ?g" using True idx(1) by (auto simp: prod_eq_iff)
      ultimately show ?thesis using True abs_upd [OF len idx(2) at, of h] by auto
    next
      case False
      then have "h \<noteq> (int idx, ?g)" using idx by (auto simp: handle_in_range_def)
      then show ?thesis using False abs_upd [OF len idx(2) at, of h] by auto
    qed
    then have "abs_handles ?t = (abs_handles t)((int idx, ?g) \<mapsto> (p, ty))" by blast
    then show ?thesis
      using H_Register Some by (simp add: hop_step_def hmap_step_def hop_answer_def handle_register_def Let_def)
  qed
next
  case (H_Claim hid gen ty)
  have len: "length (ht_slots t) = HANDLE_TABLE_SIZE" using assms by (simp add: handles_ok_def)
  have "(\<exists>p. abs_handles t (hid, gen) = Some (p, ty)) \<longleftrightarrow>
      handle_in_range hid \<and> hs_ptr (ht_slots t ! nat hid) \<noteq> None \<and> hs_gen (ht_slots t ! nat hid) = gen \<and>
      hs_type (ht_slots t ! nat hid) = ty"
    by (auto simp: abs_handles_def)
  then show ?thesis
    using H_Claim abs_drop [OF len, of hid gen]
    by (auto simp: hop_step_def handle_claim_def hmap_step_def Let_def)
next
  case (H_Release hid gen)
  have len: "length (ht_slots t) = HANDLE_TABLE_SIZE" using assms by (simp add: handles_ok_def)
  have "(abs_handles t)((hid, gen) := None) = abs_handles t"
    if "\<not> (handle_in_range hid \<and> hs_gen (ht_slots t ! nat hid) = gen)"
    using that by (auto simp: abs_handles_def fun_eq_iff)
  then show ?thesis
    using H_Release abs_drop [OF len, of hid gen]
    by (auto simp: hop_step_def handle_release_def hmap_step_def Let_def)
qed

lemma run_hops_ok:
  "handles_ok n s \<Longrightarrow> n + length ops \<le> 2 ^ 32 - 1 \<Longrightarrow>
     handles_ok (n + length ops) (run_hops ops s) \<and>
     abs_handles (snd (run_hops ops s)) = run_hmap ops s (abs_handles (snd s))"
proof (induction ops arbitrary: n s)
  case Nil
  then show ?case by simp
next
  case (Cons op ops)
  have n: "n < 2 ^ 32 - 1" using Cons.prems by simp
  have st: "abs_handles (snd (hop_step op s)) = hmap_step op (hop_answer op (snd s)) (abs_handles (snd s))"
    using abs_step [of n "fst s" "snd s" op] Cons.prems n by simp
  from Cons.IH [OF handles_step [OF Cons.prems(1) n, of op]] Cons.prems(2) show ?case
    by (simp add: st)
qed

lemma abs_init: "abs_handles handle_init = (\<lambda>_. None)"
  by (auto simp: abs_handles_def handle_init_def handle_in_range_def nat_less_iff)

text \<open>
  C17: in any sequence of fewer than \<open>2\<^sup>3\<^sup>2\<close> registrations, claims and releases, no
  handle is ever issued twice, none has generation 0, and a lookup answers exactly what
  a map from handles to resources would: a handle of a released or claimed resource, a
  handle of another kind and a forged one all find nothing, whatever its slot holds by
  then.
\<close>
theorem handles_refine_map:
  assumes "length ops < 2 ^ 32" and "run_hops ops ([], handle_init) = (issued, t)"
  shows "distinct issued \<and> (\<forall>h\<in>set issued. handle_in_range (fst h) \<and> snd h \<noteq> 0) \<and>
    fst (handle_lookup hid gen ty t) =
      (case run_hmap ops ([], handle_init) (\<lambda>_. None) (hid, gen) of
         Some (p, ty') \<Rightarrow> if ty' = ty then Some p else None
       | None \<Rightarrow> None)"
proof -
  have "handles_ok (0 + length ops) (run_hops ops ([], handle_init)) \<and>
      abs_handles (snd (run_hops ops ([], handle_init))) = run_hmap ops ([], handle_init) (abs_handles handle_init)"
    using run_hops_ok [OF handles_init, of 0 ops] assms(1) by simp
  then show ?thesis using assms(2) by (simp add: handles_ok_def lookup_abs abs_init)
qed

text \<open>A resource is registered, claimed, and its slot given to another one.\<close>

theorem handles_refine_map_witness:
  "\<exists>t. run_hops [H_Register (7 :: nat) HANDLE_TASK, H_Claim 1 1 HANDLE_TASK] ([], handle_init) = ([(1, 1)], t) \<and>
     fst (handle_lookup 1 1 HANDLE_TASK t) = None"
proof -
  let ?ops = "[H_Register (7 :: nat) HANDLE_TASK, H_Claim 1 1 HANDLE_TASK]"
  obtain issued t where run: "run_hops ?ops ([], handle_init) = (issued, t)" by fastforce
  have reg: "handle_free_slot (handle_init :: nat htable) = Some 1"
    by (simp add: handle_free_slot_def handle_init_def HANDLE_TABLE_SIZE_def upt_conv_Cons)
  have "issued = [(1, 1)]"
    using run reg by (auto simp: hop_step_def handle_register_def Let_def handle_next_gen_def handle_init_def HANDLE_TABLE_SIZE_def)
  moreover have "fst (handle_lookup 1 1 HANDLE_TASK t) = None"
    using handles_refine_map [OF _ run, of 1 1 HANDLE_TASK] reg
    by (auto simp: hop_step_def handle_register_def Let_def handle_next_gen_def handle_init_def HANDLE_TABLE_SIZE_def
        hop_answer_def hmap_step_def)
  ultimately show ?thesis using run by blast
qed

end
