(* ===== verification/Eigs_Error.thy ===== *)
theory Eigs_Error
  imports Eigs_Prelude
begin

text \<open>The kinds of run-time error (\<open>ErrKind\<close> of \<open>src/eigenscript.h\<close>).\<close>

datatype (plugins only: code size) err_kind =
  EK_INTERNAL | EK_UNDEFINED_NAME | EK_TYPE | EK_VALUE | EK_INDEX | EK_PARSE | EK_IO |
  EK_LIMIT | EK_SANDBOX | EK_INTERRUPT | EK_ASSERT | EK_DEADLOCK | EK_USER

end
