(* ===== verification/Eigs_Task.thy ===== *)
theory Eigs_Task
  imports Eigs_Handle Eigs_Slot Eigs_Error
begin

text \<open>
  Tasks and the ready queue of the cooperative scheduler (\<open>src/vm.h\<close>, \<open>src/task.c\<close>):
  both the ready queue and the mailbox of a task are circular buffers. The property
  refines the ready queue to a list: first in first out, or the pick of a seeded
  splitmix64.
\<close>

subsection \<open>Tasks\<close>

datatype task_state = TASK_READY | TASK_RUNNING | TASK_SUSPENDED | TASK_DONE | TASK_DEAD

text \<open>
  What a task runs: a builtin, or a function with its number of parameters. Values and
  the rest of a call frame are parameters; of a frame the scheduler reads the number of
  error handlers set in it.
\<close>

datatype task_fn = TF_BUILTIN | TF_FN nat

record 'f frame =
  fr_try_count :: int
  fr_rest :: 'f

text \<open>The error a task died of: a value, or the pieces of a structured error.\<close>

datatype 'v err = Err_Value 'v | Err_Raised err_kind int

record ('v, 'f) task =
  tk_id :: int
  tk_hgen :: u32
  tk_state :: task_state
  tk_started :: bool
  entry_fn :: task_fn
  args :: "'v list"
  saved_stack :: "'v list"
  saved_frames :: "'f frame list"
  saved_current_line :: int
  join_target :: int
  mbox :: "'v option list"
  mbox_head :: nat
  mbox_count :: nat
  recv_blocked :: bool
  sleeping :: bool
  wake_at :: double
  tk_result :: "'v option"
  tk_has_error :: bool
  error_value :: "'v err option"
  err_unobserved :: bool
  detached :: bool
  spawn_seq :: u64

definition task_new :: "task_fn \<Rightarrow> 'v list \<Rightarrow> task_state \<Rightarrow> ('v, 'f) task" where
  "task_new fn as st =
     \<lparr>tk_id = 0, tk_hgen = 0, tk_state = st, tk_started = False, entry_fn = fn, args = as, saved_stack = [],
       saved_frames = [], saved_current_line = 0, join_target = 0, mbox = [], mbox_head = 0, mbox_count = 0,
       recv_blocked = False, sleeping = False, wake_at = 0, tk_result = None, tk_has_error = False,
       error_value = None, err_unobserved = False, detached = False, spawn_seq = 0\<rparr>"

subsection \<open>Mailboxes\<close>

text \<open>The buffer is doubled, and unrolled, when it is full.\<close>

definition mbox_read :: "('v, 'f) task \<Rightarrow> nat \<Rightarrow> 'v option" where
  "mbox_read t i = mbox t ! ((mbox_head t + i) mod length (mbox t))"

definition mbox_grow :: "('v, 'f) task \<Rightarrow> ('v, 'f) task" where
  "mbox_grow t =
     (if length (mbox t) \<le> mbox_count t
      then let nc = (if mbox t \<noteq> [] then length (mbox t) * 2 else 8) in
        t\<lparr>mbox := map (mbox_read t) [0..<mbox_count t] @ replicate (nc - mbox_count t) None, mbox_head := 0\<rparr>
      else t)"

definition mbox_push :: "'v \<Rightarrow> ('v, 'f) task \<Rightarrow> ('v, 'f) task" where
  "mbox_push msg t0 =
     (let t = mbox_grow t0 in
      t\<lparr>mbox := (mbox t)[(mbox_head t + mbox_count t) mod length (mbox t) := Some msg],
        mbox_count := mbox_count t + 1\<rparr>)"

definition mbox_pop :: "('v, 'f) task \<Rightarrow> 'v option \<times> ('v, 'f) task" where
  "mbox_pop t =
     (if mbox_count t = 0 then (None, t)
      else (mbox t ! mbox_head t,
            t\<lparr>mbox_head := (mbox_head t + 1) mod length (mbox t), mbox_count := mbox_count t - 1\<rparr>))"

text \<open>The messages waiting, the oldest first.\<close>

definition mbox_ok :: "('v, 'f) task \<Rightarrow> bool" where
  "mbox_ok t \<longleftrightarrow>
     mbox_count t \<le> length (mbox t) \<and> (mbox t \<noteq> [] \<longrightarrow> mbox_head t < length (mbox t)) \<and>
     (\<forall>i<mbox_count t. mbox_read t i \<noteq> None)"

definition mbox_msgs :: "('v, 'f) task \<Rightarrow> 'v list" where
  "mbox_msgs t = map (\<lambda>i. the (mbox_read t i)) [0..<mbox_count t]"

lemma ring_inj_le:
  assumes "i < n" and "j \<le> i" and "(h + i) mod n = (h + j) mod (n :: nat)"
  shows "i = j"
proof -
  have "n dvd (h + i) - (h + j)" using assms(2,3) by (simp add: mod_eq_dvd_iff_nat)
  then show ?thesis using assms(1,2) by (auto dest: dvd_imp_le)
qed

lemma ring_inj: "i < n \<Longrightarrow> j < n \<Longrightarrow> (h + i) mod n = (h + j) mod (n :: nat) \<longleftrightarrow> i = j"
  using ring_inj_le [of i n j h] ring_inj_le [of j n i h] by (metis nat_le_linear)

lemma ring_shift: "((h + 1) mod n + i) mod n = (h + Suc i) mod (n :: nat)"
  by (simp add: mod_add_left_eq)

lemma mbox_read_grow:
  assumes "mbox_ok t" and "i < mbox_count t"
  shows "mbox_read (mbox_grow t) i = mbox_read t i"
  using assms by (auto simp: mbox_grow_def Let_def mbox_read_def mbox_ok_def nth_append)

lemma mbox_grow_ok:
  assumes "mbox_ok t"
  shows "mbox_ok (mbox_grow t)" and "mbox_count (mbox_grow t) = mbox_count t"
    and "mbox_count t < length (mbox (mbox_grow t))" and "mbox_msgs (mbox_grow t) = mbox_msgs t"
proof -
  show c: "mbox_count (mbox_grow t) = mbox_count t" by (simp add: mbox_grow_def Let_def)
  show l: "mbox_count t < length (mbox (mbox_grow t))" using assms by (auto simp: mbox_grow_def Let_def mbox_ok_def)
  have "mbox_head (mbox_grow t) < length (mbox (mbox_grow t))"
    using assms l by (auto simp: mbox_grow_def Let_def mbox_ok_def)
  then show "mbox_ok (mbox_grow t)" using assms c l mbox_read_grow [OF assms] by (simp add: mbox_ok_def)
  show "mbox_msgs (mbox_grow t) = mbox_msgs t" using c mbox_read_grow [OF assms] by (simp add: mbox_msgs_def)
qed

lemma mbox_push_ok:
  assumes "mbox_ok t"
  shows "mbox_ok (mbox_push msg t) \<and> mbox_msgs (mbox_push msg t) = mbox_msgs t @ [msg] \<and>
    mbox_count (mbox_push msg t) = mbox_count t + 1"
proof -
  let ?g = "mbox_grow t" and ?p = "mbox_push msg t"
  let ?n = "length (mbox ?g)"
  note g = mbox_grow_ok [OF assms]
  have head: "mbox_head ?g < ?n" using g(1,3) by (auto simp: mbox_ok_def)
  have read: "mbox_read ?p i = (if i = mbox_count t then Some msg else mbox_read ?g i)" if "i < mbox_count t + 1" for i
  proof -
    have "i < ?n" "mbox_count t < ?n" using that g(3) by linarith+
    moreover have "(mbox_head ?g + mbox_count t) mod ?n < ?n" using g(3) by (intro mod_less_divisor) linarith
    ultimately show ?thesis
      using ring_inj [of i ?n "mbox_count t" "mbox_head ?g"] g(2,3)
      by (auto simp: mbox_push_def Let_def mbox_read_def nth_list_update)
  qed
  have c: "mbox_count ?p = mbox_count t + 1" using g(2) by (simp add: mbox_push_def Let_def)
  have "mbox_ok ?p" using g head c read by (auto simp: mbox_ok_def mbox_push_def Let_def less_Suc_eq)
  moreover have "mbox_msgs ?p = mbox_msgs ?g @ [msg]" using c read g(2) by (simp add: mbox_msgs_def)
  ultimately show ?thesis using g(4) c by simp
qed

lemma mbox_pop_ok:
  assumes ok: "mbox_ok t" and n: "mbox_msgs t = m # ms"
  shows "fst (mbox_pop t) = Some m \<and> mbox_ok (snd (mbox_pop t)) \<and> mbox_msgs (snd (mbox_pop t)) = ms"
proof -
  have c: "mbox_count t = Suc (length ms)" using n by (auto simp: mbox_msgs_def dest: arg_cong [where f = length])
  then have l: "mbox t \<noteq> []" "mbox_head t < length (mbox t)" using ok by (auto simp: mbox_ok_def)
  let ?p = "snd (mbox_pop t)"
  have read: "mbox_read ?p i = mbox_read t (Suc i)" for i
    using c ring_shift [of "mbox_head t" "length (mbox t)" i] by (simp add: mbox_pop_def mbox_read_def)
  have cp: "mbox_count ?p = length ms" using c by (simp add: mbox_pop_def)
  have at: "mbox_msgs t ! i = the (mbox_read t i)" if "i < mbox_count t" for i using that by (simp add: mbox_msgs_def)
  have "mbox_msgs ?p = ms"
  proof (rule nth_equalityI)
    show "length (mbox_msgs ?p) = length ms" using cp by (simp add: mbox_msgs_def)
    fix i assume "i < length (mbox_msgs ?p)"
    then show "mbox_msgs ?p ! i = ms ! i" using at [of "Suc i"] cp c n read by (simp add: mbox_msgs_def)
  qed
  moreover have "mbox_ok ?p"
    using ok c cp l read by (auto simp: mbox_ok_def) (auto simp: mbox_pop_def)
  moreover have "fst (mbox_pop t) = Some m"
    using at [of 0] ok c n l by (auto simp: mbox_pop_def mbox_read_def mbox_ok_def)
  ultimately show ?thesis by blast
qed

lemma mbox_msgs_empty: "mbox_msgs t = [] \<longleftrightarrow> mbox_count t = 0"
  by (simp add: mbox_msgs_def)

lemma mbox_new [simp]: "mbox_ok (task_new fn as st)" "mbox_msgs (task_new fn as st) = []"
  by (simp_all add: mbox_ok_def mbox_msgs_def task_new_def)

subsection \<open>The ready queue\<close>

abbreviation TASK_READY_MAX :: nat where
  "TASK_READY_MAX \<equiv> HANDLE_TABLE_SIZE"

datatype sched_cause =
  SCAUSE_SPAWN | SCAUSE_YIELD | SCAUSE_SLEEP_WAKE | SCAUSE_JOIN_RELEASE | SCAUSE_KILL_RELEASE |
  SCAUSE_RECV_WAKE | SCAUSE_DEADLOCK

definition sched_cause_name :: "sched_cause \<Rightarrow> string" where
  "sched_cause_name c =
     (case c of SCAUSE_SPAWN \<Rightarrow> ''spawn'' | SCAUSE_YIELD \<Rightarrow> ''yield'' | SCAUSE_SLEEP_WAKE \<Rightarrow> ''sleep-wake''
      | SCAUSE_JOIN_RELEASE \<Rightarrow> ''join-release'' | SCAUSE_KILL_RELEASE \<Rightarrow> ''kill-release''
      | SCAUSE_RECV_WAKE \<Rightarrow> ''recv-wake'' | SCAUSE_DEADLOCK \<Rightarrow> ''deadlock'')"

record ('v, 'f) sched =
  ready :: "int list"
  ready_cause :: "sched_cause list"
  rhead :: nat
  rcount :: nat
  s_current :: int
  s_live :: int
  s_active :: bool
  dead_letters :: nat
  detached_err_count :: nat
  spawn_counter :: u64
  s_now :: double
  seeded :: bool
  rng_state :: u64
  pop_cause :: sched_cause
  s_trace :: "(double \<times> int \<times> sched_cause) list"
  main_task :: "('v, 'f) task"

definition sched_new :: "('v, 'f) sched" where
  "sched_new =
     \<lparr>ready = replicate TASK_READY_MAX 0, ready_cause = replicate TASK_READY_MAX SCAUSE_SPAWN, rhead = 0,
       rcount = 0, s_current = 0, s_live = 0, s_active = False, dead_letters = 0, detached_err_count = 0,
       spawn_counter = 0, s_now = 0, seeded = False, rng_state = 0, pop_cause = SCAUSE_SPAWN, s_trace = [],
       main_task = task_new TF_BUILTIN [] TASK_RUNNING\<rparr>"

text \<open>The slot of the \<open>k\<close>-th entry, and the store of an entry with its cause.\<close>

definition rslot :: "('v, 'f) sched \<Rightarrow> nat \<Rightarrow> nat" where
  "rslot s k = (rhead s + k) mod TASK_READY_MAX"

definition ready_put :: "nat \<Rightarrow> int \<times> sched_cause \<Rightarrow> ('v, 'f) sched \<Rightarrow> ('v, 'f) sched" where
  "ready_put k e s = s\<lparr>ready := (ready s)[rslot s k := fst e], ready_cause := (ready_cause s)[rslot s k := snd e]\<rparr>"

definition ready_at :: "('v, 'f) sched \<Rightarrow> nat \<Rightarrow> int \<times> sched_cause" where
  "ready_at s k = (ready s ! rslot s k, ready_cause s ! rslot s k)"

definition sched_ready_push :: "int \<Rightarrow> sched_cause \<Rightarrow> ('v, 'f) sched \<Rightarrow> ('v, 'f) sched" where
  "sched_ready_push tid cause s =
     (if TASK_READY_MAX \<le> rcount s then s else (ready_put (rcount s) (tid, cause) s)\<lparr>rcount := rcount s + 1\<rparr>)"

text \<open>One compacting pass: \<open>w\<close> entries are kept of the first \<open>k\<close>.\<close>

fun ready_compact :: "int \<Rightarrow> nat \<Rightarrow> nat \<Rightarrow> nat \<Rightarrow> ('v, 'f) sched \<Rightarrow> nat \<times> ('v, 'f) sched" where
  "ready_compact tid 0 k w s = (w, s)"
| "ready_compact tid (Suc n) k w s =
     (if fst (ready_at s k) \<noteq> tid then ready_compact tid n (k + 1) (w + 1) (ready_put w (ready_at s k) s)
      else ready_compact tid n (k + 1) w s)"

definition sched_ready_remove :: "int \<Rightarrow> ('v, 'f) sched \<Rightarrow> ('v, 'f) sched" where
  "sched_ready_remove tid s =
     (case ready_compact tid (rcount s) 0 0 s of (w, s') \<Rightarrow> s'\<lparr>rcount := w\<rparr>)"

definition splitmix64 :: "u64 \<Rightarrow> u64" where
  "splitmix64 z0 =
     (let z1 = (z0 XOR drop_bit 30 z0) * 0xBF58476D1CE4E5B9;
          z2 = (z1 XOR drop_bit 27 z1) * 0x94D049BB133111EB in
      z2 XOR drop_bit 31 z2)"

definition sched_rng_next :: "('v, 'f) sched \<Rightarrow> u64 \<times> ('v, 'f) sched" where
  "sched_rng_next s =
     (let z = rng_state s + 0x9E3779B97F4A7C15 in (splitmix64 z, s\<lparr>rng_state := z\<rparr>))"

text \<open>The suffix after a picked entry moves down by one.\<close>

fun ready_shift :: "nat \<Rightarrow> nat \<Rightarrow> ('v, 'f) sched \<Rightarrow> ('v, 'f) sched" where
  "ready_shift 0 k s = s"
| "ready_shift (Suc n) k s = ready_shift n (k + 1) (ready_put k (ready_at s (k + 1)) s)"

definition sched_ready_pop :: "('v, 'f) sched \<Rightarrow> int \<times> ('v, 'f) sched" where
  "sched_ready_pop s =
     (if rcount s = 0 then (-1, s)
      else if \<not> seeded s \<or> rcount s = 1
      then (fst (ready_at s 0),
            s\<lparr>pop_cause := snd (ready_at s 0), rhead := (rhead s + 1) mod TASK_READY_MAX, rcount := rcount s - 1\<rparr>)
      else
        (case sched_rng_next s of (r, s1) \<Rightarrow>
           let idx = unat (r mod of_nat (rcount s));
               s2 = s1\<lparr>pop_cause := snd (ready_at s1 idx)\<rparr>;
               s3 = ready_shift (rcount s - 1 - idx) idx s2 in
           (fst (ready_at s1 idx), s3\<lparr>rcount := rcount s - 1\<rparr>)))"

subsection \<open>The ready queue is a list\<close>

definition ready_ok :: "('v, 'f) sched \<Rightarrow> bool" where
  "ready_ok s \<longleftrightarrow>
     length (ready s) = TASK_READY_MAX \<and> length (ready_cause s) = TASK_READY_MAX \<and>
     rhead s < TASK_READY_MAX \<and> rcount s \<le> TASK_READY_MAX"

definition ready_list :: "('v, 'f) sched \<Rightarrow> (int \<times> sched_cause) list" where
  "ready_list s = map (ready_at s) [0..<rcount s]"

lemma table_size_pos [simp]: "0 < HANDLE_TABLE_SIZE"
  by (simp add: HANDLE_TABLE_SIZE_def)

lemma rslot_bound [simp]: "rslot s k < HANDLE_TABLE_SIZE"
  by (simp add: rslot_def)

lemma rslot_put [simp]: "rslot (ready_put w e s) k = rslot s k"
  by (simp add: rslot_def ready_put_def)

lemma ready_put_fields [simp]:
  "rcount (ready_put w e s) = rcount s" "rhead (ready_put w e s) = rhead s"
  "length (ready (ready_put w e s)) = length (ready s)"
  "length (ready_cause (ready_put w e s)) = length (ready_cause s)"
  by (simp_all add: ready_put_def)

lemma ready_at_put:
  assumes "ready_ok s" and "i < TASK_READY_MAX" and "w < TASK_READY_MAX"
  shows "ready_at (ready_put w e s) i = (if i = w then e else ready_at s i)"
proof -
  have "rslot s i = rslot s w \<longleftrightarrow> i = w" using assms by (simp add: rslot_def ring_inj)
  then show ?thesis
    using assms(1) rslot_bound [of s w]
    unfolding ready_at_def rslot_put by (auto simp: ready_put_def ready_ok_def nth_list_update)
qed

lemma ready_ok_put [simp]: "ready_ok (ready_put w e s) = ready_ok s"
  by (simp add: ready_ok_def)

lemma ready_at_frame:
  "ready s' = ready s \<Longrightarrow> ready_cause s' = ready_cause s \<Longrightarrow> rhead s' = rhead s \<Longrightarrow> ready_at s' = ready_at s"
  by (simp add: fun_eq_iff ready_at_def rslot_def)

lemma push_list:
  assumes "ready_ok s" and "length (ready_list s) < TASK_READY_MAX"
  shows "ready_ok (sched_ready_push tid cause s) \<and>
    ready_list (sched_ready_push tid cause s) = ready_list s @ [(tid, cause)]"
proof -
  have n: "rcount s < TASK_READY_MAX" using assms(2) by (simp add: ready_list_def)
  let ?p = "ready_put (rcount s) (tid, cause) s"
  have s': "sched_ready_push tid cause s = ?p\<lparr>rcount := Suc (rcount s)\<rparr>" using n by (simp add: sched_ready_push_def)
  have at: "ready_at (?p\<lparr>rcount := Suc (rcount s)\<rparr>) = ready_at ?p" by (rule ready_at_frame) simp_all
  have "ready_at ?p i = ready_at s i" if "i < rcount s" for i
    using ready_at_put [OF assms(1), of i "rcount s"] that n by simp
  moreover have "ready_at ?p (rcount s) = (tid, cause)" using ready_at_put [OF assms(1), of "rcount s" "rcount s"] n by simp
  moreover have "ready_ok (?p\<lparr>rcount := Suc (rcount s)\<rparr>)" using assms(1) n by (simp add: ready_ok_def)
  ultimately show ?thesis unfolding s' by (simp add: ready_list_def at)
qed

text \<open>What an operation on the queue leaves alone.\<close>

definition ring_frame :: "('v, 'f) sched \<Rightarrow> ('v, 'f) sched \<Rightarrow> bool" where
  "ring_frame s s' \<longleftrightarrow>
     s_current s' = s_current s \<and> s_live s' = s_live s \<and> s_active s' = s_active s \<and>
     dead_letters s' = dead_letters s \<and> detached_err_count s' = detached_err_count s \<and>
     spawn_counter s' = spawn_counter s \<and> s_now s' = s_now s \<and> seeded s' = seeded s \<and>
     s_trace s' = s_trace s \<and> main_task s' = main_task s"

lemma ring_frame_put: "ring_frame s (ready_put k e s)"
  by (simp add: ring_frame_def ready_put_def)

lemma ring_frame_trans: "ring_frame a b \<Longrightarrow> ring_frame b d \<Longrightarrow> ring_frame a d"
  by (simp add: ring_frame_def)

lemma push_frame: "ring_frame s (sched_ready_push tid cause s)"
  by (simp add: sched_ready_push_def ring_frame_def ready_put_def)

lemma compact_list:
  "ready_compact tid n k w s = (w', s') \<Longrightarrow> ready_ok s \<Longrightarrow> w \<le> k \<Longrightarrow> k + n \<le> TASK_READY_MAX \<Longrightarrow>
     ready_ok s' \<and> w' \<le> k + n \<and> ring_frame s s' \<and> rng_state s' = rng_state s \<and>
     map (ready_at s') [0..<w'] =
       map (ready_at s) [0..<w] @ filter (\<lambda>e. fst e \<noteq> tid) (map (ready_at s) [k..<k + n])"
proof (induction n arbitrary: k w s)
  case 0
  then show ?case by (simp add: ring_frame_def)
next
  case (Suc n)
  have up: "[k..<Suc (k + n)] = k # [Suc k..<Suc (k + n)]" by (simp add: upt_rec)
  show ?case
  proof (cases "fst (ready_at s k) = tid")
    case True
    then show ?thesis using Suc.IH [of "k + 1" w s] Suc.prems by (simp add: up del: upt_Suc)
  next
    case False
    let ?p = "ready_put w (ready_at s k) s"
    have run: "ready_compact tid n (k + 1) (w + 1) ?p = (w', s')" using Suc.prems(1) False by simp
    have at: "ready_at ?p i = (if i = w then ready_at s k else ready_at s i)" if "i < TASK_READY_MAX" for i
      using ready_at_put [OF Suc.prems(2) that, of w] Suc.prems(3,4) by simp
    have low: "map (ready_at ?p) [0..<w + 1] = map (ready_at s) [0..<w] @ [ready_at s k]"
      using at Suc.prems(3,4) by simp
    have high: "map (ready_at ?p) [Suc k..<Suc (k + n)] = map (ready_at s) [Suc k..<Suc (k + n)]"
      by (rule map_cong [OF refl]) (use at Suc.prems(3,4) in auto)
    have pre: "ready_ok ?p" "w + 1 \<le> k + 1" "k + 1 + n \<le> TASK_READY_MAX" using Suc.prems by simp_all
    have "rng_state ?p = rng_state s" by (simp add: ready_put_def)
    with Suc.IH [OF run pre] False low high ring_frame_trans [OF ring_frame_put [of s w "ready_at s k"]] show ?thesis
      by (simp add: up del: upt_Suc)
  qed
qed

lemma remove_list:
  assumes "ready_ok s"
  shows "ready_ok (sched_ready_remove tid s) \<and> ring_frame s (sched_ready_remove tid s) \<and>
    ready_list (sched_ready_remove tid s) = filter (\<lambda>e. fst e \<noteq> tid) (ready_list s)"
proof -
  obtain w s' where run: "ready_compact tid (rcount s) 0 0 s = (w, s')" by fastforce
  have c: "ready_ok s'" "w \<le> rcount s" "ring_frame s s'"
      "map (ready_at s') [0..<w] = filter (\<lambda>e. fst e \<noteq> tid) (ready_list s)"
    using compact_list [OF run assms] assms by (auto simp: ready_ok_def ready_list_def)
  have at: "ready_at (s'\<lparr>rcount := w\<rparr>) = ready_at s'" by (rule ready_at_frame) simp_all
  have "ring_frame s (s'\<lparr>rcount := w\<rparr>)" using c(3) by (simp add: ring_frame_def)
  moreover have "ready_ok (s'\<lparr>rcount := w\<rparr>)" using c(1,2) assms by (simp add: ready_ok_def)
  ultimately show ?thesis using run c(4) by (simp add: sched_ready_remove_def ready_list_def at)
qed

lemma shift_list:
  "ready_ok s \<Longrightarrow> k + n < TASK_READY_MAX \<Longrightarrow>
     ready_ok (ready_shift n k s) \<and> ring_frame s (ready_shift n k s) \<and> rhead (ready_shift n k s) = rhead s \<and>
     rng_state (ready_shift n k s) = rng_state s \<and> pop_cause (ready_shift n k s) = pop_cause s \<and>
     (\<forall>i<TASK_READY_MAX. ready_at (ready_shift n k s) i =
        (if k \<le> i \<and> i < k + n then ready_at s (i + 1) else ready_at s i))"
proof (induction n arbitrary: k s)
  case 0
  then show ?case by (auto simp: ring_frame_def)
next
  case (Suc n)
  let ?p = "ready_put k (ready_at s (k + 1)) s"
  have at: "ready_at ?p i = (if i = k then ready_at s (k + 1) else ready_at s i)" if "i < TASK_READY_MAX" for i
    using ready_at_put [OF Suc.prems(1) that, of k] Suc.prems(2) by simp
  have pre: "ready_ok ?p" "k + 1 + n < TASK_READY_MAX" using Suc.prems by simp_all
  have f: "rng_state ?p = rng_state s" "pop_cause ?p = pop_cause s" by (simp_all add: ready_put_def)
  note ih = Suc.IH [OF pre]
  have "ready_at (ready_shift n (k + 1) ?p) i = (if k \<le> i \<and> i < k + Suc n then ready_at s (i + 1) else ready_at s i)"
    if "i < TASK_READY_MAX" for i
    using ih at [of i] at [of "i + 1"] that Suc.prems(2) by (cases "i = k") auto
  moreover have "ring_frame s (ready_shift n (k + 1) ?p)" using ih ring_frame_trans [OF ring_frame_put] by blast
  ultimately show ?case using ih f by simp
qed

text \<open>The position the next pop takes.\<close>

definition next_pick :: "('v, 'f) sched \<Rightarrow> nat" where
  "next_pick s =
     (if \<not> seeded s \<or> length (ready_list s) = 1 then 0
      else unat (splitmix64 (rng_state s + 0x9E3779B97F4A7C15) mod of_nat (length (ready_list s))))"

definition next_rng :: "('v, 'f) sched \<Rightarrow> u64" where
  "next_rng s =
     (if \<not> seeded s \<or> length (ready_list s) = 1 then rng_state s else rng_state s + 0x9E3779B97F4A7C15)"

lemma pop_empty: "ready_list s = [] \<Longrightarrow> sched_ready_pop s = (-1, s)"
  by (simp add: ready_list_def sched_ready_pop_def)

lemma pop_list:
  assumes ok: "ready_ok s" and ne: "ready_list s \<noteq> []"
  defines "q \<equiv> ready_list s" and "i \<equiv> next_pick s" and "s' \<equiv> snd (sched_ready_pop s)"
  shows "i < length q \<and> fst (sched_ready_pop s) = fst (q ! i) \<and> pop_cause s' = snd (q ! i) \<and>
    ready_list s' = take i q @ drop (Suc i) q \<and> ready_ok s' \<and> ring_frame s s' \<and> rng_state s' = next_rng s"
proof -
  have n: "0 < rcount s" "rcount s \<le> TASK_READY_MAX" "length q = rcount s"
    using ok ne by (auto simp: ready_ok_def ready_list_def q_def)
  have at: "q ! k = ready_at s k" if "k < rcount s" for k using that by (simp add: q_def ready_list_def)
  show ?thesis
  proof (cases "\<not> seeded s \<or> rcount s = 1")
    case True
    let ?p = "s\<lparr>pop_cause := snd (ready_at s 0), rhead := (rhead s + 1) mod TASK_READY_MAX, rcount := rcount s - 1\<rparr>"
    have i: "i = 0" using True n(3) by (simp add: i_def next_pick_def q_def)
    have s': "s' = ?p" using True n by (simp add: s'_def sched_ready_pop_def)
    have "ready_at ?p k = ready_at s (Suc k)" for k by (simp add: ready_at_def rslot_def mod_add_left_eq)
    then have "ready_list s' = drop 1 q"
      unfolding s' using n by (intro nth_equalityI) (simp_all add: ready_list_def at)
    moreover have "ready_ok s'" "ring_frame s s'" unfolding s' using ok n by (simp_all add: ready_ok_def ring_frame_def)
    moreover have "rng_state s' = next_rng s" unfolding s' using True n(3) by (simp add: next_rng_def q_def)
    ultimately show ?thesis using True n at [of 0] s' i by (simp add: sched_ready_pop_def)
  next
    case False
    let ?r = "splitmix64 (rng_state s + 0x9E3779B97F4A7C15)"
    let ?s1 = "snd (sched_rng_next s)"
    let ?s2 = "?s1\<lparr>pop_cause := snd (ready_at ?s1 i)\<rparr>"
    let ?s3 = "ready_shift (rcount s - 1 - i) i ?s2"
    have small: "unat (of_nat (rcount s) :: u64) = rcount s"
      using n(2) by (simp add: unat_of_nat HANDLE_TABLE_SIZE_def)
    have i_eq: "i = unat (?r mod of_nat (rcount s))"
      using False n(3) by (simp add: i_def next_pick_def q_def)
    then have i: "i < rcount s" using n(1) small by (simp add: unat_mod)
    have s1: "ready_at ?s1 = ready_at s" by (rule ready_at_frame) (simp_all add: sched_rng_next_def Let_def)
    have s2: "ready_at ?s2 = ready_at s" unfolding s1 [symmetric] by (rule ready_at_frame) simp_all
    have ok2: "ready_ok ?s2" "ring_frame s ?s2"
      using ok by (simp_all add: ready_ok_def ring_frame_def sched_rng_next_def Let_def)
    have b: "i + (rcount s - 1 - i) < TASK_READY_MAX" using i n(2) by linarith
    note sh = shift_list [OF ok2(1) b]
    have s': "s' = ?s3\<lparr>rcount := rcount s - 1\<rparr>" and id': "fst (sched_ready_pop s) = fst (ready_at s i)"
      using False n(1) i_eq s1 by (simp_all add: s'_def sched_ready_pop_def sched_rng_next_def Let_def)
    have at3: "ready_at s' = ready_at ?s3" unfolding s' by (rule ready_at_frame) simp_all
    have "ready_list s' = take i q @ drop (Suc i) q"
    proof (rule nth_equalityI)
      show "length (ready_list s') = length (take i q @ drop (Suc i) q)"
        using i n(3) s' by (simp add: ready_list_def)
      fix k assume "k < length (ready_list s')"
      then have k: "k < rcount s - 1" by (simp add: s' ready_list_def)
      then have "ready_list s' ! k = ready_at ?s3 k" by (simp add: ready_list_def at3) (simp add: s')
      also have "\<dots> = (if i \<le> k then ready_at s (Suc k) else ready_at s k)" using sh k n(2) i s2 by simp
      also have "\<dots> = (take i q @ drop (Suc i) q) ! k" using k i n(3) at by (simp add: nth_append)
      finally show "ready_list s' ! k = (take i q @ drop (Suc i) q) ! k" .
    qed
    moreover have "ready_ok s'" using sh n(2) unfolding s' by (simp add: ready_ok_def)
    moreover have "ring_frame s s'"
      using sh ring_frame_trans [OF ok2(2)] unfolding s' by (simp add: ring_frame_def)
    moreover have "pop_cause s' = snd (q ! i)" using sh at [OF i] s1 unfolding s' by simp
    moreover have "rng_state s' = next_rng s"
      using sh False n(3) unfolding s' by (simp add: next_rng_def q_def sched_rng_next_def Let_def)
    ultimately show ?thesis using i n(3) id' at [OF i] by simp
  qed
qed

subsection \<open>Sequences of operations on the queue\<close>

datatype rq_op = RQ_Push int sched_cause | RQ_Remove int | RQ_Pop

definition rq_step :: "rq_op \<Rightarrow> ('v, 'f) sched \<Rightarrow> int list \<times> ('v, 'f) sched" where
  "rq_step op s =
     (case op of
        RQ_Push tid cause \<Rightarrow> ([], sched_ready_push tid cause s)
      | RQ_Remove tid \<Rightarrow> ([], sched_ready_remove tid s)
      | RQ_Pop \<Rightarrow> (case sched_ready_pop s of (tid, s') \<Rightarrow> ([tid], s')))"

text \<open>The same on a list, the state of the generator, and whether a seed is installed.\<close>

type_synonym rq_list = "(int \<times> sched_cause) list \<times> u64"

definition list_pick :: "bool \<Rightarrow> rq_list \<Rightarrow> nat" where
  "list_pick sd q =
     (if \<not> sd \<or> length (fst q) = 1 then 0
      else unat (splitmix64 (snd q + 0x9E3779B97F4A7C15) mod of_nat (length (fst q))))"

definition list_step :: "bool \<Rightarrow> rq_op \<Rightarrow> rq_list \<Rightarrow> int list \<times> rq_list" where
  "list_step sd op q =
     (case op of
        RQ_Push tid cause \<Rightarrow> ([], (if length (fst q) < TASK_READY_MAX then fst q @ [(tid, cause)] else fst q, snd q))
      | RQ_Remove tid \<Rightarrow> ([], (filter (\<lambda>e. fst e \<noteq> tid) (fst q), snd q))
      | RQ_Pop \<Rightarrow>
          if fst q = [] then ([-1], q)
          else ([fst (fst q ! list_pick sd q)],
                (take (list_pick sd q) (fst q) @ drop (Suc (list_pick sd q)) (fst q),
                 if \<not> sd \<or> length (fst q) = 1 then snd q else snd q + 0x9E3779B97F4A7C15)))"

fun run_rq :: "('op \<Rightarrow> 's \<Rightarrow> int list \<times> 's) \<Rightarrow> 'op list \<Rightarrow> 's \<Rightarrow> int list \<times> 's" where
  "run_rq step [] s = ([], s)"
| "run_rq step (op # ops) s =
     (case step op s of (a, s1) \<Rightarrow> (case run_rq step ops s1 of (b, s2) \<Rightarrow> (a @ b, s2)))"

definition rq_abs :: "('v, 'f) sched \<Rightarrow> rq_list" where
  "rq_abs s = (ready_list s, rng_state s)"

lemma length_ready_list: "ready_ok s \<Longrightarrow> length (ready_list s) \<le> TASK_READY_MAX"
  by (simp add: ready_ok_def ready_list_def)

lemma push_full: "length (ready_list s) = TASK_READY_MAX \<Longrightarrow> sched_ready_push tid cause s = s"
  by (simp add: ready_list_def sched_ready_push_def)

lemma push_rng: "rng_state (sched_ready_push tid cause s) = rng_state s"
  by (simp add: sched_ready_push_def ready_put_def)

lemma remove_rng:
  assumes "ready_ok s"
  shows "rng_state (sched_ready_remove tid s) = rng_state s"
proof -
  obtain w s' where run: "ready_compact tid (rcount s) 0 0 s = (w, s')" by fastforce
  then show ?thesis using compact_list [OF run assms] assms by (simp add: sched_ready_remove_def ready_ok_def)
qed

lemma rq_step_list:
  assumes "ready_ok s"
  shows "fst (rq_step op s) = fst (list_step (seeded s) op (rq_abs s)) \<and> ready_ok (snd (rq_step op s)) \<and>
    rq_abs (snd (rq_step op s)) = snd (list_step (seeded s) op (rq_abs s)) \<and> seeded (snd (rq_step op s)) = seeded s"
proof (cases op)
  case (RQ_Push tid cause)
  show ?thesis
  proof (cases "length (ready_list s) < TASK_READY_MAX")
    case True
    then show ?thesis
      using RQ_Push push_list [OF assms True, of tid cause] push_frame [of s tid cause] push_rng [of tid cause s]
      by (simp add: rq_step_def list_step_def rq_abs_def ring_frame_def)
  next
    case False
    then have "length (ready_list s) = TASK_READY_MAX" using length_ready_list [OF assms] by linarith
    then show ?thesis using RQ_Push push_full [of s tid cause] assms by (simp add: rq_step_def list_step_def rq_abs_def)
  qed
next
  case (RQ_Remove tid)
  then show ?thesis
    using remove_list [OF assms, of tid] remove_rng [OF assms, of tid]
    by (simp add: rq_step_def list_step_def rq_abs_def ring_frame_def)
next
  case RQ_Pop
  show ?thesis
  proof (cases "ready_list s = []")
    case True
    then show ?thesis using RQ_Pop pop_empty [OF True] assms by (simp add: rq_step_def list_step_def rq_abs_def)
  next
    case False
    have "list_pick (seeded s) (rq_abs s) = next_pick s" by (simp add: list_pick_def next_pick_def rq_abs_def)
    then show ?thesis
      using RQ_Pop pop_list [OF assms False] False
      by (simp add: rq_step_def list_step_def rq_abs_def ring_frame_def next_rng_def split_beta)
  qed
qed

lemma run_rq_list:
  "ready_ok s \<Longrightarrow>
     fst (run_rq rq_step ops s) = fst (run_rq (list_step (seeded s)) ops (rq_abs s)) \<and>
     rq_abs (snd (run_rq rq_step ops s)) = snd (run_rq (list_step (seeded s)) ops (rq_abs s))"
proof (induction ops arbitrary: s)
  case Nil
  then show ?case by simp
next
  case (Cons op ops)
  from rq_step_list [OF Cons.prems, of op] Cons.IH [of "snd (rq_step op s)"] show ?case
    by (simp add: split_beta)
qed

lemma new_ready_ok: "ready_ok (sched_new\<lparr>seeded := sd, rng_state := r\<rparr>)"
  by (simp add: ready_ok_def sched_new_def)

text \<open>
  C18: over any sequence of pushes, removals and pops, the circular ready queue answers
  exactly what a list would: without a seed a pop takes the oldest entry; with one it
  takes the entry the splitmix64 sequence of the seed names, and keeps the others in
  their order; a removal keeps the order of the rest.
\<close>
theorem ready_queue_refines_list:
  "let s = sched_new\<lparr>seeded := sd, rng_state := seed\<rparr> :: ('v, 'f) sched; r = run_rq rq_step ops s;
       a = run_rq (list_step sd) ops ([], seed) in
     fst r = fst a \<and> ready_list (snd r) = fst (snd a) \<and> rng_state (snd r) = snd (snd a)"
proof -
  let ?s = "sched_new\<lparr>seeded := sd, rng_state := seed\<rparr> :: ('v, 'f) sched"
  have "rq_abs ?s = ([], seed)" "seeded ?s = sd" by (simp_all add: rq_abs_def ready_list_def sched_new_def)
  then show ?thesis
    using run_rq_list [where s = ?s and ops = ops, OF new_ready_ok] by (simp add: rq_abs_def Let_def prod_eq_iff)
qed

end
