(* ===== verification/Eigs_Scheduler.thy ===== *)
theory Eigs_Scheduler
  imports Eigs_Task
begin

text \<open>
  The cooperative scheduler (\<open>src/task.c\<close>) with the \<open>task_*\<close> builtins that drive it
  (\<open>src/builtins.c\<close>) and the places where the interpreter loop suspends and resumes
  (\<open>src/vm.c\<close>). What a task computes between two calls of these builtins is arbitrary.
\<close>

subsection \<open>The state\<close>

text \<open>Values: null, ids and flags, clock readings, and others, a parameter. Copies are values.\<close>

datatype 'v tval = TV_Null | TV_Num int | TV_Real double | TV_Other 'v

text \<open>A task is executing, the trampoline is about to pick, or the program has its result.\<close>

datatype 'v phase = PH_Task | PH_Pick | PH_Done "'v tval option"

text \<open>
  The stack of the machine has its top at the end. \<open>g_task_sched\<close> is \<open>NULL\<close> while
  \<open>has_sched\<close> is false; \<open>in_tramp\<close> holds from the entry of the trampoline on.
\<close>

record ('v, 'f) sys =
  has_sched :: bool
  sch :: "('v tval, 'f) sched"
  htab :: "('v tval, 'f) task htable"
  vm_stack :: "'v tval list"
  vm_frames :: "'f frame list"
  vm_line :: int
  g_has_error :: bool
  g_error :: "'v tval err"
  g_try_depth :: int
  suspend_request :: bool
  task_trace_on :: bool
  in_tramp :: bool
  phase :: "'v phase"

definition sys_init :: "('v, 'f) sys" where
  "sys_init =
     \<lparr>has_sched = False, sch = sched_new, htab = handle_init, vm_stack = [], vm_frames = [], vm_line = 0,
       g_has_error = False, g_error = Err_Raised EK_VALUE 0, g_try_depth = 0, suspend_request = False,
       task_trace_on = False, in_tramp = False, phase = PH_Task\<rparr>"

definition sched_ensure :: "('v, 'f) sys \<Rightarrow> ('v, 'f) sys" where
  "sched_ensure s = (if has_sched s then s else s\<lparr>has_sched := True, sch := sched_new\<rparr>)"

definition sched_lookup :: "int \<Rightarrow> ('v, 'f) sys \<Rightarrow> ('v tval, 'f) task option" where
  "sched_lookup tid s = (if tid = 0 then Some (main_task (sch s)) else handle_lookup_slot tid HANDLE_TASK (htab s))"

text \<open>A write through the pointer to a task.\<close>

definition task_put :: "int \<Rightarrow> ('v tval, 'f) task \<Rightarrow> ('v, 'f) sys \<Rightarrow> ('v, 'f) sys" where
  "task_put tid t s =
     (if tid = 0 then s\<lparr>sch := (sch s)\<lparr>main_task := t\<rparr>\<rparr>
      else s\<lparr>htab := (htab s)\<lparr>ht_slots := (ht_slots (htab s))
        [nat tid := (ht_slots (htab s) ! nat tid)\<lparr>hs_ptr := Some t\<rparr>]\<rparr>\<rparr>)"

definition task_upd :: "int \<Rightarrow> (('v tval, 'f) task \<Rightarrow> ('v tval, 'f) task) \<Rightarrow> ('v, 'f) sys \<Rightarrow> ('v, 'f) sys" where
  "task_upd tid f s = (case sched_lookup tid s of None \<Rightarrow> s | Some t \<Rightarrow> task_put tid (f t) s)"

definition sched_upd :: "(('v tval, 'f) sched \<Rightarrow> ('v tval, 'f) sched) \<Rightarrow> ('v, 'f) sys \<Rightarrow> ('v, 'f) sys" where
  "sched_upd f s = s\<lparr>sch := f (sch s)\<rparr>"

abbreviation cur :: "('v, 'f) sys \<Rightarrow> int" where
  "cur s \<equiv> s_current (sch s)"

definition finished :: "('v, 'f) task \<Rightarrow> bool" where
  "finished t \<longleftrightarrow> tk_state t = TASK_DONE \<or> tk_state t = TASK_DEAD"

definition task_current_running :: "('v, 'f) sys \<Rightarrow> ('v tval, 'f) task option" where
  "task_current_running s = (if has_sched s then sched_lookup (cur s) s else None)"

definition rt_error :: "err_kind \<Rightarrow> ('v, 'f) sys \<Rightarrow> ('v, 'f) sys" where
  "rt_error k s = s\<lparr>g_has_error := True, g_error := Err_Raised k (vm_line s)\<rparr>"

subsection \<open>Suspending and resuming\<close>

definition task_save_slice :: "('v, 'f) sys \<Rightarrow> ('v, 'f) sys" where
  "task_save_slice s =
     (case task_current_running s of
        None \<Rightarrow> s
      | Some t \<Rightarrow>
          (task_put (cur s)
            (t\<lparr>saved_frames := vm_frames s, saved_stack := vm_stack s, saved_current_line := vm_line s,
               tk_state := TASK_SUSPENDED\<rparr>) s)\<lparr>vm_frames := [], vm_stack := []\<rparr>)"

definition task_restore_slice :: "int \<Rightarrow> ('v tval, 'f) task \<Rightarrow> ('v, 'f) sys \<Rightarrow> ('v, 'f) sys" where
  "task_restore_slice tid t s =
     (task_put tid (t\<lparr>saved_frames := [], saved_stack := [], tk_state := TASK_RUNNING\<rparr>) s)
       \<lparr>vm_frames := saved_frames t, vm_stack := saved_stack t, vm_line := saved_current_line t\<rparr>"

definition put_top :: "'a \<Rightarrow> 'a list \<Rightarrow> 'a list" where
  "put_top v st = (if st = [] then st else st[length st - 1 := v])"

text \<open>The placeholder a blocked join or receive left on the stack is filled.\<close>

definition task_apply_join_result :: "int \<Rightarrow> ('v, 'f) sys \<Rightarrow> ('v, 'f) sys" where
  "task_apply_join_result tid s =
     (case sched_lookup tid s of
        None \<Rightarrow> s
      | Some t \<Rightarrow>
          if join_target t = 0 then s
          else
            let s1 = task_put tid (t\<lparr>join_target := 0\<rparr>) s in
            case sched_lookup (join_target t) s1 of
              None \<Rightarrow> s1
            | Some jt \<Rightarrow>
                if tk_has_error jt then
                  (let s2 = task_put (join_target t) (jt\<lparr>err_unobserved := False\<rparr>) s1 in
                   s2\<lparr>g_has_error := True, g_error := (case error_value jt of Some e \<Rightarrow> e | None \<Rightarrow> g_error s)\<rparr>)
                else
                  s1\<lparr>vm_stack := put_top (case tk_result jt of Some r \<Rightarrow> r | None \<Rightarrow> TV_Null) (vm_stack s1)\<rparr>)"

definition task_apply_recv_result :: "int \<Rightarrow> ('v, 'f) sys \<Rightarrow> ('v, 'f) sys" where
  "task_apply_recv_result tid s =
     (case sched_lookup tid s of
        None \<Rightarrow> s
      | Some t0 \<Rightarrow>
          if \<not> recv_blocked t0 then s
          else
            let t = t0\<lparr>recv_blocked := False\<rparr> in
            if vm_stack s = [] then task_put tid t s
            else (case mbox_pop t of (msg, t') \<Rightarrow>
              (task_put tid t' s)\<lparr>vm_stack := put_top (case msg of Some m \<Rightarrow> m | None \<Rightarrow> TV_Null) (vm_stack s)\<rparr>))"

subsection \<open>What the builtins ask of the scheduler\<close>

definition task_sched_on_spawn :: "int \<Rightarrow> ('v, 'f) sys \<Rightarrow> ('v, 'f) sys" where
  "task_sched_on_spawn tid s0 =
     (let s1 = sched_upd (\<lambda>c. c\<lparr>s_active := True, s_live := s_live c + 1, spawn_counter := spawn_counter c + 1\<rparr>)
                 (sched_ensure s0);
          s2 = task_upd tid (\<lambda>t. t\<lparr>spawn_seq := spawn_counter (sch s1)\<rparr>) s1 in
      sched_upd (sched_ready_push tid SCAUSE_SPAWN) s2)"

definition task_sched_set_seed :: "u64 \<Rightarrow> ('v, 'f) sys \<Rightarrow> ('v, 'f) sys" where
  "task_sched_set_seed seed s = sched_upd (\<lambda>c. c\<lparr>rng_state := seed, seeded := True\<rparr>) (sched_ensure s)"

definition task_request_yield :: "('v, 'f) sys \<Rightarrow> ('v, 'f) sys" where
  "task_request_yield s = s\<lparr>suspend_request := True\<rparr>"

definition task_request_join :: "int \<Rightarrow> ('v, 'f) sys \<Rightarrow> ('v, 'f) sys" where
  "task_request_join target s =
     (if \<not> has_sched s \<or> target = 0 \<or> target = cur s \<or> sched_lookup target s = None then s
      else (task_upd (cur s) (\<lambda>t. t\<lparr>join_target := target\<rparr>) s)\<lparr>suspend_request := True\<rparr>)"

definition task_request_recv :: "('v, 'f) sys \<Rightarrow> ('v, 'f) sys" where
  "task_request_recv s =
     (if has_sched s then task_upd (cur s) (\<lambda>t. t\<lparr>recv_blocked := True\<rparr>) s else s)\<lparr>suspend_request := True\<rparr>"

definition sleep_ticks :: "double \<Rightarrow> double" where
  "sleep_ticks ticks = (if fp_lt 0 ticks then ticks else 0)"

definition task_request_sleep :: "double \<Rightarrow> ('v, 'f) sys \<Rightarrow> ('v, 'f) sys" where
  "task_request_sleep ticks s =
     (if task_current_running s = None then s
      else (task_upd (cur s) (\<lambda>t. t\<lparr>wake_at := fp_add (s_now (sch s)) (sleep_ticks ticks), sleeping := True\<rparr>) s)
             \<lparr>suspend_request := True\<rparr>)"

definition task_deliver :: "int \<Rightarrow> 'v tval \<Rightarrow> ('v, 'f) sys \<Rightarrow> bool \<times> ('v, 'f) sys" where
  "task_deliver tid msg s =
     (case if has_sched s then sched_lookup tid s else None of
        None \<Rightarrow> (False, if has_sched s then sched_upd (\<lambda>c. c\<lparr>dead_letters := dead_letters c + 1\<rparr>) s else s)
      | Some t \<Rightarrow>
          if finished t then (False, sched_upd (\<lambda>c. c\<lparr>dead_letters := dead_letters c + 1\<rparr>) s)
          else
            let t' = mbox_push msg t; s1 = task_put tid t' s in
            (True,
             if recv_blocked t' \<and> tk_state t' = TASK_SUSPENDED \<and> mbox_count t' = 1
             then sched_upd (sched_ready_push tid SCAUSE_RECV_WAKE) s1 else s1))"

definition task_mbox_has :: "('v, 'f) sys \<Rightarrow> bool" where
  "task_mbox_has s = (case task_current_running s of None \<Rightarrow> False | Some t \<Rightarrow> 0 < mbox_count t)"

definition task_mbox_pop :: "('v, 'f) sys \<Rightarrow> 'v tval \<times> ('v, 'f) sys" where
  "task_mbox_pop s =
     (case task_current_running s of
        None \<Rightarrow> (TV_Null, s)
      | Some t \<Rightarrow>
          (case mbox_pop t of
             (Some v, t') \<Rightarrow> (v, task_put (cur s) t' s)
           | (None, _) \<Rightarrow> (TV_Null, s)))"

text \<open>Every task suspended in a join on \<open>tid\<close> becomes ready, in the order of the slots, then main.\<close>

definition slot_ids :: "int list" where
  "slot_ids = map int [1..<HANDLE_TABLE_SIZE]"

definition joins :: "int \<Rightarrow> ('v, 'f) sys \<Rightarrow> int \<Rightarrow> bool" where
  "joins tid s w =
     (case sched_lookup w s of
        None \<Rightarrow> False
      | Some t \<Rightarrow> tk_state t = TASK_SUSPENDED \<and> join_target t = tid)"

definition task_ref :: "int \<Rightarrow> ('v, 'f) sys \<Rightarrow> int" where
  "task_ref w s = (case sched_lookup w s of None \<Rightarrow> w | Some t \<Rightarrow> tk_id t)"

definition release_joiners :: "int \<Rightarrow> sched_cause \<Rightarrow> ('v, 'f) sys \<Rightarrow> ('v, 'f) sys" where
  "release_joiners tid cause s =
     (let s1 = fold (\<lambda>w s. if joins tid s w then sched_upd (sched_ready_push (task_ref w s) cause) s else s) slot_ids s in
      if joins tid s1 0 then sched_upd (sched_ready_push 0 cause) s1 else s1)"

definition task_reap :: "int \<Rightarrow> u32 \<Rightarrow> ('v, 'f) sys \<Rightarrow> ('v, 'f) sys" where
  "task_reap tid gen s = s\<lparr>htab := handle_release tid gen (htab s)\<rparr>"

definition frames_tries :: "'f frame list \<Rightarrow> int" where
  "frames_tries fs = sum_list (map fr_try_count fs)"

definition task_do_kill :: "int \<Rightarrow> ('v, 'f) sys \<Rightarrow> bool \<times> ('v, 'f) sys" where
  "task_do_kill tid s =
     (if \<not> has_sched s \<or> tid = 0 \<or> tid = cur s then (False, s)
      else case sched_lookup tid s of
        None \<Rightarrow> (False, s)
      | Some t \<Rightarrow>
          if finished t then (False, s)
          else
            let s1 = sched_upd (sched_ready_remove tid) s;
                td = g_try_depth s - frames_tries (saved_frames t);
                s2 = s1\<lparr>g_try_depth := if saved_frames t = [] then g_try_depth s else if td < 0 then 0 else td\<rparr>;
                t' = t\<lparr>mbox := [], mbox_head := 0, mbox_count := 0, saved_stack := [], saved_frames := [],
                       tk_has_error := True, tk_state := TASK_DEAD,
                       error_value := (case error_value t of None \<Rightarrow> Some (Err_Raised EK_INTERRUPT 0) | e \<Rightarrow> e)\<rparr>;
                s3 = sched_upd (\<lambda>c. c\<lparr>s_live := s_live c - 1\<rparr>) (task_put tid t' s2);
                s4 = release_joiners tid SCAUSE_KILL_RELEASE s3 in
            (True, if detached t then task_reap (tk_id t) (tk_hgen t) s4 else s4))"

definition task_do_detach :: "int \<Rightarrow> ('v, 'f) sys \<Rightarrow> bool \<times> ('v, 'f) sys" where
  "task_do_detach tid s =
     (if \<not> has_sched s \<or> tid = 0 then (False, s)
      else case sched_lookup tid s of
        None \<Rightarrow> (False, s)
      | Some t \<Rightarrow>
          if finished t then
            (True, task_reap (tk_id t) (tk_hgen t)
               (if err_unobserved t
                then sched_upd (\<lambda>c. c\<lparr>detached_err_count := detached_err_count c + 1\<rparr>) s else s))
          else (True, task_put tid (t\<lparr>detached := True\<rparr>) s))"

subsection \<open>Virtual time\<close>

definition asleep :: "('v, 'f) sys \<Rightarrow> int \<Rightarrow> bool" where
  "asleep s w =
     (case sched_lookup w s of
        None \<Rightarrow> False
      | Some t \<Rightarrow> tk_state t = TASK_SUSPENDED \<and> sleeping t)"

definition wake_time :: "('v, 'f) sys \<Rightarrow> int \<Rightarrow> double" where
  "wake_time s w = (case sched_lookup w s of None \<Rightarrow> 0 | Some t \<Rightarrow> wake_at t)"

text \<open>The earliest wake time: main first, then a strictly earlier one in the order of the slots.\<close>

definition earlier :: "('v, 'f) sys \<Rightarrow> int \<Rightarrow> double option \<Rightarrow> double option" where
  "earlier s w best =
     (if asleep s w \<and> (case best of None \<Rightarrow> True | Some b \<Rightarrow> fp_lt (wake_time s w) b)
      then Some (wake_time s w) else best)"

definition earliest_wake :: "('v, 'f) sys \<Rightarrow> double option" where
  "earliest_wake s = fold (earlier s) (0 # slot_ids) None"

definition due :: "('v, 'f) sys \<Rightarrow> int \<Rightarrow> bool" where
  "due s w \<longleftrightarrow> asleep s w \<and> fp_le (wake_time s w) (s_now (sch s))"

definition spawn_stamp :: "('v, 'f) sys \<Rightarrow> int \<Rightarrow> u64" where
  "spawn_stamp s w = (case sched_lookup w s of None \<Rightarrow> 0 | Some t \<Rightarrow> spawn_seq t)"

text \<open>The due sleeper that was spawned first.\<close>

definition older :: "('v, 'f) sys \<Rightarrow> int \<Rightarrow> int option \<Rightarrow> int option" where
  "older s w best =
     (if due s w \<and> (case best of None \<Rightarrow> True | Some b \<Rightarrow> spawn_stamp s w < spawn_stamp s b) then Some w else best)"

definition next_due :: "('v, 'f) sys \<Rightarrow> int option" where
  "next_due s = fold (older s) slot_ids None"

definition wake :: "int \<Rightarrow> ('v, 'f) sys \<Rightarrow> ('v, 'f) sys" where
  "wake w s =
     sched_upd (sched_ready_push (task_ref w s) SCAUSE_SLEEP_WAKE) (task_upd w (\<lambda>t. t\<lparr>sleeping := False\<rparr>) s)"

text \<open>
  The loop wakes one sleeper of the table a round: at most one round for every slot, so
  the table's size is fuel enough (lemma \<open>wake_loop_done\<close>).
\<close>

fun wake_loop :: "nat \<Rightarrow> ('v, 'f) sys \<Rightarrow> ('v, 'f) sys" where
  "wake_loop 0 s = s"
| "wake_loop (Suc n) s = (case next_due s of None \<Rightarrow> s | Some w \<Rightarrow> wake_loop n (wake w s))"

definition sched_wake_sleepers :: "('v, 'f) sys \<Rightarrow> bool \<times> ('v, 'f) sys" where
  "sched_wake_sleepers s =
     (case earliest_wake s of
        None \<Rightarrow> (False, s)
      | Some best \<Rightarrow>
          let s1 = sched_upd (\<lambda>c. c\<lparr>s_now := best\<rparr>) s;
              s2 = (if due s1 0 then wake 0 s1 else s1) in
          (True, wake_loop HANDLE_TABLE_SIZE s2))"

subsection \<open>The end of a slice\<close>

definition sched_finish :: "int \<Rightarrow> 'v tval option \<Rightarrow> ('v, 'f) sys \<Rightarrow> ('v, 'f) sys" where
  "sched_finish tid r s =
     (case sched_lookup tid s of
        None \<Rightarrow> s
      | Some t \<Rightarrow>
          let t1 = (if g_has_error s
                    then t\<lparr>tk_has_error := True, error_value := Some (g_error s),
                           err_unobserved := (if tid \<noteq> 0 then True else err_unobserved t), tk_result := None\<rparr>
                    else t\<lparr>tk_result := r\<rparr>);
              t2 = t1\<lparr>tk_state := if tk_has_error t1 then TASK_DEAD else TASK_DONE\<rparr>;
              s1 = (task_put tid t2 s)\<lparr>g_has_error := False\<rparr>;
              s2 = (if tid \<noteq> 0 then sched_upd (\<lambda>c. c\<lparr>s_live := s_live c - 1\<rparr>) s1 else s1);
              s3 = release_joiners (tk_id t) SCAUSE_JOIN_RELEASE s2 in
          if tid \<noteq> 0 \<and> detached t2 then
            task_reap (tk_id t) (tk_hgen t)
              (if err_unobserved t2
               then sched_upd (\<lambda>c. c\<lparr>detached_err_count := detached_err_count c + 1\<rparr>) s3 else s3)
          else s3)"

definition unblocked :: "('v, 'f) task \<Rightarrow> bool" where
  "unblocked t \<longleftrightarrow> join_target t = 0 \<and> \<not> recv_blocked t \<and> \<not> sleeping t"

text \<open>A suspended task that is not blocked goes to the tail of the queue.\<close>

definition requeue :: "int \<Rightarrow> ('v, 'f) sys \<Rightarrow> ('v, 'f) sys" where
  "requeue tid s =
     (case sched_lookup tid s of
        None \<Rightarrow> s
      | Some t \<Rightarrow> if unblocked t then sched_upd (sched_ready_push tid SCAUSE_YIELD) s else s)"

text \<open>The result of the program once the trampoline stops: main's, or main's error.\<close>

definition main_result :: "('v, 'f) sys \<Rightarrow> ('v, 'f) sys" where
  "main_result s =
     (let m = main_task (sch s) in
      if tk_has_error m then
        (task_put 0 (m\<lparr>error_value := None\<rparr>) s)
          \<lparr>g_has_error := True, g_error := (case error_value m of Some e \<Rightarrow> e | None \<Rightarrow> g_error s),
            phase := PH_Done (Some TV_Null)\<rparr>
      else
        (task_put 0 (m\<lparr>tk_result := None\<rparr>) s)
          \<lparr>phase := PH_Done (Some (case tk_result m of Some r \<Rightarrow> r | None \<Rightarrow> TV_Null))\<rparr>)"

text \<open>
  The loop has suspended. For main's first slice this is the tail of
  \<open>task_sched_after_outermost\<close>: without an armed scheduler its answer is \<open>NULL\<close>.
\<close>

definition suspend_halt :: "('v, 'f) sys \<Rightarrow> ('v, 'f) sys" where
  "suspend_halt s0 =
     (let s = (task_save_slice s0)\<lparr>suspend_request := False\<rparr> in
      if in_tramp s then (requeue (cur s) s)\<lparr>phase := PH_Pick\<rparr>
      else if \<not> has_sched s \<or> \<not> s_active (sch s) then s\<lparr>phase := PH_Done None\<rparr>
      else (requeue 0 s)\<lparr>in_tramp := True, phase := PH_Pick\<rparr>)"

text \<open>The loop has returned, with a value or after an uncaught error.\<close>

definition return_halt :: "'v tval option \<Rightarrow> ('v, 'f) sys \<Rightarrow> ('v, 'f) sys" where
  "return_halt r s0 =
     (let s = s0\<lparr>vm_stack := [], vm_frames := []\<rparr> in
      if in_tramp s then
        (let s1 = sched_finish (cur s) r s in
         if cur s = 0 then main_result s1 else s1\<lparr>phase := PH_Pick\<rparr>)
      else if \<not> has_sched s \<or> \<not> s_active (sch s) then s\<lparr>phase := PH_Done r\<rparr>
      else if 0 < s_live (sch s) \<and> 0 < rcount (sch s) then
        (task_put 0 ((main_task (sch s))\<lparr>tk_state := TASK_DONE, tk_result := r\<rparr>) s)
          \<lparr>in_tramp := True, phase := PH_Pick\<rparr>
      else s\<lparr>phase := PH_Done r\<rparr>)"

subsection \<open>The trampoline\<close>

text \<open>Nothing can run: main's result if it has one, or a deadlock, raised in main if it can be caught.\<close>

definition sched_idle :: "('v, 'f) sys \<Rightarrow> ('v, 'f) sys" where
  "sched_idle s =
     (let m = main_task (sch s) in
      if finished m then main_result s
      else
        let s1 = s\<lparr>g_has_error := True, g_error := Err_Raised EK_DEADLOCK (saved_current_line m)\<rparr> in
        if \<exists>f\<in>set (saved_frames m). 0 < fr_try_count f then
          sched_upd (sched_ready_push 0 SCAUSE_DEADLOCK)
            (task_put 0 (m\<lparr>join_target := 0, recv_blocked := False, sleeping := False\<rparr>) s1)
        else s1\<lparr>phase := PH_Done (Some TV_Null)\<rparr>)"

definition task_start :: "int \<Rightarrow> ('v tval, 'f) task \<Rightarrow> ('v, 'f) sys \<Rightarrow> ('v, 'f) sys" where
  "task_start tid t s =
     (case entry_fn t of TF_BUILTIN \<Rightarrow> s | TF_FN pc \<Rightarrow> task_put tid (t\<lparr>tk_started := True\<rparr>) s)"

text \<open>The parameters a new task binds, and the number of arguments it is said to have been given.\<close>

datatype 'v bound = B_Arg 'v | B_List "'v list"

definition task_start_args :: "nat \<Rightarrow> 'v list \<Rightarrow> 'v bound list \<times> nat" where
  "task_start_args pc as =
     (if pc = 1 \<and> 1 < length as then ([B_List as], 1) else (map B_Arg (take pc as), length as))"

definition sched_resume :: "int \<Rightarrow> ('v, 'f) sys \<Rightarrow> ('v, 'f) sys" where
  "sched_resume tid s =
     (case sched_lookup tid s of
        None \<Rightarrow> s
      | Some t \<Rightarrow>
          if finished t then s
          else
            let s1 = sched_upd (\<lambda>c. c\<lparr>s_current := tid,
                       s_trace := if task_trace_on s then s_trace c @ [(s_now c, tid, pop_cause c)] else s_trace c\<rparr>) s in
            (if tk_state t = TASK_SUSPENDED
             then task_apply_recv_result tid (task_apply_join_result tid (task_restore_slice tid t s1))
             else task_start tid t s1)\<lparr>phase := PH_Task\<rparr>)"

text \<open>One round of the trampoline's loop.\<close>

definition trampoline_round :: "('v, 'f) sys \<Rightarrow> ('v, 'f) sys" where
  "trampoline_round s =
     (case sched_ready_pop (sch s) of (tid, c) \<Rightarrow>
        let s1 = s\<lparr>sch := c\<rparr> in
        if tid < 0 then (case sched_wake_sleepers s1 of (True, s2) \<Rightarrow> s2 | (False, s2) \<Rightarrow> sched_idle s2)
        else sched_resume tid s1)"

subsection \<open>The builtins\<close>

text \<open>What a call of a builtin reads besides the scheduler.\<close>

record ctx =
  arena_active :: bool
  no_yield :: bool
  nested :: bool

datatype 'v act =
    A_Spawn "task_fn option" "'v tval list"
  | A_Yield
  | A_Join "int option"
  | A_Send int "'v tval"
  | A_Recv
  | A_Try_Recv
  | A_Kill int
  | A_Alive int
  | A_Sleep "double option"
  | A_Now
  | A_Self
  | A_Detach "int option"
  | A_Seed u64

definition builtin_task_spawn :: "task_fn option \<Rightarrow> 'v tval list \<Rightarrow> ('v, 'f) sys \<Rightarrow> 'v tval \<times> ('v, 'f) sys" where
  "builtin_task_spawn fn as s =
     (case fn of
        None \<Rightarrow> (TV_Null, rt_error EK_TYPE s)
      | Some f \<Rightarrow>
          if (case f of TF_BUILTIN \<Rightarrow> False | TF_FN pc \<Rightarrow> 2 \<le> pc \<and> pc < length as)
          then (TV_Null, rt_error EK_VALUE s)
          else
            (case handle_register (task_new f as TASK_READY) HANDLE_TASK (htab s) of
               ((tid, gen), h) \<Rightarrow>
                 if tid < 0 then (TV_Null, rt_error EK_LIMIT s)
                 else (TV_Num tid,
                   task_sched_on_spawn tid
                     (task_upd tid (\<lambda>t. t\<lparr>tk_id := tid, tk_hgen := gen\<rparr>) (s\<lparr>htab := h\<rparr>)))))"

definition builtin_task_yield :: "ctx \<Rightarrow> ('v, 'f) sys \<Rightarrow> 'v tval \<times> ('v, 'f) sys" where
  "builtin_task_yield x s =
     (TV_Null,
      if arena_active x then rt_error EK_VALUE s
      else if \<not> has_sched s then s
      else if no_yield x then rt_error EK_VALUE s
      else task_request_yield s)"

definition join_finished :: "int \<Rightarrow> ('v tval, 'f) task \<Rightarrow> ('v, 'f) sys \<Rightarrow> 'v tval \<times> ('v, 'f) sys" where
  "join_finished target t s =
     (if tk_has_error t then
        (TV_Null, (task_put target (t\<lparr>err_unobserved := False\<rparr>) s)
           \<lparr>g_has_error := True, g_error := (case error_value t of Some e \<Rightarrow> e | None \<Rightarrow> g_error s)\<rparr>)
      else (case tk_result t of Some r \<Rightarrow> r | None \<Rightarrow> TV_Null, s))"

definition builtin_task_join :: "ctx \<Rightarrow> int option \<Rightarrow> ('v, 'f) sys \<Rightarrow> 'v tval \<times> ('v, 'f) sys" where
  "builtin_task_join x arg s =
     (case arg of
        None \<Rightarrow> (TV_Null, s)
      | Some target \<Rightarrow>
          if \<not> has_sched s then (TV_Null, s)
          else (case handle_lookup_slot target HANDLE_TASK (htab s) of
            None \<Rightarrow> (TV_Null, s)
          | Some t \<Rightarrow>
              if finished t then join_finished target t s
              else if arena_active x then (TV_Null, rt_error EK_VALUE s)
              else if no_yield x then (TV_Null, rt_error EK_VALUE s)
              else (TV_Null, task_request_join target s)))"

definition builtin_task_send :: "int \<Rightarrow> 'v tval \<Rightarrow> ('v, 'f) sys \<Rightarrow> 'v tval \<times> ('v, 'f) sys" where
  "builtin_task_send tid msg s =
     (if \<not> has_sched s then (TV_Num 0, s)
      else (case task_deliver tid msg s of (sent, s') \<Rightarrow> (TV_Num (if sent then 1 else 0), s')))"

definition builtin_task_recv :: "ctx \<Rightarrow> ('v, 'f) sys \<Rightarrow> 'v tval \<times> ('v, 'f) sys" where
  "builtin_task_recv x s =
     (if task_mbox_has s then task_mbox_pop s
      else (TV_Null,
        if arena_active x then rt_error EK_VALUE s
        else if \<not> has_sched s then s
        else if no_yield x then rt_error EK_VALUE s
        else task_request_recv s))"

definition builtin_task_try_recv :: "('v, 'f) sys \<Rightarrow> 'v tval \<times> ('v, 'f) sys" where
  "builtin_task_try_recv s = (if \<not> has_sched s \<or> \<not> task_mbox_has s then (TV_Null, s) else task_mbox_pop s)"

definition builtin_task_kill :: "int \<Rightarrow> ('v, 'f) sys \<Rightarrow> 'v tval \<times> ('v, 'f) sys" where
  "builtin_task_kill tid s =
     (if \<not> has_sched s then (TV_Num 0, s)
      else (case task_do_kill tid s of (k, s') \<Rightarrow> (TV_Num (if k then 1 else 0), s')))"

definition builtin_task_alive :: "int \<Rightarrow> ('v, 'f) sys \<Rightarrow> 'v tval" where
  "builtin_task_alive tid s =
     (case handle_lookup_slot tid HANDLE_TASK (htab s) of
        None \<Rightarrow> TV_Num 0
      | Some t \<Rightarrow>
          TV_Num (if tk_state t = TASK_READY \<or> tk_state t = TASK_RUNNING \<or> tk_state t = TASK_SUSPENDED then 1 else 0))"

definition builtin_task_sleep :: "ctx \<Rightarrow> double option \<Rightarrow> ('v, 'f) sys \<Rightarrow> 'v tval \<times> ('v, 'f) sys" where
  "builtin_task_sleep x arg s =
     (TV_Null,
      if arena_active x then rt_error EK_VALUE s
      else if \<not> has_sched s then s
      else (case arg of
        None \<Rightarrow> rt_error EK_TYPE s
      | Some ticks \<Rightarrow> if no_yield x then rt_error EK_VALUE s else task_request_sleep ticks s))"

definition builtin_task_detach :: "int option \<Rightarrow> ('v, 'f) sys \<Rightarrow> 'v tval \<times> ('v, 'f) sys" where
  "builtin_task_detach arg s =
     (case arg of
        None \<Rightarrow> (TV_Null, rt_error EK_TYPE s)
      | Some tid \<Rightarrow> (case task_do_detach tid s of (d, s') \<Rightarrow> (TV_Num (if d then 1 else 0), s')))"

definition builtin_act :: "ctx \<Rightarrow> 'v act \<Rightarrow> ('v, 'f) sys \<Rightarrow> 'v tval \<times> ('v, 'f) sys" where
  "builtin_act x a s =
     (case a of
        A_Spawn fn as \<Rightarrow> builtin_task_spawn fn as s
      | A_Yield \<Rightarrow> builtin_task_yield x s
      | A_Join arg \<Rightarrow> builtin_task_join x arg s
      | A_Send tid msg \<Rightarrow> builtin_task_send tid msg s
      | A_Recv \<Rightarrow> builtin_task_recv x s
      | A_Try_Recv \<Rightarrow> builtin_task_try_recv s
      | A_Kill tid \<Rightarrow> builtin_task_kill tid s
      | A_Alive tid \<Rightarrow> (builtin_task_alive tid s, s)
      | A_Sleep arg \<Rightarrow> builtin_task_sleep x arg s
      | A_Now \<Rightarrow> (TV_Real (if has_sched s then s_now (sch s) else 0), s)
      | A_Self \<Rightarrow> (TV_Num (if has_sched s then cur s else 0), s)
      | A_Detach arg \<Rightarrow> builtin_task_detach arg s
      | A_Seed seed \<Rightarrow> (TV_Null, task_sched_set_seed seed s))"

text \<open>
  The end of a call: the result is pushed; an error unwinds; a request to suspend is
  honoured, but refused inside a nested evaluation.
\<close>

definition call_builtin :: "ctx \<Rightarrow> 'v act \<Rightarrow> ('v, 'f) sys \<Rightarrow> ('v, 'f) sys" where
  "call_builtin x a s0 =
     (case builtin_act x a s0 of (v, s1) \<Rightarrow>
        let s = s1\<lparr>vm_stack := vm_stack s1 @ [v]\<rparr> in
        if g_has_error s \<or> \<not> suspend_request s then s
        else if \<not> nested x then suspend_halt s
        else rt_error EK_VALUE (s\<lparr>suspend_request := False\<rparr>))"

subsection \<open>Runs\<close>

text \<open>
  What the executing task does next: compute, leaving any stack, frames, line and error
  depth; call a builtin; raise an error, catch one, or return. While an error is in
  flight it is caught or the slice ends. When no task executes, the trampoline takes
  its next round.
\<close>

datatype ('v, 'f) move =
    M_Compute "'v tval list" "'f frame list" int int
  | M_Call ctx "'v act"
  | M_Raise "'v tval err"
  | M_Catch
  | M_Return "'v tval option"

definition sys_step :: "('v, 'f) move \<Rightarrow> ('v, 'f) sys \<Rightarrow> ('v, 'f) sys" where
  "sys_step m s =
     (case phase s of
        PH_Done _ \<Rightarrow> s
      | PH_Pick \<Rightarrow> trampoline_round s
      | PH_Task \<Rightarrow>
          (case m of
             M_Compute st fs line td \<Rightarrow>
               if g_has_error s then s
               else s\<lparr>vm_stack := st, vm_frames := fs, vm_line := line, g_try_depth := td\<rparr>
           | M_Call x a \<Rightarrow> if g_has_error s then s else call_builtin x a s
           | M_Raise e \<Rightarrow> if g_has_error s then s else s\<lparr>g_has_error := True, g_error := e\<rparr>
           | M_Catch \<Rightarrow> s\<lparr>g_has_error := False\<rparr>
           | M_Return r \<Rightarrow> return_halt r s))"

definition sys_run :: "('v, 'f) move list \<Rightarrow> ('v, 'f) sys \<Rightarrow> ('v, 'f) sys" where
  "sys_run ms s = fold sys_step ms s"

end
