(* ===== verification/Eigs_Sched_View.thy ===== *)
theory Eigs_Sched_View
  imports Eigs_Scheduler
begin

text \<open>
  The invariant of the scheduler: a task that is not executing is in the ready queue
  exactly when it can run, once. It is stated and kept over an abstract view, the map
  from ids to tasks, the queued ids and the executing task; the second half is the view
  of a state of the code and what the primitive writes do to it.
\<close>

subsection \<open>The abstract view\<close>

type_synonym ('v, 'f) tasks = "int \<Rightarrow> ('v, 'f) task option"

definition live_task :: "('v, 'f) tasks \<Rightarrow> int \<Rightarrow> bool" where
  "live_task T i \<longleftrightarrow> (\<exists>t. T i = Some t \<and> \<not> finished t)"

text \<open>Why a suspended task may not run.\<close>

definition blocked :: "('v, 'f) tasks \<Rightarrow> ('v, 'f) task \<Rightarrow> bool" where
  "blocked T t \<longleftrightarrow>
     sleeping t \<or> recv_blocked t \<and> mbox_count t = 0 \<or> join_target t \<noteq> 0 \<and> live_task T (join_target t)"

definition can_run :: "('v, 'f) tasks \<Rightarrow> ('v, 'f) task \<Rightarrow> bool" where
  "can_run T t \<longleftrightarrow> tk_state t = TASK_READY \<or> tk_state t = TASK_SUSPENDED \<and> \<not> blocked T t"

definition one_reason :: "('v, 'f) task \<Rightarrow> bool" where
  "one_reason t \<longleftrightarrow> (sleeping t \<longrightarrow> \<not> recv_blocked t \<and> join_target t = 0) \<and> (recv_blocked t \<longrightarrow> join_target t = 0)"

definition node_ok :: "('v, 'f) tasks \<Rightarrow> int list \<Rightarrow> int option \<Rightarrow> int \<Rightarrow> ('v, 'f) task \<Rightarrow> bool" where
  "node_ok T Q ex i t \<longleftrightarrow>
     0 \<le> i \<and> i < int HANDLE_TABLE_SIZE \<and> (i = 0 \<longrightarrow> tk_state t \<noteq> TASK_READY) \<and>
     (if ex = Some i then i \<notin> set Q \<and> (tk_state t = TASK_READY \<or> tk_state t = TASK_RUNNING) \<and> unblocked t
      else (i \<in> set Q \<longleftrightarrow> can_run T t) \<and> tk_state t \<noteq> TASK_RUNNING \<and>
        (tk_state t = TASK_READY \<longrightarrow> unblocked t) \<and> (tk_state t = TASK_SUSPENDED \<longrightarrow> one_reason t))"

definition core :: "('v, 'f) tasks \<Rightarrow> int list \<Rightarrow> int option \<Rightarrow> bool" where
  "core T Q ex \<longleftrightarrow>
     distinct Q \<and> (\<forall>i\<in>set Q. T i \<noteq> None) \<and> (\<forall>i t. T i = Some t \<longrightarrow> node_ok T Q ex i t) \<and> T 0 \<noteq> None \<and>
     (\<forall>i. ex = Some i \<longrightarrow> T i \<noteq> None)"

text \<open>What the invariant reads of a task.\<close>

definition task_key :: "('v, 'f) task \<Rightarrow> task_state \<times> bool \<times> bool \<times> bool \<times> int" where
  "task_key t = (tk_state t, sleeping t, recv_blocked t, mbox_count t = 0, join_target t)"

definition same_keys :: "('v, 'f) tasks \<Rightarrow> ('v, 'f) tasks \<Rightarrow> bool" where
  "same_keys T T' \<longleftrightarrow> (\<forall>i. map_option task_key (T' i) = map_option task_key (T i))"

lemma key_live: "map_option task_key (T' i) = map_option task_key (T i) \<Longrightarrow> live_task T' i = live_task T i"
  by (cases "T i"; cases "T' i") (auto simp: live_task_def finished_def task_key_def)

lemma same_keys_live: "same_keys T T' \<Longrightarrow> live_task T' = live_task T"
  using key_live by (auto simp: same_keys_def fun_eq_iff)

lemma key_node:
  assumes "same_keys T T'" and "task_key t' = task_key t"
  shows "node_ok T' Q ex i t' = node_ok T Q ex i t"
proof -
  have "live_task T' = live_task T" using assms(1) by (rule same_keys_live)
  then show ?thesis
    using assms(2) by (auto simp: node_ok_def can_run_def blocked_def unblocked_def one_reason_def task_key_def)
qed

lemma core_same_keys:
  assumes "core T Q ex" and "same_keys T T'"
  shows "core T' Q ex"
proof -
  have none: "T' i = None \<longleftrightarrow> T i = None" for i
    using assms(2) by (metis map_option_is_None same_keys_def)
  have "node_ok T' Q ex i t'" if t': "T' i = Some t'" for i t'
  proof -
    have "map_option task_key (T' i) = map_option task_key (T i)" using assms(2) by (simp add: same_keys_def)
    then obtain t where "T i = Some t" "task_key t' = task_key t" using t' by (cases "T i") auto
    then show ?thesis using key_node [OF assms(2), of t' t Q ex i] assms(1) by (simp add: core_def)
  qed
  then show ?thesis using assms(1) none by (simp add: core_def)
qed

lemma same_keys_upd: "T i = Some t \<Longrightarrow> task_key t' = task_key t \<Longrightarrow> same_keys T (T(i \<mapsto> t'))"
  by (simp add: same_keys_def)

lemma live_task_upd: "live_task (T(i \<mapsto> t)) j = (if j = i then \<not> finished t else live_task T j)"
  by (simp add: live_task_def)

text \<open>A task and the ones whose readiness does not depend on it.\<close>

lemma node_mono:
  assumes "node_ok T Q ex j u" and "live_task T' = live_task T" and "j \<in> set Q' \<longleftrightarrow> j \<in> set Q" and "ex' = Some j \<longleftrightarrow> ex = Some j"
  shows "node_ok T' Q' ex' j u"
  using assms by (simp add: node_ok_def can_run_def blocked_def)

lemma core_node: "core T Q ex \<Longrightarrow> T i = Some t \<Longrightarrow> node_ok T Q ex i t"
  by (simp add: core_def)

text \<open>One task changes, and may enter the queue or leave the processor; whether it is live does not change.\<close>

lemma core_upd:
  assumes c: "core T Q ex" and i: "T i = Some t" and fin: "finished t' = finished t" and
    node: "node_ok (T(i \<mapsto> t')) Q' ex' i t'" and
    q: "Q' = Q \<or> Q' = Q @ [i] \<and> i \<notin> set Q \<or> Q' = filter (\<lambda>j. j \<noteq> i) Q" and
    ex: "ex' = ex \<or> ex = Some i \<and> ex' = None \<or> ex = None \<and> ex' = Some i"
  shows "core (T(i \<mapsto> t')) Q' ex'"
proof -
  have live: "live_task (T(i \<mapsto> t')) = live_task T" using i fin by (auto simp: live_task_upd fun_eq_iff live_task_def)
  have "node_ok (T(i \<mapsto> t')) Q' ex' j u" if "(T(i \<mapsto> t')) j = Some u" for j u
  proof (cases "j = i")
    case True
    then show ?thesis using node that by simp
  next
    case False
    then have "T j = Some u" using that by simp
    from node_mono [OF core_node [OF c this] live] show ?thesis using q ex False by auto
  qed
  moreover have "distinct Q'" using c q by (auto simp: core_def)
  ultimately show ?thesis using c i q ex by (auto simp: core_def)
qed

text \<open>A new task.\<close>

lemma core_spawn:
  assumes c: "core T Q ex" and i: "T i = None" "0 < i" "i < int HANDLE_TABLE_SIZE" and
    t: "tk_state t = TASK_READY" "unblocked t" and
    fresh: "\<And>j u. T j = Some u \<Longrightarrow> tk_state u = TASK_SUSPENDED \<Longrightarrow> join_target u \<noteq> i"
  shows "core (T(i \<mapsto> t)) (Q @ [i]) ex"
proof -
  have "node_ok (T(i \<mapsto> t)) (Q @ [i]) ex j u" if "(T(i \<mapsto> t)) j = Some u" for j u
  proof (cases "j = i")
    case True
    moreover have "ex \<noteq> Some i" using c i(1) by (auto simp: core_def)
    ultimately show ?thesis using that t i by (simp add: node_ok_def can_run_def)
  next
    case False
    then have j: "T j = Some u" using that by simp
    have "blocked (T(i \<mapsto> t)) u = blocked T u" if "tk_state u = TASK_SUSPENDED"
      using fresh [OF j that] by (auto simp: blocked_def live_task_upd)
    then have "can_run (T(i \<mapsto> t)) u = can_run T u" by (auto simp: can_run_def)
    then show ?thesis using core_node [OF c j] False by (simp add: node_ok_def)
  qed
  moreover have "i \<notin> set Q" using c i(1) by (auto simp: core_def)
  ultimately show ?thesis using c i(2) by (auto simp: core_def)
qed

text \<open>A task ends: it leaves the queue and the processor, and the tasks that join it become ready.\<close>

lemma core_die:
  assumes c: "core T Q ex" and i: "T i = Some t" "\<not> finished t" "i \<noteq> 0" and t': "finished t'" and
    js: "distinct js" "\<And>j. j \<in> set js \<longleftrightarrow> (\<exists>u. T j = Some u \<and> j \<noteq> i \<and> tk_state u = TASK_SUSPENDED \<and> join_target u = i)" and
    ex': "ex' = (if ex = Some i then None else ex)"
  shows "core (T(i \<mapsto> t')) (filter (\<lambda>j. j \<noteq> i) Q @ js) ex'"
proof -
  let ?Q = "filter (\<lambda>j. j \<noteq> i) Q @ js"
  have not_q: "j \<notin> set Q" if js_j: "j \<in> set js" for j
  proof -
    obtain u where u: "T j = Some u" "tk_state u = TASK_SUSPENDED" "join_target u = i" using js(2) [of j] js_j by auto
    moreover have "live_task T i" using i by (simp add: live_task_def)
    ultimately have "\<not> can_run T u" using i(3) by (simp add: can_run_def blocked_def)
    then show ?thesis using core_node [OF c u(1)] u(2) by (auto simp: node_ok_def split: if_splits)
  qed
  have node: "node_ok (T(i \<mapsto> t')) ?Q ex' j u" if "(T(i \<mapsto> t')) j = Some u" for j u
  proof (cases "j = i")
    case True
    moreover have "i \<notin> set js" using js(2) [of i] by simp
    moreover have "\<not> can_run (T(i \<mapsto> t')) t'" "tk_state t' \<noteq> TASK_READY" "tk_state t' \<noteq> TASK_RUNNING" "tk_state t' \<noteq> TASK_SUSPENDED"
      using t' by (auto simp: can_run_def finished_def)
    moreover have "0 \<le> i" "i < int HANDLE_TABLE_SIZE" using core_node [OF c i(1)] by (simp_all add: node_ok_def)
    ultimately show ?thesis using that ex' by (simp add: node_ok_def)
  next
    case False
    then have j: "T j = Some u" using that by simp
    note n = core_node [OF c j]
    have exj: "ex' = Some j \<longleftrightarrow> ex = Some j" using ex' False by auto
    show ?thesis
    proof (cases "tk_state u = TASK_SUSPENDED \<and> join_target u = i")
      case True
      then have in_js: "j \<in> set js" using js(2) [of j] j False by simp
      have nex: "ex \<noteq> Some j" using n True by (auto simp: node_ok_def)
      have "one_reason u" using n nex True by (simp add: node_ok_def)
      then have "\<not> blocked (T(i \<mapsto> t')) u"
        using True i(3) t' by (auto simp: one_reason_def blocked_def live_task_upd)
      then show ?thesis using n nex True in_js exj by (simp add: node_ok_def can_run_def)
    next
      case other: False
      then have "j \<notin> set js" using js(2) [of j] j by auto
      moreover have "can_run (T(i \<mapsto> t')) u = can_run T u"
        using other by (auto simp: can_run_def blocked_def live_task_upd)
      ultimately show ?thesis using n False exj by (simp add: node_ok_def)
    qed
  qed
  have some: "(T(i \<mapsto> t')) j \<noteq> None" if "j \<in> set ?Q" for j
    using that c js(2) by (auto simp: core_def)
  show ?thesis
    unfolding core_def
  proof (intro conjI)
    show "distinct ?Q" using c js(1) not_q by (auto simp: core_def)
    show "\<forall>j. ex' = Some j \<longrightarrow> (T(i \<mapsto> t')) j \<noteq> None" using c ex' by (auto simp: core_def)
  qed (use node some c in \<open>auto simp: core_def\<close>)
qed

text \<open>A finished task is freed.\<close>

lemma core_reap:
  assumes c: "core T Q ex" and i: "T i = Some t" "finished t" "i \<noteq> 0"
  shows "core (T(i := None)) Q ex"
proof -
  have ni: "i \<notin> set Q" "ex \<noteq> Some i"
    using core_node [OF c i(1)] i(2) by (auto simp: node_ok_def can_run_def finished_def split: if_splits)
  have live: "live_task (T(i := None)) = live_task T" using i by (auto simp: live_task_def fun_eq_iff)
  have "node_ok (T(i := None)) Q ex j u" if "(T(i := None)) j = Some u" for j u
    using node_mono [OF core_node [OF c, of j u] live, of Q ex] that by (auto split: if_splits)
  then show ?thesis using c i(3) ni by (auto simp: core_def)
qed

text \<open>The queue has room for a task that is not in it.\<close>

lemma core_room:
  assumes "core T Q ex" and "T i \<noteq> None" and "i \<notin> set Q"
  shows "length Q < HANDLE_TABLE_SIZE"
proof -
  have range: "0 \<le> j \<and> j < int HANDLE_TABLE_SIZE" if "T j \<noteq> None" for j
    using assms(1) that by (auto simp: core_def node_ok_def)
  have "insert i (set Q) \<subseteq> {0..<int HANDLE_TABLE_SIZE}" using range assms by (auto simp: core_def)
  then have "card (insert i (set Q)) \<le> HANDLE_TABLE_SIZE"
    using card_mono [of "{0..<int HANDLE_TABLE_SIZE}"] by fastforce
  moreover have "card (set Q) = length Q" using assms(1) by (simp add: core_def distinct_card)
  ultimately show ?thesis using assms(3) by simp
qed

subsection \<open>The view of a state\<close>

definition tmap :: "('v, 'f) sys \<Rightarrow> ('v tval, 'f) tasks" where
  "tmap s = (\<lambda>i. sched_lookup i s)"

definition qids :: "('v, 'f) sys \<Rightarrow> int list" where
  "qids s = map fst (ready_list (sch s))"

definition task_wf :: "('v tval, 'f) task htable \<Rightarrow> int \<Rightarrow> ('v tval, 'f) task \<Rightarrow> bool" where
  "task_wf h i t \<longleftrightarrow> tk_id t = i \<and> mbox_ok t \<and> (i \<noteq> 0 \<longrightarrow> hs_gen (ht_slots h ! nat i) = tk_hgen t)"

definition sys_wf :: "('v, 'f) sys \<Rightarrow> bool" where
  "sys_wf s \<longleftrightarrow>
     length (ht_slots (htab s)) = HANDLE_TABLE_SIZE \<and> ready_ok (sch s) \<and>
     (\<forall>i t. tmap s i = Some t \<longrightarrow> task_wf (htab s) i t)"

definition live_count :: "('v, 'f) tasks \<Rightarrow> int" where
  "live_count T = int (card {i. i \<noteq> 0 \<and> live_task T i})"

definition inv_at :: "('v, 'f) sys \<Rightarrow> int option \<Rightarrow> bool" where
  "inv_at s ex \<longleftrightarrow> sys_wf s \<and> core (tmap s) (qids s) ex \<and> s_live (sch s) = live_count (tmap s)"

lemma view_cong:
  assumes "sch s' = sch s" and "htab s' = htab s"
  shows "tmap s' = tmap s" and "qids s' = qids s" and "sys_wf s' = sys_wf s" and "inv_at s' ex = inv_at s ex"
proof -
  show t: "tmap s' = tmap s" using assms by (simp add: tmap_def sched_lookup_def fun_eq_iff)
  show q: "qids s' = qids s" using assms by (simp add: qids_def)
  show w: "sys_wf s' = sys_wf s" using assms t by (simp add: sys_wf_def)
  show "inv_at s' ex = inv_at s ex" using assms t q w by (simp add: inv_at_def)
qed

lemma tmap_simps [simp]:
  "tmap (s\<lparr>vm_stack := a\<rparr>) = tmap s" "tmap (s\<lparr>vm_frames := fs\<rparr>) = tmap s" "tmap (s\<lparr>vm_line := n\<rparr>) = tmap s"
  "tmap (s\<lparr>g_has_error := b\<rparr>) = tmap s" "tmap (s\<lparr>g_error := e\<rparr>) = tmap s" "tmap (s\<lparr>g_try_depth := n\<rparr>) = tmap s"
  "tmap (s\<lparr>suspend_request := b\<rparr>) = tmap s" "tmap (s\<lparr>in_tramp := b\<rparr>) = tmap s" "tmap (s\<lparr>phase := p\<rparr>) = tmap s"
  "tmap (s\<lparr>has_sched := b\<rparr>) = tmap s"
  by (rule view_cong(1); simp)+

lemma qids_simps [simp]:
  "qids (s\<lparr>vm_stack := a\<rparr>) = qids s" "qids (s\<lparr>vm_frames := fs\<rparr>) = qids s" "qids (s\<lparr>vm_line := n\<rparr>) = qids s"
  "qids (s\<lparr>g_has_error := b\<rparr>) = qids s" "qids (s\<lparr>g_error := e\<rparr>) = qids s" "qids (s\<lparr>g_try_depth := n\<rparr>) = qids s"
  "qids (s\<lparr>suspend_request := b\<rparr>) = qids s" "qids (s\<lparr>in_tramp := b\<rparr>) = qids s" "qids (s\<lparr>phase := p\<rparr>) = qids s"
  "qids (s\<lparr>has_sched := b\<rparr>) = qids s" "qids (s\<lparr>htab := h\<rparr>) = qids s"
  by (simp_all add: qids_def)

lemma sys_wf_simps [simp]:
  "sys_wf (s\<lparr>vm_stack := a\<rparr>) = sys_wf s" "sys_wf (s\<lparr>vm_frames := fs\<rparr>) = sys_wf s" "sys_wf (s\<lparr>vm_line := n\<rparr>) = sys_wf s"
  "sys_wf (s\<lparr>g_has_error := b\<rparr>) = sys_wf s" "sys_wf (s\<lparr>g_error := e\<rparr>) = sys_wf s" "sys_wf (s\<lparr>g_try_depth := n\<rparr>) = sys_wf s"
  "sys_wf (s\<lparr>suspend_request := b\<rparr>) = sys_wf s" "sys_wf (s\<lparr>in_tramp := b\<rparr>) = sys_wf s" "sys_wf (s\<lparr>phase := p\<rparr>) = sys_wf s"
  "sys_wf (s\<lparr>has_sched := b\<rparr>) = sys_wf s"
  by (rule view_cong(3); simp)+

lemma inv_at_simps [simp]:
  "inv_at (s\<lparr>vm_stack := a\<rparr>) ex = inv_at s ex" "inv_at (s\<lparr>vm_frames := fs\<rparr>) ex = inv_at s ex"
  "inv_at (s\<lparr>vm_line := n\<rparr>) ex = inv_at s ex" "inv_at (s\<lparr>g_has_error := b\<rparr>) ex = inv_at s ex"
  "inv_at (s\<lparr>g_error := e\<rparr>) ex = inv_at s ex" "inv_at (s\<lparr>g_try_depth := n\<rparr>) ex = inv_at s ex"
  "inv_at (s\<lparr>suspend_request := b\<rparr>) ex = inv_at s ex" "inv_at (s\<lparr>in_tramp := b\<rparr>) ex = inv_at s ex"
  "inv_at (s\<lparr>phase := p\<rparr>) ex = inv_at s ex" "inv_at (s\<lparr>has_sched := b\<rparr>) ex = inv_at s ex"
  by (rule view_cong(4); simp)+

text \<open>A write through a pointer.\<close>

definition same_control :: "('v, 'f) sys \<Rightarrow> ('v, 'f) sys \<Rightarrow> bool" where
  "same_control s s' \<longleftrightarrow>
     has_sched s' = has_sched s \<and> in_tramp s' = in_tramp s \<and> phase s' = phase s \<and>
     suspend_request s' = suspend_request s \<and> s_current (sch s') = s_current (sch s) \<and>
     s_active (sch s') = s_active (sch s) \<and> s_now (sch s') = s_now (sch s)"

lemma same_control_refl [simp]: "same_control s s"
  by (simp add: same_control_def)

lemma same_control_trans: "same_control a b \<Longrightarrow> same_control b d \<Longrightarrow> same_control a d"
  by (simp add: same_control_def)

lemma lookup_range:
  "sched_lookup i s = Some t \<Longrightarrow> i = 0 \<or> handle_in_range i \<and> hs_ptr (ht_slots (htab s) ! nat i) = Some t \<and>
     hs_type (ht_slots (htab s) ! nat i) = HANDLE_TASK"
  by (auto simp: sched_lookup_def handle_lookup_slot_def Let_def split: if_splits)

lemma put_view_len:
  assumes len: "length (ht_slots (htab s)) = HANDLE_TABLE_SIZE" and "tmap s i = Some t0"
  shows "tmap (task_put i t s) = (tmap s)(i \<mapsto> t)" and "qids (task_put i t s) = qids s"
    and "same_control s (task_put i t s)" and "s_live (sch (task_put i t s)) = s_live (sch s)"
    and "vm_stack (task_put i t s) = vm_stack s" and "g_has_error (task_put i t s) = g_has_error s"
proof -
  have rl: "ready_list (c\<lparr>main_task := m\<rparr>) = ready_list c" for c :: "('a tval, 'b) sched" and m
    by (simp add: ready_list_def ready_at_def rslot_def fun_eq_iff)
  show "qids (task_put i t s) = qids s" by (simp add: task_put_def qids_def rl)
  show "same_control s (task_put i t s)" "s_live (sch (task_put i t s)) = s_live (sch s)"
    "vm_stack (task_put i t s) = vm_stack s" "g_has_error (task_put i t s) = g_has_error s"
    by (simp_all add: task_put_def same_control_def)
  show "tmap (task_put i t s) = (tmap s)(i \<mapsto> t)"
  proof (cases "i = 0")
    case True
    then show ?thesis by (auto simp: tmap_def sched_lookup_def task_put_def fun_eq_iff)
  next
    case False
    then have i: "handle_in_range i" "hs_type (ht_slots (htab s) ! nat i) = HANDLE_TASK"
      using assms(2) lookup_range [of i s t0] by (auto simp: tmap_def)
    then have ni: "nat i < length (ht_slots (htab s))" using len by (auto simp: handle_in_range_def)
    show ?thesis
    proof (rule ext)
      fix j
      show "tmap (task_put i t s) j = ((tmap s)(i \<mapsto> t)) j"
      proof (cases "j = 0 \<or> \<not> handle_in_range j")
        case True
        then show ?thesis
          using False i by (auto simp: tmap_def sched_lookup_def task_put_def handle_lookup_slot_def)
      next
        case jr: False
        then have "nat i = nat j \<longleftrightarrow> j = i" using i(1) by (auto simp: handle_in_range_def)
        then show ?thesis
          using jr False i ni
          by (simp add: tmap_def sched_lookup_def task_put_def handle_lookup_slot_def Let_def nth_list_update)
      qed
    qed
  qed
qed

lemma wf_length: "sys_wf s \<Longrightarrow> length (ht_slots (htab s)) = HANDLE_TABLE_SIZE"
  by (simp add: sys_wf_def)

lemmas put_view = put_view_len [OF wf_length]

lemma wf_put:
  assumes "sys_wf s" and "tmap s i = Some t0" and "tk_id t = tk_id t0" and "tk_hgen t = tk_hgen t0" and "mbox_ok t"
  shows "sys_wf (task_put i t s)"
proof -
  have gen: "hs_gen (ht_slots (htab (task_put i t s)) ! k) = hs_gen (ht_slots (htab s) ! k)" for k
    by (cases "nat i < length (ht_slots (htab s))") (auto simp: task_put_def nth_list_update list_update_beyond)
  have ring: "ready_ok (sch (task_put i t s)) = ready_ok (sch s)" by (simp add: task_put_def ready_ok_def)
  have len: "length (ht_slots (htab (task_put i t s))) = length (ht_slots (htab s))" by (simp add: task_put_def)
  have "task_wf (htab (task_put i t s)) j u" if "tmap (task_put i t s) j = Some u" for j u
    using that assms gen unfolding put_view(1) [OF assms(1,2)]
    by (auto simp: sys_wf_def task_wf_def split: if_splits)
  then show ?thesis using assms(1) ring len by (simp add: sys_wf_def)
qed

text \<open>Updates of the scheduler record that leave the tasks alone.\<close>

lemma sched_upd_view:
  assumes "main_task (f (sch s)) = main_task (sch s)"
  shows "tmap (sched_upd f s) = tmap s"
  using assms by (simp add: tmap_def sched_upd_def sched_lookup_def fun_eq_iff)

lemma sched_upd_wf:
  assumes "sys_wf s" and "main_task (f (sch s)) = main_task (sch s)" and "ready_ok (f (sch s))"
  shows "sys_wf (sched_upd f s)"
proof -
  have "tmap (sched_upd f s) = tmap s" using assms(2) by (rule sched_upd_view)
  then show ?thesis using assms by (simp add: sys_wf_def sched_upd_def)
qed

lemma push_view:
  assumes "sys_wf s" and "length (qids s) < HANDLE_TABLE_SIZE"
  shows "tmap (sched_upd (sched_ready_push i cause) s) = tmap s"
    and "qids (sched_upd (sched_ready_push i cause) s) = qids s @ [i]"
    and "sys_wf (sched_upd (sched_ready_push i cause) s)"
    and "same_control s (sched_upd (sched_ready_push i cause) s)"
    and "s_live (sch (sched_upd (sched_ready_push i cause) s)) = s_live (sch s)"
proof -
  have ok: "ready_ok (sch s)" and len: "length (ready_list (sch s)) < HANDLE_TABLE_SIZE"
    using assms by (simp_all add: sys_wf_def qids_def)
  note p = push_list [OF ok len, of i cause] and f = push_frame [of "sch s" i cause]
  have m: "main_task (sched_ready_push i cause (sch s)) = main_task (sch s)" using f by (simp add: ring_frame_def)
  show "tmap (sched_upd (sched_ready_push i cause) s) = tmap s" using m by (rule sched_upd_view)
  show "sys_wf (sched_upd (sched_ready_push i cause) s)" using sched_upd_wf [where f = "sched_ready_push i cause", OF assms(1)] m p by simp
  show "qids (sched_upd (sched_ready_push i cause) s) = qids s @ [i]" using p by (simp add: qids_def sched_upd_def)
  show "same_control s (sched_upd (sched_ready_push i cause) s)"
    "s_live (sch (sched_upd (sched_ready_push i cause) s)) = s_live (sch s)"
    using f by (simp_all add: same_control_def ring_frame_def sched_upd_def)
qed

text \<open>The queue after several pushes.\<close>

definition push_all :: "int list \<Rightarrow> sched_cause \<Rightarrow> ('v, 'f) sys \<Rightarrow> ('v, 'f) sys" where
  "push_all ws cause s = fold (\<lambda>w s. sched_upd (sched_ready_push w cause) s) ws s"

lemma push_all_view:
  assumes "sys_wf s" and "distinct (qids s @ ws)" and "set (qids s @ ws) \<subseteq> {0..<int HANDLE_TABLE_SIZE}"
  shows "tmap (push_all ws cause s) = tmap s \<and> qids (push_all ws cause s) = qids s @ ws \<and>
    sys_wf (push_all ws cause s) \<and> same_control s (push_all ws cause s) \<and>
    s_live (sch (push_all ws cause s)) = s_live (sch s)"
  using assms
proof (induction ws arbitrary: s)
  case Nil
  then show ?case by (simp add: push_all_def)
next
  case (Cons w ws)
  have "card (set (qids s @ w # ws)) \<le> HANDLE_TABLE_SIZE" using card_mono [OF _ Cons.prems(3)] by simp
  then have len: "length (qids s) < HANDLE_TABLE_SIZE" using distinct_card [OF Cons.prems(2)] by simp
  let ?s = "sched_upd (sched_ready_push w cause) s"
  note p = push_view [OF Cons.prems(1) len, of w cause]
  have "distinct (qids ?s @ ws)" "set (qids ?s @ ws) \<subseteq> {0..<int HANDLE_TABLE_SIZE}"
    using Cons.prems(2,3) p(2) by auto
  from Cons.IH [OF p(3) this] p show ?case
    using same_control_trans [OF p(4)] by (simp add: push_all_def)
qed

subsection \<open>The number of live tasks\<close>

lemma finite_live_tasks:
  assumes "core T Q ex"
  shows "finite {i. i \<noteq> 0 \<and> live_task T i}"
proof (rule finite_subset)
  show "{i. i \<noteq> 0 \<and> live_task T i} \<subseteq> {0..<int HANDLE_TABLE_SIZE}"
    using core_node [OF assms] by (auto simp: live_task_def node_ok_def)
qed simp

lemma live_count_same: "live_task T' = live_task T \<Longrightarrow> live_count T' = live_count T"
  by (simp add: live_count_def)

lemma live_count_die:
  assumes "core T Q ex" and "T i = Some t" and "\<not> finished t" and "i \<noteq> 0" and "finished t'"
  shows "live_count (T(i \<mapsto> t')) = live_count T - 1"
proof -
  have in_i: "i \<in> {j. j \<noteq> 0 \<and> live_task T j}" using assms by (simp add: live_task_def)
  have "{j. j \<noteq> 0 \<and> live_task (T(i \<mapsto> t')) j} = {j. j \<noteq> 0 \<and> live_task T j} - {i}"
    using assms(5) by (auto simp: live_task_upd split: if_splits)
  moreover have "0 < card {j. j \<noteq> 0 \<and> live_task T j}"
    using in_i finite_live_tasks [OF assms(1)] by (auto simp: card_gt_0_iff)
  ultimately show ?thesis using in_i by (simp add: live_count_def)
qed

lemma live_count_spawn:
  assumes "core T Q ex" and "T i = None" and "i \<noteq> 0" and "\<not> finished t"
  shows "live_count (T(i \<mapsto> t)) = live_count T + 1"
proof -
  have "{j. j \<noteq> 0 \<and> live_task (T(i \<mapsto> t)) j} = insert i {j. j \<noteq> 0 \<and> live_task T j}"
    using assms(3,4) by (auto simp: live_task_upd)
  moreover have "i \<notin> {j. j \<noteq> 0 \<and> live_task T j}" using assms(2) by (simp add: live_task_def)
  ultimately show ?thesis using finite_live_tasks [OF assms(1)] by (simp add: live_count_def)
qed

subsection \<open>Tasks that end\<close>

lemma push_tmap [simp]: "tmap (sched_upd (sched_ready_push w cause) s) = tmap s"
  using push_frame [of "sch s" w cause] by (intro sched_upd_view) (simp add: ring_frame_def)

lemma joins_tmap:
  "joins i s w \<longleftrightarrow> (\<exists>u. tmap s w = Some u \<and> tk_state u = TASK_SUSPENDED \<and> join_target u = i)"
  by (auto simp: joins_def tmap_def split: option.splits)

definition joiners :: "int \<Rightarrow> ('v, 'f) sys \<Rightarrow> int list" where
  "joiners i s = filter (joins i s) (slot_ids @ [0])"

lemma joins_push [simp]: "joins i (sched_upd (sched_ready_push w cause) s) = joins i s"
  by (simp add: fun_eq_iff joins_tmap)

lemma push_all_tmap [simp]: "tmap (push_all ws cause s) = tmap s"
  by (induction ws arbitrary: s) (simp_all add: push_all_def)

lemma joins_push_all [simp]: "joins i (push_all ws cause s) = joins i s"
  by (simp add: fun_eq_iff joins_tmap)

lemma release_fold:
  assumes "\<And>w t. tmap s w = Some t \<Longrightarrow> tk_id t = w"
  shows "fold (\<lambda>w s. if joins i s w then sched_upd (sched_ready_push (task_ref w s) cause) s else s) ws s =
    push_all (filter (joins i s) ws) cause s"
  using assms
proof (induction ws arbitrary: s)
  case Nil
  then show ?case by (simp add: push_all_def)
next
  case (Cons w ws)
  show ?case
  proof (cases "joins i s w")
    case True
    then have "task_ref w s = w" using Cons.prems by (auto simp: joins_tmap task_ref_def tmap_def)
    then show ?thesis
      using True Cons.IH [of "sched_upd (sched_ready_push w cause) s"] Cons.prems by (simp add: push_all_def)
  next
    case False
    then show ?thesis using Cons by simp
  qed
qed

lemma release_push_all:
  assumes "sys_wf s"
  shows "release_joiners i cause s = push_all (joiners i s) cause s"
proof -
  have ids: "tk_id t = w" if "tmap s w = Some t" for w t using assms that by (simp add: sys_wf_def task_wf_def)
  show ?thesis
    by (auto simp: release_joiners_def Let_def release_fold [OF ids] joiners_def) (simp_all add: push_all_def)
qed

lemma slot_ids_range: "j \<in> set slot_ids \<longleftrightarrow> 0 < j \<and> j < int HANDLE_TABLE_SIZE"
proof
  assume "0 < j \<and> j < int HANDLE_TABLE_SIZE"
  then have "nat j \<in> {1..<HANDLE_TABLE_SIZE}" "j = int (nat j)" by auto
  then show "j \<in> set slot_ids" by (metis slot_ids_def image_eqI set_map set_upt)
qed (auto simp: slot_ids_def)

lemma slot_ids_distinct: "distinct slot_ids"
  by (simp add: slot_ids_def distinct_map)

lemma tmap_range:
  assumes "tmap s j = Some u"
  shows "0 \<le> j \<and> j < int HANDLE_TABLE_SIZE"
  using assms lookup_range [of j s u] by (auto simp: tmap_def handle_in_range_def HANDLE_TABLE_SIZE_def)

lemma joiners_set: "j \<in> set (joiners i s) \<longleftrightarrow> joins i s j"
proof -
  have "0 \<le> j \<and> j < int HANDLE_TABLE_SIZE" if "joins i s j" using that tmap_range by (auto simp: joins_tmap)
  then show ?thesis by (cases "j = 0") (auto simp: joiners_def slot_ids_range)
qed

lemma joiners_distinct: "distinct (joiners i s)"
  using slot_ids_distinct slot_ids_range [of 0] by (auto simp: joiners_def)

lemma core_range: "core T Q ex \<Longrightarrow> set Q \<subseteq> {0..<int HANDLE_TABLE_SIZE}"
  by (fastforce simp: core_def node_ok_def)

end
