(* ===== verification/Eigs_Sched_Inv.thy ===== *)
theory Eigs_Sched_Inv
  imports Eigs_Sched_View
begin

text \<open>
  The operations of \<open>src/task.c\<close> and the \<open>task_*\<close> builtins keep the invariant of
  the scheduler, and so do the wake-up of sleepers and the choice of the next task.
\<close>

subsection \<open>A task ends\<close>

lemma die_inv:
  fixes cause :: sched_cause
  assumes inv: "inv_at s ex" and i: "tmap s i = Some t" "\<not> finished t" "i \<noteq> 0" and t': "finished t'" and
    wf: "sys_wf s1" and m: "tmap s1 = (tmap s)(i \<mapsto> t')" and q: "qids s1 = filter (\<lambda>j. j \<noteq> i) (qids s)" and
    l: "s_live (sch s1) = s_live (sch s) - 1"
  defines "s2 \<equiv> release_joiners i cause s1"
  shows "inv_at s2 (if ex = Some i then None else ex)" and "same_control s1 s2" and "tmap s2 = (tmap s)(i \<mapsto> t')"
    and "htab s2 = htab s1"
proof -
  have c: "core (tmap s) (qids s) ex" using inv by (simp add: inv_at_def)
  have js: "j \<in> set (joiners i s1) \<longleftrightarrow>
      (\<exists>u. tmap s j = Some u \<and> j \<noteq> i \<and> tk_state u = TASK_SUSPENDED \<and> join_target u = i)" for j
    using t' by (auto simp: joiners_set joins_tmap m finished_def)
  have c2: "core ((tmap s)(i \<mapsto> t')) (qids s1 @ joiners i s1) (if ex = Some i then None else ex)"
    unfolding q by (rule core_die [OF c i t' joiners_distinct js refl])
  have p: "tmap s2 = tmap s1" "qids s2 = qids s1 @ joiners i s1" "sys_wf s2" "same_control s1 s2"
      "s_live (sch s2) = s_live (sch s1)"
    using push_all_view [OF wf, of "joiners i s1" cause] c2 core_range [OF c2] release_push_all [OF wf, of i cause]
    by (simp_all add: s2_def core_def)
  show "tmap s2 = (tmap s)(i \<mapsto> t')" "same_control s1 s2" using p m by simp_all
  show "inv_at s2 (if ex = Some i then None else ex)"
    using c2 p m l live_count_die [OF c i t'] inv by (simp add: inv_at_def)
  have "htab (push_all ws cause s) = htab s" for ws and s :: "('a, 'b) sys"
    by (induction ws arbitrary: s) (simp_all add: push_all_def sched_upd_def)
  then show "htab s2 = htab s1" using release_push_all [OF wf, of i cause] by (simp add: s2_def)
qed

lemma reap_inv:
  assumes inv: "inv_at s ex" and i: "tmap s i = Some t" "finished t" "i \<noteq> 0"
  shows "inv_at (task_reap (tk_id t) (tk_hgen t) s) ex \<and> same_control s (task_reap (tk_id t) (tk_hgen t) s)"
proof -
  let ?s = "task_reap (tk_id t) (tk_hgen t) s"
  have wf: "sys_wf s" and c: "core (tmap s) (qids s) ex" using inv by (simp_all add: inv_at_def)
  have t: "tk_id t = i" "hs_gen (ht_slots (htab s) ! nat i) = tk_hgen t"
    using wf i(1,3) by (auto simp: sys_wf_def task_wf_def)
  have r: "handle_in_range i" "nat i < length (ht_slots (htab s))"
    using i(1,3) lookup_range [of i s t] wf by (auto simp: tmap_def sys_wf_def handle_in_range_def)
  have h: "htab ?s = (htab s)\<lparr>ht_slots := (ht_slots (htab s))[nat i := (ht_slots (htab s) ! nat i)\<lparr>hs_ptr := None\<rparr>]\<rparr>"
    using t r by (simp add: task_reap_def handle_release_def Let_def)
  have sc: "sch ?s = sch s" by (simp add: task_reap_def)
  have m: "tmap ?s = (tmap s)(i := None)"
  proof (rule ext)
    fix j
    show "tmap ?s j = ((tmap s)(i := None)) j"
    proof (cases "j = 0 \<or> \<not> handle_in_range j")
      case True
      then show ?thesis using i(3) r by (auto simp: tmap_def sched_lookup_def sc handle_lookup_slot_def)
    next
      case False
      then have "nat i = nat j \<longleftrightarrow> j = i" using r(1) by (auto simp: handle_in_range_def)
      then show ?thesis
        using False r(2) by (simp add: tmap_def sched_lookup_def handle_lookup_slot_def Let_def h nth_list_update)
    qed
  qed
  have "hs_gen (ht_slots (htab ?s) ! k) = hs_gen (ht_slots (htab s) ! k)" for k
    using r(2) by (simp add: h nth_list_update)
  then have "sys_wf ?s" using wf m sc by (auto simp: sys_wf_def task_wf_def h split: if_splits)
  moreover have "core (tmap ?s) (qids ?s) ex" using core_reap [OF c i] m by (simp add: qids_def sc)
  moreover have "live_count (tmap ?s) = live_count (tmap s)"
    unfolding m using i by (intro live_count_same) (auto simp: live_task_def fun_eq_iff)
  ultimately show ?thesis using inv by (simp add: inv_at_def sc same_control_def) (simp add: task_reap_def)
qed

subsection \<open>One task changes\<close>

lemma put_inv:
  assumes inv: "inv_at s ex" and i: "tmap s i = Some t" and fin: "finished t' = finished t" and
    attrs: "tk_id t' = tk_id t" "tk_hgen t' = tk_hgen t" "mbox_ok t'" and
    node: "node_ok ((tmap s)(i \<mapsto> t')) (qids s) ex i t'"
  shows "inv_at (task_put i t' s) ex"
proof -
  have wf: "sys_wf s" and c: "core (tmap s) (qids s) ex" using inv by (simp_all add: inv_at_def)
  have "live_task ((tmap s)(i \<mapsto> t')) = live_task (tmap s)" using i fin by (auto simp: live_task_upd fun_eq_iff live_task_def)
  then have "live_count ((tmap s)(i \<mapsto> t')) = live_count (tmap s)" by (rule live_count_same)
  moreover have "core ((tmap s)(i \<mapsto> t')) (qids s) ex" by (rule core_upd [OF c i fin node]) simp_all
  ultimately show ?thesis
    using put_view [OF wf i, of t'] wf_put [OF wf i attrs] inv by (simp add: inv_at_def)
qed

lemma put_push_inv:
  assumes inv: "inv_at s ex" and i: "tmap s i = Some t" and fin: "finished t' = finished t" and
    attrs: "tk_id t' = tk_id t" "tk_hgen t' = tk_hgen t" "mbox_ok t'" and
    node: "node_ok ((tmap s)(i \<mapsto> t')) (qids s @ [i]) ex' i t'" and ni: "i \<notin> set (qids s)" and
    ex': "ex' = ex \<or> ex = Some i \<and> ex' = None"
  shows "inv_at (sched_upd (sched_ready_push i cause) (task_put i t' s)) ex'"
    and "same_control s (sched_upd (sched_ready_push i cause) (task_put i t' s))"
proof -
  have wf: "sys_wf s" and c: "core (tmap s) (qids s) ex" using inv by (simp_all add: inv_at_def)
  have "live_task ((tmap s)(i \<mapsto> t')) = live_task (tmap s)" using i fin by (auto simp: live_task_upd fun_eq_iff live_task_def)
  then have lc: "live_count ((tmap s)(i \<mapsto> t')) = live_count (tmap s)" by (rule live_count_same)
  have c': "core ((tmap s)(i \<mapsto> t')) (qids s @ [i]) ex'"
    by (rule core_upd [OF c i fin node]) (use ni ex' in auto)
  have "tmap s i \<noteq> None" using i by simp
  then have len: "length (qids (task_put i t' s)) < HANDLE_TABLE_SIZE"
    using core_room [OF c _ ni] put_view(2) [OF wf i] by simp
  note v = put_view [OF wf i, of t'] and p = push_view [OF wf_put [OF wf i attrs] len, of i cause]
  show "inv_at (sched_upd (sched_ready_push i cause) (task_put i t' s)) ex'"
    using v p c' lc inv by (simp add: inv_at_def)
  show "same_control s (sched_upd (sched_ready_push i cause) (task_put i t' s))"
    using same_control_trans [OF v(3) p(4)] .
qed

text \<open>A change the invariant does not read.\<close>

lemma put_key_inv:
  assumes inv: "inv_at s ex" and i: "tmap s i = Some t" and key: "task_key t' = task_key t" and
    attrs: "tk_id t' = tk_id t" "tk_hgen t' = tk_hgen t" "mbox_ok t'"
  shows "inv_at (task_put i t' s) ex"
proof (rule put_inv [OF inv i _ attrs])
  have "node_ok (tmap s) (qids s) ex i t" using core_node [of "tmap s" "qids s" ex i t] i inv by (simp add: inv_at_def)
  then show "node_ok ((tmap s)(i \<mapsto> t')) (qids s) ex i t'" using key_node [OF same_keys_upd [where T = "tmap s", OF i key] key] by simp
qed (use key in \<open>simp add: finished_def task_key_def\<close>)

text \<open>A change of fields of the scheduler that the invariant does not read.\<close>

lemma upd_inv:
  assumes "main_task (f (sch s)) = main_task (sch s)" and "ready_ok (f (sch s)) = ready_ok (sch s)" and
    "ready_list (f (sch s)) = ready_list (sch s)" and "s_live (f (sch s)) = s_live (sch s)"
  shows "inv_at (sched_upd f s) ex = inv_at s ex"
proof -
  have "tmap (sched_upd f s) = tmap s" using assms(1) by (rule sched_upd_view)
  then show ?thesis using assms by (simp add: inv_at_def sys_wf_def qids_def sched_upd_def)
qed

lemma ready_fields [simp]:
  "ready_list (c\<lparr>dead_letters := n\<rparr>) = ready_list c" "ready_list (c\<lparr>detached_err_count := n\<rparr>) = ready_list c"
  "ready_list (c\<lparr>s_now := d\<rparr>) = ready_list c" "ready_list (c\<lparr>rng_state := r, seeded := b\<rparr>) = ready_list c"
  "ready_list (c\<lparr>s_current := i, s_trace := t\<rparr>) = ready_list c" "ready_list (c\<lparr>s_live := l\<rparr>) = ready_list c"
  "ready_list (c\<lparr>s_active := b, s_live := l, spawn_counter := w\<rparr>) = ready_list c"
  by (simp_all add: ready_list_def ready_at_def rslot_def fun_eq_iff)

lemma upd_fields_inv [simp]:
  "inv_at (sched_upd (\<lambda>c. c\<lparr>dead_letters := f c\<rparr>) s) ex = inv_at s ex"
  "inv_at (sched_upd (\<lambda>c. c\<lparr>detached_err_count := g c\<rparr>) s) ex = inv_at s ex"
  "inv_at (sched_upd (\<lambda>c. c\<lparr>s_now := n c\<rparr>) s) ex = inv_at s ex"
  "inv_at (sched_upd (\<lambda>c. c\<lparr>rng_state := r c, seeded := b c\<rparr>) s) ex = inv_at s ex"
  "inv_at (sched_upd (\<lambda>c. c\<lparr>s_current := i c, s_trace := t c\<rparr>) s) ex = inv_at s ex"
  by (rule upd_inv; simp add: ready_ok_def)+

lemma inv_task:
  assumes "inv_at s ex" and "tmap s i = Some t"
  shows "tk_id t = i" and "mbox_ok t" and "node_ok (tmap s) (qids s) ex i t"
  using assms core_node [of "tmap s" "qids s" ex i t] by (auto simp: inv_at_def sys_wf_def task_wf_def)

text \<open>The executing task.\<close>

lemma inv_ex:
  assumes "inv_at s (Some i)"
  shows "\<exists>t. tmap s i = Some t \<and> i \<notin> set (qids s) \<and> (tk_state t = TASK_READY \<or> tk_state t = TASK_RUNNING) \<and> unblocked t"
proof -
  obtain t where "tmap s i = Some t" using assms by (auto simp: inv_at_def core_def)
  then show ?thesis using inv_task(3) [OF assms] by (auto simp: node_ok_def)
qed

lemma node_ex:
  assumes "node_ok T Q (Some i) i t" and "tk_state t' = tk_state t" and "unblocked t'"
  shows "node_ok T' Q (Some i) i t'"
  using assms by (auto simp: node_ok_def)

subsection \<open>The operations on other tasks\<close>

lemma deliver_inv:
  assumes inv: "inv_at s (Some j)"
  shows "inv_at (snd (task_deliver i msg s)) (Some j) \<and> same_control s (snd (task_deliver i msg s))"
proof (cases "\<exists>t. has_sched s \<and> sched_lookup i s = Some t \<and> \<not> finished t")
  case False
  let ?dead = "sched_upd (\<lambda>c. c\<lparr>dead_letters := dead_letters c + 1\<rparr>) s"
  have "snd (task_deliver i msg s) = s \<or> snd (task_deliver i msg s) = ?dead"
    using False by (auto simp: task_deliver_def split: option.splits)
  moreover have "same_control s ?dead" by (simp add: same_control_def sched_upd_def)
  moreover have "inv_at ?dead (Some j)" using inv upd_fields_inv(1) [of "\<lambda>c. dead_letters c + 1" s] by blast
  moreover have "same_control s s" by simp
  ultimately show ?thesis using inv by (elim disjE) (simp_all only: simp_thms)
next
  case True
  then obtain t where t: "has_sched s" "tmap s i = Some t" "\<not> finished t" by (auto simp: tmap_def)
  let ?t = "mbox_push msg t"
  have push: "mbox_ok ?t" "mbox_count ?t = mbox_count t + 1"
    using mbox_push_ok [OF inv_task(2) [OF inv t(2)], of msg] by simp_all
  have fld: "tk_id ?t = tk_id t" "tk_hgen ?t = tk_hgen t" "tk_state ?t = tk_state t" "sleeping ?t = sleeping t"
      "recv_blocked ?t = recv_blocked t" "join_target ?t = join_target t"
    by (simp_all add: mbox_push_def mbox_grow_def Let_def)
  have fin: "finished ?t = finished t" by (simp add: finished_def fld)
  note node = inv_task(3) [OF inv t(2)]
  have wf: "sys_wf s" using inv by (simp add: inv_at_def)
  have lv: "live_task ((tmap s)(i \<mapsto> ?t)) = live_task (tmap s)"
    using t(2) fin by (auto simp: live_task_upd live_task_def fun_eq_iff)
  let ?wakes = "recv_blocked ?t \<and> tk_state ?t = TASK_SUSPENDED \<and> mbox_count ?t = 1"
  show ?thesis
  proof (cases ?wakes)
    case True
    then have st: "recv_blocked t" "tk_state t = TASK_SUSPENDED" "mbox_count t = 0" using fld push by simp_all
    then have ex: "j \<noteq> i" using node by (auto simp: node_ok_def split: if_splits)
    then have ni: "i \<notin> set (qids s)" and one: "one_reason t"
      using node st by (simp_all add: node_ok_def can_run_def blocked_def)
    have "\<not> blocked ((tmap s)(i \<mapsto> ?t)) ?t" using one st push fld by (simp add: blocked_def one_reason_def)
    then have "node_ok ((tmap s)(i \<mapsto> ?t)) (qids s @ [i]) (Some j) i ?t"
      using node ex st fld one by (simp add: node_ok_def can_run_def one_reason_def)
    from put_push_inv [OF inv t(2) fin fld(1,2) push(1) this ni, of SCAUSE_RECV_WAKE] t True show ?thesis
      by (simp add: task_deliver_def tmap_def Let_def)
  next
    case False
    have "can_run ((tmap s)(i \<mapsto> ?t)) ?t = can_run (tmap s) t"
      using False fld push by (auto simp: can_run_def blocked_def lv)
    then have "node_ok ((tmap s)(i \<mapsto> ?t)) (qids s) (Some j) i ?t"
      using node fld by (auto simp: node_ok_def unblocked_def one_reason_def split: if_splits)
    from put_inv [OF inv t(2) fin fld(1,2) push(1) this] put_view(3) [OF wf t(2)] t False show ?thesis
      by (auto simp: task_deliver_def tmap_def Let_def)
  qed
qed

lemma remove_view:
  assumes "sys_wf s"
  shows "tmap (sched_upd (sched_ready_remove i) s) = tmap s"
    and "qids (sched_upd (sched_ready_remove i) s) = filter (\<lambda>j. j \<noteq> i) (qids s)"
    and "sys_wf (sched_upd (sched_ready_remove i) s)"
    and "same_control s (sched_upd (sched_ready_remove i) s)"
    and "s_live (sch (sched_upd (sched_ready_remove i) s)) = s_live (sch s)"
proof -
  have ok: "ready_ok (sch s)" using assms by (simp add: sys_wf_def)
  note r = remove_list [OF ok, of i]
  then have m: "main_task (sched_ready_remove i (sch s)) = main_task (sch s)" by (simp add: ring_frame_def)
  show "tmap (sched_upd (sched_ready_remove i) s) = tmap s" using m by (rule sched_upd_view)
  show "sys_wf (sched_upd (sched_ready_remove i) s)"
    using sched_upd_wf [where f = "sched_ready_remove i", OF assms] m r by simp
  show "qids (sched_upd (sched_ready_remove i) s) = filter (\<lambda>j. j \<noteq> i) (qids s)"
    using r by (simp add: qids_def sched_upd_def filter_map comp_def)
  show "same_control s (sched_upd (sched_ready_remove i) s)"
    "s_live (sch (sched_upd (sched_ready_remove i) s)) = s_live (sch s)"
    using r by (simp_all add: same_control_def ring_frame_def sched_upd_def)
qed

lemma live_dec_view:
  "tmap (sched_upd (\<lambda>c. c\<lparr>s_live := s_live c - 1\<rparr>) s) = tmap s"
  "qids (sched_upd (\<lambda>c. c\<lparr>s_live := s_live c - 1\<rparr>) s) = qids s"
  "sys_wf (sched_upd (\<lambda>c. c\<lparr>s_live := s_live c - 1\<rparr>) s) = sys_wf s"
  "same_control s (sched_upd (\<lambda>c. c\<lparr>s_live := s_live c - 1\<rparr>) s)"
  "s_live (sch (sched_upd (\<lambda>c. c\<lparr>s_live := s_live c - 1\<rparr>) s)) = s_live (sch s) - 1"
proof -
  show "tmap (sched_upd (\<lambda>c. c\<lparr>s_live := s_live c - 1\<rparr>) s) = tmap s" by (rule sched_upd_view) simp
  then show "sys_wf (sched_upd (\<lambda>c. c\<lparr>s_live := s_live c - 1\<rparr>) s) = sys_wf s"
    by (simp add: sys_wf_def) (simp add: sched_upd_def ready_ok_def)
qed (simp_all add: qids_def sched_upd_def same_control_def)

text \<open>A task dies, and is freed if nobody can ask for its result.\<close>

lemma die_reap_inv:
  fixes cause :: sched_cause
  assumes inv: "inv_at s ex" and i: "tmap s i = Some t" "\<not> finished t" "i \<noteq> 0" and t': "finished t'" and
    attrs: "tk_id t' = tk_id t" "tk_hgen t' = tk_hgen t" "mbox_ok t'" and
    wf: "sys_wf s1" and m: "tmap s1 = tmap s" and q: "qids s1 = filter (\<lambda>j. j \<noteq> i) (qids s)" and
    l: "s_live (sch s1) = s_live (sch s)"
  defines "s2 \<equiv> sched_upd (\<lambda>c. c\<lparr>s_live := s_live c - 1\<rparr>) (task_put i t' s1)"
  defines "s3 \<equiv> release_joiners i cause s2"
  assumes s4: "s4 = s3 \<or> s4 = sched_upd (\<lambda>c. c\<lparr>detached_err_count := detached_err_count c + 1\<rparr>) s3"
  shows "inv_at s3 (if ex = Some i then None else ex)" and "same_control s1 s3"
    and "inv_at (task_reap (tk_id t) (tk_hgen t) s4) (if ex = Some i then None else ex)"
    and "same_control s1 (task_reap (tk_id t) (tk_hgen t) s4)"
proof -
  let ?ex = "if ex = Some i then None else ex"
  have i1: "tmap s1 i = Some t" using m i(1) by simp
  note v = put_view [OF wf i1, of t'] and w = wf_put [OF wf i1 attrs]
  have s2: "sys_wf s2" "tmap s2 = (tmap s)(i \<mapsto> t')" "qids s2 = filter (\<lambda>j. j \<noteq> i) (qids s)"
      "s_live (sch s2) = s_live (sch s) - 1" "same_control s1 s2"
    using v w l m q same_control_trans [OF v(3)] by (simp_all add: s2_def live_dec_view)
  note d = die_inv [OF inv i t' s2(1-4), of cause, folded s3_def]
  show inv3: "inv_at s3 ?ex" by (rule d(1))
  show sc3: "same_control s1 s3" using same_control_trans [OF s2(5) d(2)] .
  have i4: "tmap s4 i = Some t'" "inv_at s4 ?ex" "same_control s1 s4"
  proof -
    have "tmap (sched_upd (\<lambda>c. c\<lparr>detached_err_count := detached_err_count c + 1\<rparr>) s3) = tmap s3"
      by (rule sched_upd_view) simp
    then show "tmap s4 i = Some t'" using s4 d(3) by auto
    show "inv_at s4 ?ex" using s4 inv3 upd_fields_inv(2) [of "\<lambda>c. detached_err_count c + 1" s3 ?ex] by blast
    show "same_control s1 s4" using s4 sc3 by (auto simp: same_control_def sched_upd_def)
  qed
  have r: "inv_at (task_reap (tk_id t') (tk_hgen t') s4) ?ex \<and> same_control s4 (task_reap (tk_id t') (tk_hgen t') s4)"
    by (rule reap_inv [OF i4(2) i4(1) t' i(3)])
  show "inv_at (task_reap (tk_id t) (tk_hgen t) s4) ?ex" "same_control s1 (task_reap (tk_id t) (tk_hgen t) s4)"
    using r same_control_trans [OF i4(3)] attrs(1,2) by simp_all
qed

lemma kill_inv:
  assumes inv: "inv_at s (Some (cur s))"
  shows "inv_at (snd (task_do_kill i s)) (Some (cur s)) \<and> same_control s (snd (task_do_kill i s))"
proof (cases "has_sched s \<and> i \<noteq> 0 \<and> i \<noteq> cur s \<and> (\<exists>t. tmap s i = Some t \<and> \<not> finished t)")
  case False
  then have "snd (task_do_kill i s) = s" by (auto simp: task_do_kill_def tmap_def split: option.splits)
  then show ?thesis using inv by simp
next
  case True
  then obtain t where t: "has_sched s" "i \<noteq> 0" "i \<noteq> cur s" "tmap s i = Some t" "\<not> finished t" by blast
  have wf: "sys_wf s" using inv by (simp add: inv_at_def)
  note r = remove_view [OF wf, of i]
  let ?s1 = "sched_upd (sched_ready_remove i) s"
  let ?td = "g_try_depth s - frames_tries (saved_frames t)"
  let ?s2 = "?s1\<lparr>g_try_depth := if saved_frames t = [] then g_try_depth s else if ?td < 0 then 0 else ?td\<rparr>"
  let ?t = "t\<lparr>mbox := [], mbox_head := 0, mbox_count := 0, saved_stack := [], saved_frames := [],
              tk_has_error := True, tk_state := TASK_DEAD,
              error_value := (case error_value t of None \<Rightarrow> Some (Err_Raised EK_INTERRUPT 0) | e \<Rightarrow> e)\<rparr>"
  have ok: "finished ?t" "tk_id ?t = tk_id t" "tk_hgen ?t = tk_hgen t" "mbox_ok ?t"
    by (simp_all add: finished_def mbox_ok_def)
  have s2: "sys_wf ?s2" "tmap ?s2 = tmap s" "qids ?s2 = filter (\<lambda>j. j \<noteq> i) (qids s)" "s_live (sch ?s2) = s_live (sch s)"
      "same_control s ?s2"
    using r by (simp_all add: same_control_def)
  define s3 where "s3 = release_joiners i SCAUSE_KILL_RELEASE (sched_upd (\<lambda>c. c\<lparr>s_live := s_live c - 1\<rparr>) (task_put i ?t ?s2))"
  have "inv_at s3 (Some (cur s))" "same_control ?s2 s3" "inv_at (task_reap (tk_id t) (tk_hgen t) s3) (Some (cur s))"
      "same_control ?s2 (task_reap (tk_id t) (tk_hgen t) s3)"
    using die_reap_inv [OF inv t(4,5,2) ok s2(1-4), where cause = SCAUSE_KILL_RELEASE, OF disjI1, OF refl] t(3)
    unfolding s3_def by simp_all
  moreover have "snd (task_do_kill i s) = (if detached t then task_reap (tk_id t) (tk_hgen t) s3 else s3)"
    using t by (simp add: task_do_kill_def tmap_def Let_def s3_def)
  ultimately show ?thesis using same_control_trans [OF s2(5)] by (cases "detached t") simp_all
qed

lemma detach_inv:
  assumes inv: "inv_at s (Some j)"
  shows "inv_at (snd (task_do_detach i s)) (Some j) \<and> same_control s (snd (task_do_detach i s))"
proof (cases "has_sched s \<and> i \<noteq> 0 \<and> (\<exists>t. tmap s i = Some t)")
  case False
  then have "snd (task_do_detach i s) = s" by (auto simp: task_do_detach_def tmap_def split: option.splits)
  then show ?thesis using inv by simp
next
  case True
  then obtain t where t: "has_sched s" "i \<noteq> 0" "tmap s i = Some t" by blast
  have wf: "sys_wf s" using inv by (simp add: inv_at_def)
  show ?thesis
  proof (cases "finished t")
    case True
    let ?s1 = "if err_unobserved t then sched_upd (\<lambda>c. c\<lparr>detached_err_count := detached_err_count c + 1\<rparr>) s else s"
    have s1: "inv_at ?s1 (Some j)" "same_control s ?s1" "tmap ?s1 = tmap s"
      using inv sched_upd_view [of "\<lambda>c. c\<lparr>detached_err_count := detached_err_count c + 1\<rparr>" s]
        upd_fields_inv(2) [of "\<lambda>c. detached_err_count c + 1" s "Some j"]
      by (auto simp: same_control_def sched_upd_def)
    have "snd (task_do_detach i s) = task_reap (tk_id t) (tk_hgen t) ?s1"
      using t True by (simp add: task_do_detach_def tmap_def)
    then show ?thesis
      using reap_inv [OF s1(1), of i t] s1(3) t True same_control_trans [OF s1(2)] by simp
  next
    case False
    let ?t = "t\<lparr>detached := True\<rparr>"
    have "task_key ?t = task_key t" "mbox_ok ?t"
      using inv_task(2) [OF inv t(3)] by (simp_all add: task_key_def mbox_ok_def mbox_read_def)
    then show ?thesis
      using put_key_inv [OF inv t(3), of ?t] put_view(3) [OF wf t(3), of ?t] t False
      by (simp add: task_do_detach_def tmap_def)
  qed
qed

subsection \<open>A new task\<close>

text \<open>No suspended task still names the slot the next task will get.\<close>

definition no_stale_join :: "('v, 'f) sys \<Rightarrow> bool" where
  "no_stale_join s =
     (case handle_free_slot (htab s) of
        None \<Rightarrow> True
      | Some i \<Rightarrow> list_all (\<lambda>j. \<not> joins (int i) s j) (0 # slot_ids))"

text \<open>What a call of a builtin that does not suspend leaves alone.\<close>

definition keeps_ctl :: "('v, 'f) sys \<Rightarrow> ('v, 'f) sys \<Rightarrow> bool" where
  "keeps_ctl s s' \<longleftrightarrow>
     in_tramp s' = in_tramp s \<and> phase s' = phase s \<and> suspend_request s' = suspend_request s \<and> cur s' = cur s \<and>
     (has_sched s \<longrightarrow> has_sched s') \<and> (\<not> has_sched s' \<longrightarrow> sch s' = sch s)"

lemma keeps_ctl_refl [simp]: "keeps_ctl s s"
  by (simp add: keeps_ctl_def)

lemma same_keeps_ctl: "same_control s s' \<Longrightarrow> has_sched s \<Longrightarrow> keeps_ctl s s'"
  by (simp add: keeps_ctl_def same_control_def)

lemma core_len: "core T Q ex \<Longrightarrow> length Q \<le> HANDLE_TABLE_SIZE"
  using card_mono [OF _ core_range, of T Q ex] by (simp add: core_def distinct_card)

lemma task_new_wf:
  "mbox_ok (task_new fn as st\<lparr>tk_id := i, tk_hgen := g, spawn_seq := w\<rparr>)"
  "unblocked (task_new fn as st\<lparr>tk_id := i, tk_hgen := g, spawn_seq := w\<rparr>)"
  by (simp_all add: mbox_ok_def unblocked_def task_new_def)

lemma spawn_inv:
  assumes inv: "inv_at s (Some (cur s))" and new: "\<not> has_sched s \<Longrightarrow> sch s = sched_new" and fresh: "no_stale_join s"
  shows "inv_at (snd (builtin_task_spawn fn as s)) (Some (cur s)) \<and> keeps_ctl s (snd (builtin_task_spawn fn as s))"
proof (cases "\<exists>tid gen h f. fn = Some f \<and> handle_register (task_new f as TASK_READY) HANDLE_TASK (htab s) = ((tid, gen), h) \<and>
    0 \<le> tid \<and> \<not> (case f of TF_BUILTIN \<Rightarrow> False | TF_FN pc \<Rightarrow> 2 \<le> pc \<and> pc < length as)")
  case False
  have "\<exists>k. snd (builtin_task_spawn fn as s) = rt_error k s"
  proof (cases fn)
    case None
    then show ?thesis by (auto simp: builtin_task_spawn_def)
  next
    case (Some f)
    obtain tid gen h where reg: "handle_register (task_new f as TASK_READY) HANDLE_TASK (htab s) = ((tid, gen), h)"
      by (metis surj_pair)
    show ?thesis
    proof (cases "case f of TF_BUILTIN \<Rightarrow> False | TF_FN pc \<Rightarrow> 2 \<le> pc \<and> pc < length as")
      case True
      then show ?thesis using Some by (auto simp: builtin_task_spawn_def)
    next
      case ar: False
      then have "tid < 0" using False Some reg by force
      then show ?thesis using Some ar reg by (auto simp: builtin_task_spawn_def)
    qed
  qed
  then show ?thesis using inv by (auto simp: rt_error_def keeps_ctl_def)
next
  case True
  then obtain tid gen h f where f: "fn = Some f" and
      reg: "handle_register (task_new f as TASK_READY) HANDLE_TASK (htab s) = ((tid, gen), h)" "0 \<le> tid" and
      ar: "\<not> (case f of TF_BUILTIN \<Rightarrow> False | TF_FN pc \<Rightarrow> 2 \<le> pc \<and> pc < length as)" by blast
  then obtain idx where idx: "handle_free_slot (htab s) = Some idx" "tid = int idx"
      "h = (htab s)\<lparr>ht_slots := (ht_slots (htab s))[idx := \<lparr>hs_ptr = Some (task_new f as TASK_READY),
              hs_type = HANDLE_TASK, hs_gen = gen\<rparr>], ht_next := (idx + 1) mod HANDLE_TABLE_SIZE\<rparr>"
    by (auto simp: handle_register_def Let_def split: option.splits)
  note b = free_slot_bound [OF idx(1)]
  have wf: "sys_wf s" and c: "core (tmap s) (qids s) (Some (cur s))" using inv by (simp_all add: inv_at_def)
  note len = wf_length [OF wf]
  have pos: "0 < tid" "tid < int HANDLE_TABLE_SIZE" using b idx(2) by simp_all
  have none: "tmap s tid = None"
    using b idx(2) by (simp add: tmap_def sched_lookup_def handle_lookup_slot_def)
  let ?s1 = "s\<lparr>htab := h\<rparr>" and ?t0 = "task_new f as TASK_READY :: ('a tval, 'b) task"
  have m1: "tmap ?s1 = (tmap s)(tid \<mapsto> ?t0)"
  proof (rule ext)
    fix j
    show "tmap ?s1 j = ((tmap s)(tid \<mapsto> ?t0)) j"
    proof (cases "j = 0 \<or> \<not> handle_in_range j")
      case True
      then show ?thesis using pos by (auto simp: tmap_def sched_lookup_def handle_lookup_slot_def handle_in_range_def)
    next
      case False
      then have "idx = nat j \<longleftrightarrow> j = tid" using idx(2) by (auto simp: handle_in_range_def)
      then show ?thesis
        using False len b by (simp add: tmap_def sched_lookup_def handle_lookup_slot_def Let_def idx(3) nth_list_update)
    qed
  qed
  have len1: "length (ht_slots (htab ?s1)) = HANDLE_TABLE_SIZE" using len by (simp add: idx(3))
  have at1: "tmap ?s1 tid = Some ?t0" by (simp add: m1)
  let ?t1 = "?t0\<lparr>tk_id := tid, tk_hgen := gen\<rparr>" and ?s2 = "task_put tid (?t0\<lparr>tk_id := tid, tk_hgen := gen\<rparr>) ?s1"
  note v2 = put_view_len [OF len1 at1, of ?t1]
  have m2: "tmap ?s2 = (tmap s)(tid \<mapsto> ?t1)" using v2(1) m1 by simp
  have slots2: "ht_slots (htab ?s2) = (ht_slots (htab s))[idx := \<lparr>hs_ptr = Some ?t1, hs_type = HANDLE_TASK, hs_gen = gen\<rparr>]"
    using pos b len by (simp add: task_put_def idx)
  have wf2: "sys_wf ?s2"
  proof -
    have "task_wf (htab ?s2) j u" if "tmap ?s2 j = Some u" for j u
    proof (cases "j = tid")
      case True
      then have u: "u = ?t1" using that m2 by simp
      have "hs_gen (ht_slots (htab ?s2) ! nat tid) = gen" unfolding slots2 using len b by (simp add: idx(2))
      moreover have "mbox_ok ?t1" by (simp add: mbox_ok_def task_new_def)
      ultimately show ?thesis by (simp add: u True task_wf_def)
    next
      case False
      then have "tmap s j = Some u" using that m2 by simp
      moreover from this have "j \<noteq> 0 \<Longrightarrow> nat j \<noteq> idx" using tmap_range [of s j u] False idx(2) by auto
      ultimately show ?thesis using wf b len by (auto simp: sys_wf_def task_wf_def slots2 nth_list_update)
    qed
    moreover have "ready_ok (sch ?s2)" using wf pos by (simp add: sys_wf_def task_put_def)
    moreover have "length (ht_slots (htab ?s2)) = HANDLE_TABLE_SIZE" using len by (simp add: slots2)
    ultimately show ?thesis by (simp add: sys_wf_def)
  qed
  have sch2: "sch ?s2 = sch s" using pos by (simp add: task_put_def)
  let ?f = "\<lambda>c. c\<lparr>s_active := True, s_live := s_live c + 1, spawn_counter := spawn_counter c + 1\<rparr>"
  let ?s3 = "sched_upd ?f (sched_ensure ?s2)"
  have has2: "has_sched ?s2 = has_sched s" using pos by (simp add: task_put_def)
  have en: "sch (sched_ensure ?s2) = sch s" "htab (sched_ensure ?s2) = htab ?s2"
    using new by (auto simp: sched_ensure_def sch2 has2)
  have m3: "tmap ?s3 = tmap ?s2"
    using sched_upd_view [of ?f "sched_ensure ?s2"] view_cong(1) [of "sched_ensure ?s2" ?s2] en sch2 by simp
  have wf3: "sys_wf ?s3"
  proof -
    have "sys_wf (sched_ensure ?s2)" using view_cong(3) [of "sched_ensure ?s2" ?s2] en sch2 wf2 by simp
    moreover have "ready_ok (?f (sch (sched_ensure ?s2)))" using wf en(1) by (simp add: sys_wf_def ready_ok_def)
    ultimately show ?thesis by (intro sched_upd_wf) simp_all
  qed
  have q3: "qids ?s3 = qids s" and l3: "s_live (sch ?s3) = s_live (sch s) + 1"
    by (simp_all add: qids_def sched_upd_def en(1))
  have k3: "keeps_ctl s ?s3" "has_sched ?s3"
    using pos en(1) by (simp_all add: keeps_ctl_def sched_upd_def) (simp_all add: sched_ensure_def task_put_def)
  have at3: "tmap ?s3 tid = Some ?t1" using m3 m2 by simp
  let ?t = "?t1\<lparr>spawn_seq := spawn_counter (sch ?s3)\<rparr>" and ?s4 = "task_put tid (?t1\<lparr>spawn_seq := spawn_counter (sch ?s3)\<rparr>) ?s3"
  have ok: "mbox_ok ?t" "unblocked ?t" "tk_state ?t = TASK_READY" "\<not> finished ?t"
    using task_new_wf [where fn = f and as = as and st = TASK_READY and i = tid and g = gen and w = "spawn_counter (sch ?s3)"] by (simp_all add: task_new_def finished_def)
  note v4 = put_view [OF wf3 at3, of ?t]
  have wf4: "sys_wf ?s4" by (rule wf_put [OF wf3 at3]) (use ok in simp_all)
  have m4: "tmap ?s4 = (tmap s)(tid \<mapsto> ?t)" using v4(1) m3 m2 by simp
  have stale: "join_target u \<noteq> tid" if "tmap s j = Some u" "tk_state u = TASK_SUSPENDED" for j u
  proof -
    have "j = 0 \<or> j \<in> set slot_ids" using tmap_range [OF that(1)] by (auto simp: slot_ids_range)
    then have "\<not> joins tid s j" using fresh idx(1,2) by (auto simp: no_stale_join_def list_all_iff)
    then show ?thesis using that by (auto simp: joins_tmap)
  qed
  have c': "core ((tmap s)(tid \<mapsto> ?t)) (qids s @ [tid]) (Some (cur s))"
    by (rule core_spawn [OF c none pos ok(3,2) stale])
  then have room: "length (qids ?s4) < HANDLE_TABLE_SIZE" using core_len [OF c'] v4(2) q3 by simp
  note p = push_view [OF wf4 room, of tid SCAUSE_SPAWN]
  have live: "live_count ((tmap s)(tid \<mapsto> ?t)) = live_count (tmap s) + 1"
    using live_count_spawn [OF c none _ ok(4)] pos by simp
  let ?s5 = "sched_upd (sched_ready_push tid SCAUSE_SPAWN) ?s4"
  have res: "snd (builtin_task_spawn fn as s) = ?s5"
    using f reg ar at1 at3
    by (simp add: builtin_task_spawn_def task_sched_on_spawn_def task_upd_def tmap_def Let_def)
  have "inv_at ?s5 (Some (cur s))"
    using p m4 v4 q3 l3 c' live inv by (simp add: inv_at_def)
  moreover have "keeps_ctl s ?s5"
    using k3 v4(3) p(4) by (simp add: keeps_ctl_def same_control_def)
  ultimately show ?thesis using res by simp
qed

lemma seed_inv:
  assumes inv: "inv_at s ex" and new: "\<not> has_sched s \<Longrightarrow> sch s = sched_new"
  shows "inv_at (task_sched_set_seed seed s) ex \<and> keeps_ctl s (task_sched_set_seed seed s)"
proof -
  have en: "sch (sched_ensure s) = sch s" "htab (sched_ensure s) = htab s" using new by (auto simp: sched_ensure_def)
  then have "inv_at (sched_ensure s) ex" using inv view_cong(4) [of "sched_ensure s" s ex] by simp
  then have "inv_at (task_sched_set_seed seed s) ex"
    unfolding task_sched_set_seed_def using upd_fields_inv(4) [where r = "\<lambda>_. seed" and b = "\<lambda>_. True"] by blast
  moreover have "keeps_ctl s (task_sched_set_seed seed s)"
    using en(1) by (simp add: keeps_ctl_def task_sched_set_seed_def sched_upd_def) (simp add: sched_ensure_def)
  ultimately show ?thesis by blast
qed

subsection \<open>The invariant, and the end of a slice by suspension\<close>

definition sched_inv :: "('v, 'f) sys \<Rightarrow> bool" where
  "sched_inv s \<longleftrightarrow>
     (case phase s of
        PH_Done r \<Rightarrow> True
      | PH_Pick \<Rightarrow> inv_at s None \<and> \<not> suspend_request s \<and> in_tramp s \<and> has_sched s
      | PH_Task \<Rightarrow>
          inv_at s (Some (cur s)) \<and> \<not> suspend_request s \<and> (in_tramp s \<longrightarrow> has_sched s) \<and>
          (\<not> in_tramp s \<longrightarrow> cur s = 0) \<and> (\<not> has_sched s \<longrightarrow> sch s = sched_new))"

lemma requeue_inv:
  assumes inv: "inv_at s (Some i)" and wf: "sys_wf s2" and m: "tmap s2 = (tmap s)(i \<mapsto> t2)" and
    q: "qids s2 = qids s" and l: "s_live (sch s2) = s_live (sch s)" and
    t2: "tk_state t2 = TASK_SUSPENDED" "one_reason t2" "unblocked t2 \<or> blocked (tmap s) t2"
  shows "inv_at (requeue i s2) None \<and> same_control s2 (requeue i s2)"
proof -
  obtain t where t: "tmap s i = Some t" "i \<notin> set (qids s)" "\<not> finished t" using inv_ex [OF inv] by (auto simp: finished_def)
  have c: "core (tmap s) (qids s) (Some i)" using inv by (simp add: inv_at_def)
  have fin: "finished t2 = finished t" using t(3) t2(1) by (simp add: finished_def)
  have lv: "live_task ((tmap s)(i \<mapsto> t2)) = live_task (tmap s)"
    using t(1) fin by (auto simp: live_task_upd live_task_def fun_eq_iff)
  have lc: "live_count ((tmap s)(i \<mapsto> t2)) = live_count (tmap s)" by (rule live_count_same [OF lv])
  have range: "0 \<le> i" "i < int HANDLE_TABLE_SIZE" using tmap_range [OF t(1)] by simp_all
  have at: "sched_lookup i s2 = Some t2" using m by (simp add: tmap_def fun_eq_iff)
  show ?thesis
  proof (cases "unblocked t2")
    case True
    then have "\<not> blocked ((tmap s)(i \<mapsto> t2)) t2" by (simp add: blocked_def unblocked_def)
    then have "node_ok ((tmap s)(i \<mapsto> t2)) (qids s @ [i]) None i t2"
      using t2 range by (simp add: node_ok_def can_run_def)
    then have c2: "core ((tmap s)(i \<mapsto> t2)) (qids s @ [i]) None"
      by (intro core_upd [OF c t(1) fin]) (use t(2) in auto)
    have "length (qids s2) < HANDLE_TABLE_SIZE" using core_len [OF c2] q by simp
    note p = push_view [OF wf this, of i SCAUSE_YIELD]
    show ?thesis using True at p c2 m q l lc inv by (simp add: requeue_def inv_at_def)
  next
    case False
    then have "blocked ((tmap s)(i \<mapsto> t2)) t2" using t2(3) by (simp add: blocked_def lv)
    then have "node_ok ((tmap s)(i \<mapsto> t2)) (qids s) None i t2"
      using t2 t(2) range by (simp add: node_ok_def can_run_def)
    then have c2: "core ((tmap s)(i \<mapsto> t2)) (qids s) None"
      by (rule core_upd [OF c t(1) fin]) simp_all
    show ?thesis using False at c2 m q l lc inv wf by (simp add: requeue_def inv_at_def)
  qed
qed

lemma suspend_halt_inv:
  assumes inv: "inv_at s (Some (cur s))" and ctl: "\<not> in_tramp s \<Longrightarrow> cur s = 0" and
    wf: "sys_wf s1" and m: "tmap s1 = (tmap s)(cur s \<mapsto> t1)" and q: "qids s1 = qids s" and
    l: "s_live (sch s1) = s_live (sch s)" and c1: "has_sched s1" "cur s1 = cur s" "in_tramp s1 = in_tramp s" and
    t1: "one_reason t1" "unblocked t1 \<or> blocked (tmap s) t1"
  shows "sched_inv (suspend_halt s1)"
proof -
  let ?i = "cur s"
  let ?t2 = "t1\<lparr>saved_frames := vm_frames s1, saved_stack := vm_stack s1, saved_current_line := vm_line s1,
               tk_state := TASK_SUSPENDED\<rparr>"
  let ?s2 = "(task_save_slice s1)\<lparr>suspend_request := False\<rparr>"
  have at: "tmap s1 ?i = Some t1" using m by simp
  have at': "sched_lookup ?i s1 = Some t1" using at by (simp add: tmap_def)
  have save: "task_save_slice s1 = (task_put ?i ?t2 s1)\<lparr>vm_frames := [], vm_stack := []\<rparr>"
    using c1 at' by (simp add: task_save_slice_def task_current_running_def)
  have "mbox_ok t1" using wf at by (simp add: sys_wf_def task_wf_def)
  then have ok: "mbox_ok ?t2" by (simp add: mbox_ok_def mbox_read_def)
  note v = put_view [OF wf at, of ?t2]
  have wf2: "sys_wf ?s2" using wf_put [OF wf at _ _ ok] by (simp add: save)
  have s2: "tmap ?s2 = (tmap s)(?i \<mapsto> ?t2)" "qids ?s2 = qids s" "s_live (sch ?s2) = s_live (sch s)"
      "has_sched ?s2" "cur ?s2 = ?i" "in_tramp ?s2 = in_tramp s" "\<not> suspend_request ?s2"
    using v m q l c1 by (simp_all add: save same_control_def)
  have r: "inv_at (requeue ?i ?s2) None" "same_control ?s2 (requeue ?i ?s2)"
    using requeue_inv [OF inv wf2 s2(1,2,3)] t1 by (simp_all add: one_reason_def unblocked_def blocked_def)
  show ?thesis
  proof (cases "in_tramp s")
    case True
    then have "suspend_halt s1 = (requeue ?i ?s2)\<lparr>phase := PH_Pick\<rparr>"
      using s2 by (simp add: suspend_halt_def Let_def)
    then show ?thesis using r s2 True by (simp add: sched_inv_def same_control_def)
  next
    case False
    then have i0: "?i = 0" by (rule ctl)
    show ?thesis
    proof (cases "s_active (sch ?s2)")
      case True
      then have "suspend_halt s1 = (requeue 0 ?s2)\<lparr>in_tramp := True, phase := PH_Pick\<rparr>"
        using s2 False by (simp add: suspend_halt_def Let_def)
      then show ?thesis using r s2 i0 by (simp add: sched_inv_def same_control_def)
    next
      case inactive: False
      then have "phase (suspend_halt s1) = PH_Done None"
        using s2 False by (simp add: suspend_halt_def Let_def)
      then show ?thesis by (simp add: sched_inv_def)
    qed
  qed
qed

subsection \<open>The calls of the executing task\<close>

lemma mbox_pop_inv:
  assumes inv: "inv_at s (Some (cur s))"
  shows "inv_at (snd (task_mbox_pop s)) (Some (cur s)) \<and> same_control s (snd (task_mbox_pop s))"
proof -
  obtain t where t: "tmap s (cur s) = Some t" "unblocked t" using inv_ex [OF inv] by blast
  have wf: "sys_wf s" using inv by (simp add: inv_at_def)
  have pop: "mbox_ok (snd (mbox_pop t))"
    using mbox_pop_ok [OF inv_task(2) [OF inv t(1)]] inv_task(2) [OF inv t(1)]
    by (cases "mbox_msgs t") (auto simp: mbox_msgs_empty mbox_pop_def)
  have f: "tk_id (snd (mbox_pop t)) = tk_id t" "tk_hgen (snd (mbox_pop t)) = tk_hgen t"
      "tk_state (snd (mbox_pop t)) = tk_state t" "unblocked (snd (mbox_pop t)) = unblocked t"
    by (simp_all add: mbox_pop_def unblocked_def)
  have "snd (task_mbox_pop s) = s \<or> snd (task_mbox_pop s) = task_put (cur s) (snd (mbox_pop t)) s"
    using t(1) by (auto simp: task_mbox_pop_def task_current_running_def tmap_def split: prod.splits option.splits)
  moreover have "inv_at (task_put (cur s) (snd (mbox_pop t)) s) (Some (cur s))"
    using node_ex [OF inv_task(3) [OF inv t(1)] f(3)] f t(2)
    by (intro put_inv [OF inv t(1) _ f(1,2) pop]) (simp_all add: finished_def)
  moreover have "same_control s (task_put (cur s) (snd (mbox_pop t)) s)" by (rule put_view(3) [OF wf t(1)])
  moreover have "same_control s s" by simp
  ultimately show ?thesis using inv by (elim disjE) (simp_all only: simp_thms)
qed

text \<open>A flag of the executing task set before it suspends.\<close>

lemma request_suspends:
  assumes inv: "inv_at s (Some (cur s))" and has: "has_sched s" and ctl: "\<not> in_tramp s \<Longrightarrow> cur s = 0" and
    t: "tmap s (cur s) = Some t" and attrs: "tk_id t1 = tk_id t" "tk_hgen t1 = tk_hgen t" "mbox_ok t1" and
    t1: "one_reason t1" "unblocked t1 \<or> blocked (tmap s) t1"
  shows "sched_inv (suspend_halt ((task_put (cur s) t1 s)\<lparr>suspend_request := True, vm_stack := st\<rparr>))"
proof -
  have wf: "sys_wf s" using inv by (simp add: inv_at_def)
  note v = put_view [OF wf t, of t1]
  show ?thesis
    by (rule suspend_halt_inv [OF inv ctl])
      (use v wf_put [OF wf t attrs] has t1 in \<open>simp_all add: same_control_def\<close>)
qed

text \<open>A call that asks for no suspension.\<close>

lemma quiet_call:
  assumes inv: "sched_inv s" and ph: "phase s = PH_Task" and act: "builtin_act x a s = (v, s1)" and
    s1: "inv_at s1 (Some (cur s)) \<and> keeps_ctl s s1"
  shows "sched_inv (call_builtin x a s)"
proof -
  have nr: "\<not> suspend_request s1" using inv ph s1 by (simp add: sched_inv_def keeps_ctl_def)
  then have "call_builtin x a s = s1\<lparr>vm_stack := vm_stack s1 @ [v]\<rparr>"
    by (simp add: call_builtin_def act Let_def)
  then show ?thesis using inv ph s1 nr by (auto simp: sched_inv_def keeps_ctl_def)
qed

lemma error_quiet:
  assumes "inv_at s ex"
  shows "inv_at (rt_error k s) ex \<and> keeps_ctl s (rt_error k s)"
  using assms by (simp add: rt_error_def keeps_ctl_def)

text \<open>A call that asks for one, at the outermost level, with the flags of the reason set.\<close>

lemma suspending_call:
  assumes inv: "sched_inv s" and ph: "phase s = PH_Task" and ne: "\<not> g_has_error s" and nn: "\<not> nested x" and
    has: "has_sched s" and t: "tmap s (cur s) = Some t" and
    act: "builtin_act x a s = (v, (task_put (cur s) t1 s)\<lparr>suspend_request := True\<rparr>)" and
    attrs: "tk_id t1 = tk_id t" "tk_hgen t1 = tk_hgen t" "mbox_ok t1" and
    t1: "one_reason t1" "unblocked t1 \<or> blocked (tmap s) t1"
  shows "sched_inv (call_builtin x a s)"
proof -
  have inv': "inv_at s (Some (cur s))" and ctl: "\<not> in_tramp s \<Longrightarrow> cur s = 0"
    using inv ph by (simp_all add: sched_inv_def)
  have wf: "sys_wf s" using inv' by (simp add: inv_at_def)
  note v = put_view [OF wf t, of t1]
  have "call_builtin x a s =
      suspend_halt ((task_put (cur s) t1 s)\<lparr>suspend_request := True, vm_stack := vm_stack s @ [v]\<rparr>)"
    using ne nn v(5,6) by (simp add: call_builtin_def act Let_def)
  then show ?thesis using request_suspends [OF inv' has ctl t attrs t1] by simp
qed

lemma upd_put: "tmap s i = Some t \<Longrightarrow> task_upd i f s = task_put i (f t) s"
  by (simp add: task_upd_def tmap_def)

lemma yield_inv:
  assumes inv: "sched_inv s" and ph: "phase s = PH_Task" and ne: "\<not> g_has_error s"
  shows "sched_inv (call_builtin x A_Yield s)"
proof -
  have inv': "inv_at s (Some (cur s))" and ctl: "\<not> in_tramp s \<Longrightarrow> cur s = 0"
    using inv ph by (simp_all add: sched_inv_def)
  show ?thesis
  proof (cases "arena_active x \<or> \<not> has_sched s \<or> no_yield x")
    case True
    then have "snd (builtin_act x A_Yield s) = s \<or> (\<exists>k. snd (builtin_act x A_Yield s) = rt_error k s)"
      by (auto simp: builtin_act_def builtin_task_yield_def)
    then have "inv_at (snd (builtin_act x A_Yield s)) (Some (cur s)) \<and> keeps_ctl s (snd (builtin_act x A_Yield s))"
      using error_quiet [OF inv'] inv' by auto
    then show ?thesis using quiet_call [OF inv ph, of x A_Yield] by (cases "builtin_act x A_Yield s") simp
  next
    case False
    then have act: "builtin_act x A_Yield s = (TV_Null, s\<lparr>suspend_request := True\<rparr>)"
      by (simp add: builtin_act_def builtin_task_yield_def task_request_yield_def)
    show ?thesis
    proof (cases "nested x")
      case True
      then have "call_builtin x A_Yield s =
          rt_error EK_VALUE (s\<lparr>suspend_request := True, vm_stack := vm_stack s @ [TV_Null], suspend_request := False\<rparr>)"
        using ne by (simp add: call_builtin_def act Let_def)
      then show ?thesis using inv ph by (simp add: sched_inv_def rt_error_def)
    next
      case nn: False
      obtain t where t: "tmap s (cur s) = Some t" "unblocked t" using inv_ex [OF inv'] by blast
      have "call_builtin x A_Yield s = suspend_halt (s\<lparr>suspend_request := True, vm_stack := vm_stack s @ [TV_Null]\<rparr>)"
        using ne nn by (simp add: call_builtin_def act Let_def)
      moreover have "sched_inv (suspend_halt (s\<lparr>suspend_request := True, vm_stack := vm_stack s @ [TV_Null]\<rparr>))"
        by (rule suspend_halt_inv [OF inv' ctl, where ?t1.0 = t])
          (use inv' t False in \<open>simp_all add: inv_at_def fun_upd_idem one_reason_def unblocked_def\<close>)
      ultimately show ?thesis by simp
    qed
  qed
qed

lemma join_inv:
  assumes inv: "sched_inv s" and ph: "phase s = PH_Task" and ne: "\<not> g_has_error s" and nn: "\<not> nested x"
  shows "sched_inv (call_builtin x (A_Join arg) s)"
proof -
  have inv': "inv_at s (Some (cur s))" using inv ph by (simp add: sched_inv_def)
  have wf: "sys_wf s" using inv' by (simp add: inv_at_def)
  obtain t where t: "tmap s (cur s) = Some t" "unblocked t" using inv_ex [OF inv'] by blast
  let ?a = "builtin_act x (A_Join arg) s"
  have quiet: "sched_inv (call_builtin x (A_Join arg) s)" if "inv_at (snd ?a) (Some (cur s)) \<and> keeps_ctl s (snd ?a)"
    using quiet_call [OF inv ph, of x "A_Join arg"] that by (cases ?a) simp
  show ?thesis
  proof (cases "\<exists>i u. arg = Some i \<and> has_sched s \<and> handle_lookup_slot i HANDLE_TASK (htab s) = Some u")
    case False
    then have "snd ?a = s" by (auto simp: builtin_act_def builtin_task_join_def split: option.splits)
    then show ?thesis using quiet inv' by simp
  next
    case True
    then obtain i u where i: "arg = Some i" "has_sched s" "handle_lookup_slot i HANDLE_TASK (htab s) = Some u" by blast
    have i0: "i \<noteq> 0" using i(3) by (auto simp: handle_lookup_slot_def handle_in_range_def split: if_splits)
    then have u: "tmap s i = Some u" using i(3) by (simp add: tmap_def sched_lookup_def)
    show ?thesis
    proof (cases "finished u")
      case True
      let ?u = "u\<lparr>err_unobserved := False\<rparr>"
      have a: "snd ?a = s \<or> (\<exists>e. snd ?a = (task_put i ?u s)\<lparr>g_has_error := True, g_error := e\<rparr>)"
        using i True by (auto simp: builtin_act_def builtin_task_join_def join_finished_def)
      have "mbox_ok ?u" using inv_task(2) [OF inv' u] by (simp add: mbox_ok_def mbox_read_def)
      then have "inv_at (task_put i ?u s) (Some (cur s))"
        by (intro put_key_inv [OF inv' u]) (simp_all add: task_key_def)
      moreover have "keeps_ctl s (task_put i ?u s)" using put_view(3) [OF wf u] i(2) by (rule same_keeps_ctl)
      ultimately show ?thesis using a inv' by (intro quiet) (auto simp: keeps_ctl_def)
    next
      case nf: False
      show ?thesis
      proof (cases "arena_active x \<or> no_yield x \<or> i = cur s")
        case True
        then have "snd ?a = s \<or> (\<exists>k. snd ?a = rt_error k s)"
          using i nf by (auto simp: builtin_act_def builtin_task_join_def task_request_join_def)
        then show ?thesis using error_quiet [OF inv'] inv' by (intro quiet) auto
      next
        case False
        let ?t = "t\<lparr>join_target := i\<rparr>"
        have act: "?a = (TV_Null, (task_put (cur s) ?t s)\<lparr>suspend_request := True\<rparr>)"
          using False i nf i0 u t(1)
          by (simp add: builtin_act_def builtin_task_join_def task_request_join_def upd_put tmap_def)
        have "mbox_ok ?t" using inv_task(2) [OF inv' t(1)] by (simp add: mbox_ok_def mbox_read_def)
        moreover have "one_reason ?t" "blocked (tmap s) ?t"
          using t(2) i0 u nf by (simp_all add: one_reason_def unblocked_def blocked_def live_task_def)
        ultimately show ?thesis
          by (intro suspending_call [OF inv ph ne nn i(2) t(1) act]) simp_all
      qed
    qed
  qed
qed

lemma recv_inv:
  assumes inv: "sched_inv s" and ph: "phase s = PH_Task" and ne: "\<not> g_has_error s" and nn: "\<not> nested x"
  shows "sched_inv (call_builtin x A_Recv s)"
proof -
  have inv': "inv_at s (Some (cur s))" using inv ph by (simp add: sched_inv_def)
  obtain t where t: "tmap s (cur s) = Some t" "unblocked t" using inv_ex [OF inv'] by blast
  let ?a = "builtin_act x A_Recv s"
  have quiet: "sched_inv (call_builtin x A_Recv s)" if "inv_at (snd ?a) (Some (cur s)) \<and> keeps_ctl s (snd ?a)"
    using quiet_call [OF inv ph, of x A_Recv] that by (cases ?a) simp
  show ?thesis
  proof (cases "task_mbox_has s")
    case True
    then have "has_sched s" by (auto simp: task_mbox_has_def task_current_running_def split: if_splits)
    then show ?thesis
      using True mbox_pop_inv [OF inv'] same_keeps_ctl
      by (intro quiet) (auto simp: builtin_act_def builtin_task_recv_def)
  next
    case empty: False
    show ?thesis
    proof (cases "arena_active x \<or> \<not> has_sched s \<or> no_yield x")
      case True
      then have "snd ?a = s \<or> (\<exists>k. snd ?a = rt_error k s)"
        using empty by (auto simp: builtin_act_def builtin_task_recv_def)
      then show ?thesis using error_quiet [OF inv'] inv' by (intro quiet) auto
    next
      case False
      then have has: "has_sched s" by simp
      let ?t = "t\<lparr>recv_blocked := True\<rparr>"
      have act: "?a = (TV_Null, (task_put (cur s) ?t s)\<lparr>suspend_request := True\<rparr>)"
        using False empty t(1) by (simp add: builtin_act_def builtin_task_recv_def task_request_recv_def upd_put)
      have "mbox_count t = 0" using empty has t(1) by (simp add: task_mbox_has_def task_current_running_def tmap_def)
      then have "one_reason ?t" "blocked (tmap s) ?t"
        using t(2) by (simp_all add: one_reason_def unblocked_def blocked_def)
      moreover have "mbox_ok ?t" using inv_task(2) [OF inv' t(1)] by (simp add: mbox_ok_def mbox_read_def)
      ultimately show ?thesis by (intro suspending_call [OF inv ph ne nn has t(1) act]) simp_all
    qed
  qed
qed

lemma sleep_inv:
  assumes inv: "sched_inv s" and ph: "phase s = PH_Task" and ne: "\<not> g_has_error s" and nn: "\<not> nested x"
  shows "sched_inv (call_builtin x (A_Sleep arg) s)"
proof -
  have inv': "inv_at s (Some (cur s))" using inv ph by (simp add: sched_inv_def)
  obtain t where t: "tmap s (cur s) = Some t" "unblocked t" using inv_ex [OF inv'] by blast
  let ?a = "builtin_act x (A_Sleep arg) s"
  show ?thesis
  proof (cases "arena_active x \<or> \<not> has_sched s \<or> arg = None \<or> no_yield x")
    case True
    then have "snd ?a = s \<or> (\<exists>k. snd ?a = rt_error k s)"
      by (auto simp: builtin_act_def builtin_task_sleep_def split: option.splits)
    then show ?thesis
      using error_quiet [OF inv'] inv' quiet_call [OF inv ph, of x "A_Sleep arg" "fst ?a" "snd ?a"] by auto
  next
    case False
    then obtain d where d: "arg = Some d" and has: "has_sched s" by auto
    let ?t = "t\<lparr>wake_at := fp_add (s_now (sch s)) (sleep_ticks d), sleeping := True\<rparr>"
    have act: "?a = (TV_Null, (task_put (cur s) ?t s)\<lparr>suspend_request := True\<rparr>)"
      using False d t(1)
      by (simp add: builtin_act_def builtin_task_sleep_def task_request_sleep_def task_current_running_def upd_put)
        (simp add: tmap_def)
    have "one_reason ?t" "blocked (tmap s) ?t" using t(2) by (simp_all add: one_reason_def unblocked_def blocked_def)
    moreover have "mbox_ok ?t" using inv_task(2) [OF inv' t(1)] by (simp add: mbox_ok_def mbox_read_def)
    ultimately show ?thesis by (intro suspending_call [OF inv ph ne nn has t(1) act]) simp_all
  qed
qed

text \<open>
  Every call keeps the invariant, provided a blocking call is made at the outermost
  level and a new task gets no slot that a suspended join still names.
\<close>

definition legal_call :: "ctx \<Rightarrow> 'v act \<Rightarrow> ('v, 'f) sys \<Rightarrow> bool" where
  "legal_call x a s =
     (case a of
        A_Join _ \<Rightarrow> \<not> nested x
      | A_Recv \<Rightarrow> \<not> nested x
      | A_Sleep _ \<Rightarrow> \<not> nested x
      | A_Spawn _ _ \<Rightarrow> no_stale_join s
      | _ \<Rightarrow> True)"

definition may_block :: "'v act \<Rightarrow> bool" where
  "may_block a \<longleftrightarrow> a = A_Yield \<or> (\<exists>arg. a = A_Join arg) \<or> a = A_Recv \<or> (\<exists>arg. a = A_Sleep arg)"

lemma quiet_act:
  assumes inv: "sched_inv s" and ph: "phase s = PH_Task" and legal: "legal_call x a s" and nb: "\<not> may_block a"
  shows "inv_at (snd (builtin_act x a s)) (Some (cur s)) \<and> keeps_ctl s (snd (builtin_act x a s))"
proof -
  have inv': "inv_at s (Some (cur s))" and new: "\<not> has_sched s \<Longrightarrow> sch s = sched_new"
    using inv ph by (simp_all add: sched_inv_def)
  let ?r = "builtin_act x a s"
  have same: "inv_at s (Some (cur s)) \<and> keeps_ctl s s" using inv' by simp
  show ?thesis
  proof (cases a)
    case (A_Spawn fn as)
    then show ?thesis
      using spawn_inv [OF inv' new, of fn as] legal by (simp add: builtin_act_def legal_call_def)
  next
    case (A_Send i msg)
    have "snd ?r = (if has_sched s then snd (task_deliver i msg s) else s)"
      by (simp add: A_Send builtin_act_def builtin_task_send_def split_beta)
    then show ?thesis using deliver_inv [OF inv', of i msg] same same_keeps_ctl by auto
  next
    case A_Try_Recv
    have "snd ?r = (if has_sched s \<and> task_mbox_has s then snd (task_mbox_pop s) else s)"
      by (simp add: A_Try_Recv builtin_act_def builtin_task_try_recv_def)
    then show ?thesis using mbox_pop_inv [OF inv'] same same_keeps_ctl by auto
  next
    case (A_Kill i)
    have "snd ?r = (if has_sched s then snd (task_do_kill i s) else s)"
      by (simp add: A_Kill builtin_act_def builtin_task_kill_def split_beta)
    then show ?thesis using kill_inv [OF inv', of i] same same_keeps_ctl by auto
  next
    case (A_Detach arg)
    show ?thesis
    proof (cases arg)
      case None
      then show ?thesis
        using error_quiet [OF inv'] by (simp add: A_Detach builtin_act_def builtin_task_detach_def)
    next
      case (Some i)
      then have "snd ?r = snd (task_do_detach i s)"
        by (simp add: A_Detach builtin_act_def builtin_task_detach_def split_beta)
      moreover have "snd (task_do_detach i s) = s" if "\<not> has_sched s" using that by (simp add: task_do_detach_def)
      ultimately show ?thesis
        using detach_inv [OF inv', of i] same same_keeps_ctl [of s "snd (task_do_detach i s)"]
        by (cases "has_sched s") simp_all
    qed
  next
    case (A_Seed seed)
    then show ?thesis using seed_inv [OF inv' new] by (simp add: builtin_act_def)
  qed (use same nb in \<open>simp_all add: builtin_act_def may_block_def\<close>)
qed

lemma call_inv:
  assumes inv: "sched_inv s" and ph: "phase s = PH_Task" and ne: "\<not> g_has_error s" and legal: "legal_call x a s"
  shows "sched_inv (call_builtin x a s)"
proof (cases "may_block a")
  case True
  then show ?thesis
    using yield_inv [OF inv ph ne] join_inv [OF inv ph ne] recv_inv [OF inv ph ne] sleep_inv [OF inv ph ne] legal
    by (auto simp: may_block_def legal_call_def)
next
  case False
  show ?thesis
    by (rule quiet_call [OF inv ph _ quiet_act [OF inv ph legal False]]) (rule prod.collapse [symmetric])
qed

subsection \<open>Sleepers\<close>

lemma asleep_tmap: "asleep s w \<longleftrightarrow> (\<exists>t. tmap s w = Some t \<and> tk_state t = TASK_SUSPENDED \<and> sleeping t)"
  by (auto simp: asleep_def tmap_def split: option.splits)

definition same_loop :: "('v, 'f) sys \<Rightarrow> ('v, 'f) sys \<Rightarrow> bool" where
  "same_loop s s' \<longleftrightarrow>
     has_sched s' = has_sched s \<and> in_tramp s' = in_tramp s \<and> phase s' = phase s \<and> suspend_request s' = suspend_request s"

lemma same_control_loop: "same_control s s' \<Longrightarrow> same_loop s s'"
  by (simp add: same_control_def same_loop_def)

lemma same_loop_trans: "same_loop a b \<Longrightarrow> same_loop b d \<Longrightarrow> same_loop a d"
  by (simp add: same_loop_def)

lemma wake_inv:
  assumes inv: "inv_at s None" and w: "asleep s w"
  shows "inv_at (wake w s) None" and "same_control s (wake w s)"
proof -
  obtain t where t: "tmap s w = Some t" "tk_state t = TASK_SUSPENDED" "sleeping t" using w by (auto simp: asleep_tmap)
  let ?t = "t\<lparr>sleeping := False\<rparr>"
  note node = inv_task(3) [OF inv t(1)]
  have ni: "w \<notin> set (qids s)" using node t by (simp add: node_ok_def can_run_def blocked_def)
  have one: "one_reason t" using node t by (simp add: node_ok_def)
  have ref: "task_ref w s = w" using inv_task(1) [OF inv t(1)] t(1) by (simp add: task_ref_def tmap_def)
  have "node_ok ((tmap s)(w \<mapsto> ?t)) (qids s @ [w]) None w ?t"
    using node one t by (simp add: node_ok_def can_run_def blocked_def one_reason_def)
  moreover have "mbox_ok ?t" using inv_task(2) [OF inv t(1)] by (simp add: mbox_ok_def mbox_read_def)
  ultimately have
    "inv_at (sched_upd (sched_ready_push w SCAUSE_SLEEP_WAKE) (task_put w ?t s)) None \<and>
     same_control s (sched_upd (sched_ready_push w SCAUSE_SLEEP_WAKE) (task_put w ?t s))"
    using put_push_inv [OF inv t(1), of ?t None SCAUSE_SLEEP_WAKE] ni by (simp add: finished_def)
  then show "inv_at (wake w s) None" and "same_control s (wake w s)"
    using ref t(1) by (simp_all add: wake_def upd_put)
qed

lemma fold_older: "fold (older s) ws b = Some w \<Longrightarrow> b = Some w \<or> due s w"
proof (induction ws arbitrary: b)
  case (Cons x ws)
  from Cons.IH [of "older s x b"] Cons.prems show ?case by (auto simp: older_def split: if_splits)
qed simp

lemma next_due_asleep: "next_due s = Some w \<Longrightarrow> asleep s w"
  using fold_older [of s slot_ids None w] by (simp add: next_due_def due_def)

lemma wake_loop_inv: "inv_at s None \<Longrightarrow> inv_at (wake_loop n s) None \<and> same_control s (wake_loop n s)"
proof (induction n arbitrary: s)
  case 0
  then show ?case by simp
next
  case (Suc n)
  show ?case
  proof (cases "next_due s")
    case None
    then show ?thesis using Suc.prems by simp
  next
    case (Some w)
    note k = wake_inv [OF Suc.prems next_due_asleep [OF Some]]
    show ?thesis using Suc.IH [OF k(1)] same_control_trans [OF k(2)] Some by simp
  qed
qed

lemma wake_sleepers_inv:
  assumes "inv_at s None"
  shows "inv_at (snd (sched_wake_sleepers s)) None \<and> same_loop s (snd (sched_wake_sleepers s))"
proof (cases "earliest_wake s")
  case None
  then show ?thesis using assms by (simp add: sched_wake_sleepers_def same_loop_def)
next
  case (Some best)
  let ?s1 = "sched_upd (\<lambda>c. c\<lparr>s_now := best\<rparr>) s"
  define s2 where "s2 = (if due ?s1 0 then wake 0 ?s1 else ?s1)"
  have i1: "inv_at ?s1 None" using assms upd_fields_inv(3) [of "\<lambda>_. best" s None] by blast
  have l1: "same_loop s ?s1" by (simp add: same_loop_def sched_upd_def)
  have i2: "inv_at s2 None" "same_control ?s1 s2"
    using wake_inv [OF i1, of 0] i1 by (cases "due ?s1 0"; simp add: due_def s2_def)+
  have w: "inv_at (wake_loop HANDLE_TABLE_SIZE s2) None" "same_control s2 (wake_loop HANDLE_TABLE_SIZE s2)"
    using wake_loop_inv [OF i2(1)] by simp_all
  have "same_loop s (wake_loop HANDLE_TABLE_SIZE s2)"
    using same_loop_trans [OF l1 same_control_loop [OF same_control_trans [OF i2(2) w(2)]]] .
  moreover have "snd (sched_wake_sleepers s) = wake_loop HANDLE_TABLE_SIZE s2"
    using Some by (simp add: sched_wake_sleepers_def Let_def s2_def)
  ultimately show ?thesis using w(1) by simp
qed

subsection \<open>Nothing to run\<close>

lemma idle_inv:
  assumes inv: "inv_at s None" and q: "qids s = []" and ctl: "phase s = PH_Pick" "in_tramp s" "has_sched s" "\<not> suspend_request s"
  shows "sched_inv (sched_idle s)"
proof (cases "finished (main_task (sch s))")
  case True
  then have "\<exists>r. phase (sched_idle s) = PH_Done r" by (auto simp: sched_idle_def main_result_def Let_def)
  then show ?thesis by (auto simp: sched_inv_def)
next
  case nf: False
  let ?m = "main_task (sch s)"
  have m: "tmap s 0 = Some ?m" by (simp add: tmap_def sched_lookup_def)
  note node = inv_task(3) [OF inv m]
  have st: "tk_state ?m = TASK_SUSPENDED"
    using nf node by (cases "tk_state ?m") (auto simp: node_ok_def finished_def)
  show ?thesis
  proof (cases "\<exists>f\<in>set (saved_frames ?m). 0 < fr_try_count f")
    case False
    then have "phase (sched_idle s) = PH_Done (Some TV_Null)" using nf by (simp add: sched_idle_def Let_def)
    then show ?thesis by (simp add: sched_inv_def)
  next
    case True
    let ?t = "?m\<lparr>join_target := 0, recv_blocked := False, sleeping := False\<rparr>"
    let ?s1 = "s\<lparr>g_has_error := True, g_error := Err_Raised EK_DEADLOCK (saved_current_line ?m)\<rparr>"
    have i1: "inv_at ?s1 None" "tmap ?s1 0 = Some ?m" using inv m by simp_all
    have "node_ok ((tmap ?s1)(0 \<mapsto> ?t)) (qids ?s1 @ [0]) None 0 ?t"
      using st by (simp add: node_ok_def can_run_def blocked_def one_reason_def)
    moreover have "mbox_ok ?t" using inv_task(2) [OF inv m] by (simp add: mbox_ok_def mbox_read_def)
    ultimately have "inv_at (sched_upd (sched_ready_push 0 SCAUSE_DEADLOCK) (task_put 0 ?t ?s1)) None \<and>
        same_control ?s1 (sched_upd (sched_ready_push 0 SCAUSE_DEADLOCK) (task_put 0 ?t ?s1))"
      using put_push_inv [OF i1, of ?t None SCAUSE_DEADLOCK] q by (simp add: finished_def)
    moreover have "sched_idle s = sched_upd (sched_ready_push 0 SCAUSE_DEADLOCK) (task_put 0 ?t ?s1)"
      using nf True by (simp add: sched_idle_def Let_def)
    ultimately show ?thesis using ctl by (simp add: sched_inv_def same_control_def)
  qed
qed

subsection \<open>Resuming\<close>

lemma apply_join_view:
  assumes wf: "sys_wf s" and t: "tmap s i = Some t"
  defines "s' \<equiv> task_apply_join_result i s"
  shows "sys_wf s' \<and> same_keys ((tmap s)(i \<mapsto> t\<lparr>join_target := 0\<rparr>)) (tmap s') \<and> qids s' = qids s \<and>
    s_live (sch s') = s_live (sch s) \<and> same_control s s'"
proof (cases "join_target t = 0")
  case True
  then have "s' = s" using t by (simp add: s'_def task_apply_join_result_def tmap_def)
  moreover have "t\<lparr>join_target := 0\<rparr> = t" using True by simp
  ultimately show ?thesis using wf t by (simp add: same_keys_def)
next
  case False
  let ?t = "t\<lparr>join_target := 0\<rparr>" and ?s1 = "task_put i (t\<lparr>join_target := 0\<rparr>) s"
  have "mbox_ok ?t" using wf t by (auto simp: sys_wf_def task_wf_def mbox_ok_def mbox_read_def)
  then have wf1: "sys_wf ?s1" by (intro wf_put [OF wf t]) simp_all
  note v = put_view [OF wf t, of ?t]
  show ?thesis
  proof (cases "sched_lookup (join_target t) ?s1")
    case None
    then have "s' = ?s1" using t False by (simp add: s'_def task_apply_join_result_def tmap_def Let_def)
    then show ?thesis using wf1 v by (simp add: same_keys_def)
  next
    case (Some jt)
    show ?thesis
    proof (cases "tk_has_error jt")
      case True
      have j: "tmap ?s1 (join_target t) = Some jt" using Some by (simp add: tmap_def)
      let ?j = "jt\<lparr>err_unobserved := False\<rparr>"
      have "mbox_ok ?j" using wf1 j by (auto simp: sys_wf_def task_wf_def mbox_ok_def mbox_read_def)
      then have w2: "sys_wf (task_put (join_target t) ?j ?s1)" by (intro wf_put [OF wf1 j]) simp_all
      note v2 = put_view [OF wf1 j, of ?j]
      have "same_keys (tmap ?s1) (tmap (task_put (join_target t) ?j ?s1))"
        unfolding v2(1) by (rule same_keys_upd [where T = "tmap ?s1", OF j]) (simp add: task_key_def)
      then have k: "same_keys ((tmap s)(i \<mapsto> ?t)) (tmap (task_put (join_target t) ?j ?s1))" unfolding v(1) .
      have c: "same_control s (task_put (join_target t) ?j ?s1)" by (rule same_control_trans [OF v(3) v2(3)])
      obtain e where e: "s' = (task_put (join_target t) ?j ?s1)\<lparr>g_has_error := True, g_error := e\<rparr>"
        using t False Some True by (simp add: s'_def task_apply_join_result_def tmap_def Let_def)
      have "same_control s s'" using c unfolding e same_control_def by simp
      then show ?thesis using w2 k v(2,4) v2(2,4) unfolding e by simp
    next
      case noerr: False
      then have "\<exists>st. s' = ?s1\<lparr>vm_stack := st\<rparr>"
        using t False Some by (auto simp: s'_def task_apply_join_result_def tmap_def Let_def)
      then show ?thesis using wf1 v by (auto simp: same_keys_def same_control_def)
    qed
  qed
qed

lemma apply_recv_view:
  assumes wf: "sys_wf s" and t: "tmap s i = Some t"
  defines "s' \<equiv> task_apply_recv_result i s"
  shows "\<exists>t'. sys_wf s' \<and> tmap s' = (tmap s)(i \<mapsto> t') \<and> qids s' = qids s \<and> s_live (sch s') = s_live (sch s) \<and>
    same_control s s' \<and> tk_state t' = tk_state t \<and> \<not> recv_blocked t' \<and> join_target t' = join_target t \<and>
    sleeping t' = sleeping t"
proof (cases "recv_blocked t")
  case False
  then have "s' = s" using t by (simp add: s'_def task_apply_recv_result_def tmap_def)
  then show ?thesis using wf t False by (intro exI [of _ t]) (simp add: fun_upd_idem)
next
  case True
  let ?t0 = "t\<lparr>recv_blocked := False\<rparr>"
  have ok: "mbox_ok ?t0" using wf t by (auto simp: sys_wf_def task_wf_def mbox_ok_def mbox_read_def)
  define t' where "t' = (if vm_stack s = [] then ?t0 else snd (mbox_pop ?t0))"
  have "mbox_ok (snd (mbox_pop ?t0))"
    using mbox_pop_ok [OF ok] ok by (cases "mbox_msgs ?t0") (auto simp: mbox_msgs_empty mbox_pop_def)
  then have ok': "mbox_ok t'" using ok by (simp add: t'_def)
  have f: "tk_id t' = tk_id t" "tk_hgen t' = tk_hgen t" "tk_state t' = tk_state t" "\<not> recv_blocked t'"
      "join_target t' = join_target t" "sleeping t' = sleeping t"
    by (simp_all add: t'_def mbox_pop_def)
  have "\<exists>st. s' = (task_put i t' s)\<lparr>vm_stack := st\<rparr>"
  proof (cases "vm_stack s = []")
    case stk: True
    then have "s' = task_put i t' s" using t True by (simp add: s'_def task_apply_recv_result_def tmap_def t'_def Let_def)
    moreover have "task_put i t' s = (task_put i t' s)\<lparr>vm_stack := vm_stack (task_put i t' s)\<rparr>" by simp
    ultimately show ?thesis by metis
  next
    case False
    then show ?thesis
      using t True by (auto simp: s'_def task_apply_recv_result_def tmap_def t'_def Let_def split_beta)
  qed
  then show ?thesis
    using wf_put [OF wf t f(1,2) ok'] put_view [OF wf t, of t'] f by (auto simp: same_control_def)
qed

text \<open>The picked task starts or resumes; \<open>s1\<close> is the state after the pop.\<close>

lemma resume_view:
  assumes wf: "sys_wf s" and t: "tmap s i = Some t" and st: "tk_state t = TASK_READY \<or> tk_state t = TASK_SUSPENDED"
    and ub: "unblocked t \<or> tk_state t = TASK_SUSPENDED \<and> \<not> sleeping t"
  defines "s' \<equiv> sched_resume i s"
  shows "\<exists>t'. sys_wf s' \<and> same_keys ((tmap s)(i \<mapsto> t')) (tmap s') \<and> qids s' = qids s \<and> s_live (sch s') = s_live (sch s) \<and>
    has_sched s' = has_sched s \<and> in_tramp s' = in_tramp s \<and> suspend_request s' = suspend_request s \<and>
    phase s' = PH_Task \<and> cur s' = i \<and> (tk_state t' = TASK_READY \<or> tk_state t' = TASK_RUNNING) \<and>
    (tk_state t' = TASK_READY \<longrightarrow> tk_state t = TASK_READY) \<and> unblocked t'"
proof -
  let ?f = "\<lambda>c. c\<lparr>s_current := i,
     s_trace := if task_trace_on s then s_trace c @ [(s_now c, i, pop_cause c)] else s_trace c\<rparr>"
  let ?s1 = "sched_upd ?f s"
  have m1: "tmap ?s1 = tmap s" by (rule sched_upd_view) simp
  have wf1: "sys_wf ?s1" using wf by (intro sched_upd_wf) (simp_all add: sys_wf_def ready_ok_def)
  have q1: "qids ?s1 = qids s" "s_live (sch ?s1) = s_live (sch s)" "cur ?s1 = i" "has_sched ?s1 = has_sched s"
      "in_tramp ?s1 = in_tramp s" "suspend_request ?s1 = suspend_request s"
    by (simp_all add: qids_def sched_upd_def)
  have t1: "tmap ?s1 i = Some t" using t m1 by simp
  have nf: "\<not> finished t" using st by (auto simp: finished_def)
  have ok: "mbox_ok t" using wf t by (simp add: sys_wf_def task_wf_def)
  show ?thesis
  proof (cases "tk_state t = TASK_SUSPENDED")
    case True
    let ?t2 = "t\<lparr>saved_frames := [], saved_stack := [], tk_state := TASK_RUNNING\<rparr>"
    let ?s2 = "task_restore_slice i t ?s1"
    have ok2: "mbox_ok ?t2" using ok by (simp add: mbox_ok_def mbox_read_def)
    note v = put_view [OF wf1 t1, of ?t2]
    have s2: "sys_wf ?s2" "tmap ?s2 = (tmap s)(i \<mapsto> ?t2)" "qids ?s2 = qids s" "s_live (sch ?s2) = s_live (sch s)"
        "same_control ?s1 ?s2"
      using v wf_put [OF wf1 t1 _ _ ok2] m1 q1 by (simp_all add: task_restore_slice_def same_control_def)
    have "tmap ?s2 i = Some ?t2" using s2(2) by simp
    let ?s3 = "task_apply_join_result i ?s2"
    note j = apply_join_view [OF s2(1) \<open>tmap ?s2 i = Some ?t2\<close>]
    then have k3: "same_keys ((tmap s)(i \<mapsto> ?t2\<lparr>join_target := 0\<rparr>)) (tmap ?s3)" using s2(2) by simp
    then have "map_option task_key (tmap ?s3 i) = Some (task_key (?t2\<lparr>join_target := 0\<rparr>))"
      by (simp add: same_keys_def)
    then obtain t3 where t3: "tmap ?s3 i = Some t3" "task_key t3 = task_key (?t2\<lparr>join_target := 0\<rparr>)" by auto
    let ?s4 = "task_apply_recv_result i ?s3"
    obtain t4 where r: "sys_wf ?s4" "tmap ?s4 = (tmap ?s3)(i \<mapsto> t4)" "qids ?s4 = qids ?s3" "s_live (sch ?s4) = s_live (sch ?s3)"
        "same_control ?s3 ?s4" "tk_state t4 = tk_state t3" "\<not> recv_blocked t4" "join_target t4 = join_target t3"
        "sleeping t4 = sleeping t3"
      using apply_recv_view [of ?s3, OF _ t3(1)] j by blast
    have "same_keys ((tmap s)(i \<mapsto> t4)) (tmap ?s4)" using k3 by (auto simp: same_keys_def r(2))
    moreover have "s' = ?s4\<lparr>phase := PH_Task\<rparr>"
      using t nf True by (simp add: s'_def sched_resume_def tmap_def Let_def)
    moreover have "same_control ?s1 ?s4"
      using same_control_trans [OF s2(5)] same_control_trans [of ?s2 ?s3 ?s4] j r(5) by blast
    moreover have "tk_state t4 = TASK_RUNNING" "unblocked t4"
      using r t3(2) ub by (auto simp: task_key_def unblocked_def)
    ultimately show ?thesis
      using r j s2 q1 by (intro exI [of _ t4]) (simp add: same_control_def)
  next
    case False
    then have ready: "tk_state t = TASK_READY" "unblocked t" using st ub by auto
    define t' where "t' = (case entry_fn t of TF_BUILTIN \<Rightarrow> t | TF_FN pc \<Rightarrow> t\<lparr>tk_started := True\<rparr>)"
    have f: "tk_state t' = TASK_READY" "unblocked t'" "mbox_ok t'" "tk_id t' = tk_id t" "tk_hgen t' = tk_hgen t" "task_key t' = task_key t"
      using ready ok by (auto simp: t'_def unblocked_def mbox_ok_def mbox_read_def task_key_def split: task_fn.split)
    let ?s2 = "task_start i t ?s1"
    have "?s2 = task_put i t' ?s1 \<or> ?s2 = ?s1 \<and> t' = t" by (simp add: task_start_def t'_def split: task_fn.split)
    then have s2: "sys_wf ?s2 \<and> tmap ?s2 = (tmap s)(i \<mapsto> t') \<and> qids ?s2 = qids s \<and> s_live (sch ?s2) = s_live (sch s) \<and>
        same_control ?s1 ?s2"
    proof
      assume "?s2 = task_put i t' ?s1"
      then show ?thesis using put_view [OF wf1 t1, of t'] wf_put [OF wf1 t1 f(4,5,3)] m1 q1 by simp
    next
      assume "?s2 = ?s1 \<and> t' = t"
      then show ?thesis using wf1 m1 q1 t by (simp add: fun_upd_idem)
    qed
    moreover have "s' = ?s2\<lparr>phase := PH_Task\<rparr>"
      using t nf False by (simp add: s'_def sched_resume_def tmap_def Let_def)
    ultimately show ?thesis
      using f ready q1 by (intro exI [of _ t']) (simp add: same_keys_def same_control_def)
  qed
qed

lemma take_drop_filter:
  assumes d: "distinct xs" and k: "k < length xs"
  shows "take k xs @ drop (Suc k) xs = filter (\<lambda>j. j \<noteq> xs ! k) xs"
proof -
  have s: "take k xs @ xs ! k # drop (Suc k) xs = xs" using id_take_nth_drop [OF k] by simp
  have "distinct (take k xs @ xs ! k # drop (Suc k) xs)" unfolding s by (rule d)
  then have "xs ! k \<notin> set (take k xs)" "xs ! k \<notin> set (drop (Suc k) xs)" by simp_all
  moreover have "filter (\<lambda>j. j \<noteq> x) ys = ys" if "x \<notin> set ys" for x and ys :: "'a list"
    using that by (intro filter_True) auto
  ultimately have "filter (\<lambda>j. j \<noteq> xs ! k) (take k xs @ xs ! k # drop (Suc k) xs) = take k xs @ drop (Suc k) xs"
    by simp
  then show ?thesis unfolding s by simp
qed

lemma pick_inv:
  assumes inv: "inv_at s None" and ctl: "phase s = PH_Pick" "in_tramp s" "has_sched s" "\<not> suspend_request s"
  shows "sched_inv (trampoline_round s)"
proof -
  have wf: "sys_wf s" and c: "core (tmap s) (qids s) None" using inv by (simp_all add: inv_at_def)
  have ok: "ready_ok (sch s)" using wf by (simp add: sys_wf_def)
  show ?thesis
  proof (cases "ready_list (sch s) = []")
    case True
    obtain b s2 where w: "sched_wake_sleepers s = (b, s2)" by fastforce
    have tr: "trampoline_round s = (if b then s2 else sched_idle s2)"
      using pop_empty [OF True] w by (cases b) (simp_all add: trampoline_round_def)
    show ?thesis
    proof (cases b)
      case True
      then show ?thesis using wake_sleepers_inv [OF inv] w tr ctl by (simp add: sched_inv_def same_loop_def)
    next
      case False
      then have "s2 = s" using w by (simp add: sched_wake_sleepers_def Let_def split: option.splits)
      then show ?thesis using idle_inv [OF inv _ ctl] True tr False by (simp add: qids_def)
    qed
  next
    case False
    let ?q = "ready_list (sch s)" and ?k = "next_pick (sch s)" and ?c = "snd (sched_ready_pop (sch s))"
    let ?i = "fst (?q ! ?k)" and ?s1 = "s\<lparr>sch := snd (sched_ready_pop (sch s))\<rparr>"
    note p = pop_list [OF ok False]
    have k: "?k < length ?q" using p by simp
    have i: "?i = qids s ! ?k" using k by (simp add: qids_def)
    then have in_q: "?i \<in> set (qids s)" using k by (simp add: qids_def)
    then obtain t where t: "tmap s ?i = Some t" using c by (auto simp: core_def)
    note node = inv_task(3) [OF inv t]
    have run: "can_run (tmap s) t" and pos: "0 \<le> ?i" using node in_q by (simp_all add: node_ok_def)
    have m: "main_task ?c = main_task (sch s)" using p by (simp add: ring_frame_def)
    have m1: "tmap ?s1 = tmap s" using m by (simp add: tmap_def sched_lookup_def fun_eq_iff)
    have wf1: "sys_wf ?s1" using wf p m1 by (simp add: sys_wf_def)
    have dist: "distinct (qids s)" using c by (simp add: core_def)
    have q1: "qids ?s1 = filter (\<lambda>j. j \<noteq> ?i) (qids s)"
    proof -
      have "qids ?s1 = take ?k (qids s) @ drop (Suc ?k) (qids s)" using p by (simp add: qids_def take_map drop_map)
      then show ?thesis unfolding i using take_drop_filter [OF dist] k by (simp add: qids_def)
    qed
    have l1: "s_live (sch ?s1) = s_live (sch s)" using p by (simp add: ring_frame_def)
    have tr: "trampoline_round s = sched_resume ?i ?s1"
      using p pos by (simp add: trampoline_round_def split_beta Let_def)
    have st: "tk_state t = TASK_READY \<or> tk_state t = TASK_SUSPENDED" using run by (auto simp: can_run_def)
    have ub: "unblocked t \<or> tk_state t = TASK_SUSPENDED \<and> \<not> sleeping t"
      using run node by (auto simp: can_run_def node_ok_def blocked_def)
    obtain t' where r: "sys_wf (sched_resume ?i ?s1)" "same_keys ((tmap s)(?i \<mapsto> t')) (tmap (sched_resume ?i ?s1))"
        "qids (sched_resume ?i ?s1) = qids ?s1" "s_live (sch (sched_resume ?i ?s1)) = s_live (sch s)"
        "has_sched (sched_resume ?i ?s1)" "in_tramp (sched_resume ?i ?s1)" "\<not> suspend_request (sched_resume ?i ?s1)"
        "phase (sched_resume ?i ?s1) = PH_Task" "cur (sched_resume ?i ?s1) = ?i"
        "tk_state t' = TASK_READY \<or> tk_state t' = TASK_RUNNING" "tk_state t' = TASK_READY \<longrightarrow> tk_state t = TASK_READY"
        "unblocked t'"
      using resume_view [OF wf1, of ?i t] t m1 st ub l1 ctl by auto
    have fin: "finished t' = finished t" using r(10) st by (auto simp: finished_def)
    have "node_ok ((tmap s)(?i \<mapsto> t')) (qids ?s1) (Some ?i) ?i t'"
      using node r(10-12) q1 by (auto simp: node_ok_def)
    then have "core ((tmap s)(?i \<mapsto> t')) (qids ?s1) (Some ?i)"
      using core_upd [where T = "tmap s" and Q = "qids s" and Q' = "qids ?s1", OF c t fin] q1 by blast
    then have core2: "core (tmap (sched_resume ?i ?s1)) (qids ?s1) (Some ?i)" using core_same_keys r(2) by blast
    have "live_task (tmap (sched_resume ?i ?s1)) = live_task ((tmap s)(?i \<mapsto> t'))"
      using r(2) by (rule same_keys_live)
    also have "\<dots> = live_task (tmap s)" using t fin by (auto simp: live_task_upd live_task_def fun_eq_iff)
    finally have "live_count (tmap (sched_resume ?i ?s1)) = live_count (tmap s)" by (rule live_count_same)
    then show ?thesis using tr core2 r inv by (simp add: sched_inv_def inv_at_def)
  qed
qed

end
