(* ===== verification/Eigs_Double_Order.thy ===== *)
theory Eigs_Double_Order
  imports Complex_Main Eigs_Slot
begin

text \<open>
  Rounding and the order of the doubles: a quotient at least as large as a double rounds
  to a double at least as large, so adding a non-negative double never decreases one.
\<close>

definition frac_of :: "int \<Rightarrow> int \<Rightarrow> real" where
  "frac_of n d = of_int n / of_int d"

lemma frac_of_le_iff:
  assumes "0 < b" and "0 < d"
  shows "frac_of a b \<le> frac_of n d \<longleftrightarrow> a * d \<le> n * b"
proof -
  have "frac_of a b \<le> frac_of n d \<longleftrightarrow> (of_int a :: real) * of_int d \<le> of_int n * of_int b"
    unfolding frac_of_def using assms by (simp add: divide_le_eq le_divide_eq mult.commute)
  also have "\<dots> \<longleftrightarrow> (of_int (a * d) :: real) \<le> of_int (n * b)" by simp
  finally show ?thesis by (simp only: of_int_le_iff)
qed

lemma powi_div: "(2::real) powi a / 2 powi b = 2 powi (a - b)"
  by (simp add: power_int_diff)

lemma powi_frac: "(2::real) powi k = frac_of (2 ^ nat k) (2 ^ nat (- k))"
  by (cases "0 \<le> k") (simp_all add: frac_of_def power_int_def power_one_over)

lemma powi_le_frac:
  assumes "0 < d"
  shows "2 powi k \<le> frac_of n d \<longleftrightarrow> d * 2 ^ nat k \<le> n * 2 ^ nat (- k)"
  using assms by (simp add: powi_frac frac_of_le_iff mult.commute)

lemma bitlen_powi:
  assumes "0 < n"
  shows "2 powi (int (bitlen n) - 1) \<le> (of_int n :: real)" and "(of_int n :: real) < 2 powi (int (bitlen n))"
proof -
  have b: "2 ^ (bitlen n - 1) \<le> n" "n < 2 ^ bitlen n" and p: "0 < bitlen n"
    using assms bitlen_bounds by (auto simp: bitlen_pos)
  have "(2::real) powi (int (bitlen n) - 1) = of_int (2 ^ (bitlen n - 1))"
    using p by (simp add: power_int_def nat_diff_distrib)
  then show "2 powi (int (bitlen n) - 1) \<le> (of_int n :: real)" using b(1) by (simp only: of_int_le_iff)
  have "(2::real) powi (int (bitlen n)) = of_int (2 ^ bitlen n)" by (simp add: power_int_def)
  then show "(of_int n :: real) < 2 powi (int (bitlen n))" using b(2) by (simp only: of_int_less_iff)
qed

text \<open>The floor of the logarithm, as bounds of the quotient.\<close>

lemma flog2_bounds:
  assumes "0 < n" and "0 < d"
  shows "2 powi (flog2 n d) \<le> frac_of n d" and "frac_of n d < 2 powi (flog2 n d + 1)"
proof -
  let ?k = "int (bitlen n) - int (bitlen d)"
  have n: "2 powi (int (bitlen n) - 1) \<le> (of_int n :: real)" "(of_int n :: real) < 2 powi (int (bitlen n))"
    and d: "2 powi (int (bitlen d) - 1) \<le> (of_int d :: real)" "(of_int d :: real) < 2 powi (int (bitlen d))"
    using bitlen_powi assms by blast+
  have "frac_of n d < 2 powi (int (bitlen n)) / 2 powi (int (bitlen d) - 1)"
    unfolding frac_of_def using n(2) d(1) assms by (intro frac_less) simp_all
  also have "\<dots> = 2 powi (?k + 1)" by (simp only: powi_div) (simp add: algebra_simps)
  finally have hi: "frac_of n d < 2 powi (?k + 1)" .
  have "2 powi (int (bitlen n) - 1) / 2 powi (int (bitlen d)) \<le> frac_of n d"
    unfolding frac_of_def using n(1) d(2) assms by (intro frac_le) simp_all
  moreover have "(2::real) powi (int (bitlen n) - 1) / 2 powi (int (bitlen d)) = 2 powi (?k - 1)"
    by (simp only: powi_div) (simp add: algebra_simps)
  ultimately have lo: "2 powi (?k - 1) \<le> frac_of n d" by simp
  have "flog2 n d = (if 2 powi ?k \<le> frac_of n d then ?k else ?k - 1)"
    using assms(2) by (simp add: flog2_def Let_def powi_le_frac)
  then show "2 powi (flog2 n d) \<le> frac_of n d" "frac_of n d < 2 powi (flog2 n d + 1)"
    using lo hi by auto
qed

subsection \<open>Rounding is monotone on representable bounds\<close>

lemma scaled_le:
  assumes "0 < d"
  shows "X * (d * 2 ^ nat e) \<le> n * 2 ^ nat (- e) \<longleftrightarrow> of_int X * 2 powi e \<le> frac_of n d"
proof -
  have "of_int X * 2 powi e = frac_of (X * 2 ^ nat e) (2 ^ nat (- e))"
    by (simp add: powi_frac) (simp add: frac_of_def)
  then show ?thesis using assms by (simp add: frac_of_le_iff mult.commute mult.left_commute)
qed

lemma round_div_ge:
  assumes "0 < den" and "X * den \<le> num"
  shows "X \<le> round_div num den"
proof -
  have "X * den div den \<le> num div den" using assms by (intro zdiv_mono1)
  then show ?thesis using assms(1) by (simp add: round_div_def Let_def)
qed

text \<open>A finite non-negative double: its significand and its exponent.\<close>

definition dbl_sig :: "double \<Rightarrow> int" where
  "dbl_sig x = (if dbl_expo x = 0 then dbl_frac x else dbl_frac x + 2 ^ 52)"

definition dbl_exp1 :: "double \<Rightarrow> int" where
  "dbl_exp1 x = max 1 (dbl_expo x)"

lemma dbl_parts:
  assumes "uint x < 2047 * 2 ^ 52"
  shows "uint x = (dbl_exp1 x - 1) * 2 ^ 52 + dbl_sig x" and "0 \<le> dbl_sig x" and "dbl_sig x < 2 ^ 53"
    and "1 < dbl_exp1 x \<Longrightarrow> 2 ^ 52 \<le> dbl_sig x" and "1 \<le> dbl_exp1 x" and "dbl_finite x"
    and "frac_of (dbl_num x) (dbl_den x) = of_int (dbl_sig x) * 2 powi (dbl_exp1 x - 1075)"
proof -
  have "0 \<le> uint x" by simp
  then have e: "dbl_expo x = uint x div 2 ^ 52" "0 \<le> dbl_expo x" "dbl_expo x < 2047"
    using assms by (simp_all add: dbl_expo_def div_less_iff_less_mult pos_imp_zdiv_nonneg_iff)
  have f: "0 \<le> dbl_frac x" "dbl_frac x < 2 ^ 52" by (simp_all add: dbl_frac_def)
  have u: "uint x = dbl_expo x * 2 ^ 52 + dbl_frac x"
    unfolding e(1) dbl_frac_def by (rule div_mult_mod_eq [symmetric])
  show "uint x = (dbl_exp1 x - 1) * 2 ^ 52 + dbl_sig x" "1 < dbl_exp1 x \<Longrightarrow> 2 ^ 52 \<le> dbl_sig x"
    using u f e(2) by (auto simp: dbl_exp1_def dbl_sig_def)
  show "0 \<le> dbl_sig x" "dbl_sig x < 2 ^ 53" using f by (simp_all add: dbl_sig_def)
  show "1 \<le> dbl_exp1 x" by (simp add: dbl_exp1_def)
  show "dbl_finite x" using e(3) by (simp add: dbl_finite_def)
  show "frac_of (dbl_num x) (dbl_den x) = of_int (dbl_sig x) * 2 powi (dbl_exp1 x - 1075)"
  proof (cases "dbl_expo x = 0")
    case True
    then show ?thesis by (simp add: dbl_exp1_def dbl_sig_def dbl_num_def dbl_den_def powi_frac) (simp add: frac_of_def)
  next
    case False
    then have "dbl_exp1 x = dbl_expo x" using e(2) by (simp add: dbl_exp1_def)
    then show ?thesis using False
      by (simp add: dbl_sig_def dbl_num_def dbl_den_def powi_frac) (simp add: frac_of_def)
  qed
qed

lemma fp_round_bits:
  assumes "0 < n" and "0 < d"
  defines "e \<equiv> max (- 1074) (flog2 n d - 52)"
  shows "\<exists>q. uint (fp_round n d) = min (2047 * 2 ^ 52) ((e + 1074) * 2 ^ 52 + q) \<and> 0 \<le> q \<and>
     (\<forall>X. of_int X * 2 powi e \<le> frac_of n d \<longrightarrow> X \<le> q)"
proof -
  let ?q = "round_div (n * 2 ^ nat (- e)) (d * 2 ^ nat e)"
  have den: "0 < d * 2 ^ nat e" using assms(2) by simp
  have ge: "X \<le> ?q" if "of_int X * 2 powi e \<le> frac_of n d" for X
    using that by (intro round_div_ge [OF den]) (simp only: scaled_le [OF assms(2)])
  have q0: "0 \<le> ?q" using assms by (intro ge) (simp add: frac_of_def)
  have "0 \<le> e + 1074" by (simp add: e_def)
  then have "0 \<le> (e + 1074) * 2 ^ 52 + ?q" using q0 by simp
  then have "uint (of_int (min (2047 * 2 ^ 52) ((e + 1074) * 2 ^ 52 + ?q)) :: double) =
      min (2047 * 2 ^ 52) ((e + 1074) * 2 ^ 52 + ?q)"
    by (intro uint_of_int) (simp_all add: min_def)
  then have "uint (fp_round n d) = min (2047 * 2 ^ 52) ((e + 1074) * 2 ^ 52 + ?q)"
    using assms(1) by (simp add: fp_round_def Let_def flip: e_def)
  then show ?thesis using ge q0 by blast
qed

lemma fp_round_ge:
  assumes x: "uint x < 2047 * 2 ^ 52" and nd: "0 < n" "0 < d" and le: "frac_of (dbl_num x) (dbl_den x) \<le> frac_of n d"
  shows "uint x \<le> uint (fp_round n d)"
proof -
  let ?e = "max (- 1074) (flog2 n d - 52)" and ?E = "dbl_exp1 x" and ?X = "dbl_sig x"
  note p = dbl_parts [OF x]
  obtain q where q: "uint (fp_round n d) = min (2047 * 2 ^ 52) ((?e + 1074) * 2 ^ 52 + q)" "0 \<le> q"
      "\<And>X. of_int X * 2 powi ?e \<le> frac_of n d \<Longrightarrow> X \<le> q"
    using fp_round_bits [OF nd] by blast
  have v: "of_int ?X * 2 powi (?E - 1075) \<le> frac_of n d" using le p(7) by simp
  note lg = flog2_bounds [OF nd]
  consider (eq) "?e + 1075 = ?E" | (hi) "?E < ?e + 1075" | (lo) "?e + 1075 < ?E" by linarith
  then have "uint x \<le> (?e + 1074) * 2 ^ 52 + q"
  proof cases
    case eq
    then have "?X \<le> q" using v by (intro q(3)) (simp add: algebra_simps flip: eq)
    then show ?thesis using p(1) eq by simp
  next
    case hi
    then have "?e = flog2 n d - 52" using p(5) by simp
    then have "2 ^ 52 * 2 powi ?e \<le> frac_of n d" using lg(1) by (simp add: power_int_diff)
    then have "2 ^ 52 \<le> q" using q(3) [of "2 ^ 52"] by simp
    moreover have "?E * 2 ^ 52 \<le> (?e + 1074) * 2 ^ 52" using hi by (intro mult_right_mono) simp_all
    ultimately show ?thesis using p(1,3) by simp
  next
    case lo
    then have "2 ^ 52 \<le> ?X" using p(4) by simp
    then have "(2 ^ 52 :: real) \<le> of_int ?X" by (metis of_int_le_iff of_int_numeral of_int_power)
    then have "2 ^ 52 * 2 powi (?E - 1075) \<le> (of_int ?X * 2 powi (?E - 1075) :: real)" by (intro mult_right_mono) simp_all
    also have "\<dots> < 2 powi (flog2 n d + 1)" using v lg(2) by simp
    finally have "(2::real) powi (?E - 1023) < 2 powi (flog2 n d + 1)" by (simp add: power_int_diff)
    then have "?E - 1023 < flog2 n d + 1"
      using power_int_increasing [of "flog2 n d + 1" "?E - 1023" "2 :: real"] by linarith
    then show ?thesis using lo by simp
  qed
  then show ?thesis using q(1) x by simp
qed

text \<open>Adding a non-negative double never decreases a non-negative one.\<close>

lemma fp_add_ge:
  assumes x: "uint x \<le> 2047 * 2 ^ 52" and y: "uint y \<le> 2047 * 2 ^ 52"
  shows "uint x \<le> uint (fp_add x y)" and "uint (fp_add x y) \<le> 2047 * 2 ^ 52"
proof -
  have fin: "uint z < 2047 * 2 ^ 52" if "uint z \<le> 2047 * 2 ^ 52" "dbl_finite z" for z :: double
    using that by (cases "uint z = 2047 * 2 ^ 52") (simp_all add: dbl_finite_def dbl_expo_def)
  have inf: "uint dbl_inf = 2047 * 2 ^ 52" unfolding dbl_inf_def by (intro uint_of_int) simp_all
  have le: "uint (fp_round n d) \<le> 2047 * 2 ^ 52" if "0 \<le> n" "0 < d" for n d
    using fp_round_bits [of n d] that by (cases "n = 0") (auto simp: fp_round_def)
  let ?n = "dbl_num x * dbl_den y + dbl_num y * dbl_den x" and ?d = "dbl_den x * dbl_den y"
  have pos: "0 \<le> dbl_num z" "0 < dbl_den z" for z :: double
    by (simp_all add: dbl_num_def dbl_den_def dbl_frac_def)
  have "0 \<le> dbl_num x * dbl_den y" "0 \<le> dbl_num y * dbl_den x"
    using pos [of x] pos [of y] by (simp_all add: zero_le_mult_iff)
  then have n0: "0 \<le> ?n" and xy: "?n = 0 \<Longrightarrow> dbl_num x * dbl_den y = 0" by linarith+
  have d0: "0 < ?d" using pos by simp
  show "uint (fp_add x y) \<le> 2047 * 2 ^ 52" using le [OF n0 d0] inf by (simp add: fp_add_def)
  show "uint x \<le> uint (fp_add x y)"
  proof (cases "dbl_finite x \<and> dbl_finite y")
    case True
    then have x': "uint x < 2047 * 2 ^ 52" using fin x by blast
    have "frac_of (dbl_num x) (dbl_den x) \<le> frac_of ?n ?d"
      using pos [of x] pos [of y] d0 by (simp add: frac_of_le_iff zero_le_mult_iff algebra_simps)
    moreover have "uint x = 0" if "?n = 0"
    proof -
      have "dbl_num x = 0" using xy [OF that] pos(2) [of y] by simp
      then have "dbl_expo x = 0" "dbl_frac x = 0"
        by (auto simp: dbl_num_def dbl_frac_def split: if_splits)
      then show ?thesis using dbl_parts(1) [OF x'] by (simp add: dbl_exp1_def dbl_sig_def)
    qed
    ultimately show ?thesis using fp_round_ge [OF x', of ?n ?d] True n0 d0
      by (cases "?n = 0") (simp_all add: fp_add_def)
  next
    case False
    then show ?thesis using x inf by (auto simp: fp_add_def)
  qed
qed

text \<open>Non-negative doubles, the infinity included, are ordered as their patterns.\<close>

definition dbl_nonneg :: "double \<Rightarrow> bool" where
  "dbl_nonneg x \<longleftrightarrow> uint x \<le> 2047 * 2 ^ 52"

lemma nonneg_key:
  assumes "dbl_nonneg x"
  shows "dbl_key x = uint x" and "\<not> dbl_nan x"
proof -
  have "uint x < 2 ^ 63" using assms by (simp add: dbl_nonneg_def)
  then have "uint x div 2 ^ 63 = 0" "uint x mod 2 ^ 63 = uint x" by (simp_all only: div_pos_pos_trivial mod_pos_pos_trivial unsigned_greater_eq)
  then have m: "\<not> dbl_neg x" "uint (dbl_mag x) = uint x"
    by (simp_all only: top_bit uint_mag not_False_eq_True zero_neq_one split: if_splits)
  then show "dbl_key x = uint x" by (simp add: dbl_key_def)
  show "\<not> dbl_nan x" using assms m by (simp add: dbl_nan_def dbl_nonneg_def word_less_def)
qed

lemma nonneg_le: "dbl_nonneg x \<Longrightarrow> dbl_nonneg y \<Longrightarrow> fp_le x y \<longleftrightarrow> uint x \<le> uint y"
  by (simp add: fp_le_def nonneg_key)

lemma nonneg_lt: "dbl_nonneg x \<Longrightarrow> dbl_nonneg y \<Longrightarrow> fp_lt x y \<longleftrightarrow> uint x < uint y"
  by (simp add: fp_lt_def nonneg_key)

lemma nonneg_zero [simp]: "dbl_nonneg 0"
  by (simp add: dbl_nonneg_def)

lemma positive_nonneg:
  assumes "fp_lt 0 x"
  shows "dbl_nonneg x"
proof -
  have k: "0 < dbl_key x" "\<not> dbl_nan x" using assms nonneg_key(1) [of 0] by (simp_all add: fp_lt_def)
  then have "\<not> dbl_neg x" by (auto simp: dbl_key_def split: if_splits)
  then have "uint x = uint (dbl_mag x)" using uint_split [of x] by simp
  then show ?thesis using k(2) by (simp add: dbl_nan_def dbl_nonneg_def word_less_def)
qed

lemma add_nonneg:
  assumes "dbl_nonneg x" and "dbl_nonneg y"
  shows "dbl_nonneg (fp_add x y)" and "fp_le x (fp_add x y)"
  using fp_add_ge [of x y] assms by (simp_all add: dbl_nonneg_def nonneg_le)

end
