(* ===== verification/Eigs_Sched_Clock.thy ===== *)
theory Eigs_Sched_Clock
  imports Eigs_Sched_Run Eigs_Double_Order
begin

text \<open>
  Virtual time. A sleeping task that has not ended has a wake time that is not in the
  past, so advancing the clock to the earliest wake time moves it forwards, and wakes
  somebody.
\<close>

subsection \<open>The sleepers\<close>

definition sleeper_ok :: "double \<Rightarrow> ('v, 'f) task \<Rightarrow> bool" where
  "sleeper_ok now t \<longleftrightarrow> (sleeping t \<and> \<not> finished t \<longrightarrow> dbl_nonneg (wake_at t) \<and> fp_le now (wake_at t))"

definition sleepers_ok :: "double \<Rightarrow> ('v, 'f) sys \<Rightarrow> bool" where
  "sleepers_ok now s \<longleftrightarrow>
     s_now (sch s) = now \<and> length (ht_slots (htab s)) = HANDLE_TABLE_SIZE \<and>
     (\<forall>i t. sched_lookup i s = Some t \<longrightarrow> sleeper_ok now t)"

lemma lookup_cong [simp]:
  "sched_lookup i (s\<lparr>vm_stack := a\<rparr>) = sched_lookup i s" "sched_lookup i (s\<lparr>vm_frames := fs\<rparr>) = sched_lookup i s"
  "sched_lookup i (s\<lparr>vm_line := n\<rparr>) = sched_lookup i s" "sched_lookup i (s\<lparr>g_has_error := b\<rparr>) = sched_lookup i s"
  "sched_lookup i (s\<lparr>g_error := e\<rparr>) = sched_lookup i s" "sched_lookup i (s\<lparr>g_try_depth := n\<rparr>) = sched_lookup i s"
  "sched_lookup i (s\<lparr>suspend_request := b\<rparr>) = sched_lookup i s" "sched_lookup i (s\<lparr>in_tramp := b\<rparr>) = sched_lookup i s"
  "sched_lookup i (s\<lparr>phase := p\<rparr>) = sched_lookup i s" "sched_lookup i (s\<lparr>has_sched := b\<rparr>) = sched_lookup i s"
  by (cases "i = 0"; simp add: sched_lookup_def)+

lemma sleepers_cong [simp]:
  "sleepers_ok now (s\<lparr>vm_stack := a\<rparr>) = sleepers_ok now s" "sleepers_ok now (s\<lparr>vm_frames := fs\<rparr>) = sleepers_ok now s"
  "sleepers_ok now (s\<lparr>vm_line := n\<rparr>) = sleepers_ok now s" "sleepers_ok now (s\<lparr>g_has_error := b\<rparr>) = sleepers_ok now s"
  "sleepers_ok now (s\<lparr>g_error := e\<rparr>) = sleepers_ok now s" "sleepers_ok now (s\<lparr>g_try_depth := n\<rparr>) = sleepers_ok now s"
  "sleepers_ok now (s\<lparr>suspend_request := b\<rparr>) = sleepers_ok now s" "sleepers_ok now (s\<lparr>in_tramp := b\<rparr>) = sleepers_ok now s"
  "sleepers_ok now (s\<lparr>phase := p\<rparr>) = sleepers_ok now s" "sleepers_ok now (s\<lparr>has_sched := b\<rparr>) = sleepers_ok now s"
  by (simp_all add: sleepers_ok_def)

lemma sleepers_lookup: "sleepers_ok now s \<Longrightarrow> sched_lookup i s = Some t \<Longrightarrow> sleeper_ok now t"
  by (simp add: sleepers_ok_def)

text \<open>A write to one slot of the table.\<close>

lemma same_next: "h\<lparr>ht_slots := x, ht_next := ht_next h\<rparr> = h\<lparr>ht_slots := x\<rparr>"
  by simp

lemma sleepers_slot:
  assumes s: "sleepers_ok now s" and p: "\<And>u. p = Some u \<Longrightarrow> ty = HANDLE_TASK \<Longrightarrow> sleeper_ok now u" and
    k: "hs_ptr w = p" "hs_type w = ty"
  shows "sleepers_ok now (s\<lparr>htab := (htab s)\<lparr>ht_slots := (ht_slots (htab s))[k := w], ht_next := n\<rparr>\<rparr>)"
proof -
  have "sleeper_ok now u" if "handle_lookup_slot j HANDLE_TASK ((htab s)\<lparr>ht_slots := (ht_slots (htab s))[k := w], ht_next := n\<rparr>) = Some u"
    and j: "j \<noteq> 0" for j u
  proof (cases "nat j = k \<and> k < length (ht_slots (htab s))")
    case True
    then show ?thesis using that k p by (simp add: handle_lookup_slot_def Let_def split: if_splits)
  next
    case False
    then have "(ht_slots (htab s))[k := w] ! nat j = ht_slots (htab s) ! nat j"
      by (cases "nat j = k") (simp_all add: nth_list_update list_update_beyond)
    then have "handle_lookup_slot j HANDLE_TASK (htab s) = Some u"
      using that(1) by (simp add: handle_lookup_slot_def Let_def split: if_splits)
    then show ?thesis using sleepers_lookup [OF s, of j u] j by (simp add: sched_lookup_def)
  qed
  moreover have "sleeper_ok now (main_task (sch s))" using sleepers_lookup [OF s, of 0] by (simp add: sched_lookup_def)
  ultimately show ?thesis using s by (auto simp: sleepers_ok_def sched_lookup_def split: if_splits)
qed

lemma sleepers_put:
  assumes "sleepers_ok now s" and "sleeper_ok now t"
  shows "sleepers_ok now (task_put i t s)"
proof (cases "i = 0")
  case True
  have "sleeper_ok now u" if "sched_lookup j (task_put 0 t s) = Some u" for j u
    using that assms(2) sleepers_lookup [OF assms(1), of j u] by (cases "j = 0") (simp_all add: task_put_def sched_lookup_def)
  then show ?thesis using assms(1) True by (simp add: sleepers_ok_def) (simp add: task_put_def)
next
  case False
  let ?w = "(ht_slots (htab s) ! nat i)\<lparr>hs_ptr := Some t\<rparr>"
  show ?thesis
    using sleepers_slot [OF assms(1), where w = ?w and k = "nat i" and n = "ht_next (htab s)", OF _ refl refl] assms(2) False
    by (simp add: task_put_def same_next)
qed

lemma sleepers_reap: "sleepers_ok now s \<Longrightarrow> sleepers_ok now (task_reap i g s)"
  using sleepers_slot [where p = None and n = "ht_next (htab s)" and s = s]
  by (simp add: task_reap_def handle_release_def Let_def same_next)

lemma sleepers_upd:
  assumes "sleepers_ok now s" and "s_now (f (sch s)) = s_now (sch s)" and "main_task (f (sch s)) = main_task (sch s)"
  shows "sleepers_ok now (sched_upd f s)"
proof -
  have "sched_lookup i (sched_upd f s) = sched_lookup i s" for i using assms(3) by (cases "i = 0") (simp_all add: sched_upd_def sched_lookup_def)
  then show ?thesis using assms by (simp add: sleepers_ok_def) (simp add: sched_upd_def)
qed

lemma sleepers_push: "sleepers_ok now s \<Longrightarrow> sleepers_ok now (sched_upd (sched_ready_push i cause) s)"
  by (rule sleepers_upd) (simp_all add: sched_ready_push_def ready_put_def Let_def)

lemma sleepers_release: "sleepers_ok now s \<Longrightarrow> sleepers_ok now (release_joiners i cause s)"
proof -
  have "sleepers_ok now (fold (\<lambda>w s. if joins i s w then sched_upd (sched_ready_push (task_ref w s) cause) s else s) ws s)"
    if "sleepers_ok now s" for ws and s :: "('a, 'b) sys"
    using that by (induction ws arbitrary: s) (simp_all add: sleepers_push)
  then show "sleepers_ok now s \<Longrightarrow> sleepers_ok now (release_joiners i cause s)"
    by (simp add: release_joiners_def Let_def sleepers_push)
qed

text \<open>A change that leaves the sleep of a task alone, or ends the task.\<close>

lemma sleeper_same:
  "sleeper_ok now t \<Longrightarrow> sleeping t' \<longrightarrow> sleeping t \<Longrightarrow> wake_at t' = wake_at t \<Longrightarrow> finished t \<longrightarrow> finished t' \<Longrightarrow>
     sleeper_ok now t'"
  by (auto simp: sleeper_ok_def)

lemma sleeper_ended: "finished t \<Longrightarrow> sleeper_ok now t"
  by (simp add: sleeper_ok_def)

subsection \<open>The operations\<close>

lemma sleepers_task_upd:
  assumes "sleepers_ok now s" and "\<And>t. sched_lookup i s = Some t \<Longrightarrow> sleeper_ok now t \<Longrightarrow> sleeper_ok now (f t)"
  shows "sleepers_ok now (task_upd i f s)"
  using assms sleepers_lookup [OF assms(1)] by (auto simp: task_upd_def sleepers_put split: option.splits)

lemma sleepers_error: "sleepers_ok now s \<Longrightarrow> sleepers_ok now (rt_error k s)"
  by (simp add: rt_error_def)

lemma mbox_push_sleeper: "sleeper_ok now t \<Longrightarrow> sleeper_ok now (mbox_push m t)"
  by (erule sleeper_same) (simp_all add: mbox_push_def mbox_grow_def Let_def finished_def)

lemma mbox_pop_sleeper: "sleeper_ok now t \<Longrightarrow> sleeper_ok now (snd (mbox_pop t))"
  by (erule sleeper_same) (simp_all add: mbox_pop_def Let_def finished_def)

lemma sleepers_deliver: "sleepers_ok now s \<Longrightarrow> sleepers_ok now (snd (task_deliver i m s))"
  by (auto simp: task_deliver_def Let_def split: option.splits
      intro!: sleepers_push sleepers_upd sleepers_put mbox_push_sleeper dest: sleepers_lookup)

lemma sleepers_mbox_pop:
  assumes "sleepers_ok now s"
  shows "sleepers_ok now (snd (task_mbox_pop s))"
proof (cases "task_current_running s")
  case None
  then show ?thesis using assms by (simp add: task_mbox_pop_def)
next
  case (Some t)
  then have "sleeper_ok now (snd (mbox_pop t))"
    using assms by (intro mbox_pop_sleeper) (auto simp: task_current_running_def dest: sleepers_lookup split: if_splits)
  then show ?thesis
    using assms Some by (auto simp: task_mbox_pop_def split: prod.splits option.splits intro: sleepers_put)
qed

lemma compact_frame:
  "s_now (snd (ready_compact i n k w c)) = s_now c \<and> main_task (snd (ready_compact i n k w c)) = main_task c"
  by (induction n arbitrary: k w c) (simp_all add: ready_put_def)

lemma sleepers_kill:
  assumes "sleepers_ok now s"
  shows "sleepers_ok now (snd (task_do_kill i s))"
proof -
  have "sleepers_ok now (sched_upd (sched_ready_remove i) s)"
    using assms by (rule sleepers_upd) (simp_all add: sched_ready_remove_def split_beta compact_frame)
  then show ?thesis
    using assms by (auto simp: task_do_kill_def Let_def finished_def split: option.splits
        intro!: sleepers_reap sleepers_release sleepers_upd sleepers_put sleeper_ended)
qed

lemma sleepers_detach: "sleepers_ok now s \<Longrightarrow> sleepers_ok now (snd (task_do_detach i s))"
  by (auto simp: task_do_detach_def finished_def split: option.splits
      intro!: sleepers_reap sleepers_upd sleepers_put intro: sleeper_same dest: sleepers_lookup)

lemma sleepers_ensure: "sleepers_ok now s \<Longrightarrow> (\<not> has_sched s \<Longrightarrow> now = 0) \<Longrightarrow> sleepers_ok now (sched_ensure s)"
proof (cases "has_sched s")
  case False
  assume s: "sleepers_ok now s" and "\<not> has_sched s \<Longrightarrow> now = 0"
  have "sleeper_ok now u" if "sched_lookup j (s\<lparr>has_sched := True, sch := sched_new\<rparr>) = Some u" for j u
    using that sleepers_lookup [OF s, of j u]
    by (cases "j = 0") (auto simp: sched_lookup_def sched_new_def task_new_def sleeper_ok_def)
  moreover assume "\<not> has_sched s \<Longrightarrow> now = 0"
  ultimately show ?thesis using s False
    by (simp add: sched_ensure_def sleepers_ok_def) (simp add: sched_new_def)
qed (simp add: sched_ensure_def)

lemma sleepers_spawn:
  assumes "sleepers_ok now s" and "\<not> has_sched s \<Longrightarrow> now = 0"
  shows "sleepers_ok now (snd (builtin_task_spawn fn as s))"
proof -
  have reg: "sleepers_ok now (s\<lparr>htab := snd (handle_register (task_new f as TASK_READY) HANDLE_TASK (htab s))\<rparr>)" for f
    using assms(1) sleepers_slot [OF assms(1), of "Some (task_new f as TASK_READY)" HANDLE_TASK]
    by (auto simp: handle_register_def Let_def sleeper_ok_def task_new_def split: option.splits)
  have upd: "sleepers_ok now (task_upd i (\<lambda>t. t\<lparr>tk_id := i, tk_hgen := g\<rparr>) s')" if "sleepers_ok now s'" for i g and s' :: "('a, 'b) sys"
    using that by (rule sleepers_task_upd) (erule sleeper_same, simp_all add: finished_def)
  have spawn: "sleepers_ok now (task_sched_on_spawn i s')" if "sleepers_ok now s'" "has_sched s' = has_sched s" for i and s' :: "('a, 'b) sys"
    unfolding task_sched_on_spawn_def Let_def
    by (intro sleepers_push sleepers_task_upd sleepers_upd sleepers_ensure that)
      (use that assms(2) in \<open>auto intro: sleeper_same simp: finished_def\<close>)
  have has: "has_sched (task_upd i f s') = has_sched s'" for i f and s' :: "('a, 'b) sys"
    by (simp add: task_upd_def task_put_def split: option.splits)
  show ?thesis
    using assms(1) by (auto simp: builtin_task_spawn_def sleepers_error split: option.splits prod.splits
        intro!: spawn upd reg simp: has) (metis reg snd_conv)+
qed

lemma sleepers_sleep:
  assumes s: "sleepers_ok now s" and now: "dbl_nonneg now"
  shows "sleepers_ok now (task_request_sleep d s)"
proof -
  have "dbl_nonneg (sleep_ticks d)" by (simp add: sleep_ticks_def positive_nonneg)
  then have "dbl_nonneg (fp_add now (sleep_ticks d))" "fp_le now (fp_add now (sleep_ticks d))" using add_nonneg [OF now] by simp_all
  moreover have "s_now (sch s) = now" using s by (simp add: sleepers_ok_def)
  ultimately show ?thesis
    using s by (auto simp: task_request_sleep_def sleeper_ok_def intro!: sleepers_task_upd)
qed

lemma sleepers_act:
  assumes s: "sleepers_ok now s" and now: "dbl_nonneg now" and new: "\<not> has_sched s \<Longrightarrow> now = 0"
  shows "sleepers_ok now (snd (builtin_act x a s))"
proof (cases a)
  case (A_Join arg)
  have upd: "sleepers_ok now (task_upd i (\<lambda>t. t\<lparr>join_target := j\<rparr>) s)" for i j
    using s by (rule sleepers_task_upd) (erule sleeper_same, simp_all add: finished_def)
  have obs: "sleepers_ok now (task_put i (t\<lparr>err_unobserved := False\<rparr>) s)" if "sleeper_ok now t" for i t
    by (rule sleepers_put [OF s]) (rule sleeper_same [OF that], simp_all add: finished_def)
  have look: "sleeper_ok now t" if "has_sched s" "handle_lookup_slot i HANDLE_TASK (htab s) = Some t" for i t
    using that sleepers_lookup [OF s, of i t] by (cases "i = 0") (simp_all add: sched_lookup_def handle_lookup_slot_def handle_in_range_def)
  show ?thesis
    using s by (auto simp: A_Join builtin_act_def builtin_task_join_def join_finished_def task_request_join_def sleepers_error upd
        split: option.splits intro!: obs intro: look)
next
  case A_Recv
  have "sleepers_ok now (task_upd i (\<lambda>t. t\<lparr>recv_blocked := True\<rparr>) s)" for i
    using s by (rule sleepers_task_upd) (erule sleeper_same, simp_all add: finished_def)
  then show ?thesis
    using s sleepers_mbox_pop [OF s] by (simp add: A_Recv builtin_act_def builtin_task_recv_def task_request_recv_def sleepers_error)
next
  case A_Yield
  then show ?thesis using s by (simp add: builtin_act_def builtin_task_yield_def task_request_yield_def sleepers_error)
next
  case (A_Sleep arg)
  then show ?thesis using s sleepers_sleep [OF s now]
    by (simp add: builtin_act_def builtin_task_sleep_def sleepers_error split: option.splits)
next
  case (A_Send i m)
  then show ?thesis using s sleepers_deliver [OF s] by (simp add: builtin_act_def builtin_task_send_def split_beta)
next
  case A_Try_Recv
  then show ?thesis using s sleepers_mbox_pop [OF s] by (simp add: builtin_act_def builtin_task_try_recv_def)
next
  case (A_Kill i)
  then show ?thesis using s sleepers_kill [OF s] by (simp add: builtin_act_def builtin_task_kill_def split_beta)
next
  case (A_Detach arg)
  then show ?thesis using s sleepers_detach [OF s]
    by (simp add: builtin_act_def builtin_task_detach_def split_beta sleepers_error split: option.splits)
next
  case (A_Seed seed)
  then show ?thesis using sleepers_ensure [OF s new]
    by (simp add: builtin_act_def task_sched_set_seed_def sleepers_upd)
qed (use s sleepers_spawn [OF s new] in \<open>simp_all add: builtin_act_def\<close>)

subsection \<open>A step\<close>

lemma sleepers_save:
  assumes "sleepers_ok now s" and "\<And>t. sched_lookup (cur s) s = Some t \<Longrightarrow> \<not> finished t"
  shows "sleepers_ok now (task_save_slice s)"
  using assms
  by (auto simp: task_save_slice_def task_current_running_def sleeper_ok_def finished_def split: option.splits
      intro!: sleepers_put dest: sleepers_lookup)

lemma sleepers_requeue: "sleepers_ok now s \<Longrightarrow> sleepers_ok now (requeue i s)"
  by (auto simp: requeue_def sleepers_push split: option.splits)

lemma sleepers_suspend:
  assumes "sleepers_ok now s" and "\<And>t. sched_lookup (cur s) s = Some t \<Longrightarrow> \<not> finished t"
  shows "sleepers_ok now (suspend_halt s)"
  using sleepers_save [OF assms] by (simp add: suspend_halt_def Let_def sleepers_requeue)

text \<open>A call that suspends has changed the executing task, which has not ended.\<close>

lemma may_block_shape:
  assumes b: "may_block a" and nr: "\<not> suspend_request s" and r: "suspend_request (snd (builtin_act x a s))"
  shows "snd (builtin_act x a s) = s\<lparr>suspend_request := True\<rparr> \<or>
    (\<exists>f. (\<forall>t. tk_state (f t) = tk_state t) \<and> snd (builtin_act x a s) = (task_upd (cur s) f s)\<lparr>suspend_request := True\<rparr>)"
proof -
  have err: "\<not> suspend_request (rt_error k s)" for k using nr by (simp add: rt_error_def)
  have put: "suspend_request (task_put i t s) = suspend_request s" for i t by (simp add: task_put_def)
  have fin: "\<not> suspend_request (snd (join_finished i t s))" for i t using nr by (simp add: join_finished_def put)
  have pop: "\<not> suspend_request (snd (task_mbox_pop s))"
    using nr by (simp add: task_mbox_pop_def put split: option.splits prod.splits)
  have "snd (builtin_act x a s) = s \<or> \<not> suspend_request (snd (builtin_act x a s)) \<or>
      snd (builtin_act x a s) = s\<lparr>suspend_request := True\<rparr> \<or>
      (\<exists>f. (\<forall>t. tk_state (f t) = tk_state t) \<and> snd (builtin_act x a s) = (task_upd (cur s) f s)\<lparr>suspend_request := True\<rparr>)"
    using b unfolding may_block_def
  proof (elim disjE exE)
    assume "a = A_Yield"
    then show ?thesis using err by (simp add: builtin_act_def builtin_task_yield_def task_request_yield_def)
  next
    fix arg assume "a = A_Join arg"
    then show ?thesis using err fin
      by (auto simp: builtin_act_def builtin_task_join_def task_request_join_def split: option.splits
          intro!: exI [of _ "\<lambda>t. t\<lparr>join_target := j\<rparr>" for j])
  next
    assume "a = A_Recv"
    then show ?thesis using err pop
      by (auto simp: builtin_act_def builtin_task_recv_def task_request_recv_def
          intro!: exI [of _ "\<lambda>t. t\<lparr>recv_blocked := True\<rparr>"])
  next
    fix arg assume "a = A_Sleep arg"
    then show ?thesis using err
      by (auto simp: builtin_act_def builtin_task_sleep_def task_request_sleep_def split: option.splits
          intro!: exI [of _ "\<lambda>t. t\<lparr>wake_at := w, sleeping := True\<rparr>" for w])
  qed
  then show ?thesis using nr r by auto
qed

lemma sleepers_call:
  assumes inv: "sched_inv s" and ph: "phase s = PH_Task" and s: "sleepers_ok now s" and now: "dbl_nonneg now" and
    legal: "legal_call x a s"
  shows "sleepers_ok now (call_builtin x a s)"
proof -
  have inv': "inv_at s (Some (cur s))" and nr: "\<not> suspend_request s" and new: "\<not> has_sched s \<Longrightarrow> sch s = sched_new"
    using inv ph by (simp_all add: sched_inv_def)
  have "now = 0" if "\<not> has_sched s" using s new [OF that] by (simp add: sleepers_ok_def sched_new_def)
  then have s1: "sleepers_ok now (snd (builtin_act x a s))" by (rule sleepers_act [OF s now])
  obtain t where t: "tmap s (cur s) = Some t" "\<not> finished t" using inv_ex [OF inv'] by (auto simp: finished_def)
  have wf: "sys_wf s" using inv' by (simp add: inv_at_def)
  note v = put_view [OF wf t(1)]
  obtain r s1 where a: "builtin_act x a s = (r, s1)" by fastforce
  have alive: "\<not> finished t1" if req: "suspend_request s1" and look: "sched_lookup (cur s1) s1 = Some t1" for t1
  proof -
    have b: "may_block a"
      using quiet_act [OF inv ph legal] req nr a by (auto simp: keeps_ctl_def)
    have "suspend_request (snd (builtin_act x a s))" using req a by simp
    from may_block_shape [OF b nr this] show ?thesis
    proof (elim disjE exE conjE)
      assume "snd (builtin_act x a s) = s\<lparr>suspend_request := True\<rparr>"
      then have "s1 = s\<lparr>suspend_request := True\<rparr>" using a by simp
      then show ?thesis using look t by (simp add: tmap_def sched_lookup_def split: if_splits)
    next
      fix f assume f: "\<forall>t. tk_state (f t) = tk_state t"
        and "snd (builtin_act x a s) = (task_upd (cur s) f s)\<lparr>suspend_request := True\<rparr>"
      then have "s1 = (task_put (cur s) (f t) s)\<lparr>suspend_request := True\<rparr>" using a upd_put [OF t(1), of f] by simp
      then have "tmap s1 = (tmap s)(cur s \<mapsto> f t)" "cur s1 = cur s"
        using v(1,3) [of "f t"] by (simp_all add: same_control_def)
      then have "t1 = f t" using look by (simp add: tmap_def fun_eq_iff)
      then show ?thesis using f t(2) by (simp add: finished_def)
    qed
  qed
  let ?s = "s1\<lparr>vm_stack := vm_stack s1 @ [r]\<rparr>"
  have ok: "sleepers_ok now ?s" using s1 a by simp
  have "sleepers_ok now (suspend_halt ?s)" if "suspend_request s1"
    using alive [OF that] by (intro sleepers_suspend ok) simp
  then show ?thesis using ok by (simp add: call_builtin_def a Let_def sleepers_error)
qed

lemma sleepers_finish:
  assumes "sleepers_ok now s"
  shows "sleepers_ok now (sched_finish i r s)"
  using assms
  by (auto simp: sched_finish_def Let_def finished_def split: option.splits
      intro!: sleepers_reap sleepers_release sleepers_upd sleepers_put sleeper_ended)

lemma sleepers_main_result:
  assumes "sleepers_ok now s"
  shows "sleepers_ok now (main_result s)"
proof -
  have m: "sleeper_ok now (main_task (sch s))" using sleepers_lookup [OF assms, of 0] by (simp add: sched_lookup_def)
  have "sleeper_ok now ((main_task (sch s))\<lparr>error_value := None\<rparr>)" "sleeper_ok now ((main_task (sch s))\<lparr>tk_result := None\<rparr>)"
    using m by (simp_all add: sleeper_ok_def finished_def)
  then show ?thesis using assms by (simp add: main_result_def Let_def sleepers_put)
qed

lemma sleepers_return:
  assumes "sleepers_ok now s"
  shows "sleepers_ok now (return_halt r s)"
proof -
  have "sleepers_ok now (task_put 0 ((main_task (sch s))\<lparr>tk_state := TASK_DONE, tk_result := r\<rparr>) s')" if "sleepers_ok now s'" for s' :: "('a, 'b) sys"
    using that by (rule sleepers_put) (simp add: sleeper_ended finished_def)
  then show ?thesis
    using assms by (simp add: return_halt_def Let_def sleepers_main_result sleepers_finish)
qed

text \<open>The trampoline without its clock.\<close>

lemma sleepers_put_same:
  assumes "sleepers_ok now s" and "sched_lookup i s = Some t" and "sleeping t' \<longrightarrow> sleeping t" and "wake_at t' = wake_at t" and
    "finished t \<longrightarrow> finished t'"
  shows "sleepers_ok now (task_put i t' s)"
  using assms(1) sleeper_same [OF sleepers_lookup [OF assms(1,2)] assms(3-5)] by (rule sleepers_put)

lemma sleepers_apply_join: "sleepers_ok now s \<Longrightarrow> sleepers_ok now (task_apply_join_result i s)"
proof -
  assume s: "sleepers_ok now s"
  show ?thesis
  proof (cases "\<exists>t. sched_lookup i s = Some t \<and> join_target t \<noteq> 0")
    case False
    then show ?thesis using s by (auto simp: task_apply_join_result_def split: option.splits)
  next
    case True
    then obtain t where t: "sched_lookup i s = Some t" "join_target t \<noteq> 0" by blast
    define s1 where "s1 = task_put i (t\<lparr>join_target := 0\<rparr>) s"
    have s1: "sleepers_ok now s1" unfolding s1_def by (rule sleepers_put_same [OF s t(1)]) (simp_all add: finished_def)
    have "sleepers_ok now (task_put j (jt\<lparr>err_unobserved := False\<rparr>) s1)" if "sched_lookup j s1 = Some jt" for j jt
      by (rule sleepers_put_same [OF s1 that]) (simp_all add: finished_def)
    then show ?thesis using t s1
      by (simp add: task_apply_join_result_def Let_def flip: s1_def split: option.splits)
  qed
qed

lemma sleepers_apply_recv: "sleepers_ok now s \<Longrightarrow> sleepers_ok now (task_apply_recv_result i s)"
proof -
  assume s: "sleepers_ok now s"
  have "sleepers_ok now (task_put i (t\<lparr>recv_blocked := False\<rparr>) s) \<and>
      sleepers_ok now (task_put i (snd (mbox_pop (t\<lparr>recv_blocked := False\<rparr>))) s)" if "sched_lookup i s = Some t" for t
  proof -
    have "sleeper_ok now (t\<lparr>recv_blocked := False\<rparr>)" using sleepers_lookup [OF s that] by (simp add: sleeper_ok_def finished_def)
    then show ?thesis using s mbox_pop_sleeper by (blast intro: sleepers_put)
  qed
  then show ?thesis using s by (auto simp: task_apply_recv_result_def Let_def split_beta split: option.splits)
qed

lemma sleepers_resume:
  assumes "sleepers_ok now s"
  shows "sleepers_ok now (sched_resume i s)"
proof (cases "\<exists>t. sched_lookup i s = Some t \<and> \<not> finished t")
  case False
  then show ?thesis using assms by (auto simp: sched_resume_def split: option.splits)
next
  case True
  then obtain t where t: "sched_lookup i s = Some t" "\<not> finished t" by blast
  define s1 where "s1 = sched_upd (\<lambda>c. c\<lparr>s_current := i,
                       s_trace := if task_trace_on s then s_trace c @ [(s_now c, i, pop_cause c)] else s_trace c\<rparr>) s"
  have s1: "sleepers_ok now s1" unfolding s1_def using assms by (rule sleepers_upd) simp_all
  have t1: "sched_lookup i s1 = Some t" using t by (cases "i = 0") (simp_all add: s1_def sched_lookup_def sched_upd_def)
  have "sleepers_ok now (task_restore_slice i t s1)"
    using sleepers_put_same [OF s1 t1] t(2) by (simp add: task_restore_slice_def finished_def)
  moreover have "sleepers_ok now (task_start i t s1)"
    using sleepers_put_same [OF s1 t1] s1 by (simp add: task_start_def finished_def split: task_fn.splits)
  ultimately show ?thesis
    using t by (simp add: sched_resume_def Let_def sleepers_apply_join sleepers_apply_recv flip: s1_def)
qed

lemma sleepers_idle:
  assumes "sleepers_ok now s"
  shows "sleepers_ok now (sched_idle s)"
proof -
  let ?m = "(main_task (sch s))\<lparr>join_target := 0, recv_blocked := False, sleeping := False\<rparr>"
  have "sleepers_ok now (sched_upd (sched_ready_push 0 SCAUSE_DEADLOCK) (task_put 0 ?m s'))" if "sleepers_ok now s'" for s' :: "('a, 'b) sys"
    using that by (intro sleepers_push sleepers_put) (simp_all add: sleeper_ok_def)
  then show ?thesis using assms by (simp add: sched_idle_def Let_def sleepers_main_result)
qed

subsection \<open>The earliest wake time\<close>

lemma earliest_spec:
  assumes "\<And>w. asleep s w \<Longrightarrow> dbl_nonneg (wake_time s w)"
  shows "case fold (earlier s) ws None of
      None \<Rightarrow> \<forall>w\<in>set ws. \<not> asleep s w
    | Some b \<Rightarrow> dbl_nonneg b \<and> (\<exists>w\<in>set ws. asleep s w \<and> wake_time s w = b) \<and>
        (\<forall>w\<in>set ws. asleep s w \<longrightarrow> fp_le b (wake_time s w))"
proof (induction ws rule: rev_induct)
  case (snoc w ws)
  have last: "fold (earlier s) (ws @ [w]) None = earlier s w (fold (earlier s) ws None)" by simp
  show ?case
  proof (cases "fold (earlier s) ws None")
    case None
    have "earlier s w None = (if asleep s w then Some (wake_time s w) else None)" by (simp add: earlier_def)
    then show ?thesis using snoc.IH assms [of w] unfolding last None by (auto simp: nonneg_le)
  next
    case (Some b)
    have lt: "fp_le b' c" if "fp_lt b' b" "fp_le b c" for b' c using that by (simp add: fp_lt_def fp_le_def)
    have "earlier s w (Some b) = (if asleep s w \<and> fp_lt (wake_time s w) b then Some (wake_time s w) else Some b)"
      by (simp add: earlier_def)
    then show ?thesis using snoc.IH assms [of w] lt unfolding last Some by (auto simp: nonneg_le nonneg_lt)
  qed
qed simp

lemma all_asleep: "asleep s w \<Longrightarrow> w \<in> set (0 # slot_ids)"
  using tmap_range [of s w] by (fastforce simp: asleep_tmap slot_ids_range)

lemma asleep_sleeper:
  assumes "sleepers_ok now s" and "asleep s w"
  shows "dbl_nonneg (wake_time s w) \<and> fp_le now (wake_time s w)"
proof -
  obtain t where t: "sched_lookup w s = Some t" "tk_state t = TASK_SUSPENDED" "sleeping t"
    using assms(2) by (auto simp: asleep_def split: option.splits)
  then show ?thesis using sleepers_lookup [OF assms(1) t(1)] by (simp add: sleeper_ok_def finished_def wake_time_def)
qed

lemma earliest_wake_spec:
  assumes s: "sleepers_ok now s"
  shows "case earliest_wake s of
      None \<Rightarrow> \<forall>w. \<not> asleep s w
    | Some b \<Rightarrow> dbl_nonneg b \<and> fp_le now b \<and> (\<exists>w. asleep s w \<and> wake_time s w = b) \<and>
        (\<forall>w. asleep s w \<longrightarrow> fp_le b (wake_time s w))"
proof -
  note e = earliest_spec [of s "0 # slot_ids", OF conjunct1 [OF asleep_sleeper [OF s]], folded earliest_wake_def]
  show ?thesis
  proof (cases "earliest_wake s")
    case None
    then show ?thesis using e all_asleep [of s] by (simp del: set_simps) blast
  next
    case (Some b)
    then have "dbl_nonneg b" "\<exists>w. asleep s w \<and> wake_time s w = b" "\<And>w. asleep s w \<Longrightarrow> fp_le b (wake_time s w)"
      using e all_asleep [of s] by (simp_all del: set_simps) blast+
    then show ?thesis using Some asleep_sleeper [OF s] by auto
  qed
qed

text \<open>Outside a slice an unfinished sleeper is suspended, so the clock may advance to the earliest wake time.\<close>

lemma sleepers_advance:
  assumes inv: "inv_at s None" and s: "sleepers_ok now s" and e: "earliest_wake s = Some b"
  shows "sleepers_ok b (sched_upd (\<lambda>c. c\<lparr>s_now := b\<rparr>) s)" and "fp_le now b" and "dbl_nonneg b"
proof -
  note sp = earliest_wake_spec [OF s, unfolded e, simplified]
  show "fp_le now b" "dbl_nonneg b" using sp by simp_all
  have look: "sched_lookup i (sched_upd (\<lambda>c. c\<lparr>s_now := b\<rparr>) s) = sched_lookup i s" for i
    by (cases "i = 0") (simp_all add: sched_upd_def sched_lookup_def)
  have "sleeper_ok b t" if t: "sched_lookup i s = Some t" for i t
  proof -
    have t': "tmap s i = Some t" using t by (simp add: tmap_def)
    have "tk_state t = TASK_SUSPENDED" if "sleeping t" "\<not> finished t"
      using that inv_task(3) [OF inv t'] by (cases "tk_state t") (auto simp: node_ok_def unblocked_def finished_def)
    then have "asleep s i" if "sleeping t" "\<not> finished t" using that t by (simp add: asleep_def)
    moreover have "wake_time s i = wake_at t" using t by (simp add: wake_time_def)
    ultimately show ?thesis using sp sleepers_lookup [OF s t] by (auto simp: sleeper_ok_def)
  qed
  then show "sleepers_ok b (sched_upd (\<lambda>c. c\<lparr>s_now := b\<rparr>) s)"
    using s by (simp add: sleepers_ok_def look) (simp add: sched_upd_def)
qed

lemma sleepers_wake: "sleepers_ok now s \<Longrightarrow> sleepers_ok now (wake w s)"
  by (auto simp: wake_def sleeper_ok_def intro!: sleepers_push sleepers_task_upd)

lemma sleepers_wake_loop: "sleepers_ok now s \<Longrightarrow> sleepers_ok now (wake_loop n s)"
  by (induction n arbitrary: s) (simp_all add: sleepers_wake split: option.splits)

lemma sleepers_wake_sleepers:
  assumes inv: "inv_at s None" and s: "sleepers_ok now s" and now: "dbl_nonneg now"
  defines "s2 \<equiv> snd (sched_wake_sleepers s)"
  shows "sleepers_ok (s_now (sch s2)) s2 \<and> fp_le now (s_now (sch s2)) \<and> dbl_nonneg (s_now (sch s2))"
proof (cases "earliest_wake s")
  case None
  then have "s2 = s" by (simp add: s2_def sched_wake_sleepers_def)
  moreover have "s_now (sch s) = now" using s by (simp add: sleepers_ok_def)
  ultimately show ?thesis using s now by (simp add: nonneg_le)
next
  case (Some b)
  define s1 where "s1 = sched_upd (\<lambda>c. c\<lparr>s_now := b\<rparr>) s"
  note a = sleepers_advance [OF inv s Some]
  have "s2 = wake_loop HANDLE_TABLE_SIZE (if due s1 0 then wake 0 s1 else s1)"
    using Some by (simp add: s2_def sched_wake_sleepers_def Let_def flip: s1_def)
  then have "sleepers_ok b s2" using a(1) by (simp add: sleepers_wake_loop sleepers_wake flip: s1_def)
  moreover from this have "s_now (sch s2) = b" by (simp add: sleepers_ok_def)
  ultimately show ?thesis using a(2,3) by simp
qed

text \<open>A step of the system moves the clock forwards only.\<close>

lemma sleepers_step:
  assumes inv: "sched_inv s" and legal: "legal_move m s" and s: "sleepers_ok now s" and now: "dbl_nonneg now"
  defines "s2 \<equiv> sys_step m s"
  shows "sleepers_ok (s_now (sch s2)) s2 \<and> fp_le now (s_now (sch s2)) \<and> dbl_nonneg (s_now (sch s2))"
proof -
  have same: ?thesis if "sleepers_ok now s2"
  proof -
    have "s_now (sch s2) = now" using that by (simp add: sleepers_ok_def)
    then show ?thesis using that now by (simp add: nonneg_le)
  qed
  show ?thesis
  proof (cases "phase s")
    case PH_Done
    then show ?thesis using same s by (simp add: s2_def sys_step_def)
  next
    case PH_Pick
    have inv': "inv_at s None" using inv PH_Pick by (simp add: sched_inv_def)
    then have ok: "ready_ok (sch s)" by (simp add: inv_at_def sys_wf_def)
    show ?thesis
    proof (cases "ready_list (sch s) = []")
      case True
      note w = sleepers_wake_sleepers [OF inv' s now]
      have "s2 = (if fst (sched_wake_sleepers s) then snd (sched_wake_sleepers s) else sched_idle (snd (sched_wake_sleepers s)))"
        using pop_empty [OF True] PH_Pick by (simp add: s2_def sys_step_def trampoline_round_def split_beta)
      moreover have "sleepers_ok now (sched_idle (snd (sched_wake_sleepers s)))" if "\<not> fst (sched_wake_sleepers s)"
        using that s by (auto simp: sched_wake_sleepers_def Let_def sleepers_idle split: option.splits)
      ultimately show ?thesis using w same by (auto split: if_splits)
    next
      case False
      note p = pop_list [OF ok False]
      have "sleepers_ok now (s\<lparr>sch := snd (sched_ready_pop (sch s))\<rparr>)"
        using sleepers_upd [OF s, of "\<lambda>_. snd (sched_ready_pop (sch s))"] p by (simp add: ring_frame_def sched_upd_def)
      then have "sleepers_ok now (sched_resume i (s\<lparr>sch := snd (sched_ready_pop (sch s))\<rparr>))" for i by (rule sleepers_resume)
      moreover have "0 \<le> fst (sched_ready_pop (sch s))"
      proof -
        let ?i = "fst (ready_list (sch s) ! next_pick (sch s))"
        have "?i \<in> set (qids s)" using p by (simp add: qids_def)
        then show ?thesis using core_range [of "tmap s" "qids s" None] inv' p by (auto simp: inv_at_def)
      qed
      ultimately show ?thesis
        using PH_Pick by (intro same) (simp add: s2_def sys_step_def trampoline_round_def split_beta Let_def)
    qed
  next
    case PH_Task
    show ?thesis
    proof (rule same, cases m)
      case (M_Call x a)
      then show "sleepers_ok now s2"
        using s legal sleepers_call [OF inv PH_Task s now] PH_Task by (simp add: s2_def sys_step_def legal_move_def)
    qed (use s PH_Task sleepers_return [OF s] in \<open>simp_all add: s2_def sys_step_def\<close>)
  qed
qed

end
