(* ===== verification/Eigs_Sched_Live.thy ===== *)
theory Eigs_Sched_Live
  imports Eigs_Sched_Clock
begin

text \<open>
  Progress: when nothing is queued the clock advances and wakes exactly the tasks that
  are due, and without a seed every queued task gets its turn.
\<close>

lemma ne_empty: "x \<in> A \<Longrightarrow> A \<noteq> {}"
  by blast

subsection \<open>Waking the due sleepers\<close>

lemma wake_view:
  assumes inv: "inv_at s None" and w: "asleep s w"
  shows "due (wake w s) v \<longleftrightarrow> v \<noteq> w \<and> due s v" and "qids (wake w s) = qids s @ [w]"
proof -
  obtain t where t: "tmap s w = Some t" "tk_state t = TASK_SUSPENDED" "sleeping t" using w by (auto simp: asleep_tmap)
  let ?t = "t\<lparr>sleeping := False\<rparr>"
  have wf: "sys_wf s" using inv by (simp add: inv_at_def)
  have "mbox_ok ?t" using inv_task(2) [OF inv t(1)] by (simp add: mbox_ok_def mbox_read_def)
  then have wf1: "sys_wf (task_put w ?t s)" using wf_put [OF wf t(1), of ?t] by simp
  note v1 = put_view [OF wf t(1), of ?t]
  have ni: "w \<notin> set (qids s)" using inv_task(3) [OF inv t(1)] t by (simp add: node_ok_def can_run_def blocked_def)
  have "length (qids (task_put w ?t s)) < HANDLE_TABLE_SIZE"
    using core_room [of "tmap s" "qids s" None w] inv t(1) ni v1(2) by (simp add: inv_at_def)
  note p = push_view [OF wf1 this, of w SCAUSE_SLEEP_WAKE]
  have wk: "wake w s = sched_upd (sched_ready_push w SCAUSE_SLEEP_WAKE) (task_put w ?t s)"
    using inv_task(1) [OF inv t(1)] t(1) by (simp add: wake_def upd_put task_ref_def) (simp add: tmap_def)
  show "qids (wake w s) = qids s @ [w]" using p(2) v1(2) by (simp add: wk)
  have m: "tmap (wake w s) = (tmap s)(w \<mapsto> ?t)" using p(1) v1(1) by (simp add: wk)
  have "s_now (sch (wake w s)) = s_now (sch s)" using same_control_trans [OF v1(3) p(4)] by (simp add: wk same_control_def)
  moreover have "sched_lookup v (wake w s) = (if v = w then Some ?t else sched_lookup v s)"
    using fun_cong [OF m, of v] by (simp add: tmap_def)
  ultimately show "due (wake w s) v \<longleftrightarrow> v \<noteq> w \<and> due s v"
    by (simp add: due_def asleep_def wake_time_def)
qed

lemma older_some: "fold (older s) ws (Some b) \<noteq> None"
  by (induction ws arbitrary: b) (auto simp: older_def)

lemma fold_older_none: "fold (older s) ws None = None \<longleftrightarrow> (\<forall>w\<in>set ws. \<not> due s w)"
proof (induction ws)
  case (Cons w ws)
  have "older s w None = (if due s w then Some w else None)" by (simp add: older_def)
  then show ?case using Cons older_some [of s ws w] by simp
qed simp

lemma fold_older_in: "fold (older s) ws b = Some w \<Longrightarrow> b = Some w \<or> w \<in> set ws \<and> due s w"
proof (induction ws arbitrary: b)
  case (Cons x ws)
  from Cons.IH [of "older s x b"] Cons.prems show ?case by (auto simp: older_def split: if_splits)
qed simp

lemma next_due_none: "next_due s = None \<longleftrightarrow> (\<forall>w\<in>set slot_ids. \<not> due s w)"
  by (simp add: next_due_def fold_older_none)

definition due_slots :: "('v, 'f) sys \<Rightarrow> int set" where
  "due_slots s = {w \<in> set slot_ids. due s w}"

text \<open>The loop ends before its fuel does, with every due sleeper of the table queued.\<close>

lemma wake_loop_done:
  assumes "inv_at s None" and "card (due_slots s) \<le> n"
  shows "next_due (wake_loop n s) = None \<and> set (qids (wake_loop n s)) = set (qids s) \<union> due_slots s"
  using assms
proof (induction n arbitrary: s)
  case 0
  have "finite (due_slots s)" by (simp add: due_slots_def)
  then have "due_slots s = {}" using 0 by simp
  then show ?case using next_due_none [of s] by (auto simp: due_slots_def)
next
  case (Suc n)
  show ?case
  proof (cases "next_due s")
    case None
    then show ?thesis using next_due_none [of s] by (auto simp: due_slots_def)
  next
    case (Some w)
    then have w: "asleep s w" "w \<in> due_slots s"
      using next_due_asleep [OF Some] fold_older_in [of s slot_ids None w] Some by (simp_all add: next_due_def due_slots_def)
    note v = wake_view [OF Suc.prems(1) w(1)]
    have "due_slots (wake w s) = due_slots s - {w}" using v(1) by (auto simp: due_slots_def)
    moreover have "finite (due_slots s)" by (simp add: due_slots_def)
    ultimately have "card (due_slots (wake w s)) \<le> n" "due_slots s = insert w (due_slots (wake w s))"
      using w(2) Suc.prems(2) by auto
    then show ?thesis using Suc.IH [OF wake_inv(1) [OF Suc.prems(1) w(1)]] v(2) Some by auto
  qed
qed

text \<open>
  A round with an empty queue: the clock moves to the earliest wake time, and the tasks
  that are due then, and no others, are queued.
\<close>

lemma wake_round:
  assumes inv: "inv_at s None" and s: "sleepers_ok now s" and q: "qids s = []" and e: "earliest_wake s = Some b"
  defines "s2 \<equiv> snd (sched_wake_sleepers s)"
  shows "fst (sched_wake_sleepers s)" and "s_now (sch s2) = b" and
    "set (qids s2) = {w. asleep s w \<and> fp_le (wake_time s w) b}" and "set (qids s2) \<noteq> {}"
proof -
  define s1 where "s1 = sched_upd (\<lambda>c. c\<lparr>s_now := b\<rparr>) s"
  let ?s1' = "if due s1 0 then wake 0 s1 else s1"
  have r: "sched_wake_sleepers s = (True, wake_loop HANDLE_TABLE_SIZE ?s1')"
    using e by (simp add: sched_wake_sleepers_def Let_def flip: s1_def)
  then show "fst (sched_wake_sleepers s)" by simp
  have inv1: "inv_at s1 None" using upd_fields_inv(3) [of "\<lambda>_. b" s None] inv by (simp add: s1_def)
  have look: "sched_lookup w s1 = sched_lookup w s" for w by (cases "w = 0") (simp_all add: s1_def sched_upd_def sched_lookup_def)
  have due1: "due s1 w \<longleftrightarrow> asleep s w \<and> fp_le (wake_time s w) b" for w
    by (simp add: due_def asleep_def wake_time_def look) (simp add: s1_def sched_upd_def)
  have q1: "qids s1 = []" using q by (simp add: s1_def sched_upd_def qids_def)
  have a0: "asleep s1 0" if "due s1 0" using that by (simp add: due_def)
  have inv1': "inv_at ?s1' None" using inv1 wake_inv(1) [OF inv1 a0] by simp
  have q1': "set (qids ?s1') = {w. w = 0 \<and> due s1 w}" using q1 wake_view(2) [OF inv1 a0] by auto
  have d1': "due_slots ?s1' = {w. w \<noteq> 0 \<and> due s1 w}"
  proof -
    have "due ?s1' w \<longleftrightarrow> due s1 w" if "w \<noteq> 0" for w using wake_view(1) [OF inv1 a0, of w] that by simp
    moreover have "w \<in> set slot_ids" if "due s1 w" "w \<noteq> 0" for w using that all_asleep [of s1 w] by (simp add: due_def)
    moreover have "0 \<notin> set slot_ids" by (simp add: slot_ids_range)
    ultimately have "w \<in> set slot_ids \<and> due ?s1' w \<longleftrightarrow> w \<noteq> 0 \<and> due s1 w" for w
      by (cases "w = 0") (simp_all del: if_split, blast)
    then show ?thesis unfolding due_slots_def by (rule Collect_cong)
  qed
  have "card (due_slots ?s1') \<le> card (set slot_ids)" unfolding due_slots_def by (rule card_mono) auto
  also have "\<dots> \<le> HANDLE_TABLE_SIZE"
    using card_length [of slot_ids] by (simp add: slot_ids_def)
  finally have "set (qids s2) = set (qids ?s1') \<union> due_slots ?s1'"
    using wake_loop_done [OF inv1', of HANDLE_TABLE_SIZE] r by (simp add: s2_def)
  then have "set (qids s2) = {w. due s1 w}" using q1' d1' by auto
  then show set: "set (qids s2) = {w. asleep s w \<and> fp_le (wake_time s w) b}" using due1 by simp
  have "same_control ?s1' s2" using wake_loop_inv [OF inv1', of HANDLE_TABLE_SIZE] r by (simp add: s2_def)
  moreover have "same_control s1 ?s1'" using wake_inv(2) [OF inv1 a0] by simp
  ultimately have "s_now (sch s2) = s_now (sch s1)" by (simp add: same_control_def)
  then show "s_now (sch s2) = b" by (simp add: s1_def sched_upd_def)
  obtain w where "asleep s w" "wake_time s w = b" "dbl_nonneg b"
    using earliest_wake_spec [OF s] e by auto
  then have "w \<in> set (qids s2)" by (simp add: set nonneg_le)
  then show "set (qids s2) \<noteq> {}" by (rule ne_empty)
qed

subsection \<open>First in, first out\<close>

text \<open>
  What any operation but a pop does to the queue: it drops the entries of \<open>D\<close> and adds
  others at the end.
\<close>

definition fifo :: "int set \<Rightarrow> ('v, 'f) sys \<Rightarrow> ('v, 'f) sys \<Rightarrow> bool" where
  "fifo D s s' \<longleftrightarrow>
     (ready_ok (sch s) \<longrightarrow>
      ready_ok (sch s') \<and> seeded (sch s') = seeded (sch s) \<and>
      (\<exists>ext. qids s' = filter (\<lambda>j. j \<notin> D) (qids s) @ ext))"

lemma fifo_refl [simp]: "fifo D s s" if "D = {}"
  using that by (simp add: fifo_def)

lemma fifo_trans:
  assumes "fifo {} a b" and "fifo D b c"
  shows "fifo D a c"
  unfolding fifo_def
proof
  assume ok: "ready_ok (sch a)"
  obtain e1 where b: "ready_ok (sch b)" "seeded (sch b) = seeded (sch a)" "qids b = qids a @ e1"
    using assms(1) ok by (auto simp: fifo_def)
  obtain e2 where "ready_ok (sch c)" "seeded (sch c) = seeded (sch b)" "qids c = filter (\<lambda>j. j \<notin> D) (qids b) @ e2"
    using assms(2) b(1) by (auto simp: fifo_def)
  then show "ready_ok (sch c) \<and> seeded (sch c) = seeded (sch a) \<and> (\<exists>ext. qids c = filter (\<lambda>j. j \<notin> D) (qids a) @ ext)"
    using b by auto
qed

lemma fifo_trans2:
  assumes "fifo D a b" and "fifo {} b c"
  shows "fifo D a c"
  using assms unfolding fifo_def by fastforce

text \<open>A change that leaves the ring alone.\<close>

definition same_ring :: "('v, 'f) sched \<Rightarrow> ('v, 'f) sched \<Rightarrow> bool" where
  "same_ring c c' \<longleftrightarrow>
     ready c' = ready c \<and> ready_cause c' = ready_cause c \<and> rhead c' = rhead c \<and> rcount c' = rcount c \<and> seeded c' = seeded c"

lemma fifo_ring:
  assumes "same_ring (sch s) (sch s')"
  shows "fifo {} s s'"
proof -
  have "ready_at (sch s') = ready_at (sch s)"
    using assms by (simp add: fun_eq_iff ready_at_def rslot_def same_ring_def)
  then have "qids s' = qids s" using assms by (simp add: qids_def ready_list_def same_ring_def)
  then show ?thesis using assms by (simp add: fifo_def ready_ok_def same_ring_def)
qed

lemma same_ring_put [simp]: "same_ring (sch s) (sch (task_put i t s))"
  by (simp add: task_put_def same_ring_def)

lemma fifo_put: "fifo D s s' \<Longrightarrow> fifo D s (task_put i t s')"
  by (erule fifo_trans2) (rule fifo_ring, simp)

lemma fifo_same: "fifo D s s1 \<Longrightarrow> same_ring (sch s1) (sch s2) \<Longrightarrow> fifo D s s2"
  by (erule fifo_trans2) (rule fifo_ring)

lemma same_ring_refl [simp]: "same_ring c c"
  by (simp add: same_ring_def)

lemma fifo_push: "fifo D s s' \<Longrightarrow> fifo D s (sched_upd (sched_ready_push i cause) s')"
proof (erule fifo_trans2)
  show "fifo {} s' (sched_upd (sched_ready_push i cause) s')"
    unfolding fifo_def
  proof
    assume ok: "ready_ok (sch s')"
    let ?c = "sched_ready_push i cause (sch s')"
    show "ready_ok (sch (sched_upd (sched_ready_push i cause) s')) \<and>
        seeded (sch (sched_upd (sched_ready_push i cause) s')) = seeded (sch s') \<and>
        (\<exists>ext. qids (sched_upd (sched_ready_push i cause) s') = filter (\<lambda>j. j \<notin> {}) (qids s') @ ext)"
    proof (cases "length (ready_list (sch s')) < HANDLE_TABLE_SIZE")
      case True
      then show ?thesis using push_list [OF ok True, of i cause] push_frame [of "sch s'" i cause]
        by (simp add: sched_upd_def qids_def ring_frame_def)
    next
      case False
      then have "?c = sch s'" by (simp add: sched_ready_push_def ready_list_def)
      then show ?thesis using ok by (simp add: sched_upd_def qids_def)
    qed
  qed
qed

lemma fifo_release: "fifo D s s' \<Longrightarrow> fifo D s (release_joiners i cause s')"
proof -
  have "fifo D s (fold (\<lambda>w s. if joins i s w then sched_upd (sched_ready_push (task_ref w s) cause) s else s) ws s')"
    if "fifo D s s'" for ws and s s' :: "('a, 'b) sys"
    using that by (induction ws arbitrary: s') (simp_all add: fifo_push)
  then show "fifo D s s' \<Longrightarrow> fifo D s (release_joiners i cause s')"
    by (simp add: release_joiners_def Let_def fifo_push)
qed

lemma fifo_upd: "fifo D s s' \<Longrightarrow> same_ring (sch s') (f (sch s')) \<Longrightarrow> fifo D s (sched_upd f s')"
  by (erule fifo_same) (simp add: sched_upd_def)

lemma fifo_reap: "fifo D s s' \<Longrightarrow> fifo D s (task_reap i g s')"
  by (erule fifo_same) (simp add: task_reap_def)

lemma fifo_task_upd: "fifo D s s' \<Longrightarrow> fifo D s (task_upd i f s')"
  by (simp add: task_upd_def fifo_put split: option.splits)

lemma fifo_remove: "fifo {i} s (sched_upd (sched_ready_remove i) s)"
  using remove_list [of "sch s" i]
  by (auto simp: fifo_def sched_upd_def qids_def filter_map comp_def ring_frame_def)

lemmas fifo_intros = fifo_reap fifo_release fifo_push fifo_put fifo_task_upd fifo_upd

lemma fifo_error: "fifo D s s' \<Longrightarrow> fifo D s (rt_error k s')"
  by (erule fifo_same) (simp add: rt_error_def)

lemma fifo_fields:
  assumes "fifo D s s'"
  shows "fifo D s (s'\<lparr>vm_stack := a\<rparr>)" "fifo D s (s'\<lparr>vm_frames := fs\<rparr>)" "fifo D s (s'\<lparr>vm_line := n\<rparr>)"
    "fifo D s (s'\<lparr>g_has_error := b\<rparr>)" "fifo D s (s'\<lparr>g_error := e\<rparr>)" "fifo D s (s'\<lparr>g_try_depth := n\<rparr>)"
    "fifo D s (s'\<lparr>suspend_request := b\<rparr>)" "fifo D s (s'\<lparr>in_tramp := b\<rparr>)" "fifo D s (s'\<lparr>phase := p\<rparr>)"
    "fifo D s (s'\<lparr>htab := h\<rparr>)"
  by (rule fifo_same [OF assms]; simp)+

lemma fifo_deliver: "fifo {} s (snd (task_deliver i m s))"
  by (auto simp: task_deliver_def Let_def same_ring_def split: option.splits intro!: fifo_intros)

lemma fifo_mbox_pop: "fifo {} s (snd (task_mbox_pop s))"
  by (auto simp: task_mbox_pop_def split: option.splits prod.splits intro!: fifo_intros)

lemma fifo_kill: "fifo {} s (snd (task_do_kill i s)) \<or> fifo {i} s (snd (task_do_kill i s))"
  by (auto simp: task_do_kill_def Let_def same_ring_def split: option.splits
      intro!: disjI2 [of _ "fifo {i} s s'" for s'] fifo_intros fifo_fields fifo_remove)

lemma fifo_detach: "fifo {} s (snd (task_do_detach i s))"
  by (auto simp: task_do_detach_def same_ring_def split: option.splits intro!: fifo_intros)

lemma fifo_ensure: "(\<not> has_sched s \<Longrightarrow> sch s = sched_new) \<Longrightarrow> fifo {} s (sched_ensure s)"
  by (rule fifo_ring) (simp add: sched_ensure_def)

lemma fifo_spawn:
  assumes "\<not> has_sched s \<Longrightarrow> sch s = sched_new"
  shows "fifo {} s (snd (builtin_task_spawn fn as s))"
proof -
  have "fifo {} s (sched_ensure (task_upd i f (s\<lparr>htab := h\<rparr>)))" for i f h
    using assms by (intro fifo_ring)
      (auto simp: sched_ensure_def task_upd_def task_put_def same_ring_def split: option.splits)
  then have "fifo {} s (task_sched_on_spawn i (task_upd i f (s\<lparr>htab := h\<rparr>)))" for i f h
    by (auto simp: task_sched_on_spawn_def Let_def same_ring_def intro!: fifo_intros)
  then show ?thesis
    by (auto simp: builtin_task_spawn_def fifo_error split: option.splits prod.splits)
qed

text \<open>The entries a call may drop from the queue: those of the task it kills.\<close>

definition kills :: "('v, 'f) move \<Rightarrow> int set" where
  "kills m = (case m of M_Call x a \<Rightarrow> (case a of A_Kill i \<Rightarrow> {i} | _ \<Rightarrow> {}) | _ \<Rightarrow> {})"

definition reseeds :: "('v, 'f) move \<Rightarrow> bool" where
  "reseeds m \<longleftrightarrow> (\<exists>x seed. m = M_Call x (A_Seed seed))"

lemma fifo_act:
  assumes new: "\<not> has_sched s \<Longrightarrow> sch s = sched_new" and ns: "\<not> reseeds (M_Call x a :: ('v, 'f) move)"
  shows "\<exists>D \<subseteq> kills (M_Call x a :: ('v, 'f) move). fifo D s (snd (builtin_act x a (s :: ('v, 'f) sys)))"
proof -
  have quiet: "fifo {} s (snd (builtin_act x a s))" if "\<And>i. a \<noteq> A_Kill i"
  proof (cases a)
    case (A_Spawn fn as)
    then show ?thesis using fifo_spawn [OF new] by (simp add: builtin_act_def)
  next
    case (A_Join arg)
    have "fifo {} s (snd (join_finished i t s))" for i t
      by (simp add: join_finished_def fifo_fields fifo_put)
    moreover have "fifo {} s (task_request_join i s)" for i
      by (simp add: task_request_join_def fifo_fields fifo_task_upd)
    moreover have "fifo {} s (rt_error k s)" for k by (simp add: fifo_error)
    ultimately show ?thesis
      using A_Join by (simp add: builtin_act_def builtin_task_join_def split: option.split)
  next
    case (A_Send i m)
    then show ?thesis using fifo_deliver [of s] by (simp add: builtin_act_def builtin_task_send_def split_beta)
  next
    case A_Recv
    then show ?thesis using fifo_mbox_pop [of s]
      by (simp add: builtin_act_def builtin_task_recv_def task_request_recv_def fifo_error fifo_fields fifo_task_upd)
  next
    case A_Try_Recv
    then show ?thesis using fifo_mbox_pop [of s] by (simp add: builtin_act_def builtin_task_try_recv_def)
  next
    case (A_Sleep arg)
    then show ?thesis
      by (simp add: builtin_act_def builtin_task_sleep_def task_request_sleep_def fifo_error fifo_fields fifo_task_upd split: option.split)
  next
    case (A_Detach arg)
    then show ?thesis using fifo_detach [of s]
      by (simp add: builtin_act_def builtin_task_detach_def split_beta fifo_error split: option.splits)
  next
    case A_Yield
    then show ?thesis
      by (auto simp: builtin_act_def builtin_task_yield_def task_request_yield_def intro!: fifo_fields fifo_error)
  qed (use that ns in \<open>auto simp: builtin_act_def reseeds_def\<close>)
  show ?thesis
  proof (cases "\<exists>i. a = A_Kill i")
    case True
    then obtain i where a: "a = A_Kill i" by blast
    have k: "kills (M_Call x a :: ('v, 'f) move) = {i}" by (simp add: kills_def a)
    have "snd (builtin_act x a s) = (if has_sched s then snd (task_do_kill i s) else s)"
      by (simp add: a builtin_act_def builtin_task_kill_def split_beta)
    then have "fifo {} s (snd (builtin_act x a s)) \<or> fifo {i} s (snd (builtin_act x a s))"
      using fifo_kill [of s i] by simp
    then show ?thesis
      unfolding k by (elim disjE) (rule exI [of _ "{}"], simp, rule exI [of _ "{i}"], simp)
  next
    case False
    then show ?thesis using quiet by (intro exI [of _ "{}"]) simp
  qed
qed

lemma fifo_requeue: "fifo D s s' \<Longrightarrow> fifo D s (requeue i s')"
  by (simp add: requeue_def fifo_push split: option.splits)

lemma fifo_save: "fifo D s s' \<Longrightarrow> fifo D s (task_save_slice s')"
  by (auto simp: task_save_slice_def split: option.splits intro!: fifo_fields fifo_put)

lemma fifo_suspend: "fifo D s s' \<Longrightarrow> fifo D s (suspend_halt s')"
  by (auto simp: suspend_halt_def Let_def intro!: fifo_fields fifo_requeue fifo_save)

lemma fifo_finish: "fifo D s s' \<Longrightarrow> fifo D s (sched_finish i r s')"
  by (auto simp: sched_finish_def Let_def same_ring_def split: option.splits intro!: fifo_intros fifo_fields)

lemma fifo_main_result: "fifo D s s' \<Longrightarrow> fifo D s (main_result s')"
  by (auto simp: main_result_def Let_def intro!: fifo_fields fifo_put)

lemma fifo_return: "fifo D s s' \<Longrightarrow> fifo D s (return_halt r s')"
  by (auto simp: return_halt_def Let_def intro!: fifo_main_result fifo_finish fifo_fields fifo_put)

lemma fifo_call:
  assumes "\<not> has_sched s \<Longrightarrow> sch s = sched_new" and "\<not> reseeds (M_Call x a :: ('v, 'f) move)"
  shows "\<exists>D \<subseteq> kills (M_Call x a :: ('v, 'f) move). fifo D s (call_builtin x a (s :: ('v, 'f) sys))"
proof -
  obtain D where D: "D \<subseteq> kills (M_Call x a :: ('v, 'f) move)" "fifo D s (snd (builtin_act x a s))"
    using fifo_act [OF assms] by blast
  then have "fifo D s (call_builtin x a s)"
    by (auto simp: call_builtin_def Let_def split_beta intro!: fifo_fields fifo_suspend fifo_error)
  then show ?thesis using D(1) by blast
qed

lemma fifo_apply_join: "fifo D s s' \<Longrightarrow> fifo D s (task_apply_join_result i s')"
  by (cases "sched_lookup i s'")
    (auto simp: task_apply_join_result_def Let_def split: option.split intro!: fifo_put fifo_fields)

lemma fifo_apply_recv: "fifo D s s' \<Longrightarrow> fifo D s (task_apply_recv_result i s')"
  by (cases "sched_lookup i s'")
    (auto simp: task_apply_recv_result_def Let_def split_beta split: option.split intro!: fifo_put fifo_fields)

lemma fifo_resume:
  assumes "fifo D s s'"
  shows "fifo D s (sched_resume i s')"
proof (cases "\<exists>t. sched_lookup i s' = Some t \<and> \<not> finished t")
  case False
  then show ?thesis using assms by (auto simp: sched_resume_def split: option.splits)
next
  case True
  then obtain t where t: "sched_lookup i s' = Some t" "\<not> finished t" by blast
  define s1 where "s1 = sched_upd (\<lambda>c. c\<lparr>s_current := i,
                       s_trace := if task_trace_on s' then s_trace c @ [(s_now c, i, pop_cause c)] else s_trace c\<rparr>) s'"
  have s1: "fifo D s s1" unfolding s1_def using assms by (rule fifo_upd) (simp add: same_ring_def)
  then have "fifo D s (task_restore_slice i t s1)" "fifo D s (task_start i t s1)"
    by (auto simp: task_restore_slice_def task_start_def split: task_fn.split intro!: fifo_fields fifo_put)
  then show ?thesis
    using t by (simp add: sched_resume_def Let_def fifo_fields fifo_apply_join fifo_apply_recv flip: s1_def)
qed

text \<open>What a resume shows of the task it chose.\<close>

lemma resume_runs:
  assumes t: "sched_lookup i s = Some t" and nf: "\<not> finished t"
  shows "phase (sched_resume i s) = PH_Task \<and> cur (sched_resume i s) = i"
proof -
  have put: "cur (task_put j u s') = cur s'" for j u and s' :: "('a, 'b) sys" by (simp add: task_put_def)
  have "cur (task_apply_join_result j s') = cur s'" for j and s' :: "('a, 'b) sys"
    by (simp add: task_apply_join_result_def Let_def put split: option.split)
  moreover have "cur (task_apply_recv_result j s') = cur s'" for j and s' :: "('a, 'b) sys"
    by (simp add: task_apply_recv_result_def Let_def put split_beta split: option.split)
  moreover have "cur (task_restore_slice j u s') = cur s'" "cur (task_start j u s') = cur s'" for j u and s' :: "('a, 'b) sys"
    by (simp_all add: task_restore_slice_def task_start_def put split: task_fn.split)
  ultimately show ?thesis using t nf by (simp add: sched_resume_def Let_def sched_upd_def)
qed

subsection \<open>Every queued task gets its turn\<close>

fun picks :: "('v, 'f) move list \<Rightarrow> ('v, 'f) sys \<Rightarrow> nat" where
  "picks [] s = 0"
| "picks (m # ms) s = (if phase s = PH_Pick then 1 else 0) + picks ms (sys_step m s)"

lemma filter_pos:
  assumes "k < length q" and "P (q ! k)"
  shows "\<exists>j \<le> k. j < length (filter P q) \<and> filter P q ! j = q ! k"
proof -
  have q: "q = take k q @ q ! k # drop (Suc k) q" using assms(1) by (rule id_take_nth_drop)
  have "filter P q = filter P (take k q) @ q ! k # filter P (drop (Suc k) q)"
    by (subst q) (simp add: assms(2))
  moreover have "length (filter P (take k q)) \<le> k" using length_filter_le [of P "take k q"] assms(1) by simp
  ultimately show ?thesis by (intro exI [of _ "length (filter P (take k q))"]) (simp add: nth_append)
qed

lemma fifo_pos:
  assumes "fifo D s s'" and "ready_ok (sch s)" and "k < length (qids s)" and "qids s ! k \<notin> D"
  shows "seeded (sch s') = seeded (sch s) \<and> (\<exists>j \<le> k. j < length (qids s') \<and> qids s' ! j = qids s ! k)"
proof -
  obtain ext where e: "seeded (sch s') = seeded (sch s)" "qids s' = filter (\<lambda>j. j \<notin> D) (qids s) @ ext"
    using assms(1,2) by (auto simp: fifo_def)
  obtain j where "j \<le> k" "j < length (filter (\<lambda>j. j \<notin> D) (qids s))" "filter (\<lambda>j. j \<notin> D) (qids s) ! j = qids s ! k"
    using filter_pos [OF assms(3), of "\<lambda>j. j \<notin> D"] assms(4) by blast
  then show ?thesis using e by (auto simp: nth_append intro!: exI [of _ j])
qed

lemma slice_pos:
  assumes inv: "sched_inv s" and ph: "phase s = PH_Task" and pos: "k < length (qids s)" "qids s ! k = i" and
    m: "\<not> reseeds m" "i \<notin> kills m"
  shows "seeded (sch (sys_step m s)) = seeded (sch s) \<and>
    (\<exists>j \<le> k. j < length (qids (sys_step m s)) \<and> qids (sys_step m s) ! j = i)"
proof -
  have ok: "ready_ok (sch s)" and new: "\<not> has_sched s \<Longrightarrow> sch s = sched_new"
    using inv ph by (simp_all add: sched_inv_def inv_at_def sys_wf_def)
  have "\<exists>D \<subseteq> kills m. fifo D s (sys_step m s)"
  proof (cases m)
    case (M_Call x a)
    then show ?thesis using fifo_call [OF new, of x a] m ph by (auto simp: sys_step_def)
  next
    case (M_Return r)
    have "fifo {} s (return_halt r s)" by (rule fifo_return) simp
    then show ?thesis using M_Return ph by (auto simp: sys_step_def)
  qed (use ph in \<open>auto simp: sys_step_def intro!: exI [of _ "{}"] fifo_fields\<close>)
  then show ?thesis using fifo_pos [OF _ ok pos(1)] pos(2) m(2) by blast
qed

lemma pick_pos:
  assumes inv: "sched_inv s" and ph: "phase s = PH_Pick" and pos: "k < length (qids s)" "qids s ! k = i" and ns: "\<not> seeded (sch s)"
  shows "if k = 0 then phase (sys_step m s) = PH_Task \<and> cur (sys_step m s) = i
    else \<not> seeded (sch (sys_step m s)) \<and> k - 1 < length (qids (sys_step m s)) \<and> qids (sys_step m s) ! (k - 1) = i"
proof -
  have inv': "inv_at s None" using inv ph by (simp add: sched_inv_def)
  then have ok: "ready_ok (sch s)" and c: "core (tmap s) (qids s) None" by (simp_all add: inv_at_def sys_wf_def)
  have ne: "ready_list (sch s) \<noteq> []" using pos(1) by (auto simp: qids_def)
  define s1 where "s1 = s\<lparr>sch := snd (sched_ready_pop (sch s))\<rparr>"
  note p = pop_list [OF ok ne]
  have n0: "next_pick (sch s) = 0" using ns by (simp add: next_pick_def)
  have q1: "qids s1 = tl (qids s)" "ready_ok (sch s1)" "\<not> seeded (sch s1)"
    using p n0 ns by (simp_all add: s1_def qids_def ring_frame_def drop_Suc map_tl)
  let ?h = "qids s ! 0"
  have hq: "?h \<in> set (qids s)" using pos(1) by (cases "qids s") simp_all
  then obtain t where t: "tmap s ?h = Some t" using c by (auto simp: core_def)
  have nf: "\<not> finished t"
    using inv_task(3) [OF inv' t] hq by (auto simp: node_ok_def can_run_def finished_def)
  have h0: "0 \<le> ?h" using core_range [OF c] hq by auto
  have fst: "fst (sched_ready_pop (sch s)) = ?h" using p n0 ne by (simp add: qids_def)
  have step: "sys_step m s = sched_resume ?h s1"
    using ph fst h0 by (simp add: sys_step_def trampoline_round_def split_beta Let_def s1_def)
  have "tmap s1 = tmap s" using p by (simp add: tmap_def sched_lookup_def fun_eq_iff s1_def ring_frame_def)
  then have look: "sched_lookup ?h s1 = Some t" using t by (simp add: tmap_def fun_eq_iff)
  show ?thesis
  proof (cases k)
    case 0
    then show ?thesis using resume_runs [OF look nf] pos(2) by (simp add: step)
  next
    case (Suc k')
    have k': "k' < length (qids s1)" "qids s1 ! k' = i" using pos Suc q1(1) by (simp_all add: nth_tl)
    have "fifo {} s1 (sched_resume ?h s1)" by (rule fifo_resume) simp
    then obtain ext where "qids (sched_resume ?h s1) = qids s1 @ ext" "\<not> seeded (sch (sched_resume ?h s1))"
      using q1(2,3) by (auto simp: fifo_def)
    then show ?thesis using k' Suc by (simp add: step nth_append)
  qed
qed

lemma turn_comes:
  assumes "sched_inv s" and "legal_run ms s" and "\<not> seeded (sch s)" and "k < length (qids s)" and "qids s ! k = i" and
    "\<forall>m\<in>set ms. \<not> reseeds m \<and> i \<notin> kills m" and "k < picks ms s"
  shows "\<exists>n \<le> length ms. let s1 = sys_run (take n ms) s in phase s1 = PH_Task \<and> cur s1 = i \<or> (\<exists>r. phase s1 = PH_Done r)"
  using assms
proof (induction ms arbitrary: s k)
  case (Cons m ms)
  let ?s = "sys_step m s"
  have inv: "sched_inv ?s" and run: "legal_run ms ?s" using Cons.prems(1,2) by (simp_all add: sys_step_inv)
  have later: ?case if ih: "\<exists>n \<le> length ms. let s1 = sys_run (take n ms) ?s in phase s1 = PH_Task \<and> cur s1 = i \<or> (\<exists>r. phase s1 = PH_Done r)"
  proof -
    obtain n where "n \<le> length ms" "let s1 = sys_run (take n ms) ?s in phase s1 = PH_Task \<and> cur s1 = i \<or> (\<exists>r. phase s1 = PH_Done r)"
      using ih by blast
    then show ?thesis by (intro exI [of _ "Suc n"]) (simp add: sys_run_def)
  qed
  show ?case
  proof (cases "phase s")
    case PH_Done
    then show ?thesis by (intro exI [of _ 0]) (simp add: sys_run_def)
  next
    case PH_Task
    obtain j where j: "\<not> seeded (sch ?s)" "j \<le> k" "j < length (qids ?s)" "qids ?s ! j = i"
      using slice_pos [OF Cons.prems(1) PH_Task Cons.prems(4,5), of m] Cons.prems(3,6) by auto
    have "j < picks ms ?s" using Cons.prems(7) j(2) PH_Task by simp
    then show ?thesis using Cons.IH [OF inv run j(1,3,4)] Cons.prems(6) later by simp
  next
    case PH_Pick
    note p = pick_pos [OF Cons.prems(1) PH_Pick Cons.prems(4,5,3), of m]
    show ?thesis
    proof (cases k)
      case 0
      then show ?thesis using p by (intro exI [of _ 1]) (simp add: sys_run_def)
    next
      case (Suc k')
      then show ?thesis using p Cons.IH [OF inv run, of k'] Cons.prems(6,7) PH_Pick later by simp
    qed
  qed
qed simp

end
