(* ===== verification/Eigs_Sched_Props.thy ===== *)
theory Eigs_Sched_Props
  imports Eigs_Sched_Live
begin

text \<open>
  The properties of every run of the scheduler from its initial state, and two runs that
  break the rules those properties need.
\<close>

subsection \<open>Runs used as witnesses\<close>















subsection \<open>The ready queue\<close>





subsection \<open>Virtual time\<close>



subsection \<open>Every queued task gets its turn\<close>




subsection \<open>Runs that break a rule\<close>






end
