(* ===== verification/Eigs_Hash.thy ===== *)
theory Eigs_Hash
  imports Eigs_Error "HOL-Library.While_Combinator"
begin

text \<open>
  The hash builtins (\<open>src/hash.c\<close>): SHA-256, MD5 and HMAC-SHA256 over byte strings. Both
  hashes keep the same context, a 64-byte buffer that is transformed whenever it fills;
  \<open>hash_update\<close> is the text both \<open>sha256_update\<close> and \<open>md5_update\<close> repeat.
\<close>

subsection \<open>Contexts\<close>

record hash_ctx =
  h_state :: "u32 list"
  h_buffer :: "u8 list"
  total_len :: u64
  buf_len :: nat

type_synonym transform = "u32 list \<Rightarrow> u8 list \<Rightarrow> u32 list"

text \<open>
  \<open>take\<close>: the length is converted to \<open>int\<close> before it is compared, which wraps from
  \<open>2 ^ 31\<close> on.
\<close>

definition hash_take :: "hash_ctx \<Rightarrow> nat \<Rightarrow> int" where
  "hash_take c len =
     (let space = 64 - int (buf_len c); n = sint (of_nat len :: u32) in
      if n < space then n else space)"

text \<open>
  One iteration of the loop. A negative count is converted to a huge \<open>size_t\<close> by
  \<open>memcpy\<close>: the behaviour is undefined, \<open>None\<close>.
\<close>

definition hash_feed :: "transform \<Rightarrow> hash_ctx \<times> u8 list \<Rightarrow> (hash_ctx \<times> u8 list) option" where
  "hash_feed tr r =
     (case r of (c, d) \<Rightarrow>
      let t = hash_take c (length d) in
      if t < 0 then None
      else
        let n = nat t;
            c1 = c\<lparr>h_buffer := take (buf_len c) (h_buffer c) @ take n d @ drop (buf_len c + n) (h_buffer c),
                   buf_len := buf_len c + n\<rparr> in
        Some (if buf_len c1 = 64 then c1\<lparr>h_state := tr (h_state c1) (h_buffer c1), buf_len := 0\<rparr> else c1,
              drop n d))"

text \<open>
  The loop, while bytes are left. No result is \<open>None\<close>: it did not end, or reached
  undefined behaviour.
\<close>

definition hash_more :: "(hash_ctx \<times> u8 list) option \<Rightarrow> bool" where
  "hash_more r = (case r of None \<Rightarrow> False | Some (c, d) \<Rightarrow> d \<noteq> [])"

definition hash_loop :: "transform \<Rightarrow> hash_ctx \<times> u8 list \<Rightarrow> (hash_ctx \<times> u8 list) option" where
  "hash_loop tr r =
     (case while_option hash_more (\<lambda>r. Option.bind r (hash_feed tr)) (Some r) of
        None \<Rightarrow> None
      | Some r' \<Rightarrow> r')"

definition hash_update :: "transform \<Rightarrow> u8 list \<Rightarrow> hash_ctx \<Rightarrow> hash_ctx option" where
  "hash_update tr d c =
     map_option fst (hash_loop tr (c\<lparr>total_len := total_len c + of_nat (length d)\<rparr>, d))"

text \<open>The padding of both finals: one byte 0x80, zeros up to 56 bytes in the buffer, the length in bits.\<close>

definition hash_zeros :: "transform \<Rightarrow> hash_ctx option \<Rightarrow> hash_ctx option" where
  "hash_zeros tr r =
     (case while_option (\<lambda>r. case r of None \<Rightarrow> False | Some c \<Rightarrow> buf_len c \<noteq> 56)
             (\<lambda>r. Option.bind r (hash_update tr [0])) r of
        None \<Rightarrow> None
      | Some r' \<Rightarrow> r')"

definition byte_at :: "u64 \<Rightarrow> nat \<Rightarrow> u8" where
  "byte_at w i = ucast (drop_bit (8 * i) w)"

definition len_be :: "u64 \<Rightarrow> u8 list" where
  "len_be bits = map (byte_at bits) (rev [0..<8])"

definition len_le :: "u64 \<Rightarrow> u8 list" where
  "len_le bits = map (byte_at bits) [0..<8]"

definition hash_final :: "transform \<Rightarrow> (u64 \<Rightarrow> u8 list) \<Rightarrow> hash_ctx \<Rightarrow> hash_ctx option" where
  "hash_final tr enc c =
     Option.bind (hash_zeros tr (hash_update tr [0x80] c)) (hash_update tr (enc (total_len c * 8)))"

subsection \<open>SHA-256\<close>

definition sha256_k :: "u32 list" where
  "sha256_k =
     [0x428a2f98, 0x71374491, 0xb5c0fbcf, 0xe9b5dba5] @
     [0x3956c25b, 0x59f111f1, 0x923f82a4, 0xab1c5ed5] @
     [0xd807aa98, 0x12835b01, 0x243185be, 0x550c7dc3] @
     [0x72be5d74, 0x80deb1fe, 0x9bdc06a7, 0xc19bf174] @
     [0xe49b69c1, 0xefbe4786, 0x0fc19dc6, 0x240ca1cc] @
     [0x2de92c6f, 0x4a7484aa, 0x5cb0a9dc, 0x76f988da] @
     [0x983e5152, 0xa831c66d, 0xb00327c8, 0xbf597fc7] @
     [0xc6e00bf3, 0xd5a79147, 0x06ca6351, 0x14292967] @
     [0x27b70a85, 0x2e1b2138, 0x4d2c6dfc, 0x53380d13] @
     [0x650a7354, 0x766a0abb, 0x81c2c92e, 0x92722c85] @
     [0xa2bfe8a1, 0xa81a664b, 0xc24b8b70, 0xc76c51a3] @
     [0xd192e819, 0xd6990624, 0xf40e3585, 0x106aa070] @
     [0x19a4c116, 0x1e376c08, 0x2748774c, 0x34b0bcb5] @
     [0x391c0cb3, 0x4ed8aa4a, 0x5b9cca4f, 0x682e6ff3] @
     [0x748f82ee, 0x78a5636f, 0x84c87814, 0x8cc70208] @
     [0x90befffa, 0xa4506ceb, 0xbef9a3f7, 0xc67178f2]"

definition ROTR32 :: "u32 \<Rightarrow> nat \<Rightarrow> u32" where
  "ROTR32 x n = drop_bit n x OR push_bit (32 - n) x"

definition word_be :: "u8 list \<Rightarrow> nat \<Rightarrow> u32" where
  "word_be block i =
     push_bit 24 (ucast (block ! (i * 4))) OR push_bit 16 (ucast (block ! (i * 4 + 1))) OR
     push_bit 8 (ucast (block ! (i * 4 + 2))) OR ucast (block ! (i * 4 + 3))"

definition sha256_extend :: "nat \<Rightarrow> u32 list \<Rightarrow> u32 list" where
  "sha256_extend i w =
     (let s0 = ROTR32 (w ! (i - 15)) 7 XOR ROTR32 (w ! (i - 15)) 18 XOR drop_bit 3 (w ! (i - 15));
          s1 = ROTR32 (w ! (i - 2)) 17 XOR ROTR32 (w ! (i - 2)) 19 XOR drop_bit 10 (w ! (i - 2)) in
      w @ [w ! (i - 16) + s0 + w ! (i - 7) + s1])"

definition sha256_round :: "u32 list \<Rightarrow> nat \<Rightarrow> u32 list \<Rightarrow> u32 list" where
  "sha256_round w i v =
     (let a = v ! 0; b = v ! 1; c = v ! 2; d = v ! 3; e = v ! 4; f = v ! 5; g = v ! 6; h = v ! 7;
          S1 = ROTR32 e 6 XOR ROTR32 e 11 XOR ROTR32 e 25;
          ch = (e AND f) XOR (NOT e AND g);
          t1 = h + S1 + ch + sha256_k ! i + w ! i;
          S0 = ROTR32 a 2 XOR ROTR32 a 13 XOR ROTR32 a 22;
          maj = (a AND b) XOR (a AND c) XOR (b AND c);
          t2 = S0 + maj in
      [t1 + t2, a, b, c, d + t1, e, f, g])"

definition sha256_transform :: transform where
  "sha256_transform st block =
     (let w = fold sha256_extend [16..<64] (map (word_be block) [0..<16]) in
      map2 (+) st (fold (sha256_round w) [0..<64] st))"

definition sha256_h0 :: "u32 list" where
  "sha256_h0 =
    [0x6a09e667, 0xbb67ae85, 0x3c6ef372, 0xa54ff53a, 0x510e527f, 0x9b05688c, 0x1f83d9ab, 0x5be0cd19]"

definition sha256_init :: "hash_ctx \<Rightarrow> hash_ctx" where
  "sha256_init c = c\<lparr>h_state := sha256_h0, total_len := 0, buf_len := 0\<rparr>"

definition sha256_update :: "u8 list \<Rightarrow> hash_ctx \<Rightarrow> hash_ctx option" where
  "sha256_update = hash_update sha256_transform"

definition bytes_be :: "u32 \<Rightarrow> u8 list" where
  "bytes_be x = [ucast (drop_bit 24 x), ucast (drop_bit 16 x), ucast (drop_bit 8 x), ucast x]"

definition sha256_final :: "hash_ctx \<Rightarrow> u8 list option" where
  "sha256_final c =
     map_option (\<lambda>c. concat (map bytes_be (h_state c))) (hash_final sha256_transform len_be c)"

subsection \<open>MD5\<close>

definition md5_k :: "u32 list" where
  "md5_k =
     [0xd76aa478, 0xe8c7b756, 0x242070db, 0xc1bdceee] @
     [0xf57c0faf, 0x4787c62a, 0xa8304613, 0xfd469501] @
     [0x698098d8, 0x8b44f7af, 0xffff5bb1, 0x895cd7be] @
     [0x6b901122, 0xfd987193, 0xa679438e, 0x49b40821] @
     [0xf61e2562, 0xc040b340, 0x265e5a51, 0xe9b6c7aa] @
     [0xd62f105d, 0x02441453, 0xd8a1e681, 0xe7d3fbc8] @
     [0x21e1cde6, 0xc33707d6, 0xf4d50d87, 0x455a14ed] @
     [0xa9e3e905, 0xfcefa3f8, 0x676f02d9, 0x8d2a4c8a] @
     [0xfffa3942, 0x8771f681, 0x6d9d6122, 0xfde5380c] @
     [0xa4beea44, 0x4bdecfa9, 0xf6bb4b60, 0xbebfbc70] @
     [0x289b7ec6, 0xeaa127fa, 0xd4ef3085, 0x04881d05] @
     [0xd9d4d039, 0xe6db99e5, 0x1fa27cf8, 0xc4ac5665] @
     [0xf4292244, 0x432aff97, 0xab9423a7, 0xfc93a039] @
     [0x655b59c3, 0x8f0ccc92, 0xffeff47d, 0x85845dd1] @
     [0x6fa87e4f, 0xfe2ce6e0, 0xa3014314, 0x4e0811a1] @
     [0xf7537e82, 0xbd3af235, 0x2ad7d2bb, 0xeb86d391]"

definition md5_s :: "nat list" where
  "md5_s =
    [7,12,17,22, 7,12,17,22, 7,12,17,22, 7,12,17,22, 5, 9,14,20, 5, 9,14,20, 5, 9,14,20, 5, 9,14,20,
     4,11,16,23, 4,11,16,23, 4,11,16,23, 4,11,16,23, 6,10,15,21, 6,10,15,21, 6,10,15,21, 6,10,15,21]"

definition ROTL32 :: "u32 \<Rightarrow> nat \<Rightarrow> u32" where
  "ROTL32 x n = push_bit n x OR drop_bit (32 - n) x"

definition word_le :: "u8 list \<Rightarrow> nat \<Rightarrow> u32" where
  "word_le block i =
     ucast (block ! (i * 4)) OR push_bit 8 (ucast (block ! (i * 4 + 1))) OR
     push_bit 16 (ucast (block ! (i * 4 + 2))) OR push_bit 24 (ucast (block ! (i * 4 + 3)))"

definition md5_round :: "u32 list \<Rightarrow> nat \<Rightarrow> u32 list \<Rightarrow> u32 list" where
  "md5_round m i v =
     (let a = v ! 0; b = v ! 1; c = v ! 2; d = v ! 3;
          (f, g) =
            (if i < 16 then ((b AND c) OR (NOT b AND d), i)
             else if i < 32 then ((d AND b) OR (NOT d AND c), (5 * i + 1) mod 16)
             else if i < 48 then (b XOR c XOR d, (3 * i + 5) mod 16)
             else (c XOR (b OR NOT d), (7 * i) mod 16)) in
      [d, b + ROTL32 (a + f + md5_k ! i + m ! g) (md5_s ! i), b, c])"

definition md5_transform :: transform where
  "md5_transform st block = map2 (+) st (fold (md5_round (map (word_le block) [0..<16])) [0..<64] st)"

definition md5_h0 :: "u32 list" where
  "md5_h0 = [0x67452301, 0xefcdab89, 0x98badcfe, 0x10325476]"

definition md5_init :: "hash_ctx \<Rightarrow> hash_ctx" where
  "md5_init c = c\<lparr>h_state := md5_h0, total_len := 0, buf_len := 0\<rparr>"

definition md5_update :: "u8 list \<Rightarrow> hash_ctx \<Rightarrow> hash_ctx option" where
  "md5_update = hash_update md5_transform"

definition bytes_le :: "u32 \<Rightarrow> u8 list" where
  "bytes_le x = [ucast x, ucast (drop_bit 8 x), ucast (drop_bit 16 x), ucast (drop_bit 24 x)]"


subsection \<open>The builtins\<close>

text \<open>
  \<open>bytes_to_hex\<close> writes two digits per byte while they and a terminator fit, and the
  string ends at the terminator.
\<close>

definition bytes_to_hex :: "u8 list \<Rightarrow> nat \<Rightarrow> string" where
  "bytes_to_hex bytes hex_size =
     take (if length bytes * 2 < hex_size then length bytes * 2 else hex_size - 1)
       (concat (map (\<lambda>i. hex2 (unat (bytes ! i))) (takeWhile (\<lambda>i. i * 2 + 2 < hex_size) [0..<length bytes])))"

text \<open>
  An argument, as far as these builtins look: absent, a string, a list, or anything else.
  A wrong argument raises an error of a kind; the context on the C stack starts as junk.
\<close>

datatype hash_arg = H_Null | H_Str "u8 list" | H_List "hash_arg list" | H_Other

type_synonym hash_result = "(err_kind + string) option"

definition hex_result :: "nat \<Rightarrow> u8 list option \<Rightarrow> hash_result" where
  "hex_result hex_size r = map_option (\<lambda>h. Inr (bytes_to_hex h hex_size)) r"






text \<open>The 64-byte key block of HMAC: the key, or its hash when it is longer, filled with zeros.\<close>

definition hmac_key_block :: "hash_ctx \<Rightarrow> u8 list \<Rightarrow> u8 list option" where
  "hmac_key_block junk key =
     (if 64 < length key
      then map_option (\<lambda>kh. kh @ replicate (64 - length kh) 0)
             (Option.bind (sha256_update key (sha256_init junk)) sha256_final)
      else Some (key @ replicate (64 - length key) 0))"

definition hash_two :: "hash_ctx \<Rightarrow> u8 list \<Rightarrow> u8 list \<Rightarrow> u8 list option" where
  "hash_two junk a b =
     Option.bind (sha256_update a (sha256_init junk)) (\<lambda>c. Option.bind (sha256_update b c) sha256_final)"

definition builtin_hmac_sha256 :: "hash_ctx \<Rightarrow> hash_arg \<Rightarrow> hash_result" where
  "builtin_hmac_sha256 junk arg =
     (case arg of
        H_List items \<Rightarrow>
          if length items < 2 then Some (Inl EK_TYPE)
          else
            (case (items ! 0, items ! 1) of
               (H_Str key, H_Str msg) \<Rightarrow>
                 hex_result 65
                   (Option.bind (hmac_key_block junk key) (\<lambda>kb.
                    Option.bind (hash_two junk (map (\<lambda>b. b XOR 0x36) kb) msg) (\<lambda>inner.
                    hash_two junk (map (\<lambda>b. b XOR 0x5c) kb) inner)))
             | _ \<Rightarrow> Some (Inl EK_TYPE))
      | _ \<Rightarrow> Some (Inl EK_TYPE))"

subsection \<open>What the context holds\<close>

text \<open>
  The reference: whole blocks are transformed from the front, the rest is pending. A
  context holds the message absorbed so far.
\<close>

fun absorb :: "transform \<Rightarrow> u32 list \<Rightarrow> u8 list \<Rightarrow> u32 list \<times> u8 list" where
  "absorb tr st d = (if length d < 64 then (st, d) else absorb tr (tr st (take 64 d)) (drop 64 d))"

declare absorb.simps [simp del]

lemma absorb_short: "length d < 64 \<Longrightarrow> absorb tr st d = (st, d)"
  by (simp add: absorb.simps)

lemma absorb_block: "length d = 64 \<Longrightarrow> absorb tr st d = (tr st d, [])"
  using absorb.simps [of tr st d] by (simp add: absorb_short)

lemma absorb_append:
  "absorb tr st (x @ y) = (case absorb tr st x of (s, r) \<Rightarrow> absorb tr s (r @ y))"
proof (induction tr st x rule: absorb.induct)
  case (1 tr st d)
  show ?case
  proof (cases "length d < 64")
    case True
    then show ?thesis by (simp add: absorb_short)
  next
    case False
    then have "absorb tr st (d @ y) = absorb tr (tr st (take 64 d)) (drop 64 d @ y)"
      by (simp add: absorb.simps [of tr st "d @ y"])
    then show ?thesis using 1 False by (simp add: absorb.simps [of tr st d])
  qed
qed

definition pending :: "hash_ctx \<Rightarrow> u8 list" where
  "pending c = take (buf_len c) (h_buffer c)"

definition ctx_ok :: "hash_ctx \<Rightarrow> bool" where
  "ctx_ok c \<longleftrightarrow> length (h_buffer c) = 64 \<and> buf_len c < 64"

definition holds :: "transform \<Rightarrow> u32 list \<Rightarrow> u8 list \<Rightarrow> hash_ctx \<Rightarrow> bool" where
  "holds tr h0 m c \<longleftrightarrow>
     ctx_ok c \<and> total_len c = of_nat (length m) \<and> absorb tr h0 m = (h_state c, pending c)"

lemma length_pending: "ctx_ok c \<Longrightarrow> length (pending c) = buf_len c"
  by (simp add: pending_def ctx_ok_def)

lemma sint_small: "n < 2 ^ 31 \<Longrightarrow> sint (of_nat n :: u32) = int n"
  by (simp add: signed_of_nat signed_take_bit_int_eq_self)

lemma hash_take_small: "len < 2 ^ 31 \<Longrightarrow> ctx_ok c \<Longrightarrow> hash_take c len = int (min len (64 - buf_len c))"
  by (auto simp: hash_take_def sint_small ctx_ok_def Let_def min_def)

lemma hash_feed_ok:
  assumes "ctx_ok c" and "length d < 2 ^ 31"
  defines "n \<equiv> min (length d) (64 - buf_len c)"
  shows "\<exists>c'. hash_feed tr (c, d) = Some (c', drop n d) \<and> ctx_ok c' \<and> total_len c' = total_len c \<and>
     absorb tr (h_state c) (pending c @ take n d) = (h_state c', pending c')"
proof -
  define buf where "buf = take (buf_len c) (h_buffer c) @ take n d @ drop (buf_len c + n) (h_buffer c)"
  have t: "hash_take c (length d) = int n" using assms hash_take_small by simp
  have len: "length buf = 64" "buf_len c + n \<le> 64" "length (take n d) = n"
    using assms(1) by (auto simp: buf_def n_def ctx_ok_def)
  have pre: "take (buf_len c + n) buf = pending c @ take n d"
    using assms(1) len by (simp add: buf_def pending_def ctx_ok_def)
  show ?thesis
  proof (cases "buf_len c + n = 64")
    case True
    then have "absorb tr (h_state c) (pending c @ take n d) = (tr (h_state c) buf, [])"
      using absorb_block [OF len(1)] pre len(1) by simp
    then show ?thesis
      using t True len by (auto simp: hash_feed_def Let_def ctx_ok_def pending_def buf_def)
  next
    case False
    then have "length (pending c @ take n d) < 64" using len assms(1) by (simp add: length_pending)
    then show ?thesis
      using t False len pre by (auto simp: hash_feed_def Let_def ctx_ok_def pending_def buf_def absorb_short)
  qed
qed

subsection \<open>Updates\<close>

lemma hash_loop_unfold:
  "hash_loop tr (c, d) = (if d = [] then Some (c, d) else Option.bind (hash_feed tr (c, d)) (hash_loop tr))"
proof (cases "d = []")
  case True
  then show ?thesis by (simp add: hash_loop_def while_option_unfold [of hash_more] hash_more_def)
next
  case False
  then have "hash_loop tr (c, d) =
      (case while_option hash_more (\<lambda>r. Option.bind r (hash_feed tr)) (hash_feed tr (c, d)) of
         None \<Rightarrow> None | Some r' \<Rightarrow> r')"
    by (simp add: hash_loop_def while_option_unfold [of hash_more _ "Some (c, d)"] hash_more_def)
  then show ?thesis
    using False
    by (cases "hash_feed tr (c, d)")
      (simp_all add: hash_loop_def while_option_unfold [of hash_more _ None] hash_more_def)
qed

lemma hash_loop_ok:
  assumes "ctx_ok c" and "length d < 2 ^ 31"
  shows "\<exists>c'. hash_loop tr (c, d) = Some (c', []) \<and> ctx_ok c' \<and> total_len c' = total_len c \<and>
     absorb tr (h_state c) (pending c @ d) = (h_state c', pending c')"
  using assms
proof (induction "length d" arbitrary: c d rule: less_induct)
  case less
  show ?case
  proof (cases "d = []")
    case True
    then show ?thesis
      using less.prems hash_loop_unfold [of tr c d] by (simp add: absorb_short length_pending ctx_ok_def)
  next
    case False
    define n where "n = min (length d) (64 - buf_len c)"
    obtain c1 where c1: "hash_feed tr (c, d) = Some (c1, drop n d)" "ctx_ok c1" "total_len c1 = total_len c"
      "absorb tr (h_state c) (pending c @ take n d) = (h_state c1, pending c1)"
      using hash_feed_ok [OF less.prems] n_def by blast
    have "0 < n" using False less.prems(1) by (simp add: n_def ctx_ok_def)
    then have small: "length (drop n d) < length d" "length (drop n d) < 2 ^ 31"
      using False less.prems(2) by auto
    obtain c2 where c2: "hash_loop tr (c1, drop n d) = Some (c2, [])" "ctx_ok c2" "total_len c2 = total_len c1"
      "absorb tr (h_state c1) (pending c1 @ drop n d) = (h_state c2, pending c2)"
      using less.hyps [OF small(1) c1(2) small(2)] by blast
    have "absorb tr (h_state c) ((pending c @ take n d) @ drop n d) = (h_state c2, pending c2)"
      unfolding absorb_append [of tr _ "pending c @ take n d"] c1(4) by (simp add: c2(4))
    then have "absorb tr (h_state c) (pending c @ d) = (h_state c2, pending c2)" by simp
    moreover have "hash_loop tr (c, d) = hash_loop tr (c1, drop n d)"
      using False c1(1) hash_loop_unfold [of tr c d] by simp
    ultimately show ?thesis using c1(3) c2(1-3) by simp
  qed
qed

lemma hash_update_ok:
  assumes "holds tr h0 m c" and "length d < 2 ^ 31"
  shows "\<exists>c'. hash_update tr d c = Some c' \<and> holds tr h0 (m @ d) c'"
proof -
  let ?c = "c\<lparr>total_len := total_len c + of_nat (length d)\<rparr>"
  have "ctx_ok ?c" using assms(1) by (simp add: holds_def ctx_ok_def)
  from hash_loop_ok [OF this assms(2)] obtain c' where
    "hash_loop tr (?c, d) = Some (c', [])" "ctx_ok c'" "total_len c' = total_len ?c"
    "absorb tr (h_state ?c) (pending ?c @ d) = (h_state c', pending c')"
    by blast
  then show ?thesis
    using assms(1) by (simp add: hash_update_def holds_def absorb_append [of tr h0 m d] pending_def)
qed

text \<open>
  A longer input has no result: as long as \<open>2 ^ 31\<close> bytes or more are left the loop makes
  an undefined copy, or leaves \<open>2 ^ 32\<close> bytes or more, where it may take nothing and stay
  for ever.
\<close>

definition feed_stuck :: "(hash_ctx \<times> u8 list) option \<Rightarrow> bool" where
  "feed_stuck r = (case r of None \<Rightarrow> True | Some (c, d) \<Rightarrow> 2 ^ 31 \<le> length d)"

lemma hash_take_le:
  assumes "2 ^ 31 \<le> length d"
  shows "hash_take c (length d) \<le> int (length d) - 2 ^ 32"
proof -
  have "sint (of_nat (length d) :: u32) = signed_take_bit 31 (int (length d))"
    by (simp add: signed_of_nat)
  then show ?thesis
    using signed_take_bit_int_less_eq [of 31 "int (length d)"] assms by (simp add: hash_take_def Let_def)
qed

lemma feed_stuck_step: "feed_stuck r \<Longrightarrow> feed_stuck (Option.bind r (hash_feed tr))"
proof (cases r)
  case (Some cd)
  obtain c d where cd: "cd = (c, d)" by (cases cd)
  assume "feed_stuck r"
  then have long: "2 ^ 31 \<le> length d" using Some cd by (simp add: feed_stuck_def)
  have "2 ^ 31 \<le> length (drop (nat (hash_take c (length d))) d)" if "0 \<le> hash_take c (length d)"
    using hash_take_le [OF long, of c] that by simp
  then show ?thesis using Some cd by (auto simp: feed_stuck_def hash_feed_def Let_def)
qed (simp add: feed_stuck_def)

lemma hash_loop_stuck: "2 ^ 31 \<le> length d \<Longrightarrow> hash_loop tr (c, d) = None"
proof -
  assume long: "2 ^ 31 \<le> length d"
  show ?thesis
  proof (cases "while_option hash_more (\<lambda>r. Option.bind r (hash_feed tr)) (Some (c, d))")
    case (Some r)
    have "feed_stuck r" by (rule while_option_rule [OF _ Some]) (use long in \<open>simp_all add: feed_stuck_step feed_stuck_def [of "Some _"]\<close>)
    moreover have "\<not> hash_more r" using while_option_stop [OF Some] .
    ultimately have "r = None" by (auto simp: feed_stuck_def hash_more_def split: option.splits)
    then show ?thesis using Some by (simp add: hash_loop_def)
  qed (simp add: hash_loop_def)
qed

text \<open>
  C28: an update of either hash returns exactly for inputs below \<open>2 ^ 31\<close> bytes. Longer ones
  are in the range of the length's type, but the conversion to \<open>int\<close> makes the loop copy
  a negative count or spin for ever.
\<close>
theorem update_returns_iff:
  assumes "ctx_ok c"
  shows "(sha256_update d c \<noteq> None \<longleftrightarrow> length d < 2 ^ 31) \<and> (md5_update d c \<noteq> None \<longleftrightarrow> length d < 2 ^ 31)"
proof -
  have "hash_update tr d c \<noteq> None \<longleftrightarrow> length d < 2 ^ 31" for tr
  proof (cases "length d < 2 ^ 31")
    case True
    have "ctx_ok (c\<lparr>total_len := total_len c + of_nat (length d)\<rparr>)" using assms by (simp add: ctx_ok_def)
    from hash_loop_ok [OF this True, of tr] obtain c' where
      "hash_loop tr (c\<lparr>total_len := total_len c + of_nat (length d)\<rparr>, d) = Some (c', [])" by blast
    then show ?thesis using True by (simp add: hash_update_def)
  qed (simp add: hash_update_def hash_loop_stuck)
  then show ?thesis by (simp add: sha256_update_def md5_update_def)
qed

definition junk_ctx :: hash_ctx where
  "junk_ctx = \<lparr>h_state = [1, 2], h_buffer = replicate 64 7, total_len = 9, buf_len = 3\<rparr>"

lemma junk_ctx_ok: "length (h_buffer junk_ctx) = 64" "ctx_ok junk_ctx"
  by (simp_all add: junk_ctx_def ctx_ok_def)

theorem update_returns_iff_witness:
  "sha256_update (replicate 3 0) junk_ctx \<noteq> None \<and> sha256_update (replicate (2 ^ 31) 0) junk_ctx = None"
  using update_returns_iff [OF junk_ctx_ok(2), of "replicate 3 0"]
    update_returns_iff [OF junk_ctx_ok(2), of "replicate (2 ^ 31) 0"] by (simp add: numeral_3_eq_3)

subsection \<open>Finals\<close>

text \<open>The reference: the padded message of FIPS 180-4 and RFC 1321, its blocks, and the fold over them.\<close>

definition pad :: "(u64 \<Rightarrow> u8 list) \<Rightarrow> u8 list \<Rightarrow> u8 list" where
  "pad enc m = m @ [0x80] @ replicate ((119 - length m mod 64) mod 64) 0 @ enc (of_nat (8 * length m))"

definition blocks :: "u8 list \<Rightarrow> u8 list list" where
  "blocks d = map (\<lambda>i. take 64 (drop (64 * i) d)) [0..<length d div 64]"

definition sha256_digest :: "u8 list \<Rightarrow> u8 list" where
  "sha256_digest m = concat (map bytes_be (foldl sha256_transform sha256_h0 (blocks (pad len_be m))))"

definition md5_digest :: "u8 list \<Rightarrow> u8 list" where
  "md5_digest m = concat (map bytes_le (foldl md5_transform md5_h0 (blocks (pad len_le m))))"

lemma blocks_unfold: "64 \<le> length d \<Longrightarrow> blocks d = take 64 d # blocks (drop 64 d)"
proof -
  assume "64 \<le> length d"
  then have "length d div 64 = Suc (length (drop 64 d) div 64)"
    by (simp add: le_div_geq)
  then show ?thesis by (simp add: blocks_def upt_conv_Cons map_Suc_upt [symmetric] comp_def add.commute del: upt_Suc)
qed

lemma absorb_blocks:
  "fst (absorb tr st d) = foldl tr st (blocks d) \<and> length (snd (absorb tr st d)) = length d mod 64"
proof (induction tr st d rule: absorb.induct)
  case (1 tr st d)
  show ?case
  proof (cases "length d < 64")
    case True
    then show ?thesis by (simp add: absorb_short blocks_def)
  next
    case False
    then have "(length d - 64) mod 64 = length d mod 64" by (simp add: le_mod_geq)
    then show ?thesis using 1 False by (simp add: absorb.simps [of tr st d] blocks_unfold)
  qed
qed

lemma holds_buf_len: "holds tr h0 m c \<Longrightarrow> buf_len c = length m mod 64"
  using absorb_blocks [of tr h0 m] length_pending [of c] by (simp add: holds_def)

lemma hash_zeros_unfold:
  "hash_zeros tr (Some c) = (if buf_len c = 56 then Some c else hash_zeros tr (hash_update tr [0] c))"
  by (simp add: hash_zeros_def while_option_unfold [of _ _ "Some c"])

lemma hash_update_one: "holds tr h0 m c \<Longrightarrow> \<exists>c'. hash_update tr [x] c = Some c' \<and> holds tr h0 (m @ [x]) c'"
  using hash_update_ok [of tr h0 m c "[x]"] by simp

lemma pad_not_done: "(n + Suc k) mod 64 = 56 \<Longrightarrow> Suc k < 64 \<Longrightarrow> n mod 64 \<noteq> (56 :: nat)"
proof
  assume n: "(n + Suc k) mod 64 = 56" "Suc k < 64" "n mod 64 = 56"
  then have "(56 + Suc k) mod 64 = 56" by (metis mod_add_left_eq)
  then show False using n(2) by (cases "Suc k < 8") (simp_all add: le_mod_geq)
qed

lemma pad_count:
  defines "k \<equiv> \<lambda>n. (119 - n mod 64) mod (64 :: nat)"
  shows "(n + 1 + k n) mod 64 = 56" and "k n < 64"
proof -
  define r where "r = n mod 64"
  have r: "r < 64" by (simp add: r_def)
  have "(r + 1 + (119 - r) mod 64) mod 64 = 56"
  proof (cases "r \<le> 55")
    case True
    then have "(119 - r) mod 64 = 55 - r" by (simp add: le_mod_geq)
    then show ?thesis using True by simp
  qed (use r in simp)
  then show "(n + 1 + k n) mod 64 = 56" by (simp add: k_def r_def) (metis mod_Suc_eq mod_add_left_eq)
qed (simp add: k_def)

lemma hash_zeros_ok:
  assumes "holds tr h0 m c" and "(length m + k) mod 64 = 56" and "k < 64"
  shows "\<exists>c'. hash_zeros tr (Some c) = Some c' \<and> holds tr h0 (m @ replicate k 0) c'"
  using assms
proof (induction k arbitrary: m c)
  case 0
  then show ?case using holds_buf_len [OF 0(1)] by (auto simp: hash_zeros_unfold [of tr c])
next
  case (Suc k)
  obtain c1 where c1: "hash_update tr [0] c = Some c1" "holds tr h0 (m @ [0]) c1"
    using hash_update_one [OF Suc.prems(1)] by blast
  have "length m mod 64 \<noteq> 56"
    using pad_not_done [OF Suc.prems(2,3)] .
  then have "hash_zeros tr (Some c) = hash_zeros tr (Some c1)"
    using c1(1) holds_buf_len [OF Suc.prems(1)] by (simp add: hash_zeros_unfold [of tr c])
  then show ?case using Suc.IH [OF c1(2)] Suc.prems(2,3) by simp
qed

lemma hash_final_ok:
  assumes "holds tr h0 m c" and "\<And>w. length (enc w) = 8"
  shows "\<exists>c'. hash_final tr enc c = Some c' \<and> h_state c' = foldl tr h0 (blocks (pad enc m))"
proof -
  define k where "k = (119 - length m mod 64) mod 64"
  obtain c1 where c1: "hash_update tr [0x80] c = Some c1" "holds tr h0 (m @ [0x80]) c1"
    using hash_update_one [OF assms(1)] by blast
  have k: "(length (m @ [0x80 :: u8]) + k) mod 64 = 56" "k < 64"
    using pad_count [of "length m"] by (simp_all add: k_def)
  obtain c2 where c2: "hash_zeros tr (Some c1) = Some c2" "holds tr h0 ((m @ [0x80]) @ replicate k 0) c2"
    using hash_zeros_ok [OF c1(2) k] by blast
  have "length (enc (total_len c * 8)) < 2 ^ 31" by (simp add: assms(2))
  from hash_update_ok [OF c2(2) this] obtain c3 where c3: "hash_update tr (enc (total_len c * 8)) c2 = Some c3"
    "holds tr h0 (((m @ [0x80]) @ replicate k 0) @ enc (total_len c * 8)) c3"
    by blast
  have "total_len c * 8 = of_nat (8 * length m)" using assms(1) by (simp add: holds_def)
  then have "holds tr h0 (pad enc m) c3" using c3(2) by (simp add: pad_def k_def)
  then show ?thesis
    using c1(1) c2(1) c3(1) absorb_blocks [of tr h0 "pad enc m"] by (simp add: hash_final_def holds_def)
qed

subsection \<open>Digests\<close>

definition hex_of :: "u8 list \<Rightarrow> string" where
  "hex_of bs = concat (map (\<lambda>b. hex2 (unat b)) bs)"

lemma length_hex_of [simp]: "length (hex_of bs) = 2 * length bs"
  by (induction bs) (simp_all add: hex_of_def)

lemma bytes_to_hex_eq: "2 * length bs < hex_size \<Longrightarrow> bytes_to_hex bs hex_size = hex_of bs"
proof -
  assume fits: "2 * length bs < hex_size"
  then have tw: "takeWhile (\<lambda>i. i * 2 + 2 < hex_size) [0..<length bs] = [0..<length bs]"
    by (simp add: takeWhile_eq_all_conv)
  have "concat (map (\<lambda>i. hex2 (unat (bs ! i))) [0..<length bs]) = hex_of bs"
    unfolding hex_of_def by (rule arg_cong [where f = concat], rule nth_equalityI) simp_all
  then show ?thesis using fits unfolding bytes_to_hex_def tw by (simp add: mult.commute)
qed

lemma fold_keeps: "(\<And>x v. P v \<Longrightarrow> P (f x v)) \<Longrightarrow> P v \<Longrightarrow> P (fold f xs v)"
  by (induction xs arbitrary: v) auto

lemma foldl_keeps: "(\<And>x v. P v \<Longrightarrow> P (f v x)) \<Longrightarrow> P v \<Longrightarrow> P (foldl f v xs)"
  by (induction xs arbitrary: v) auto

lemma length_sha256_transform: "length st = 8 \<Longrightarrow> length (sha256_transform st b) = 8"
  by (simp add: sha256_transform_def Let_def fold_keeps [where P = "\<lambda>v. length v = 8"] sha256_round_def)

lemma length_md5_transform: "length st = 4 \<Longrightarrow> length (md5_transform st b) = 4"
  by (simp add: md5_transform_def fold_keeps [where P = "\<lambda>v. length v = 4"] md5_round_def Let_def split_def)

lemma length_concat_const: "(\<And>x. length (f x) = n) \<Longrightarrow> length (concat (map f xs)) = n * length xs"
  by (induction xs) simp_all

lemma length_sha256_digest [simp]: "length (sha256_digest m) = 32"
proof -
  have "length (foldl sha256_transform sha256_h0 bs) = 8" for bs
    by (rule foldl_keeps) (simp_all add: length_sha256_transform sha256_h0_def)
  then show ?thesis by (simp add: sha256_digest_def length_concat_const [of bytes_be 4] bytes_be_def)
qed

lemma length_md5_digest [simp]: "length (md5_digest m) = 16"
proof -
  have "length (foldl md5_transform md5_h0 bs) = 4" for bs
    by (rule foldl_keeps) (simp_all add: length_md5_transform md5_h0_def)
  then show ?thesis by (simp add: md5_digest_def length_concat_const [of bytes_le 4] bytes_le_def)
qed

lemma sha256_final_ok: "holds sha256_transform sha256_h0 m c \<Longrightarrow> sha256_final c = Some (sha256_digest m)"
  using hash_final_ok [of sha256_transform sha256_h0 m c len_be]
  by (auto simp: sha256_final_def sha256_digest_def len_be_def)


lemma init_holds:
  "length (h_buffer c) = 64 \<Longrightarrow> holds sha256_transform sha256_h0 [] (sha256_init c)"
  "length (h_buffer c) = 64 \<Longrightarrow> holds md5_transform md5_h0 [] (md5_init c)"
  by (simp_all add: holds_def sha256_init_def md5_init_def ctx_ok_def pending_def absorb_short)


lemma sha256_of_ok:
  assumes "length (h_buffer junk) = 64" and "length s < 2 ^ 31"
  shows "Option.bind (sha256_update s (sha256_init junk)) sha256_final = Some (sha256_digest s)"
proof -
  obtain c where "sha256_update s (sha256_init junk) = Some c" "holds sha256_transform sha256_h0 s c"
    using hash_update_ok [OF init_holds(1) [OF assms(1)] assms(2)] by (auto simp: sha256_update_def)
  then show ?thesis by (simp add: sha256_final_ok)
qed


lemma hash_two_ok:
  assumes "length (h_buffer junk) = 64" and "length a < 2 ^ 31" and "length b < 2 ^ 31"
  shows "hash_two junk a b = Some (sha256_digest (a @ b))"
proof -
  obtain c where c: "sha256_update a (sha256_init junk) = Some c" "holds sha256_transform sha256_h0 a c"
    using hash_update_ok [OF init_holds(1) [OF assms(1)] assms(2)] by (auto simp: sha256_update_def)
  obtain c' where "sha256_update b c = Some c'" "holds sha256_transform sha256_h0 (a @ b) c'"
    using hash_update_ok [OF c(2) assms(3)] by (auto simp: sha256_update_def)
  then show ?thesis by (simp add: hash_two_def c sha256_final_ok)
qed



text \<open>
  C27: \<open>hmac_sha256\<close> is the HMAC of RFC 2104: two nested hashes over the key block, which
  is the key, or the hash of a key longer than a block, filled with zeros.
\<close>
theorem hmac_is_nested_hash:
  assumes "length (h_buffer junk) = 64" and "length key < 2 ^ 31" and "length msg < 2 ^ 31"
  shows "builtin_hmac_sha256 junk (H_List (H_Str key # H_Str msg # rest)) =
     (let k = (if 64 < length key then sha256_digest key else key);
          kb = k @ replicate (64 - length k) 0 in
      Some (Inr (hex_of (sha256_digest (map (\<lambda>b. b XOR 0x5c) kb @
        sha256_digest (map (\<lambda>b. b XOR 0x36) kb @ msg))))))"
proof -
  define k where "k = (if 64 < length key then sha256_digest key else key)"
  have kb: "hmac_key_block junk key = Some (k @ replicate (64 - length k) 0)"
    using sha256_of_ok [OF assms(1,2)] by (simp add: hmac_key_block_def k_def)
  have "length (k @ replicate (64 - length k) 0) = 64" by (simp add: k_def)
  then show ?thesis
    using hash_two_ok [OF assms(1)] assms(3)
    by (simp add: builtin_hmac_sha256_def kb hex_result_def bytes_to_hex_eq k_def [symmetric] Let_def)
qed

theorem hmac_is_nested_hash_witness:
  "builtin_hmac_sha256 junk_ctx (H_List [H_Str [1], H_Str []]) =
     (let kb = 1 # replicate 63 0 in
      Some (Inr (hex_of (sha256_digest (map (\<lambda>b. b XOR 0x5c) kb @ sha256_digest (map (\<lambda>b. b XOR 0x36) kb @ [])))))) "
  using hmac_is_nested_hash [OF junk_ctx_ok(1), of "[1]" "[]" "[]"] by (simp add: Let_def)

end
