(* ===== verification/Eigs_Utf8.thy ===== *)
theory Eigs_Utf8
  imports Eigs_Prelude
begin

text \<open>
  UTF-8 for diagnostics (\<open>src/strbuf.c\<close>): recognising one character, and copying any
  bytes into a bounded buffer as valid UTF-8. The reference is the encoding of RFC 3629.
\<close>

subsection \<open>One character\<close>

text \<open>The continuation bytes from position \<open>i\<close>; only the second byte has a range of its own.\<close>

function utf8_rest :: "nat \<Rightarrow> nat \<Rightarrow> nat \<Rightarrow> nat \<Rightarrow> string \<Rightarrow> int" where
  "utf8_rest need lo hi i s =
     (if need \<le> i then int need
      else if length s \<le> i then - 1
      else
        let b = ord (s ! i); blo = (if i = 1 then lo else 0x80); bhi = (if i = 1 then hi else 0xBF) in
        if b < blo \<or> bhi < b then 0 else utf8_rest need lo hi (i + 1) s)"
  by pat_completeness auto
termination by (relation "measure (\<lambda>(need, lo, hi, i, s). need - i)") auto

definition eigs_utf8_step :: "string \<Rightarrow> int" where
  "eigs_utf8_step s =
     (if s = [] then 0
      else
        let c = ord (s ! 0) in
        if c < 0x80 then 1
        else if c < 0xC2 \<or> 0xF4 < c then 0
        else
          let need = (if c < 0xE0 then 2 else if c < 0xF0 then 3 else 4);
              lo = (if c = 0xE0 then 0xA0 else if c = 0xF0 then 0x90 else 0x80);
              hi = (if c = 0xED then 0x9F else if c = 0xF4 then 0x8F else 0xBF) in
          utf8_rest need lo hi 1 s)"

subsection \<open>The bounded copy\<close>

definition utf8_replacement :: string where
  "utf8_replacement = [CHR 0xEF, CHR 0xBF, CHR 0xBD]"

text \<open>
  The loop over the source: what is in the buffer when it ends, and whether it stopped
  early. \<open>hard\<close> is the room before the terminator.
\<close>

function utf8_copy :: "nat \<Rightarrow> string \<Rightarrow> string \<Rightarrow> string \<times> bool" where
  "utf8_copy hard s dst =
     (if s = [] then (dst, False)
      else
        let step = eigs_utf8_step s in
        if step < 0 then (dst, True)
        else
          let w = (if 0 < step then nat step else 3) in
          if hard < length dst + w then (dst, True)
          else
            utf8_copy hard (drop (if 0 < step then nat step else 1) s)
              (dst @ (if 0 < step then take w s else utf8_replacement)))"
  by pat_completeness auto
termination by (relation "measure (\<lambda>(hard, s, dst). length s)") auto

definition utf8_is_cont :: "char \<Rightarrow> bool" where
  "utf8_is_cont c \<longleftrightarrow> ord c AND 0xC0 = 0x80"

fun utf8_lead :: "string \<Rightarrow> nat \<Rightarrow> nat" where
  "utf8_lead dst 0 = 0"
| "utf8_lead dst (Suc k) = (if utf8_is_cont (dst ! Suc k) then utf8_lead dst k else Suc k)"

lemma utf8_lead_le: "utf8_lead dst k \<le> k"
  by (induction k) auto

text \<open>Back up over whole characters.\<close>

function utf8_back :: "nat \<Rightarrow> string \<Rightarrow> nat \<Rightarrow> nat" where
  "utf8_back room dst k = (if room < k then utf8_back room dst (utf8_lead dst (k - 1)) else k)"
  by pat_completeness auto
termination
proof (relation "measure (\<lambda>(room, dst, k). k)")
  fix room dst and k :: nat
  assume "room < k"
  then have "utf8_lead dst (k - 1) < k" using utf8_lead_le [of dst "k - 1"] by simp
  then show "((room, dst, utf8_lead dst (k - 1)), (room, dst, k)) \<in> measure (\<lambda>(room, dst, k). k)" by simp
qed simp

text \<open>The string left in the buffer; \<open>None\<close> where it is not written, for want of any room.\<close>

definition eigs_utf8_sanitize :: "nat \<Rightarrow> string option \<Rightarrow> string option" where
  "eigs_utf8_sanitize cap src =
     (if cap = 0 then None
      else case src of
        None \<Rightarrow> Some []
      | Some s \<Rightarrow>
          (case utf8_copy (cap - 1) s [] of
             (dst, clipped) \<Rightarrow>
               if \<not> clipped then Some dst
               else if cap < 5 then Some []
               else Some (take (utf8_back (cap - 4) dst (length dst)) dst @ ''...'')))"

declare utf8_rest.simps [simp del] utf8_copy.simps [simp del] utf8_back.simps [simp del]

subsection \<open>The encoding\<close>

definition scalar :: "nat \<Rightarrow> bool" where
  "scalar v \<longleftrightarrow> v < 0xD800 \<or> 0xE000 \<le> v \<and> v < 0x110000"

definition utf8_enc :: "nat \<Rightarrow> string" where
  "utf8_enc v =
     map char_of
       (if v < 0x80 then [v]
        else if v < 0x800 then [0xC0 + v div 64, 0x80 + v mod 64]
        else if v < 0x10000 then [0xE0 + v div 4096, 0x80 + v div 64 mod 64, 0x80 + v mod 64]
        else [0xF0 + v div 262144, 0x80 + v div 4096 mod 64, 0x80 + v div 64 mod 64, 0x80 + v mod 64])"

lemma ord_inject: "ord a = ord b \<Longrightarrow> a = b"
  by (simp add: ord_def)

lemma map_ord_inject: "map ord a = map ord b \<Longrightarrow> a = b"
  by (metis inj_def list.inj_map_strong ord_inject)

text \<open>The byte sequences of one character, as the grammar of RFC 3629 lists them.\<close>

definition tail_byte :: "nat \<Rightarrow> bool" where
  "tail_byte b \<longleftrightarrow> 0x80 \<le> b \<and> b \<le> 0xBF"

fun wf_seq :: "nat list \<Rightarrow> bool" where
  "wf_seq [a] \<longleftrightarrow> a < 0x80"
| "wf_seq [a, b] \<longleftrightarrow> 0xC2 \<le> a \<and> a \<le> 0xDF \<and> tail_byte b"
| "wf_seq [a, b, c] \<longleftrightarrow> 0xE0 \<le> a \<and> a \<le> 0xEF \<and> tail_byte b \<and> tail_byte c \<and>
     (a = 0xE0 \<longrightarrow> 0xA0 \<le> b) \<and> (a = 0xED \<longrightarrow> b \<le> 0x9F)"
| "wf_seq [a, b, c, d] \<longleftrightarrow> 0xF0 \<le> a \<and> a \<le> 0xF4 \<and> tail_byte b \<and> tail_byte c \<and> tail_byte d \<and>
     (a = 0xF0 \<longrightarrow> 0x90 \<le> b) \<and> (a = 0xF4 \<longrightarrow> b \<le> 0x8F)"
| "wf_seq _ \<longleftrightarrow> False"

lemma utf8_enc_bytes:
  "map ord (utf8_enc v) =
     (if v < 0x80 then [v]
      else if v < 0x800 then [0xC0 + v div 64, 0x80 + v mod 64]
      else if v < 0x10000 then [0xE0 + v div 4096, 0x80 + v div 64 mod 64, 0x80 + v mod 64]
      else [0xF0 + v div 262144, 0x80 + v div 4096 mod 64, 0x80 + v div 64 mod 64, 0x80 + v mod 64])"
  if "v < 0x110000"
proof -
  have "v div 64 mod 64 < 64" "v div 4096 mod 64 < 64" "v mod 64 < 64" by simp_all
  moreover have "v div 64 < 32" if "v < 0x800" using that by (simp add: div_less_iff_less_mult)
  moreover have "v div 4096 < 16" if "v < 0x10000" using that by (simp add: div_less_iff_less_mult)
  moreover have "v div 262144 < 5" using \<open>v < 0x110000\<close> by (simp add: div_less_iff_less_mult)
  ultimately show ?thesis by (simp add: utf8_enc_def)
qed

lemma enc_wf:
  assumes "scalar v"
  shows "wf_seq (map ord (utf8_enc v))"
proof -
  define z y w x where "z = v mod 64" and "y = v div 64 mod 64" and "w = v div 4096 mod 64" and "x = v div 262144"
  have lt: "z < 64" "y < 64" "w < 64" by (simp_all add: z_def y_def w_def)
  have a: "v div 64 = 64 * (v div 4096) + y" "v div 4096 = 64 * x + w" "v = 64 * (v div 64) + z"
  proof -
    have "v div 64 div 64 = v div 4096" "v div 4096 div 64 = v div 262144" by simp_all
    then show "v div 64 = 64 * (v div 4096) + y" "v div 4096 = 64 * x + w" "v = 64 * (v div 64) + z"
      using mult_div_mod_eq [of 64 "v div 64"] mult_div_mod_eq [of 64 "v div 4096"] mult_div_mod_eq [of 64 v]
      unfolding y_def w_def z_def x_def by metis+
  qed
  have x0: "v < 0x10000 \<Longrightarrow> x = 0" by (simp add: x_def)
  have "v < 0x110000" using assms by (auto simp: scalar_def)
  from utf8_enc_bytes [OF this] show ?thesis
    unfolding y_def [symmetric] w_def [symmetric] x_def [symmetric] z_def [symmetric]
    using a lt x0 assms by (cases "v < 0x10000") (auto simp: scalar_def tail_byte_def)
qed

lemma digit64: "z < 64 \<Longrightarrow> (64 * u + z) div 64 = (u :: nat) \<and> (64 * u + z) mod 64 = z"
  by simp

lemma scalar3: "x < 16 \<Longrightarrow> y < 64 \<Longrightarrow> z < 64 \<Longrightarrow> x = 13 \<longrightarrow> y < 32 \<Longrightarrow> scalar (64 * (64 * x + y) + z)"
  by (cases "x < 13"; cases "x = 13") (simp_all add: scalar_def)

lemma wf_enc:
  assumes "wf_seq (map ord s)"
  shows "\<exists>v. scalar v \<and> s = utf8_enc v"
proof -
  have enc: "s = utf8_enc v" if "map ord s = map ord (utf8_enc v)" for v using that by (rule map_ord_inject)
  consider (1) a where "map ord s = [a]" | (2) a b where "map ord s = [a, b]" |
    (3) a b c where "map ord s = [a, b, c]" | (4) a b c d where "map ord s = [a, b, c, d]"
    using assms by (cases "map ord s" rule: wf_seq.cases) auto
  then show ?thesis
  proof cases
    case 1
    then show ?thesis using assms enc [of a] by (auto simp: scalar_def utf8_enc_bytes intro!: exI [of _ a])
  next
    case 2
    define v where "v = 64 * (a - 0xC0) + (b - 0x80)"
    have r: "0xC2 \<le> a" "a \<le> 0xDF" "0x80 \<le> b" "b \<le> 0xBF" using assms 2 by (simp_all add: tail_byte_def)
    then have "v div 64 = a - 0xC0" "v mod 64 = b - 0x80" using digit64 [of "b - 0x80" "a - 0xC0"] by (simp_all add: v_def)
    moreover have "0x80 \<le> v" "v < 0x800" using r by (simp_all add: v_def)
    ultimately show ?thesis using enc [of v] r 2 by (auto simp: scalar_def utf8_enc_bytes intro!: exI [of _ v])
  next
    case 3
    define u v where "u = 64 * (a - 0xE0) + (b - 0x80)" and "v = 64 * u + (c - 0x80)"
    have r: "0xE0 \<le> a" "a \<le> 0xEF" "0x80 \<le> b" "b \<le> 0xBF" "0x80 \<le> c" "c \<le> 0xBF"
      "a = 0xE0 \<longrightarrow> 0xA0 \<le> b" "a = 0xED \<longrightarrow> b \<le> 0x9F" using assms 3 by (simp_all add: tail_byte_def)
    then have "v div 64 = u" "v mod 64 = c - 0x80" "u div 64 = a - 0xE0" "u mod 64 = b - 0x80"
      using digit64 [of "b - 0x80" "a - 0xE0"] digit64 [of "c - 0x80" u] by (simp_all add: u_def v_def)
    moreover have "v div 4096 = v div 64 div 64" by simp
    moreover have "scalar v" unfolding u_def v_def by (rule scalar3) (use r in auto)
    moreover have "0x800 \<le> v" "v < 0x10000" using r by (cases "a = 0xE0", auto simp: u_def v_def)
    ultimately show ?thesis using enc [of v] r 3 by (auto simp: utf8_enc_bytes intro!: exI [of _ v])
  next
    case 4
    define t u v where "t = 64 * (a - 0xF0) + (b - 0x80)" and "u = 64 * t + (c - 0x80)" and
      "v = 64 * u + (d - 0x80)"
    have r: "0xF0 \<le> a" "a \<le> 0xF4" "0x80 \<le> b" "b \<le> 0xBF" "0x80 \<le> c" "c \<le> 0xBF" "0x80 \<le> d" "d \<le> 0xBF"
      "a = 0xF0 \<longrightarrow> 0x90 \<le> b" "a = 0xF4 \<longrightarrow> b \<le> 0x8F" using assms 4 by (simp_all add: tail_byte_def)
    then have "v div 64 = u" "v mod 64 = d - 0x80" "u div 64 = t" "u mod 64 = c - 0x80" "t div 64 = a - 0xF0"
      "t mod 64 = b - 0x80"
      using digit64 [of "b - 0x80" "a - 0xF0"] digit64 [of "c - 0x80" t] digit64 [of "d - 0x80" u]
      by (simp_all add: t_def u_def v_def)
    moreover have "v div 4096 = v div 64 div 64" "v div 262144 = v div 64 div 64 div 64" by simp_all
    moreover have v: "0x10000 \<le> v" "v < 0x110000" "scalar v" using r by (auto simp: t_def u_def v_def scalar_def)
    ultimately show ?thesis using enc [of v] r 4 by (auto simp: utf8_enc_bytes intro!: exI [of _ v])
  qed
qed

subsection \<open>The step is exact\<close>

lemma utf8_rest_done [simp]: "need \<le> i \<Longrightarrow> utf8_rest need lo hi i s = int need"
  by (simp add: utf8_rest.simps)

lemma utf8_rest_cut [simp]: "i < need \<Longrightarrow> length s \<le> i \<Longrightarrow> utf8_rest need lo hi i s = - 1"
  by (simp add: utf8_rest.simps)

lemma utf8_rest_next:
  "i < need \<Longrightarrow> i < length s \<Longrightarrow> utf8_rest need lo hi i s =
     (let b = ord (s ! i); blo = (if i = 1 then lo else 0x80); bhi = (if i = 1 then hi else 0xBF) in
      if b < blo \<or> bhi < b then 0 else utf8_rest need lo hi (i + 1) s)"
  by (simp add: utf8_rest.simps)

text \<open>The lead byte fixes the length; the bytes after it are read from the list of what is left.\<close>

fun step_spec :: "nat list \<Rightarrow> int" where
  "step_spec [] = 0"
| "step_spec [a] = (if a < 0x80 then 1 else if a < 0xC2 \<or> 0xF4 < a then 0 else - 1)"
| "step_spec (a # b # bs) =
     (if a < 0x80 then 1
      else if a < 0xC2 \<or> 0xF4 < a then 0
      else if b < (if a = 0xE0 then 0xA0 else if a = 0xF0 then 0x90 else 0x80) \<or>
        (if a = 0xED then 0x9F else if a = 0xF4 then 0x8F else 0xBF) < b then 0
      else if a < 0xE0 then 2
      else
        (case bs of
           [] \<Rightarrow> - 1
         | c # cs \<Rightarrow>
             if \<not> tail_byte c then 0
             else if a < 0xF0 then 3
             else (case cs of [] \<Rightarrow> - 1 | d # _ \<Rightarrow> if \<not> tail_byte d then 0 else 4)))"

lemma step_spec: "eigs_utf8_step s = step_spec (map ord s)"
proof (cases s rule: remdups_adj.cases)
  case (3 x y xs)
  then show ?thesis
  proof (cases xs rule: remdups_adj.cases)
    case 1
    then show ?thesis using 3
      by (auto simp: eigs_utf8_step_def Let_def utf8_rest_next)
  next
    case (2 z)
    then show ?thesis using 3
      by (auto simp: eigs_utf8_step_def Let_def utf8_rest_next tail_byte_def not_less)
  next
    case (3 z w ws)
    then show ?thesis using \<open>s = x # y # xs\<close>
      by (auto simp: eigs_utf8_step_def Let_def utf8_rest_next tail_byte_def not_less)
  qed
qed (auto simp: eigs_utf8_step_def Let_def)


lemma step_ascii [simp]: "a < 0x80 \<Longrightarrow> step_spec (a # r) = 1"
  by (cases r) simp_all

lemma wf_step: "wf_seq w \<Longrightarrow> step_spec (w @ r) = int (length w)"
  by (cases w rule: wf_seq.cases) (auto simp: tail_byte_def)

lemma step_wf:
  assumes "step_spec bs = int n" and "0 < n"
  shows "n \<le> length bs \<and> wf_seq (take n bs)"
  using assms by (cases bs rule: wf_seq.cases) (auto simp: tail_byte_def not_less split: if_splits)

lemma step_cut:
  assumes "step_spec bs = - 1"
  shows "bs \<noteq> [] \<and> (\<exists>r. r \<noteq> [] \<and> wf_seq (bs @ r) \<and> (\<forall>b\<in>set r. b < 256))"
proof -
  define x where "x = (\<lambda>a :: nat. if a = 0xE0 then 0xA0 else if a = 0xF0 then 0x90 else 0x80 :: nat)"
  consider (1) a where "bs = [a]" "0xC2 \<le> a" "a \<le> 0xF4" | (2) a b where "bs = [a, b]" "0xE0 \<le> a" "a \<le> 0xF4" "tail_byte b"
      "a = 0xE0 \<longrightarrow> 0xA0 \<le> b" "a = 0xED \<longrightarrow> b \<le> 0x9F" "a = 0xF0 \<longrightarrow> 0x90 \<le> b" "a = 0xF4 \<longrightarrow> b \<le> 0x8F" |
    (3) a b c where "bs = [a, b, c]" "0xF0 \<le> a" "a \<le> 0xF4" "tail_byte b" "tail_byte c"
      "a = 0xF0 \<longrightarrow> 0x90 \<le> b" "a = 0xF4 \<longrightarrow> b \<le> 0x8F"
    using assms by (cases bs rule: wf_seq.cases) (auto simp: tail_byte_def not_less split: if_splits)
  then show ?thesis
  proof cases
    case 1
    have r: "?thesis" if "r \<noteq> []" "wf_seq (bs @ r)" "\<forall>b\<in>set r. b < 256" for r using that 1 by blast
    show ?thesis
      using 1 r [of "[x a]"] r [of "[x a, 0x80]"] r [of "[x a, 0x80, 0x80]"]
      by (cases "a < 0xE0"; cases "a < 0xF0") (auto simp: tail_byte_def x_def)
  next
    case 2
    then show ?thesis
      by (cases "a < 0xF0") (auto simp: tail_byte_def intro: exI [of _ "[0x80]"] exI [of _ "[0x80, 0x80]"])
  next
    case 3
    then show ?thesis by (auto simp: tail_byte_def intro: exI [of _ "[0x80]"])
  qed
qed

lemma cut_step: "bs \<noteq> [] \<Longrightarrow> r \<noteq> [] \<Longrightarrow> wf_seq (bs @ r) \<Longrightarrow> step_spec bs = - 1"
  by (cases "bs @ r" rule: wf_seq.cases) (auto simp: Cons_eq_append_conv append_eq_Cons_conv tail_byte_def)

lemma step_range: "step_spec bs \<in> {- 1 .. 4}"
  by (cases bs rule: wf_seq.cases) (auto split: list.splits)

text \<open>
  C23: \<open>eigs_utf8_step\<close> is exact. It answers \<open>n\<close> precisely when the input begins with the
  encoding of a Unicode scalar value, of length \<open>n\<close>; it answers -1 precisely when the
  input is not empty and is a proper prefix of such an encoding; otherwise 0.
\<close>
theorem utf8_step_exact:
  "(\<forall>n. (0 < n \<and> eigs_utf8_step s = int n) \<longleftrightarrow>
     (\<exists>v. scalar v \<and> n = length (utf8_enc v) \<and> take n s = utf8_enc v)) \<and>
   (eigs_utf8_step s = - 1 \<longleftrightarrow> s \<noteq> [] \<and> (\<exists>v r. scalar v \<and> r \<noteq> [] \<and> utf8_enc v = s @ r)) \<and>
   eigs_utf8_step s \<in> {- 1 .. 4}"
proof (intro conjI allI impI)
  fix n :: nat
  show "0 < n \<and> eigs_utf8_step s = int n \<longleftrightarrow>
      (\<exists>v. scalar v \<and> n = length (utf8_enc v) \<and> take n s = utf8_enc v)"
  proof
    assume n: "0 < n \<and> eigs_utf8_step s = int n"
    then have "n \<le> length s \<and> wf_seq (map ord (take n s))"
      using step_wf [of "map ord s" n] n by (simp add: step_spec take_map)
    then show "\<exists>v. scalar v \<and> n = length (utf8_enc v) \<and> take n s = utf8_enc v"
      using wf_enc [of "take n s"] by (metis length_take min.absorb2)
  next
    assume "\<exists>v. scalar v \<and> n = length (utf8_enc v) \<and> take n s = utf8_enc v"
    then obtain v where v: "scalar v" "n = length (utf8_enc v)" "take n s = utf8_enc v" by blast
    then have "wf_seq (map ord (take n s))" "length (take n s) = n" using enc_wf [OF v(1)] by simp_all
    moreover from this have "0 < n" by (cases n) auto
    ultimately show "0 < n \<and> eigs_utf8_step s = int n"
      using wf_step [of "map ord (take n s)" "map ord (drop n s)"]
      by (simp add: step_spec map_append [symmetric] del: map_append)
  qed
next
  show "eigs_utf8_step s = - 1 \<longleftrightarrow> s \<noteq> [] \<and> (\<exists>v r. scalar v \<and> r \<noteq> [] \<and> utf8_enc v = s @ r)"
  proof
    assume "eigs_utf8_step s = - 1"
    then obtain r where r: "s \<noteq> []" "r \<noteq> []" "wf_seq (map ord s @ r)" "\<forall>b\<in>set r. b < 256"
      using step_cut [of "map ord s"] by (auto simp: step_spec)
    then have "map ord s @ r = map ord (s @ map char_of r)" by (simp add: map_idI)
    then show "s \<noteq> [] \<and> (\<exists>v r. scalar v \<and> r \<noteq> [] \<and> utf8_enc v = s @ r)"
      using wf_enc [of "s @ map char_of r"] r by (metis Nil_is_map_conv)
  next
    assume "s \<noteq> [] \<and> (\<exists>v r. scalar v \<and> r \<noteq> [] \<and> utf8_enc v = s @ r)"
    then obtain v r where "s \<noteq> []" "scalar v" "r \<noteq> []" "utf8_enc v = s @ r" by blast
    then show "eigs_utf8_step s = - 1"
      using cut_step [of "map ord s" "map ord r"] enc_wf [of v] by (simp add: step_spec)
  qed
next
  show "eigs_utf8_step s \<in> {- 1 .. 4}" unfolding step_spec by (rule step_range)
qed

subsection \<open>The copy is valid UTF-8\<close>

definition chars :: "nat list \<Rightarrow> string" where
  "chars vs = concat (map utf8_enc vs)"

abbreviation scalars :: "nat list \<Rightarrow> bool" where
  "scalars vs \<equiv> \<forall>v\<in>set vs. scalar v"

lemma chars_simps [simp]: "chars [] = []" "chars (v # vs) = utf8_enc v @ chars vs" "chars (us @ vs) = chars us @ chars vs"
  by (simp_all add: chars_def)

lemma enc_length: "scalar v \<Longrightarrow> 0 < length (utf8_enc v) \<and> length (utf8_enc v) \<le> 4"
  by (simp add: utf8_enc_def)

lemma enc_shape: "scalar v \<Longrightarrow> \<exists>c cs. utf8_enc v = c # cs \<and> ord c \<notin> {0x80..0xBF} \<and> (\<forall>d\<in>set cs. ord d \<in> {0x80..0xBF})"
  using enc_wf [of v] by (cases "map ord (utf8_enc v)" rule: wf_seq.cases) (auto simp: tail_byte_def)

lemma step_enc: "scalar v \<Longrightarrow> eigs_utf8_step (utf8_enc v @ r) = int (length (utf8_enc v))"
  using utf8_rest_done wf_step [OF enc_wf, of v "map ord r"] by (simp add: step_spec)

lemma replacement_enc: "utf8_replacement = utf8_enc 0xFFFD" "scalar 0xFFFD"
  by (rule map_ord_inject) (simp_all add: utf8_replacement_def utf8_enc_bytes scalar_def ord_def)

lemma step_pos:
  assumes "0 < eigs_utf8_step s"
  shows "\<exists>v. scalar v \<and> take (nat (eigs_utf8_step s)) s = utf8_enc v \<and> nat (eigs_utf8_step s) \<le> length s"
proof -
  define n where "n = nat (eigs_utf8_step s)"
  have n: "step_spec (map ord s) = int n" "0 < n" using assms by (simp_all add: n_def step_spec)
  show ?thesis
    using step_wf [OF n] wf_enc [of "take n s"] unfolding n_def [symmetric] by (auto simp: take_map)
qed

lemma copy_valid:
  assumes "scalars ws" and "dst = chars ws" and "length dst \<le> hard"
  shows "\<exists>us b. scalars us \<and> utf8_copy hard s dst = (chars us, b) \<and> length (chars us) \<le> hard"
  using assms
proof (induction "length s" arbitrary: s dst ws rule: less_induct)
  case less
  define st where "st = eigs_utf8_step s"
  define w where "w = (if 0 < st then nat st else 3)"
  define c where "c = (if 0 < st then take w s else utf8_replacement)"
  show ?case
  proof (cases "s = [] \<or> st < 0 \<or> hard < length dst + w")
    case True
    then show ?thesis
      using less.prems by (auto simp: utf8_copy.simps [of hard s] Let_def st_def [symmetric] w_def [symmetric])
  next
    case False
    have "\<exists>v. scalar v \<and> c = utf8_enc v \<and> length c = w"
    proof (cases "0 < st")
      case True
      then obtain v where v: "scalar v" "take (nat st) s = utf8_enc v" "nat st \<le> length s"
        using step_pos [of s] by (auto simp: st_def)
      then have "length (utf8_enc v) = nat st" by (metis length_take min.absorb2)
      then show ?thesis using v(1,2) True by (auto simp: c_def w_def)
    next
      case False
      then have "c = utf8_enc 0xFFFD" "length c = w"
        by (simp add: c_def replacement_enc(1)) (simp add: c_def w_def utf8_replacement_def False)
      then show ?thesis using replacement_enc(2) by blast
    qed
    then obtain v where v: "scalar v" "c = utf8_enc v" "length c = w" by blast
    have "utf8_copy hard s dst = utf8_copy hard (drop (if 0 < st then nat st else 1) s) (dst @ c)"
      using False
      by (simp only: utf8_copy.simps [of hard s dst] Let_def st_def [symmetric] w_def [symmetric] c_def [symmetric]) simp
    moreover have "scalars (ws @ [v])" "dst @ c = chars (ws @ [v])" "length (dst @ c) \<le> hard"
      using less.prems v False by auto
    moreover have "length (drop (if 0 < st then nat st else 1) s) < length s" using False by auto
    ultimately show ?thesis using less.hyps by metis
  qed
qed

lemma copy_enc:
  "scalar v \<Longrightarrow> utf8_copy hard (utf8_enc v @ r) dst =
     (if hard < length dst + length (utf8_enc v) then (dst, True) else utf8_copy hard r (dst @ utf8_enc v))"
  using enc_length [of v] by (auto simp: utf8_copy.simps [of hard "utf8_enc v @ r"] step_enc Let_def)

lemma copy_fits:
  "scalars vs \<Longrightarrow> length dst + length (chars vs) \<le> hard \<Longrightarrow> utf8_copy hard (chars vs) dst = (dst @ chars vs, False)"
proof (induction vs arbitrary: dst)
  case (Cons v vs)
  then show ?case using copy_enc [of v hard "chars vs" dst] by simp
qed (simp add: utf8_copy.simps)

lemma copy_clips:
  "scalars vs \<Longrightarrow> length dst \<le> hard \<Longrightarrow> hard < length dst + length (chars vs) \<Longrightarrow>
     \<exists>k < length vs. utf8_copy hard (chars vs) dst = (dst @ chars (take k vs), True) \<and>
       hard < length dst + length (chars (take (Suc k) vs))"
proof (induction vs arbitrary: dst)
  case (Cons v vs)
  show ?case
  proof (cases "hard < length dst + length (utf8_enc v)")
    case True
    then show ?thesis using Cons.prems copy_enc [of v hard "chars vs" dst] by (intro exI [of _ 0]) simp
  next
    case False
    then obtain k where "k < length vs" "utf8_copy hard (chars vs) (dst @ utf8_enc v) = (dst @ utf8_enc v @ chars (take k vs), True)"
      "hard < length dst + length (utf8_enc v) + length (chars (take (Suc k) vs))"
      using Cons.IH [of "dst @ utf8_enc v"] Cons.prems by auto
    then show ?thesis using False Cons.prems copy_enc [of v hard "chars vs" dst] by (intro exI [of _ "Suc k"]) simp
  qed
qed simp

lemma utf8_is_cont: "utf8_is_cont c \<longleftrightarrow> ord c \<in> {0x80..0xBF}"
proof -
  have "m AND push_bit 6 k = push_bit 6 (drop_bit 6 m AND k)" for m k :: nat
    by (rule bit_eqI) (auto simp: bit_simps)
  from this [of "ord c" 3] have "ord c AND 0xC0 = push_bit 6 (drop_bit 6 (ord c) AND 3)" by simp
  moreover have "drop_bit 6 (ord c) AND 3 = take_bit 2 (drop_bit 6 (ord c))"
    by (simp add: take_bit_eq_mask mask_eq_exp_minus_1)
  moreover have "ord c div 64 < 4" by (simp add: div_less_iff_less_mult)
  ultimately have "ord c AND 0xC0 = 64 * (ord c div 64)"
    by (simp add: drop_bit_eq_div push_bit_eq_mult take_bit_eq_mod)
  moreover have "ord c div 64 = 2 \<longleftrightarrow> ord c \<in> {0x80..0xBF}"
    by (auto intro: div_nat_eqI)
  ultimately show ?thesis by (simp add: utf8_is_cont_def)
qed

lemma lead_conts:
  "\<forall>d\<in>set cs. utf8_is_cont d \<Longrightarrow> \<not> utf8_is_cont c \<Longrightarrow>
     utf8_lead (P @ c # cs @ R) (length P + length cs) = length P"
proof (induction cs arbitrary: R rule: rev_induct)
  case Nil
  then show ?case by (cases "length P") (simp_all add: nth_append)
next
  case (snoc d cs)
  have "(P @ c # (cs @ [d]) @ R) ! Suc (length P + length cs) = d" by (simp add: nth_append)
  then show ?case using snoc.IH [of "d # R"] snoc.prems by simp
qed

lemma lead_enc: "scalar v \<Longrightarrow> utf8_lead (P @ utf8_enc v @ R) (length P + length (utf8_enc v) - 1) = length P"
proof -
  assume "scalar v"
  then obtain c cs where c: "utf8_enc v = c # cs" "\<not> utf8_is_cont c" "\<forall>d\<in>set cs. utf8_is_cont d"
    using enc_shape [of v] by (auto simp: utf8_is_cont)
  then show ?thesis using lead_conts [OF c(3,2), of P R] by simp
qed

lemma back_chars:
  "scalars ws \<Longrightarrow> \<exists>j \<le> length ws. utf8_back room (chars ws @ R) (length (chars ws)) = length (chars (take j ws)) \<and>
     length (chars (take j ws)) \<le> room \<and> (j < length ws \<longrightarrow> room < length (chars (take (Suc j) ws)))"
proof (induction ws arbitrary: R rule: rev_induct)
  case Nil
  then show ?case by (simp add: utf8_back.simps)
next
  case (snoc v ws)
  show ?case
  proof (cases "room < length (chars (ws @ [v]))")
    case True
    then have b: "utf8_back room (chars (ws @ [v]) @ R) (length (chars (ws @ [v]))) =
        utf8_back room (chars ws @ utf8_enc v @ R) (length (chars ws))"
      using lead_enc [of v "chars ws" R] snoc.prems by (subst utf8_back.simps) simp
    obtain j where j: "j \<le> length ws" "utf8_back room (chars ws @ utf8_enc v @ R) (length (chars ws)) = length (chars (take j ws))"
      "length (chars (take j ws)) \<le> room" "j < length ws \<longrightarrow> room < length (chars (take (Suc j) ws))"
      using snoc.IH [of "utf8_enc v @ R"] snoc.prems by auto
    show ?thesis
    proof (intro exI [of _ j] conjI impI)
      show "room < length (chars (take (Suc j) (ws @ [v])))"
        using j(1,4) True by (cases "j < length ws") simp_all
    qed (use b j in simp_all)
  next
    case False
    then show ?thesis by (intro exI [of _ "length (ws @ [v])"]) (simp add: utf8_back.simps)
  qed
qed

text \<open>
  C24: whatever bytes it is given, \<open>eigs_utf8_sanitize\<close> writes valid UTF-8 that fits its
  buffer. Valid input that fits is copied unchanged; valid input that does not fit is cut
  on a character boundary, as late as the mark \<open>...\<close> allows.
\<close>
theorem sanitize_valid_utf8:
  assumes "0 < cap"
  shows "\<exists>us t. eigs_utf8_sanitize cap (Some s) = Some t \<and> scalars us \<and> t = chars us \<and> length t < cap \<and>
     (\<forall>vs. scalars vs \<and> s = chars vs \<longrightarrow>
        (if length s < cap then t = s
         else if cap < 5 then t = []
         else \<exists>k < length vs. t = chars (take k vs) @ ''...'' \<and> cap - 4 < length (chars (take (Suc k) vs))))"
proof -
  obtain us b where us: "scalars us" "utf8_copy (cap - 1) s [] = (chars us, b)" "length (chars us) \<le> cap - 1"
    using copy_valid [of "[]" "[]" "cap - 1" s] by auto
  have dots: "''...'' = chars [46, 46, 46]" "scalars [46, 46, 46]"
    by (rule map_ord_inject) (simp_all add: utf8_enc_bytes scalar_def ord_def)
  obtain j where j: "j \<le> length us" "utf8_back (cap - 4) (chars us) (length (chars us)) = length (chars (take j us))"
    "length (chars (take j us)) \<le> cap - 4" "j < length us \<longrightarrow> cap - 4 < length (chars (take (Suc j) us))"
    using back_chars [OF us(1), of "cap - 4" "[]"] by auto
  have pre: "take (length (chars (take j us))) (chars us) = chars (take j us)"
    by (metis append_eq_conv_conj append_take_drop_id chars_simps(3))
  define t where "t = (if \<not> b then chars us else if cap < 5 then [] else chars (take j us) @ ''...'')"
  have san: "eigs_utf8_sanitize cap (Some s) = Some t"
    using assms us(2) j(2) pre by (simp add: eigs_utf8_sanitize_def t_def)
  have "\<exists>us'. scalars us' \<and> t = chars us'"
  proof -
    have "scalars (take j us @ [46, 46, 46])" using us(1) dots(2) by (auto dest: in_set_takeD)
    moreover have "chars (take j us) @ ''...'' = chars (take j us @ [46, 46, 46])" unfolding dots(1) by simp
    moreover have "scalars []" "[] = chars []" by simp_all
    ultimately show ?thesis using us(1) unfolding t_def by metis
  qed
  moreover have "length t < cap" using us(3) j(3) assms by (auto simp: t_def)
  moreover have "if length s < cap then t = s
         else if cap < 5 then t = []
         else \<exists>k < length vs. t = chars (take k vs) @ ''...'' \<and> cap - 4 < length (chars (take (Suc k) vs))"
    if vs: "scalars vs" "s = chars vs" for vs
  proof (cases "length s < cap")
    case True
    then show ?thesis using copy_fits [OF vs(1), of "[]" "cap - 1"] us(2) vs(2) by (simp add: t_def)
  next
    case False
    have over: "cap - 1 < length (chars vs)" using False assms vs(2) by simp
    obtain k where k: "k < length vs" "(chars us, b) = (chars (take k vs), True)"
      "cap - 1 < length (chars (take (Suc k) vs))"
      using copy_clips [OF vs(1), of "[]" "cap - 1"] us(2) vs(2) over by auto
    have sk: "scalars (take k vs)" using vs(1) by (meson in_set_takeD)
    obtain i where i: "i \<le> k" "utf8_back (cap - 4) (chars (take k vs)) (length (chars (take k vs))) = length (chars (take i vs))"
      "length (chars (take i vs)) \<le> cap - 4" "i < k \<longrightarrow> cap - 4 < length (chars (take (Suc i) vs))"
      using back_chars [OF sk, of "cap - 4" "[]"] k(1) by (auto simp: min_def split: if_splits)
    have "length (chars (take j us)) = length (chars (take i vs))" using j(2) i(2) k(2) by simp
    moreover have "take (length (chars (take i vs))) (chars (take k vs)) = chars (take i vs)"
      using i(1) by (metis append_eq_conv_conj append_take_drop_id chars_simps(3) min.absorb1 take_take)
    ultimately have "chars (take j us) = chars (take i vs)" using pre k(2) by simp
    then show ?thesis
      using False k i by (cases "i < k") (auto simp: t_def intro: exI [of _ i] exI [of _ k])
  qed
  ultimately show ?thesis using san by blast
qed

lemma sanitize_valid_utf8_witness:
  "\<exists>us t. eigs_utf8_sanitize 6 (Some [CHR 0xC3, CHR 0xA9, CHR 0xFF]) = Some t \<and> scalars us \<and> t = chars us \<and> length t < 6"
  using sanitize_valid_utf8 [of 6 "[CHR 0xC3, CHR 0xA9, CHR 0xFF]"] by (metis zero_less_numeral)

end
