(* ===== verification/Eigs_Strbuf.thy ===== *)
theory Eigs_Strbuf
  imports Eigs_Sandbox
begin

text \<open>
  The growable string buffer (\<open>src/strbuf.c\<close>). The bytes before \<open>len\<close> are a string, and
  the terminator is not stored; lengths and capacities are of type \<open>size_t\<close>. An
  allocation succeeds or ends the process, and growth is charged to the sandbox.
\<close>

subsection \<open>Operations\<close>

definition STRBUF_INIT_CAP :: u64 where
  "STRBUF_INIT_CAP = 64"

record strbuf =
  sb_data :: string
  sb_len :: u64
  sb_cap :: u64
  sb_poisoned :: bool

definition strbuf_init :: strbuf where
  "strbuf_init = \<lparr>sb_data = [], sb_len = 0, sb_cap = STRBUF_INIT_CAP, sb_poisoned = False\<rparr>"

text \<open>Doubling, up to half of the range; each round at least doubles, so 64 rounds are enough.\<close>

fun strbuf_double :: "nat \<Rightarrow> u64 \<Rightarrow> u64 \<Rightarrow> u64" where
  "strbuf_double 0 required new_cap = new_cap"
| "strbuf_double (Suc n) required new_cap =
     (if new_cap < required
      then if - 1 div 2 < new_cap then required else strbuf_double n required (new_cap * 2)
      else new_cap)"

definition strbuf_reserve :: "u64 \<Rightarrow> strbuf \<times> sandbox \<Rightarrow> strbuf \<times> sandbox" where
  "strbuf_reserve need bs =
     (case bs of (b, sb) \<Rightarrow>
      if sb_poisoned b then (b, sb)
      else
        let required = sb_len b + need + 1 in
        if required \<le> sb_cap b then (b, sb)
        else
          let new_cap = strbuf_double 64 required (if sb_cap b \<noteq> 0 then sb_cap b else STRBUF_INIT_CAP) in
          (case sandbox_charge (new_cap - sb_cap b) sb of
             (True, sb') \<Rightarrow> (b\<lparr>sb_cap := new_cap\<rparr>, sb')
           | (False, sb') \<Rightarrow> (b\<lparr>sb_poisoned := True\<rparr>, sb')))"

text \<open>Writing \<open>n\<close> bytes at \<open>len\<close>: what was behind them is overwritten by the terminator.\<close>

definition strbuf_write :: "string \<Rightarrow> strbuf \<Rightarrow> strbuf" where
  "strbuf_write s b = b\<lparr>sb_data := sb_data b @ s, sb_len := sb_len b + of_nat (length s)\<rparr>"

definition strbuf_append_char :: "char \<Rightarrow> strbuf \<times> sandbox \<Rightarrow> strbuf \<times> sandbox" where
  "strbuf_append_char c bs =
     (case strbuf_reserve 1 bs of (b, sb) \<Rightarrow> if sb_poisoned b then (b, sb) else (strbuf_write [c] b, sb))"

definition strbuf_append_n :: "string \<Rightarrow> strbuf \<times> sandbox \<Rightarrow> strbuf \<times> sandbox" where
  "strbuf_append_n s bs =
     (if s = [] then bs
      else case strbuf_reserve (of_nat (length s)) bs of (b, sb) \<Rightarrow>
        if sb_poisoned b \<or> sb_cap b < sb_len b + of_nat (length s) + 1 then (b, sb)
        else (strbuf_write s b, sb))"

definition strbuf_append :: "string option \<Rightarrow> strbuf \<times> sandbox \<Rightarrow> strbuf \<times> sandbox" where
  "strbuf_append s bs = (case s of None \<Rightarrow> bs | Some s \<Rightarrow> strbuf_append_n s bs)"

text \<open>The text \<open>vsnprintf\<close> makes of the format and its arguments, or its error.\<close>

definition strbuf_append_fmt :: "string option \<Rightarrow> strbuf \<times> sandbox \<Rightarrow> strbuf \<times> sandbox" where
  "strbuf_append_fmt formatted bs =
     (case formatted of
        None \<Rightarrow> bs
      | Some s \<Rightarrow>
          (case strbuf_reserve (of_nat (length s)) bs of (b, sb) \<Rightarrow>
             if sb_poisoned b \<or> sb_cap b < sb_len b + of_nat (length s) + 1 then (b, sb)
             else (strbuf_write s b, sb)))"

text \<open>The buffer becomes a string of the program, and what it holds beyond its charged growth is charged.\<close>

definition strbuf_finish :: "strbuf \<times> sandbox \<Rightarrow> string \<times> sandbox" where
  "strbuf_finish bs =
     (case bs of (b, sb) \<Rightarrow>
      let charged = (if STRBUF_INIT_CAP \<le> sb_cap b then sb_cap b - STRBUF_INIT_CAP else 0);
          payload = sb_len b + 1 in
      (sb_data b,
       if \<not> sb_poisoned b \<and> charged < payload then snd (sandbox_charge (payload - charged) sb) else sb))"

definition strbuf_free :: "strbuf \<Rightarrow> strbuf" where
  "strbuf_free b = b\<lparr>sb_data := [], sb_len := 0, sb_cap := 0\<rparr>"

subsection \<open>Growth\<close>

lemma double_ok:
  "64 \<le> unat c \<Longrightarrow> unat c < 2 ^ 63 \<Longrightarrow> unat required \<le> 2 ^ 62 \<Longrightarrow> unat required \<le> unat c * 2 ^ n \<Longrightarrow>
     unat required \<le> unat (strbuf_double n required c) \<and> unat c \<le> unat (strbuf_double n required c) \<and>
     unat (strbuf_double n required c) < 2 ^ 63"
proof (induction n arbitrary: c)
  case 0
  then show ?case by simp
next
  case (Suc n)
  show ?case
  proof (cases "c < required")
    case True
    then have "unat c < 2 ^ 62" using Suc.prems(3) by (simp add: word_less_nat_alt)
    then have c2: "unat (c * 2) = 2 * unat c" by (simp add: unat_word_ariths)
    have "unat (- 1 div 2 :: u64) = 2 ^ 63 - 1" by (simp add: unat_div)
    then have "\<not> - 1 div 2 < c" using Suc.prems(2) by (simp add: word_less_nat_alt)
    then show ?thesis
      using True Suc.IH [of "c * 2"] Suc.prems c2 \<open>unat c < 2 ^ 62\<close> by simp
  next
    case False
    then show ?thesis using Suc.prems(2) by (simp add: word_less_nat_alt)
  qed
qed

definition sb_ok :: "strbuf \<Rightarrow> bool" where
  "sb_ok b \<longleftrightarrow> sb_len b = of_nat (length (sb_data b)) \<and> length (sb_data b) < unat (sb_cap b) \<and>
     64 \<le> unat (sb_cap b) \<and> unat (sb_cap b) < 2 ^ 63"

text \<open>What the sandbox was charged: the growth of the buffer.\<close>

definition charged_to :: "sandbox \<Rightarrow> nat \<Rightarrow> sandbox \<Rightarrow> bool" where
  "charged_to sb0 n sb \<longleftrightarrow>
     (sandbox_armed sb0 \<and> sandbox_ok sb0 \<longrightarrow>
        sandbox_armed sb \<and> sandbox_ok sb \<and> unat (g_sandbox_bytes_used sb) = unat (g_sandbox_bytes_used sb0) + n)"

lemma charge_accepted:
  "charged_to sb0 n sb \<Longrightarrow> sandbox_charge bytes sb = (True, sb') \<Longrightarrow> charged_to sb0 (n + unat bytes) sb'"
  using charge_step [of sb bytes] by (auto simp: charged_to_def)

lemma charge_refused: "sandbox_charge bytes sb = (False, sb') \<Longrightarrow> sb_refused sb'"
  by (auto simp: sandbox_charge_def split: if_splits)

lemma strbuf_reserve_ok:
  assumes "sb_ok b" and "\<not> sb_poisoned b" and "length (sb_data b) + unat need + 1 \<le> 2 ^ 62"
    and "charged_to sb0 (unat (sb_cap b) - 64) sb" and "strbuf_reserve need (b, sb) = (b', sb')"
  shows "sb_data b' = sb_data b \<and> sb_len b' = sb_len b \<and> sb_ok b' \<and>
     (sb_poisoned b' \<longrightarrow> sb_refused sb') \<and>
     (\<not> sb_poisoned b' \<longrightarrow> length (sb_data b) + unat need < unat (sb_cap b') \<and> charged_to sb0 (unat (sb_cap b') - 64) sb')"
proof -
  let ?req = "sb_len b + need + 1"
  have len: "unat (sb_len b) = length (sb_data b)"
    using assms(1,3) by (simp add: sb_ok_def unat_of_nat take_bit_nat_eq_self)
  have "unat (sb_len b + need) = unat (sb_len b) + unat need"
    using assms(3) len by (intro unat_add_lem [THEN iffD1]) simp
  then have req: "unat ?req = length (sb_data b) + unat need + 1"
    using assms(3) len by (subst unat_add_lem [THEN iffD1]) simp_all
  show ?thesis
  proof (cases "?req \<le> sb_cap b")
    case True
    then have "length (sb_data b) + unat need < unat (sb_cap b)" using req by (simp add: word_le_nat_alt)
    then show ?thesis using True assms by (auto simp: strbuf_reserve_def)
  next
    case False
    define nc where "nc = strbuf_double 64 ?req (sb_cap b)"
    have cap: "sb_cap b \<noteq> 0" "64 \<le> unat (sb_cap b)" "unat (sb_cap b) < 2 ^ 63"
      using assms(1) by (auto simp: sb_ok_def)
    have nc: "unat ?req \<le> unat nc" "unat (sb_cap b) \<le> unat nc" "unat nc < 2 ^ 63"
      using double_ok [OF cap(2,3), of ?req 64] req assms(3) cap(2) by (simp_all add: nc_def)
    have diff: "unat (nc - sb_cap b) = unat nc - unat (sb_cap b)"
      using nc(2) by (simp add: unat_sub word_le_nat_alt)
    have r: "strbuf_reserve need (b, sb) =
        (case sandbox_charge (nc - sb_cap b) sb of
             (True, sb') \<Rightarrow> (b\<lparr>sb_cap := nc\<rparr>, sb') | (False, sb') \<Rightarrow> (b\<lparr>sb_poisoned := True\<rparr>, sb'))"
      using False assms(2) cap(1) by (simp add: strbuf_reserve_def Let_def nc_def [symmetric])
    obtain ok sb1 where c: "sandbox_charge (nc - sb_cap b) sb = (ok, sb1)" by (metis surj_pair)
    show ?thesis
    proof (cases ok)
      case True
      have "unat nc - 64 = (unat (sb_cap b) - 64) + unat (nc - sb_cap b)" using diff nc(2) cap(2) by simp
      then have "charged_to sb0 (unat nc - 64) sb1" using charge_accepted [OF assms(4)] c True by simp
      then show ?thesis using assms r c True nc req by (auto simp: sb_ok_def)
    next
      case False
      then show ?thesis using assms r c charge_refused by (auto simp: sb_ok_def)
    qed
  qed
qed

subsection \<open>A buffer is its text\<close>

datatype sb_op = SB_char char | SB_n string | SB_str "string option" | SB_fmt "string option"

fun sb_step :: "sb_op \<Rightarrow> strbuf \<times> sandbox \<Rightarrow> strbuf \<times> sandbox" where
  "sb_step (SB_char c) bs = strbuf_append_char c bs"
| "sb_step (SB_n s) bs = strbuf_append_n s bs"
| "sb_step (SB_str s) bs = strbuf_append s bs"
| "sb_step (SB_fmt s) bs = strbuf_append_fmt s bs"

fun op_text :: "sb_op \<Rightarrow> string" where
  "op_text (SB_char c) = [c]"
| "op_text (SB_n s) = s"
| "op_text (SB_str s) = (case s of None \<Rightarrow> [] | Some s \<Rightarrow> s)"
| "op_text (SB_fmt s) = (case s of None \<Rightarrow> [] | Some s \<Rightarrow> s)"

definition texts :: "sb_op list \<Rightarrow> string" where
  "texts ops = concat (map op_text ops)"

text \<open>What every sequence of appends keeps; \<open>t\<close> is the text asked for so far.\<close>

definition sb_inv :: "sandbox \<Rightarrow> string \<Rightarrow> strbuf \<times> sandbox \<Rightarrow> bool" where
  "sb_inv sb0 t bs \<longleftrightarrow>
     (case bs of (b, sb) \<Rightarrow>
        sb_ok b \<and> (\<exists>r. t = sb_data b @ r) \<and>
        (sb_poisoned b \<longrightarrow> sb_refused sb) \<and>
        (\<not> sb_poisoned b \<longrightarrow> sb_data b = t \<and> charged_to sb0 (unat (sb_cap b) - 64) sb))"

lemma reserve_poisoned: "sb_poisoned b \<Longrightarrow> strbuf_reserve n (b, sb) = (b, sb)"
  by (simp add: strbuf_reserve_def)

lemma room_word:
  assumes "sb_len b = of_nat (length (sb_data b))" and "length (sb_data b) + n < unat (sb_cap b)"
  shows "\<not> sb_cap b < sb_len b + of_nat n + 1"
proof -
  have "sb_len b + of_nat n + 1 = of_nat (length (sb_data b) + n + 1)" using assms(1) by simp
  moreover have "length (sb_data b) + n + 1 < 2 ^ 64"
    using assms(2) unsigned_less [of "sb_cap b", where ?'a = nat] by simp
  then have "unat (of_nat (length (sb_data b) + n + 1) :: u64) = length (sb_data b) + n + 1"
    by (simp add: unat_of_nat take_bit_nat_eq_self del: of_nat_add of_nat_Suc)
  ultimately show ?thesis using assms(2) by (simp add: word_less_nat_alt add_ac)
qed

text \<open>Reserving room for a text: the room is there, or the buffer is poisoned and the sandbox refused.\<close>

lemma reserve_inv:
  assumes "sb_inv sb0 t (b, sb)" and "length (t @ s) < 2 ^ 62"
    and "strbuf_reserve (of_nat (length s)) (b, sb) = (b', sb')"
  shows "if sb_poisoned b' then sb_inv sb0 (t @ s) (b', sb')
     else \<not> sb_cap b' < sb_len b' + of_nat (length s) + 1 \<and> sb_inv sb0 (t @ s) (strbuf_write s b', sb')"
proof (cases "sb_poisoned b")
  case True
  then show ?thesis using assms(1,3) by (auto simp: reserve_poisoned sb_inv_def)
next
  case False
  then have i: "sb_ok b" "sb_data b = t" "charged_to sb0 (unat (sb_cap b) - 64) sb"
    using assms(1) by (auto simp: sb_inv_def)
  have n: "unat (of_nat (length s) :: u64) = length s"
    using assms(2) by (simp add: unat_of_nat take_bit_nat_eq_self)
  have "length (sb_data b) + unat (of_nat (length s) :: u64) + 1 \<le> 2 ^ 62" using assms(2) i(2) n by simp
  from strbuf_reserve_ok [OF i(1) False this i(3) assms(3)] have b': "sb_data b' = t" "sb_len b' = sb_len b" "sb_ok b'"
    "sb_poisoned b' \<Longrightarrow> sb_refused sb'"
    "\<not> sb_poisoned b' \<Longrightarrow> length t + length s < unat (sb_cap b') \<and> charged_to sb0 (unat (sb_cap b') - 64) sb'"
    using i(2) n by auto
  show ?thesis
  proof (cases "sb_poisoned b'")
    case True
    then show ?thesis using b' by (simp add: sb_inv_def)
  next
    case False
    have "\<not> sb_cap b' < sb_len b' + of_nat (length s) + 1"
      using room_word [of b' "length s"] b' False by (simp add: sb_ok_def)
    then show ?thesis using b' False by (simp add: sb_inv_def sb_ok_def strbuf_write_def)
  qed
qed

lemma step_inv:
  assumes "sb_inv sb0 t bs" and "length (t @ op_text x) < 2 ^ 62"
  shows "sb_inv sb0 (t @ op_text x) (sb_step x bs)"
proof -
  obtain b sb where bs: "bs = (b, sb)" by (cases bs)
  obtain b' sb' where r: "strbuf_reserve (of_nat (length (op_text x))) (b, sb) = (b', sb')" by (metis surj_pair)
  note inv = reserve_inv [OF assms(1) [unfolded bs] assms(2) r]
  show ?thesis
  proof (cases x)
    case (SB_char c)
    then show ?thesis using inv r bs by (simp add: strbuf_append_char_def split: if_splits)
  next
    case (SB_n s)
    then show ?thesis using inv r bs assms(1) by (simp add: strbuf_append_n_def split: if_splits)
  next
    case (SB_str s)
    then show ?thesis
      using inv r bs assms(1)
      by (cases s) (simp_all add: strbuf_append_def strbuf_append_n_def split: if_splits)
  next
    case (SB_fmt s)
    then show ?thesis
      using inv r bs assms(1) by (cases s) (simp_all add: strbuf_append_fmt_def split: if_splits)
  qed
qed

lemma run_inv_sb:
  "sb_inv sb0 t bs \<Longrightarrow> length (t @ texts ops) < 2 ^ 62 \<Longrightarrow> sb_inv sb0 (t @ texts ops) (fold sb_step ops bs)"
proof (induction ops arbitrary: t bs)
  case (Cons x ops)
  then show ?case using step_inv [of sb0 t bs x] Cons.IH [of "t @ op_text x" "sb_step x bs"] by (simp add: texts_def)
qed (simp add: texts_def)

lemma sb_inv_init: "sb_inv sb0 [] (strbuf_init, sb0)"
  by (simp add: sb_inv_def strbuf_init_def sb_ok_def charged_to_def STRBUF_INIT_CAP_def)

text \<open>
  C25: after any appends the buffer holds their concatenation, with room for the terminator
  in its capacity; or the sandbox has refused a growth, and it holds a prefix of that text.
  In an armed sandbox a finished string has been charged once: the growth of the buffer,
  or the string with its terminator where that is more, unless the sandbox refused.
\<close>
theorem strbuf_is_concatenation:
  assumes "length (texts ops) < 2 ^ 62" and "fold sb_step ops (strbuf_init, sb0) = (b, sb)"
  shows "sb_len b = of_nat (length (sb_data b)) \<and> length (sb_data b) < unat (sb_cap b) \<and>
     (if sb_poisoned b then sb_refused sb \<and> (\<exists>r. texts ops = sb_data b @ r)
      else sb_data b = texts ops) \<and>
     (let (s, sb') = strbuf_finish (b, sb) in
      s = sb_data b \<and>
      (sandbox_armed sb0 \<and> sandbox_ok sb0 \<longrightarrow> sb_refused sb' \<or>
         unat (g_sandbox_bytes_used sb') =
           unat (g_sandbox_bytes_used sb0) + max (unat (sb_cap b) - 64) (length s + 1)))"
proof -
  have inv: "sb_inv sb0 (texts ops) (b, sb)"
    using run_inv_sb [OF sb_inv_init, of ops sb0] assms by simp
  then have ok: "sb_ok b" by (simp add: sb_inv_def)
  define charged where "charged = sb_cap b - STRBUF_INIT_CAP"
  have cap: "64 \<le> unat (sb_cap b)" using ok by (simp add: sb_ok_def)
  then have ch: "STRBUF_INIT_CAP \<le> sb_cap b" "unat charged = unat (sb_cap b) - 64"
    by (simp_all add: STRBUF_INIT_CAP_def word_le_nat_alt charged_def unat_sub)
  have pay: "unat (sb_len b + 1) = length (sb_data b) + 1"
  proof -
    have "length (sb_data b) + 1 < 2 ^ 64" using ok by (simp add: sb_ok_def)
    moreover have "sb_len b + 1 = of_nat (length (sb_data b) + 1)" using ok by (simp add: sb_ok_def)
    ultimately show ?thesis by (simp add: unat_of_nat take_bit_nat_eq_self del: of_nat_add of_nat_Suc)
  qed
  have fin: "strbuf_finish (b, sb) = (sb_data b,
      if \<not> sb_poisoned b \<and> charged < sb_len b + 1 then snd (sandbox_charge (sb_len b + 1 - charged) sb) else sb)"
    using ch(1) by (simp add: strbuf_finish_def charged_def)
  have "sb_refused (snd (strbuf_finish (b, sb))) \<or> unat (g_sandbox_bytes_used (snd (strbuf_finish (b, sb)))) =
      unat (g_sandbox_bytes_used sb0) + max (unat (sb_cap b) - 64) (length (sb_data b) + 1)"
    if "sandbox_armed sb0 \<and> sandbox_ok sb0"
  proof (cases "sb_poisoned b")
    case True
    then show ?thesis using inv fin by (simp add: sb_inv_def)
  next
    case False
    then have c: "charged_to sb0 (unat (sb_cap b) - 64) sb" using inv by (simp add: sb_inv_def)
    show ?thesis
    proof (cases "charged < sb_len b + 1")
      case True
      obtain ok sb1 where sc: "sandbox_charge (sb_len b + 1 - charged) sb = (ok, sb1)" by (metis surj_pair)
      have "unat (sb_len b + 1 - charged) = length (sb_data b) + 1 - (unat (sb_cap b) - 64)"
        using True pay ch(2) by (simp add: unat_sub)
      then show ?thesis
        using charge_accepted [OF c] charge_refused sc that True False fin pay ch(2)
        by (cases ok) (auto simp: charged_to_def word_less_nat_alt)
    next
      case False
      then show ?thesis using c that fin pay ch(2) by (auto simp: charged_to_def word_less_nat_alt)
    qed
  qed
  then show ?thesis using inv ok fin by (auto simp: sb_inv_def sb_ok_def split_def)
qed

lemma strbuf_is_concatenation_witness:
  "sb_data (fst (fold sb_step [SB_char CHR ''a'', SB_str (Some ''bc''), SB_n []]
     (strbuf_init, \<lparr>sb_attached = False, g_sandbox_active = False, g_sandbox_byte_max = 0,
        g_sandbox_bytes_used = 0, sb_refused = False\<rparr>))) = ''abc''"
proof -
  let ?ops = "[SB_char CHR ''a'', SB_str (Some ''bc''), SB_n []]" and
    ?sb = "\<lparr>sb_attached = False, g_sandbox_active = False, g_sandbox_byte_max = 0, g_sandbox_bytes_used = 0, sb_refused = False\<rparr>"
  obtain b sb where r: "fold sb_step ?ops (strbuf_init, ?sb) = (b, sb)" by (metis surj_pair)
  moreover from this have "\<not> sb_poisoned b"
    by (auto simp: strbuf_append_char_def strbuf_append_def strbuf_append_n_def strbuf_reserve_def strbuf_init_def
        STRBUF_INIT_CAP_def strbuf_write_def)
  ultimately show ?thesis using strbuf_is_concatenation [OF _ r] by (simp add: texts_def)
qed

end
