(* ===== verification/Eigs_Scan.thy ===== *)
theory Eigs_Scan
  imports Eigs_Name_Set Eigs_Ast
begin

text \<open>
  The passes of the compiler over the tree (\<open>src/compiler.c\<close>): which names a subtree
  refers to, which of them its closures capture, which are interrogated or bound by name,
  whether it makes a closure or a binding of its own. A pass over a node is a function on
  what it collects; the switch on the node's type is the second function of each pair.
\<close>

subsection \<open>Walking\<close>

text \<open>One child after the other; a child that is NULL changes nothing.\<close>

definition in_turn :: "('s \<Rightarrow> 's) list \<Rightarrow> 's \<Rightarrow> 's" where
  "in_turn fs = fold (\<lambda>f. f) fs"

definition if_any :: "('s \<Rightarrow> 's) option \<Rightarrow> 's \<Rightarrow> 's" where
  "if_any f = (case f of None \<Rightarrow> (\<lambda>s. s) | Some g \<Rightarrow> g)"

definition interleave :: "'a list \<Rightarrow> 'a list \<Rightarrow> 'a list" where
  "interleave xs ys = concat (map2 (\<lambda>x y. [x, y]) xs ys)"

text \<open>The cases of a match: each pattern, then its body.\<close>

definition case_parts :: "('s \<Rightarrow> 's) option list \<Rightarrow> ('s \<Rightarrow> 's) list list \<Rightarrow> ('s \<Rightarrow> 's) list" where
  "case_parts ps bs = concat (map2 (\<lambda>p b. if_any p # b) ps bs)"

definition some_of :: "bool option \<Rightarrow> bool" where
  "some_of b \<longleftrightarrow> b = Some True"

definition all_of :: "bool option \<Rightarrow> bool" where
  "all_of b \<longleftrightarrow> b \<noteq> Some False"

definition any_in :: "bool list \<Rightarrow> bool" where
  "any_in bs \<longleftrightarrow> list_ex (\<lambda>b. b) bs"

definition all_in :: "bool list \<Rightarrow> bool" where
  "all_in bs \<longleftrightarrow> list_all (\<lambda>b. b) bs"

definition name_set_add_all :: "string list \<Rightarrow> name_set \<Rightarrow> name_set" where
  "name_set_add_all = fold name_set_add"

subsection \<open>Referenced names\<close>

primrec collect_referenced_names :: "ast \<Rightarrow> name_set \<Rightarrow> name_set"
  and collect_referenced_data :: "ast_data \<Rightarrow> name_set \<Rightarrow> name_set" where
  "collect_referenced_names (Node line col h p d) = collect_referenced_data d"
| "collect_referenced_data (AST_NUM x) = (\<lambda>out. out)"
| "collect_referenced_data (AST_STR s) = (\<lambda>out. out)"
| "collect_referenced_data (AST_IDENT s) = name_set_add s"
| "collect_referenced_data AST_NULL = (\<lambda>out. out)"
| "collect_referenced_data (AST_BINOP op l r) = in_turn [collect_referenced_names l, collect_referenced_names r]"
| "collect_referenced_data (AST_UNARY op e) = collect_referenced_names e"
| "collect_referenced_data (AST_ASSIGN s e b) = in_turn [name_set_add s, collect_referenced_names e]"
| "collect_referenced_data (AST_RELATION l r) = in_turn [collect_referenced_names l, collect_referenced_names r]"
| "collect_referenced_data (AST_IF c t e) =
     in_turn (collect_referenced_names c # map collect_referenced_names t @ map collect_referenced_names e)"
| "collect_referenced_data (AST_LOOP c b) = in_turn (collect_referenced_names c # map collect_referenced_names b)"
| "collect_referenced_data (AST_FUNC s ps ds k b) = in_turn (name_set_add s # map collect_referenced_names b)"
| "collect_referenced_data (AST_RETURN e) = collect_referenced_names e"
| "collect_referenced_data (AST_BLOCK b) = in_turn (map collect_referenced_names b)"
| "collect_referenced_data (AST_LIST es) = in_turn (map collect_referenced_names es)"
| "collect_referenced_data (AST_INDEX t i) = in_turn [collect_referenced_names t, collect_referenced_names i]"
| "collect_referenced_data (AST_LISTCOMP e s i f) =
     in_turn [collect_referenced_names e, collect_referenced_names i, if_any (map_option collect_referenced_names f)]"
| "collect_referenced_data (AST_FOR s i b) =
     in_turn (name_set_add s # collect_referenced_names i # map collect_referenced_names b)"
| "collect_referenced_data (AST_PROGRAM b) = in_turn (map collect_referenced_names b)"
| "collect_referenced_data (AST_INTERROGATE k e a w) =
     in_turn [collect_referenced_names e, if_any (map_option collect_referenced_names a),
       if_any (map_option collect_referenced_names w)]"
| "collect_referenced_data (AST_PREDICATE k) = (\<lambda>out. out)"
| "collect_referenced_data (AST_TRY b s c) =
     in_turn (map collect_referenced_names b @ name_set_add s # map collect_referenced_names c)"
| "collect_referenced_data (AST_DICT ks vs) =
     in_turn (interleave (map collect_referenced_names ks) (map collect_referenced_names vs))"
| "collect_referenced_data (AST_DOT t s) = collect_referenced_names t"
| "collect_referenced_data AST_BREAK = (\<lambda>out. out)"
| "collect_referenced_data AST_CONTINUE = (\<lambda>out. out)"
| "collect_referenced_data (AST_DOT_ASSIGN t s e) = in_turn [collect_referenced_names t, collect_referenced_names e]"
| "collect_referenced_data (AST_IMPORT s) = (\<lambda>out. out)"
| "collect_referenced_data (AST_MATCH e ps bs) =
     in_turn (collect_referenced_names e #
       case_parts (map (map_option collect_referenced_names) ps) (map (map collect_referenced_names) bs))"
| "collect_referenced_data (AST_LAMBDA ps b) = collect_referenced_names b"
| "collect_referenced_data (AST_UNOBSERVED b) = in_turn (map collect_referenced_names b)"
| "collect_referenced_data (AST_INDEX_ASSIGN t i e op) =
     in_turn [collect_referenced_names t, collect_referenced_names i, collect_referenced_names e]"
| "collect_referenced_data (AST_LIST_PATTERN_ASSIGN ns hs e) =
     in_turn [name_set_add_all ns, collect_referenced_names e]"
| "collect_referenced_data (AST_SLICE t a b) =
     in_turn [collect_referenced_names t, if_any (map_option collect_referenced_names a),
       if_any (map_option collect_referenced_names b)]"

text \<open>
  The same, leaving out one subtree. The code compares pointers; here the subtree is known
  by its contents, among them its line and column.
\<close>

primrec collect_referenced_names_skip :: "ast \<Rightarrow> ast \<Rightarrow> name_set \<Rightarrow> name_set"
  and collect_referenced_data_skip :: "ast \<Rightarrow> ast_data \<Rightarrow> name_set \<Rightarrow> name_set" where
  "collect_referenced_names_skip skip (Node line col h p d) =
     (if Node line col h p d = skip then (\<lambda>out. out) else collect_referenced_data_skip skip d)"
| "collect_referenced_data_skip skip (AST_NUM x) = (\<lambda>out. out)"
| "collect_referenced_data_skip skip (AST_STR s) = (\<lambda>out. out)"
| "collect_referenced_data_skip skip (AST_IDENT s) = name_set_add s"
| "collect_referenced_data_skip skip AST_NULL = (\<lambda>out. out)"
| "collect_referenced_data_skip skip (AST_BINOP op l r) = in_turn [collect_referenced_names_skip skip l, collect_referenced_names_skip skip r]"
| "collect_referenced_data_skip skip (AST_UNARY op e) = collect_referenced_names_skip skip e"
| "collect_referenced_data_skip skip (AST_ASSIGN s e b) = in_turn [name_set_add s, collect_referenced_names_skip skip e]"
| "collect_referenced_data_skip skip (AST_RELATION l r) = in_turn [collect_referenced_names_skip skip l, collect_referenced_names_skip skip r]"
| "collect_referenced_data_skip skip (AST_IF c t e) =
     in_turn (collect_referenced_names_skip skip c # map (collect_referenced_names_skip skip) t @ map (collect_referenced_names_skip skip) e)"
| "collect_referenced_data_skip skip (AST_LOOP c b) = in_turn (collect_referenced_names_skip skip c # map (collect_referenced_names_skip skip) b)"
| "collect_referenced_data_skip skip (AST_FUNC s ps ds k b) = in_turn (name_set_add s # map (collect_referenced_names_skip skip) b)"
| "collect_referenced_data_skip skip (AST_RETURN e) = collect_referenced_names_skip skip e"
| "collect_referenced_data_skip skip (AST_BLOCK b) = in_turn (map (collect_referenced_names_skip skip) b)"
| "collect_referenced_data_skip skip (AST_LIST es) = in_turn (map (collect_referenced_names_skip skip) es)"
| "collect_referenced_data_skip skip (AST_INDEX t i) = in_turn [collect_referenced_names_skip skip t, collect_referenced_names_skip skip i]"
| "collect_referenced_data_skip skip (AST_LISTCOMP e s i f) =
     in_turn [collect_referenced_names_skip skip e, collect_referenced_names_skip skip i, if_any (map_option (collect_referenced_names_skip skip) f)]"
| "collect_referenced_data_skip skip (AST_FOR s i b) =
     in_turn (name_set_add s # collect_referenced_names_skip skip i # map (collect_referenced_names_skip skip) b)"
| "collect_referenced_data_skip skip (AST_PROGRAM b) = in_turn (map (collect_referenced_names_skip skip) b)"
| "collect_referenced_data_skip skip (AST_INTERROGATE k e a w) =
     in_turn [collect_referenced_names_skip skip e, if_any (map_option (collect_referenced_names_skip skip) a),
       if_any (map_option (collect_referenced_names_skip skip) w)]"
| "collect_referenced_data_skip skip (AST_PREDICATE k) = (\<lambda>out. out)"
| "collect_referenced_data_skip skip (AST_TRY b s c) =
     in_turn (map (collect_referenced_names_skip skip) b @ name_set_add s # map (collect_referenced_names_skip skip) c)"
| "collect_referenced_data_skip skip (AST_DICT ks vs) =
     in_turn (interleave (map (collect_referenced_names_skip skip) ks) (map (collect_referenced_names_skip skip) vs))"
| "collect_referenced_data_skip skip (AST_DOT t s) = collect_referenced_names_skip skip t"
| "collect_referenced_data_skip skip AST_BREAK = (\<lambda>out. out)"
| "collect_referenced_data_skip skip AST_CONTINUE = (\<lambda>out. out)"
| "collect_referenced_data_skip skip (AST_DOT_ASSIGN t s e) = in_turn [collect_referenced_names_skip skip t, collect_referenced_names_skip skip e]"
| "collect_referenced_data_skip skip (AST_IMPORT s) = (\<lambda>out. out)"
| "collect_referenced_data_skip skip (AST_MATCH e ps bs) =
     in_turn (collect_referenced_names_skip skip e #
       case_parts (map (map_option (collect_referenced_names_skip skip)) ps) (map (map (collect_referenced_names_skip skip)) bs))"
| "collect_referenced_data_skip skip (AST_LAMBDA ps b) = collect_referenced_names_skip skip b"
| "collect_referenced_data_skip skip (AST_UNOBSERVED b) = in_turn (map (collect_referenced_names_skip skip) b)"
| "collect_referenced_data_skip skip (AST_INDEX_ASSIGN t i e op) =
     in_turn [collect_referenced_names_skip skip t, collect_referenced_names_skip skip i, collect_referenced_names_skip skip e]"
| "collect_referenced_data_skip skip (AST_LIST_PATTERN_ASSIGN ns hs e) =
     in_turn [name_set_add_all ns, collect_referenced_names_skip skip e]"
| "collect_referenced_data_skip skip (AST_SLICE t a b) =
     in_turn [collect_referenced_names_skip skip t, if_any (map_option (collect_referenced_names_skip skip) a),
       if_any (map_option (collect_referenced_names_skip skip) b)]"

subsection \<open>Captured names\<close>

text \<open>The names a closure refers to, less its own parameters.\<close>

definition add_unless_param :: "string list \<Rightarrow> string list \<Rightarrow> name_set \<Rightarrow> name_set" where
  "add_unless_param ps inner = name_set_add_all (filter (\<lambda>x. x \<notin> set ps) inner)"

primrec scan_for_captures :: "ast \<Rightarrow> name_set \<Rightarrow> name_set"
  and scan_captures_data :: "ast_data \<Rightarrow> name_set \<Rightarrow> name_set" where
  "scan_for_captures (Node line col h p d) = scan_captures_data d"
| "scan_captures_data (AST_NUM x) = (\<lambda>out. out)"
| "scan_captures_data (AST_STR s) = (\<lambda>out. out)"
| "scan_captures_data (AST_IDENT s) = (\<lambda>out. out)"
| "scan_captures_data AST_NULL = (\<lambda>out. out)"
| "scan_captures_data (AST_BINOP op l r) = in_turn [scan_for_captures l, scan_for_captures r]"
| "scan_captures_data (AST_UNARY op e) = scan_for_captures e"
| "scan_captures_data (AST_ASSIGN s e b) = scan_for_captures e"
| "scan_captures_data (AST_RELATION l r) = in_turn [scan_for_captures l, scan_for_captures r]"
| "scan_captures_data (AST_IF c t e) = in_turn (map scan_for_captures t @ map scan_for_captures e)"
| "scan_captures_data (AST_LOOP c b) = in_turn (map scan_for_captures b)"
| "scan_captures_data (AST_FUNC s ps ds k b) =
     add_unless_param ps (ns_names (in_turn (map collect_referenced_names b) name_set_empty))"
| "scan_captures_data (AST_RETURN e) = scan_for_captures e"
| "scan_captures_data (AST_BLOCK b) = in_turn (map scan_for_captures b)"
| "scan_captures_data (AST_LIST es) = in_turn (map scan_for_captures es)"
| "scan_captures_data (AST_INDEX t i) = in_turn [scan_for_captures t, scan_for_captures i]"
| "scan_captures_data (AST_LISTCOMP e s i f) =
     in_turn [scan_for_captures e, scan_for_captures i, if_any (map_option scan_for_captures f)]"
| "scan_captures_data (AST_FOR s i b) = in_turn (map scan_for_captures b)"
| "scan_captures_data (AST_PROGRAM b) = (\<lambda>out. out)"
| "scan_captures_data (AST_INTERROGATE k e a w) = (\<lambda>out. out)"
| "scan_captures_data (AST_PREDICATE k) = (\<lambda>out. out)"
| "scan_captures_data (AST_TRY b s c) = in_turn (map scan_for_captures b @ map scan_for_captures c)"
| "scan_captures_data (AST_DICT ks vs) = in_turn (interleave (map scan_for_captures ks) (map scan_for_captures vs))"
| "scan_captures_data (AST_DOT t s) = scan_for_captures t"
| "scan_captures_data AST_BREAK = (\<lambda>out. out)"
| "scan_captures_data AST_CONTINUE = (\<lambda>out. out)"
| "scan_captures_data (AST_DOT_ASSIGN t s e) = in_turn [scan_for_captures t, scan_for_captures e]"
| "scan_captures_data (AST_IMPORT s) = (\<lambda>out. out)"
| "scan_captures_data (AST_MATCH e ps bs) = in_turn (concat (map (map scan_for_captures) bs))"
| "scan_captures_data (AST_LAMBDA ps b) = add_unless_param ps (ns_names (collect_referenced_names b name_set_empty))"
| "scan_captures_data (AST_UNOBSERVED b) = in_turn (map scan_for_captures b)"
| "scan_captures_data (AST_INDEX_ASSIGN t i e op) =
     in_turn [scan_for_captures t, scan_for_captures i, scan_for_captures e]"
| "scan_captures_data (AST_LIST_PATTERN_ASSIGN ns hs e) = scan_for_captures e"
| "scan_captures_data (AST_SLICE t a b) =
     in_turn [scan_for_captures t, if_any (map_option scan_for_captures a), if_any (map_option scan_for_captures b)]"

subsection \<open>Closures and bindings in a loop body\<close>

primrec ast_has_closure :: "ast \<Rightarrow> bool"
  and data_has_closure :: "ast_data \<Rightarrow> bool" where
  "ast_has_closure (Node line col h p d) = data_has_closure d"
| "data_has_closure (AST_NUM x) = False"
| "data_has_closure (AST_STR s) = False"
| "data_has_closure (AST_IDENT s) = False"
| "data_has_closure AST_NULL = False"
| "data_has_closure (AST_BINOP op l r) = any_in [ast_has_closure l, ast_has_closure r]"
| "data_has_closure (AST_UNARY op e) = ast_has_closure e"
| "data_has_closure (AST_ASSIGN s e b) = ast_has_closure e"
| "data_has_closure (AST_RELATION l r) = any_in [ast_has_closure l, ast_has_closure r]"
| "data_has_closure (AST_IF c t e) = any_in (map ast_has_closure t @ map ast_has_closure e @ [ast_has_closure c])"
| "data_has_closure (AST_LOOP c b) = any_in (ast_has_closure c # map ast_has_closure b)"
| "data_has_closure (AST_FUNC s ps ds k b) = True"
| "data_has_closure (AST_RETURN e) = ast_has_closure e"
| "data_has_closure (AST_BLOCK b) = any_in (map ast_has_closure b)"
| "data_has_closure (AST_LIST es) = any_in (map ast_has_closure es)"
| "data_has_closure (AST_INDEX t i) = any_in [ast_has_closure t, ast_has_closure i]"
| "data_has_closure (AST_LISTCOMP e s i f) =
     any_in [ast_has_closure e, ast_has_closure i, some_of (map_option ast_has_closure f)]"
| "data_has_closure (AST_FOR s i b) = any_in (ast_has_closure i # map ast_has_closure b)"
| "data_has_closure (AST_PROGRAM b) = False"
| "data_has_closure (AST_INTERROGATE k e a w) =
     any_in [ast_has_closure e, some_of (map_option ast_has_closure a), some_of (map_option ast_has_closure w)]"
| "data_has_closure (AST_PREDICATE k) = False"
| "data_has_closure (AST_TRY b s c) = any_in (map ast_has_closure b @ map ast_has_closure c)"
| "data_has_closure (AST_DICT ks vs) = any_in (interleave (map ast_has_closure ks) (map ast_has_closure vs))"
| "data_has_closure (AST_DOT t s) = ast_has_closure t"
| "data_has_closure AST_BREAK = False"
| "data_has_closure AST_CONTINUE = False"
| "data_has_closure (AST_DOT_ASSIGN t s e) = any_in [ast_has_closure t, ast_has_closure e]"
| "data_has_closure (AST_IMPORT s) = False"
| "data_has_closure (AST_MATCH e ps bs) = any_in (ast_has_closure e # concat (map (map ast_has_closure) bs))"
| "data_has_closure (AST_LAMBDA ps b) = True"
| "data_has_closure (AST_UNOBSERVED b) = any_in (map ast_has_closure b)"
| "data_has_closure (AST_INDEX_ASSIGN t i e op) = any_in [ast_has_closure t, ast_has_closure i, ast_has_closure e]"
| "data_has_closure (AST_LIST_PATTERN_ASSIGN ns hs e) = ast_has_closure e"
| "data_has_closure (AST_SLICE t a b) =
     any_in [ast_has_closure t, some_of (map_option ast_has_closure a), some_of (map_option ast_has_closure b)]"

text \<open>
  \<open>env\<close> says of a name that \<open>env_get_hashed\<close> finds it in the compile-time environment.
\<close>

primrec subtree_overwrite_safe :: "name_set \<Rightarrow> (string \<Rightarrow> bool) \<Rightarrow> ast \<Rightarrow> bool"
  and data_overwrite_safe :: "name_set \<Rightarrow> (string \<Rightarrow> bool) \<Rightarrow> ast_data \<Rightarrow> bool" where
  "subtree_overwrite_safe bound env (Node line col h p d) = data_overwrite_safe bound env d"
| "data_overwrite_safe bound env (AST_NUM x) = True"
| "data_overwrite_safe bound env (AST_STR s) = True"
| "data_overwrite_safe bound env (AST_IDENT s) = True"
| "data_overwrite_safe bound env AST_NULL = True"
| "data_overwrite_safe bound env (AST_BINOP op l r) =
     all_in [subtree_overwrite_safe bound env l, subtree_overwrite_safe bound env r]"
| "data_overwrite_safe bound env (AST_UNARY op e) = subtree_overwrite_safe bound env e"
| "data_overwrite_safe bound env (AST_ASSIGN s e b) =
     (\<not> b \<and> (name_set_has bound s \<or> env s) \<and> subtree_overwrite_safe bound env e)"
| "data_overwrite_safe bound env (AST_RELATION l r) =
     all_in [subtree_overwrite_safe bound env l, subtree_overwrite_safe bound env r]"
| "data_overwrite_safe bound env (AST_IF c t e) =
     all_in (subtree_overwrite_safe bound env c # map (subtree_overwrite_safe bound env) t @ map (subtree_overwrite_safe bound env) e)"
| "data_overwrite_safe bound env (AST_LOOP c b) =
     all_in (subtree_overwrite_safe bound env c # map (subtree_overwrite_safe bound env) b)"
| "data_overwrite_safe bound env (AST_FUNC s ps ds k b) = False"
| "data_overwrite_safe bound env (AST_RETURN e) = subtree_overwrite_safe bound env e"
| "data_overwrite_safe bound env (AST_BLOCK b) = all_in (map (subtree_overwrite_safe bound env) b)"
| "data_overwrite_safe bound env (AST_LIST es) = all_in (map (subtree_overwrite_safe bound env) es)"
| "data_overwrite_safe bound env (AST_INDEX t i) =
     all_in [subtree_overwrite_safe bound env t, subtree_overwrite_safe bound env i]"
| "data_overwrite_safe bound env (AST_LISTCOMP e s i f) = False"
| "data_overwrite_safe bound env (AST_FOR s i b) = False"
| "data_overwrite_safe bound env (AST_PROGRAM b) = False"
| "data_overwrite_safe bound env (AST_INTERROGATE k e a w) =
     all_in [subtree_overwrite_safe bound env e, all_of (map_option (subtree_overwrite_safe bound env) a), all_of (map_option (subtree_overwrite_safe bound env) w)]"
| "data_overwrite_safe bound env (AST_PREDICATE k) = True"
| "data_overwrite_safe bound env (AST_TRY b s c) = False"
| "data_overwrite_safe bound env (AST_DICT ks vs) =
     all_in (interleave (map (subtree_overwrite_safe bound env) ks) (map (subtree_overwrite_safe bound env) vs))"
| "data_overwrite_safe bound env (AST_DOT t s) = subtree_overwrite_safe bound env t"
| "data_overwrite_safe bound env AST_BREAK = True"
| "data_overwrite_safe bound env AST_CONTINUE = True"
| "data_overwrite_safe bound env (AST_DOT_ASSIGN t s e) =
     all_in [subtree_overwrite_safe bound env t, subtree_overwrite_safe bound env e]"
| "data_overwrite_safe bound env (AST_IMPORT s) = False"
| "data_overwrite_safe bound env (AST_MATCH e ps bs) = False"
| "data_overwrite_safe bound env (AST_LAMBDA ps b) = False"
| "data_overwrite_safe bound env (AST_UNOBSERVED b) = all_in (map (subtree_overwrite_safe bound env) b)"
| "data_overwrite_safe bound env (AST_INDEX_ASSIGN t i e op) =
     all_in [subtree_overwrite_safe bound env t, subtree_overwrite_safe bound env i, subtree_overwrite_safe bound env e]"
| "data_overwrite_safe bound env (AST_LIST_PATTERN_ASSIGN ns hs e) = False"
| "data_overwrite_safe bound env (AST_SLICE t a b) =
     all_in [subtree_overwrite_safe bound env t, all_of (map_option (subtree_overwrite_safe bound env) a), all_of (map_option (subtree_overwrite_safe bound env) b)]"

definition data_bind :: "ast_data \<Rightarrow> name_set \<Rightarrow> name_set" where
  "data_bind d bound =
     (case d of
        AST_ASSIGN s e local_only \<Rightarrow> if local_only then bound else name_set_add s bound
      | AST_FUNC s ps ds k b \<Rightarrow> name_set_add s bound
      | AST_LIST_PATTERN_ASSIGN ns hs e \<Rightarrow> name_set_add_all ns bound
      | _ \<Rightarrow> bound)"

definition collect_stmt_bind :: "ast \<Rightarrow> name_set \<Rightarrow> name_set" where
  "collect_stmt_bind s = data_bind (nd_data s)"

text \<open>One after the other until one answers True.\<close>

fun until_true :: "('s \<Rightarrow> bool \<times> 's) list \<Rightarrow> 's \<Rightarrow> bool \<times> 's" where
  "until_true [] s = (False, s)"
| "until_true (f # fs) s = (case f s of (found, s') \<Rightarrow> if found then (True, s') else until_true fs s')"

text \<open>The names bound before the loop in a list of statements, and whether the loop was met.\<close>

primrec bound_before_in_stmt :: "ast \<Rightarrow> ast \<Rightarrow> name_set \<Rightarrow> bool \<times> name_set"
  and bound_before_in_data :: "ast \<Rightarrow> ast_data \<Rightarrow> name_set \<Rightarrow> bool \<times> name_set" where
  "bound_before_in_stmt loop (Node line col h p d) = 
     (if Node line col h p d = loop then (\<lambda>bound. (True, bound)) else bound_before_in_data loop d)"
| "bound_before_in_data loop (AST_NUM x) = (\<lambda>bound. (False, bound))"
| "bound_before_in_data loop (AST_STR s) = (\<lambda>bound. (False, bound))"
| "bound_before_in_data loop (AST_IDENT s) = (\<lambda>bound. (False, bound))"
| "bound_before_in_data loop AST_NULL = (\<lambda>bound. (False, bound))"
| "bound_before_in_data loop (AST_BINOP op l r) = (\<lambda>bound. (False, bound))"
| "bound_before_in_data loop (AST_UNARY op e) = (\<lambda>bound. (False, bound))"
| "bound_before_in_data loop (AST_ASSIGN s e b) = (\<lambda>bound. (False, data_bind (AST_ASSIGN s e b) bound))"
| "bound_before_in_data loop (AST_RELATION l r) = (\<lambda>bound. (False, bound))"
| "bound_before_in_data loop (AST_IF c t e) = (\<lambda>bound. (False, bound))"
| "bound_before_in_data loop (AST_LOOP c b) = (\<lambda>bound. (False, bound))"
| "bound_before_in_data loop (AST_FUNC s ps ds k b) =
     (\<lambda>bound. (False, data_bind (AST_FUNC s ps ds k b) bound))"
| "bound_before_in_data loop (AST_RETURN e) = (\<lambda>bound. (False, bound))"
| "bound_before_in_data loop (AST_BLOCK b) =
     (\<lambda>bound. case until_true (map (bound_before_in_stmt loop) b) bound of (found, bound') \<Rightarrow>
       if found then (True, bound') else (False, in_turn (map collect_stmt_bind b) bound'))"
| "bound_before_in_data loop (AST_LIST es) = (\<lambda>bound. (False, bound))"
| "bound_before_in_data loop (AST_INDEX t i) = (\<lambda>bound. (False, bound))"
| "bound_before_in_data loop (AST_LISTCOMP e s i f) = (\<lambda>bound. (False, bound))"
| "bound_before_in_data loop (AST_FOR s i b) = (\<lambda>bound. (False, bound))"
| "bound_before_in_data loop (AST_PROGRAM b) = (\<lambda>bound. (False, bound))"
| "bound_before_in_data loop (AST_INTERROGATE k e a w) = (\<lambda>bound. (False, bound))"
| "bound_before_in_data loop (AST_PREDICATE k) = (\<lambda>bound. (False, bound))"
| "bound_before_in_data loop (AST_TRY b s c) = (\<lambda>bound. (False, bound))"
| "bound_before_in_data loop (AST_DICT ks vs) = (\<lambda>bound. (False, bound))"
| "bound_before_in_data loop (AST_DOT t s) = (\<lambda>bound. (False, bound))"
| "bound_before_in_data loop AST_BREAK = (\<lambda>bound. (False, bound))"
| "bound_before_in_data loop AST_CONTINUE = (\<lambda>bound. (False, bound))"
| "bound_before_in_data loop (AST_DOT_ASSIGN t s e) = (\<lambda>bound. (False, bound))"
| "bound_before_in_data loop (AST_IMPORT s) = (\<lambda>bound. (False, bound))"
| "bound_before_in_data loop (AST_MATCH e ps bs) = (\<lambda>bound. (False, bound))"
| "bound_before_in_data loop (AST_LAMBDA ps b) = (\<lambda>bound. (False, bound))"
| "bound_before_in_data loop (AST_UNOBSERVED b) =
     (\<lambda>bound. case until_true (map (bound_before_in_stmt loop) b) bound of (found, bound') \<Rightarrow>
       if found then (True, bound') else (False, in_turn (map collect_stmt_bind b) bound'))"
| "bound_before_in_data loop (AST_INDEX_ASSIGN t i e op) = (\<lambda>bound. (False, bound))"
| "bound_before_in_data loop (AST_LIST_PATTERN_ASSIGN ns hs e) =
     (\<lambda>bound. (False, data_bind (AST_LIST_PATTERN_ASSIGN ns hs e) bound))"
| "bound_before_in_data loop (AST_SLICE t a b) = (\<lambda>bound. (False, bound))"

definition collect_bound_before_in_block :: "ast list \<Rightarrow> ast \<Rightarrow> name_set \<Rightarrow> bool \<times> name_set" where
  "collect_bound_before_in_block stmts loop = until_true (map (bound_before_in_stmt loop) stmts)"

definition collect_bound_before_loop :: "ast \<Rightarrow> ast \<Rightarrow> name_set \<Rightarrow> bool \<times> name_set" where
  "collect_bound_before_loop root loop bound =
     (case nd_data root of
        AST_PROGRAM stmts \<Rightarrow> collect_bound_before_in_block stmts loop bound
      | _ \<Rightarrow> (False, bound))"

subsection \<open>Interrogated names and names bound in the environment\<close>

definition str_literal :: "ast \<Rightarrow> string option" where
  "str_literal a = (case nd_data a of AST_STR s \<Rightarrow> Some s | _ \<Rightarrow> None)"

definition ident_name :: "ast \<Rightarrow> string option" where
  "ident_name a = (case nd_data a of AST_IDENT s \<Rightarrow> Some s | _ \<Rightarrow> None)"

definition scan_window_name_arg :: "ast \<Rightarrow> ast \<Rightarrow> name_set \<Rightarrow> name_set" where
  "scan_window_name_arg fn arg out =
     (if ident_name fn \<noteq> Some ''set_observer_window'' \<and> ident_name fn \<noteq> Some ''get_observer_window'' then out
      else
        (case (case nd_data arg of
                 AST_STR s \<Rightarrow> Some s
               | AST_LIST es \<Rightarrow> if es \<noteq> [] then str_literal (hd es) else None
               | _ \<Rightarrow> None) of
           None \<Rightarrow> out
         | Some s \<Rightarrow> name_set_add s out))"

definition interrogated_operand :: "ast \<Rightarrow> name_set \<Rightarrow> name_set" where
  "interrogated_operand e out = (case ident_name e of None \<Rightarrow> out | Some s \<Rightarrow> name_set_add s out)"

primrec scan_for_interrogated :: "ast \<Rightarrow> name_set \<Rightarrow> name_set"
  and scan_interrogated_data :: "ast_data \<Rightarrow> name_set \<Rightarrow> name_set" where
  "scan_for_interrogated (Node line col h p d) = scan_interrogated_data d"
| "scan_interrogated_data (AST_NUM x) = (\<lambda>out. out)"
| "scan_interrogated_data (AST_STR s) = (\<lambda>out. out)"
| "scan_interrogated_data (AST_IDENT s) = (\<lambda>out. out)"
| "scan_interrogated_data AST_NULL = (\<lambda>out. out)"
| "scan_interrogated_data (AST_BINOP op l r) = in_turn [scan_for_interrogated l, scan_for_interrogated r]"
| "scan_interrogated_data (AST_UNARY op e) = scan_for_interrogated e"
| "scan_interrogated_data (AST_ASSIGN s e b) = scan_for_interrogated e"
| "scan_interrogated_data (AST_RELATION l r) =
     in_turn [scan_window_name_arg l r, scan_for_interrogated l, scan_for_interrogated r]"
| "scan_interrogated_data (AST_IF c t e) =
     in_turn (scan_for_interrogated c # map scan_for_interrogated t @ map scan_for_interrogated e)"
| "scan_interrogated_data (AST_LOOP c b) = in_turn (scan_for_interrogated c # map scan_for_interrogated b)"
| "scan_interrogated_data (AST_FUNC s ps ds k b) = (\<lambda>out. out)"
| "scan_interrogated_data (AST_RETURN e) = scan_for_interrogated e"
| "scan_interrogated_data (AST_BLOCK b) = in_turn (map scan_for_interrogated b)"
| "scan_interrogated_data (AST_LIST es) = in_turn (map scan_for_interrogated es)"
| "scan_interrogated_data (AST_INDEX t i) = in_turn [scan_for_interrogated t, scan_for_interrogated i]"
| "scan_interrogated_data (AST_LISTCOMP e s i f) =
     in_turn [scan_for_interrogated e, scan_for_interrogated i, if_any (map_option scan_for_interrogated f)]"
| "scan_interrogated_data (AST_FOR s i b) = in_turn (scan_for_interrogated i # map scan_for_interrogated b)"
| "scan_interrogated_data (AST_PROGRAM b) = (\<lambda>out. out)"
| "scan_interrogated_data (AST_INTERROGATE k e a w) =
     in_turn [interrogated_operand e, scan_for_interrogated e, if_any (map_option scan_for_interrogated a), if_any (map_option scan_for_interrogated w)]"
| "scan_interrogated_data (AST_PREDICATE k) = (\<lambda>out. out)"
| "scan_interrogated_data (AST_TRY b s c) = in_turn (map scan_for_interrogated b @ map scan_for_interrogated c)"
| "scan_interrogated_data (AST_DICT ks vs) =
     in_turn (interleave (map scan_for_interrogated ks) (map scan_for_interrogated vs))"
| "scan_interrogated_data (AST_DOT t s) = scan_for_interrogated t"
| "scan_interrogated_data AST_BREAK = (\<lambda>out. out)"
| "scan_interrogated_data AST_CONTINUE = (\<lambda>out. out)"
| "scan_interrogated_data (AST_DOT_ASSIGN t s e) = in_turn [scan_for_interrogated t, scan_for_interrogated e]"
| "scan_interrogated_data (AST_IMPORT s) = (\<lambda>out. out)"
| "scan_interrogated_data (AST_MATCH e ps bs) =
     in_turn (scan_for_interrogated e # concat (map (map scan_for_interrogated) bs))"
| "scan_interrogated_data (AST_LAMBDA ps b) = (\<lambda>out. out)"
| "scan_interrogated_data (AST_UNOBSERVED b) = in_turn (map scan_for_interrogated b)"
| "scan_interrogated_data (AST_INDEX_ASSIGN t i e op) =
     in_turn [scan_for_interrogated t, scan_for_interrogated i, scan_for_interrogated e]"
| "scan_interrogated_data (AST_LIST_PATTERN_ASSIGN ns hs e) = scan_for_interrogated e"
| "scan_interrogated_data (AST_SLICE t a b) =
     in_turn [scan_for_interrogated t, if_any (map_option scan_for_interrogated a), if_any (map_option scan_for_interrogated b)]"

primrec scan_for_env_bound :: "ast \<Rightarrow> name_set \<Rightarrow> name_set"
  and scan_env_bound_data :: "ast_data \<Rightarrow> name_set \<Rightarrow> name_set" where
  "scan_for_env_bound (Node line col h p d) = scan_env_bound_data d"
| "scan_env_bound_data (AST_NUM x) = (\<lambda>out. out)"
| "scan_env_bound_data (AST_STR s) = (\<lambda>out. out)"
| "scan_env_bound_data (AST_IDENT s) = (\<lambda>out. out)"
| "scan_env_bound_data AST_NULL = (\<lambda>out. out)"
| "scan_env_bound_data (AST_BINOP op l r) = in_turn [scan_for_env_bound l, scan_for_env_bound r]"
| "scan_env_bound_data (AST_UNARY op e) = scan_for_env_bound e"
| "scan_env_bound_data (AST_ASSIGN s e b) = scan_for_env_bound e"
| "scan_env_bound_data (AST_RELATION l r) = in_turn [scan_for_env_bound l, scan_for_env_bound r]"
| "scan_env_bound_data (AST_IF c t e) = in_turn (map scan_for_env_bound t @ map scan_for_env_bound e)"
| "scan_env_bound_data (AST_LOOP c b) = in_turn (map scan_for_env_bound b)"
| "scan_env_bound_data (AST_FUNC s ps ds k b) = (\<lambda>out. out)"
| "scan_env_bound_data (AST_RETURN e) = scan_for_env_bound e"
| "scan_env_bound_data (AST_BLOCK b) = in_turn (map scan_for_env_bound b)"
| "scan_env_bound_data (AST_LIST es) = in_turn (map scan_for_env_bound es)"
| "scan_env_bound_data (AST_INDEX t i) = in_turn [scan_for_env_bound t, scan_for_env_bound i]"
| "scan_env_bound_data (AST_LISTCOMP e s i f) =
     in_turn [name_set_add s, scan_for_env_bound e, scan_for_env_bound i, if_any (map_option scan_for_env_bound f)]"
| "scan_env_bound_data (AST_FOR s i b) = in_turn (scan_for_env_bound i # map scan_for_env_bound b)"
| "scan_env_bound_data (AST_PROGRAM b) = (\<lambda>out. out)"
| "scan_env_bound_data (AST_INTERROGATE k e a w) = (\<lambda>out. out)"
| "scan_env_bound_data (AST_PREDICATE k) = (\<lambda>out. out)"
| "scan_env_bound_data (AST_TRY b s c) =
     in_turn (map scan_for_env_bound b @ name_set_add s # map scan_for_env_bound c)"
| "scan_env_bound_data (AST_DICT ks vs) =
     in_turn (interleave (map scan_for_env_bound ks) (map scan_for_env_bound vs))"
| "scan_env_bound_data (AST_DOT t s) = scan_for_env_bound t"
| "scan_env_bound_data AST_BREAK = (\<lambda>out. out)"
| "scan_env_bound_data AST_CONTINUE = (\<lambda>out. out)"
| "scan_env_bound_data (AST_DOT_ASSIGN t s e) = in_turn [scan_for_env_bound t, scan_for_env_bound e]"
| "scan_env_bound_data (AST_IMPORT s) = (\<lambda>out. out)"
| "scan_env_bound_data (AST_MATCH e ps bs) =
     in_turn (scan_for_env_bound e # concat (map (map scan_for_env_bound) bs))"
| "scan_env_bound_data (AST_LAMBDA ps b) = (\<lambda>out. out)"
| "scan_env_bound_data (AST_UNOBSERVED b) = in_turn (map scan_for_env_bound b)"
| "scan_env_bound_data (AST_INDEX_ASSIGN t i e op) =
     in_turn [scan_for_env_bound t, scan_for_env_bound i, scan_for_env_bound e]"
| "scan_env_bound_data (AST_LIST_PATTERN_ASSIGN ns hs e) = scan_for_env_bound e"
| "scan_env_bound_data (AST_SLICE t a b) =
     in_turn [scan_for_env_bound t, if_any (map_option scan_for_env_bound a), if_any (map_option scan_for_env_bound b)]"

subsection \<open>Names of the module, and the rebinding of \<open>dispatch\<close>\<close>

primrec collect_module_names_walk :: "ast \<Rightarrow> name_set \<Rightarrow> name_set"
  and collect_module_names_data :: "ast_data \<Rightarrow> name_set \<Rightarrow> name_set" where
  "collect_module_names_walk (Node line col h p d) = collect_module_names_data d"
| "collect_module_names_data (AST_NUM x) = (\<lambda>out. out)"
| "collect_module_names_data (AST_STR s) = (\<lambda>out. out)"
| "collect_module_names_data (AST_IDENT s) = (\<lambda>out. out)"
| "collect_module_names_data AST_NULL = (\<lambda>out. out)"
| "collect_module_names_data (AST_BINOP op l r) = (\<lambda>out. out)"
| "collect_module_names_data (AST_UNARY op e) = (\<lambda>out. out)"
| "collect_module_names_data (AST_ASSIGN s e b) = name_set_add s"
| "collect_module_names_data (AST_RELATION l r) = (\<lambda>out. out)"
| "collect_module_names_data (AST_IF c t e) =
     in_turn (map collect_module_names_walk t @ map collect_module_names_walk e)"
| "collect_module_names_data (AST_LOOP c b) = in_turn (map collect_module_names_walk b)"
| "collect_module_names_data (AST_FUNC s ps ds k b) = name_set_add s"
| "collect_module_names_data (AST_RETURN e) = (\<lambda>out. out)"
| "collect_module_names_data (AST_BLOCK b) = in_turn (map collect_module_names_walk b)"
| "collect_module_names_data (AST_LIST es) = (\<lambda>out. out)"
| "collect_module_names_data (AST_INDEX t i) = (\<lambda>out. out)"
| "collect_module_names_data (AST_LISTCOMP e s i f) = (\<lambda>out. out)"
| "collect_module_names_data (AST_FOR s i b) = in_turn (map collect_module_names_walk b)"
| "collect_module_names_data (AST_PROGRAM b) = in_turn (map collect_module_names_walk b)"
| "collect_module_names_data (AST_INTERROGATE k e a w) = (\<lambda>out. out)"
| "collect_module_names_data (AST_PREDICATE k) = (\<lambda>out. out)"
| "collect_module_names_data (AST_TRY b s c) =
     in_turn (map collect_module_names_walk b @ name_set_add s # map collect_module_names_walk c)"
| "collect_module_names_data (AST_DICT ks vs) = (\<lambda>out. out)"
| "collect_module_names_data (AST_DOT t s) = (\<lambda>out. out)"
| "collect_module_names_data AST_BREAK = (\<lambda>out. out)"
| "collect_module_names_data AST_CONTINUE = (\<lambda>out. out)"
| "collect_module_names_data (AST_DOT_ASSIGN t s e) = (\<lambda>out. out)"
| "collect_module_names_data (AST_IMPORT s) = (\<lambda>out. out)"
| "collect_module_names_data (AST_MATCH e ps bs) = in_turn (concat (map (map collect_module_names_walk) bs))"
| "collect_module_names_data (AST_LAMBDA ps b) = (\<lambda>out. out)"
| "collect_module_names_data (AST_UNOBSERVED b) = in_turn (map collect_module_names_walk b)"
| "collect_module_names_data (AST_INDEX_ASSIGN t i e op) = (\<lambda>out. out)"
| "collect_module_names_data (AST_LIST_PATTERN_ASSIGN ns hs e) = name_set_add_all ns"
| "collect_module_names_data (AST_SLICE t a b) = (\<lambda>out. out)"

primrec scan_dispatch_rebind :: "ast \<Rightarrow> bool"
  and scan_dispatch_data :: "ast_data \<Rightarrow> bool" where
  "scan_dispatch_rebind (Node line col h p d) = scan_dispatch_data d"
| "scan_dispatch_data (AST_NUM x) = False"
| "scan_dispatch_data (AST_STR s) = False"
| "scan_dispatch_data (AST_IDENT s) = (s = ''eval'')"
| "scan_dispatch_data AST_NULL = False"
| "scan_dispatch_data (AST_BINOP op l r) = any_in [scan_dispatch_rebind l, scan_dispatch_rebind r]"
| "scan_dispatch_data (AST_UNARY op e) = scan_dispatch_rebind e"
| "scan_dispatch_data (AST_ASSIGN s e b) = (s = ''dispatch'' \<or> scan_dispatch_rebind e)"
| "scan_dispatch_data (AST_RELATION l r) = any_in [scan_dispatch_rebind l, scan_dispatch_rebind r]"
| "scan_dispatch_data (AST_IF c t e) =
     any_in (scan_dispatch_rebind c # map scan_dispatch_rebind t @ map scan_dispatch_rebind e)"
| "scan_dispatch_data (AST_LOOP c b) = any_in (scan_dispatch_rebind c # map scan_dispatch_rebind b)"
| "scan_dispatch_data (AST_FUNC s ps ds k b) =
     (s = ''dispatch'' \<or> ''dispatch'' \<in> set ps \<or> any_in (map some_of (map (map_option scan_dispatch_rebind) ds)) \<or> any_in (map scan_dispatch_rebind b))"
| "scan_dispatch_data (AST_RETURN e) = scan_dispatch_rebind e"
| "scan_dispatch_data (AST_BLOCK b) = any_in (map scan_dispatch_rebind b)"
| "scan_dispatch_data (AST_LIST es) = any_in (map scan_dispatch_rebind es)"
| "scan_dispatch_data (AST_INDEX t i) = any_in [scan_dispatch_rebind t, scan_dispatch_rebind i]"
| "scan_dispatch_data (AST_LISTCOMP e s i f) =
     (s = ''dispatch'' \<or> any_in [scan_dispatch_rebind e, scan_dispatch_rebind i, some_of (map_option scan_dispatch_rebind f)])"
| "scan_dispatch_data (AST_FOR s i b) =
     (s = ''dispatch'' \<or> any_in (scan_dispatch_rebind i # map scan_dispatch_rebind b))"
| "scan_dispatch_data (AST_PROGRAM b) = any_in (map scan_dispatch_rebind b)"
| "scan_dispatch_data (AST_INTERROGATE k e a w) =
     any_in [scan_dispatch_rebind e, some_of (map_option scan_dispatch_rebind a)]"
| "scan_dispatch_data (AST_PREDICATE k) = False"
| "scan_dispatch_data (AST_TRY b s c) =
     (s = ''dispatch'' \<or> any_in (map scan_dispatch_rebind b @ map scan_dispatch_rebind c))"
| "scan_dispatch_data (AST_DICT ks vs) = any_in (map scan_dispatch_rebind ks @ map scan_dispatch_rebind vs)"
| "scan_dispatch_data (AST_DOT t s) = scan_dispatch_rebind t"
| "scan_dispatch_data AST_BREAK = False"
| "scan_dispatch_data AST_CONTINUE = False"
| "scan_dispatch_data (AST_DOT_ASSIGN t s e) = any_in [scan_dispatch_rebind t, scan_dispatch_rebind e]"
| "scan_dispatch_data (AST_IMPORT s) = (s = ''dispatch'')"
| "scan_dispatch_data (AST_MATCH e ps bs) =
     any_in (scan_dispatch_rebind e # map some_of (map (map_option scan_dispatch_rebind) ps) @ concat (map (map scan_dispatch_rebind) bs))"
| "scan_dispatch_data (AST_LAMBDA ps b) = (''dispatch'' \<in> set ps \<or> scan_dispatch_rebind b)"
| "scan_dispatch_data (AST_UNOBSERVED b) = any_in (map scan_dispatch_rebind b)"
| "scan_dispatch_data (AST_INDEX_ASSIGN t i e op) =
     any_in [scan_dispatch_rebind t, scan_dispatch_rebind i, scan_dispatch_rebind e]"
| "scan_dispatch_data (AST_LIST_PATTERN_ASSIGN ns hs e) = (''dispatch'' \<in> set ns \<or> scan_dispatch_rebind e)"
| "scan_dispatch_data (AST_SLICE t a b) =
     any_in [scan_dispatch_rebind t, some_of (map_option scan_dispatch_rebind a), some_of (map_option scan_dispatch_rebind b)]"

subsection \<open>Conditions and bodies that read the observer\<close>

definition is_predicate :: "ast \<Rightarrow> bool" where
  "is_predicate a = (case nd_data a of AST_PREDICATE k \<Rightarrow> True | _ \<Rightarrow> False)"

primrec cond_is_observer_based :: "ast \<Rightarrow> bool"
  and cond_data_observer_based :: "ast_data \<Rightarrow> bool" where
  "cond_is_observer_based (Node line col h p d) = cond_data_observer_based d"
| "cond_data_observer_based (AST_NUM x) = False"
| "cond_data_observer_based (AST_STR s) = False"
| "cond_data_observer_based (AST_IDENT s) = False"
| "cond_data_observer_based AST_NULL = False"
| "cond_data_observer_based (AST_BINOP op l r) = any_in [cond_is_observer_based l, cond_is_observer_based r]"
| "cond_data_observer_based (AST_UNARY op e) = cond_is_observer_based e"
| "cond_data_observer_based (AST_ASSIGN s e b) = False"
| "cond_data_observer_based (AST_RELATION l r) =
     (if is_predicate l \<and> ident_name r \<noteq> None then False else any_in [cond_is_observer_based l, cond_is_observer_based r])"
| "cond_data_observer_based (AST_IF c t e) = False"
| "cond_data_observer_based (AST_LOOP c b) = False"
| "cond_data_observer_based (AST_FUNC s ps ds k b) = False"
| "cond_data_observer_based (AST_RETURN e) = False"
| "cond_data_observer_based (AST_BLOCK b) = False"
| "cond_data_observer_based (AST_LIST es) = False"
| "cond_data_observer_based (AST_INDEX t i) = False"
| "cond_data_observer_based (AST_LISTCOMP e s i f) = False"
| "cond_data_observer_based (AST_FOR s i b) = False"
| "cond_data_observer_based (AST_PROGRAM b) = False"
| "cond_data_observer_based (AST_INTERROGATE k e a w) = False"
| "cond_data_observer_based (AST_PREDICATE k) = True"
| "cond_data_observer_based (AST_TRY b s c) = False"
| "cond_data_observer_based (AST_DICT ks vs) = False"
| "cond_data_observer_based (AST_DOT t s) = False"
| "cond_data_observer_based AST_BREAK = False"
| "cond_data_observer_based AST_CONTINUE = False"
| "cond_data_observer_based (AST_DOT_ASSIGN t s e) = False"
| "cond_data_observer_based (AST_IMPORT s) = False"
| "cond_data_observer_based (AST_MATCH e ps bs) = False"
| "cond_data_observer_based (AST_LAMBDA ps b) = False"
| "cond_data_observer_based (AST_UNOBSERVED b) = False"
| "cond_data_observer_based (AST_INDEX_ASSIGN t i e op) = False"
| "cond_data_observer_based (AST_LIST_PATTERN_ASSIGN ns hs e) = False"
| "cond_data_observer_based (AST_SLICE t a b) = False"

text \<open>
  The modules a unit loads, with a cap on their number: each path, its directory, and
  whether it is an import.
\<close>

definition OBS_NAMES :: "string list" where
  "OBS_NAMES = [''observe'', ''report'', ''report_value'', ''trajectory'', ''classify'', ''state_at'',
     ''get_observer_thresholds'', ''eval'', ''record_history'']"

record obs_loads =
  ol_paths :: "(string \<times> string \<times> bool) list"
  ol_base :: string
  ol_cap :: nat
  ol_overflow :: bool
  ol_import_seen :: bool

definition obs_gate_note_load :: "string \<Rightarrow> bool \<Rightarrow> obs_loads \<Rightarrow> obs_loads" where
  "obs_gate_note_load path is_import L =
     (let L1 = (if is_import then L\<lparr>ol_import_seen := True\<rparr> else L) in
      if ol_cap L1 \<le> length (ol_paths L1) then L1\<lparr>ol_overflow := True\<rparr>
      else L1\<lparr>ol_paths := ol_paths L1 @ [(path, ol_base L1, is_import)]\<rparr>)"

definition obs_ast_name_is_observer_builtin :: "string \<Rightarrow> bool" where
  "obs_ast_name_is_observer_builtin nm \<longleftrightarrow> nm \<in> set OBS_NAMES"

text \<open>The literal path of a call of \<open>load_file\<close>.\<close>

definition load_literal :: "ast \<Rightarrow> string option" where
  "load_literal arg =
     (case nd_data arg of
        AST_STR s \<Rightarrow> Some s
      | AST_LIST es \<Rightarrow> if \<not> nd_paren arg \<and> length es = 1 then str_literal (hd es) else None
      | _ \<Rightarrow> None)"

definition COMPILE_MAX_DEPTH :: nat where
  "COMPILE_MAX_DEPTH = 128"

definition the_some :: "'a option \<Rightarrow> 'a list" where
  "the_some x = (case x of None \<Rightarrow> [] | Some y \<Rightarrow> [y])"

primrec obs_ast_scan_d :: "nat \<Rightarrow> ast \<Rightarrow> obs_loads \<Rightarrow> bool \<times> obs_loads"
  and obs_data_scan_d :: "nat \<Rightarrow> ast_data \<Rightarrow> obs_loads \<Rightarrow> bool \<times> obs_loads" where
  "obs_ast_scan_d depth (Node line col h p d) = 
     (if COMPILE_MAX_DEPTH < depth then (\<lambda>L. (True, L)) else obs_data_scan_d depth d)"
| "obs_data_scan_d depth (AST_NUM x) = (\<lambda>L. (False, L))"
| "obs_data_scan_d depth (AST_STR s) = (\<lambda>L. (False, L))"
| "obs_data_scan_d depth (AST_IDENT s) =
     (\<lambda>L. (s = ''load_file'' \<or> obs_ast_name_is_observer_builtin s, L))"
| "obs_data_scan_d depth AST_NULL = (\<lambda>L. (False, L))"
| "obs_data_scan_d depth (AST_BINOP op l r) = until_true [obs_ast_scan_d (depth + 1) l, obs_ast_scan_d (depth + 1) r]"
| "obs_data_scan_d depth (AST_UNARY op e) = obs_ast_scan_d (depth + 1) e"
| "obs_data_scan_d depth (AST_ASSIGN s e b) = obs_ast_scan_d (depth + 1) e"
| "obs_data_scan_d depth (AST_RELATION l r) =
     (if ident_name l = Some ''load_file'' then
        (case load_literal r of
           None \<Rightarrow> (\<lambda>L. (True, L))
         | Some path \<Rightarrow> (\<lambda>L. (False, obs_gate_note_load path False L)))
      else until_true [obs_ast_scan_d (depth + 1) l, obs_ast_scan_d (depth + 1) r])"
| "obs_data_scan_d depth (AST_IF c t e) =
     until_true (obs_ast_scan_d (depth + 1) c # map (obs_ast_scan_d (depth + 1)) t @ map (obs_ast_scan_d (depth + 1)) e)"
| "obs_data_scan_d depth (AST_LOOP c b) = until_true (obs_ast_scan_d (depth + 1) c # map (obs_ast_scan_d (depth + 1)) b)"
| "obs_data_scan_d depth (AST_FUNC s ps ds k b) = until_true (map (obs_ast_scan_d (depth + 1)) b)"
| "obs_data_scan_d depth (AST_RETURN e) = obs_ast_scan_d (depth + 1) e"
| "obs_data_scan_d depth (AST_BLOCK b) = until_true (map (obs_ast_scan_d (depth + 1)) b)"
| "obs_data_scan_d depth (AST_LIST es) = until_true (map (obs_ast_scan_d (depth + 1)) es)"
| "obs_data_scan_d depth (AST_INDEX t i) = until_true [obs_ast_scan_d (depth + 1) t, obs_ast_scan_d (depth + 1) i]"
| "obs_data_scan_d depth (AST_LISTCOMP e s i f) =
     until_true (obs_ast_scan_d (depth + 1) e # obs_ast_scan_d (depth + 1) i # the_some (map_option (obs_ast_scan_d (depth + 1)) f))"
| "obs_data_scan_d depth (AST_FOR s i b) = until_true (obs_ast_scan_d (depth + 1) i # map (obs_ast_scan_d (depth + 1)) b)"
| "obs_data_scan_d depth (AST_PROGRAM b) = until_true (map (obs_ast_scan_d (depth + 1)) b)"
| "obs_data_scan_d depth (AST_INTERROGATE k e a w) = (\<lambda>L. (True, L))"
| "obs_data_scan_d depth (AST_PREDICATE k) = (\<lambda>L. (True, L))"
| "obs_data_scan_d depth (AST_TRY b s c) = until_true (map (obs_ast_scan_d (depth + 1)) b @ map (obs_ast_scan_d (depth + 1)) c)"
| "obs_data_scan_d depth (AST_DICT ks vs) =
     until_true (interleave (map (obs_ast_scan_d (depth + 1)) ks) (map (obs_ast_scan_d (depth + 1)) vs))"
| "obs_data_scan_d depth (AST_DOT t s) = obs_ast_scan_d (depth + 1) t"
| "obs_data_scan_d depth AST_BREAK = (\<lambda>L. (False, L))"
| "obs_data_scan_d depth AST_CONTINUE = (\<lambda>L. (False, L))"
| "obs_data_scan_d depth (AST_DOT_ASSIGN t s e) = until_true [obs_ast_scan_d (depth + 1) t, obs_ast_scan_d (depth + 1) e]"
| "obs_data_scan_d depth (AST_IMPORT s) = (\<lambda>L. (False, obs_gate_note_load s True L))"
| "obs_data_scan_d depth (AST_MATCH e ps bs) =
     until_true (obs_ast_scan_d (depth + 1) e # concat (map2 (\<lambda>p b. the_some p @ b) (map (map_option (obs_ast_scan_d (depth + 1))) ps) (map (map (obs_ast_scan_d (depth + 1))) bs)))"
| "obs_data_scan_d depth (AST_LAMBDA ps b) = obs_ast_scan_d (depth + 1) b"
| "obs_data_scan_d depth (AST_UNOBSERVED b) = until_true (map (obs_ast_scan_d (depth + 1)) b)"
| "obs_data_scan_d depth (AST_INDEX_ASSIGN t i e op) =
     until_true [obs_ast_scan_d (depth + 1) t, obs_ast_scan_d (depth + 1) i, obs_ast_scan_d (depth + 1) e]"
| "obs_data_scan_d depth (AST_LIST_PATTERN_ASSIGN ns hs e) = obs_ast_scan_d (depth + 1) e"
| "obs_data_scan_d depth (AST_SLICE t a b) =
     until_true (obs_ast_scan_d (depth + 1) t # the_some (map_option (obs_ast_scan_d (depth + 1)) a) @ the_some (map_option (obs_ast_scan_d (depth + 1)) b))"

definition obs_ast_scan :: "ast \<Rightarrow> obs_loads \<Rightarrow> bool \<times> obs_loads" where
  "obs_ast_scan = obs_ast_scan_d 0"

text \<open>The list is bounded by no room, so only that something was loaded is kept.\<close>

definition for_loop_reads_observer :: "ast \<Rightarrow> ast list \<Rightarrow> bool" where
  "for_loop_reads_observer iter body =
     (case until_true (map obs_ast_scan body @ [obs_ast_scan iter])
         \<lparr>ol_paths = [], ol_base = [], ol_cap = 0, ol_overflow = False, ol_import_seen = False\<rparr> of
        (r, L) \<Rightarrow> r \<or> ol_import_seen L)"

end
