(* ===== verification/Eigs_Scan_Sound.thy ===== *)
theory Eigs_Scan_Sound
  imports Eigs_Scan
begin

text \<open>
  What the compiler's passes over the tree may be relied on for, and what they miss: the
  loop bodies that bind nothing new, the captures of closures, the rebinding of \<open>dispatch\<close>.
\<close>

lemma in_turn_simps [simp]:
  "in_turn [] s = s" "in_turn (f # fs) s = in_turn fs (f s)" "in_turn (fs @ gs) s = in_turn gs (in_turn fs s)"
  by (simp_all add: in_turn_def)

lemma in_turn_map_id [simp]: "(\<And>x out. x \<in> set xs \<Longrightarrow> f x out = out) \<Longrightarrow> in_turn (map f xs) s = s"
  by (induction xs) simp_all

lemma in_turn_concat_id [simp]:
  "(\<And>ys x out. ys \<in> set xss \<Longrightarrow> x \<in> set ys \<Longrightarrow> f x out = out) \<Longrightarrow> in_turn (concat (map (map f) xss)) s = s"
  unfolding map_concat [symmetric] by (rule in_turn_map_id) auto

lemma any_in_simps [simp]:
  "any_in [] \<longleftrightarrow> False" "any_in (b # bs) \<longleftrightarrow> b \<or> any_in bs" "any_in (bs @ cs) \<longleftrightarrow> any_in bs \<or> any_in cs"
  by (simp_all add: any_in_def)

lemma any_in_set: "any_in bs \<longleftrightarrow> True \<in> set bs"
  by (auto simp: any_in_def list_ex_iff)

lemma all_in_simps [simp]:
  "all_in [] \<longleftrightarrow> True" "all_in (b # bs) \<longleftrightarrow> b \<and> all_in bs" "all_in (bs @ cs) \<longleftrightarrow> all_in bs \<and> all_in cs"
  by (simp_all add: all_in_def)

lemma all_in_set: "all_in bs \<longleftrightarrow> False \<notin> set bs"
  unfolding all_in_def list_all_iff by metis

lemma option_walk_simps [simp]:
  "if_any None = (\<lambda>s. s)" "if_any (Some f) = f" "some_of None \<longleftrightarrow> False" "some_of (Some b) \<longleftrightarrow> b"
  "all_of None \<longleftrightarrow> True" "all_of (Some b) \<longleftrightarrow> b"
  by (simp_all add: if_any_def some_of_def all_of_def)

lemma interleave_in: "x \<in> set (interleave xs ys) \<Longrightarrow> x \<in> set xs \<or> x \<in> set ys"
  by (auto simp: interleave_def dest: set_zip_leftD set_zip_rightD)

lemma interleave_map: "interleave (map f xs) (map f ys) = map f (interleave xs ys)"
  by (simp add: interleave_def map_concat zip_map_map comp_def split_def)


lemma overwrite_safe_no_closure:
  "subtree_overwrite_safe bound env a \<Longrightarrow> \<not> ast_has_closure a"
  "data_overwrite_safe bound env d \<Longrightarrow> \<not> data_has_closure d"
proof (induction a and d)
  case (AST_SLICE t a b)
  then show ?case by (cases a; cases b) auto
next
  case (AST_INTERROGATE k e a b)
  then show ?case by (cases a; cases b) auto
next
  case (AST_DICT ks vs)
  then have "x \<in> set (interleave ks vs) \<Longrightarrow> subtree_overwrite_safe bound env x \<Longrightarrow> \<not> ast_has_closure x" for x
    using interleave_in [of x ks vs] by blast
  with AST_DICT.prems show ?case by (auto simp: interleave_map any_in_set all_in_set)
qed (auto simp: any_in_set all_in_set)

lemma overwrite_safe_no_env_bound:
  "subtree_overwrite_safe bound env a \<Longrightarrow> scan_for_env_bound a out = out"
  "data_overwrite_safe bound env d \<Longrightarrow> scan_env_bound_data d out = out"
proof (induction a and d arbitrary: out and out)
  case (AST_SLICE t a b)
  then show ?case by (cases a; cases b) auto
next
  case (AST_DICT ks vs)
  then have "x \<in> set (interleave ks vs) \<Longrightarrow> subtree_overwrite_safe bound env x \<Longrightarrow> scan_for_env_bound x out = out" for x out
    using interleave_in [of x ks vs] by blast
  with AST_DICT.prems show ?case by (auto simp: interleave_map any_in_set all_in_set)
qed (auto simp: any_in_set all_in_set)

text \<open>Every name in a set satisfies \<open>P\<close>.\<close>

definition names_in :: "(string \<Rightarrow> bool) \<Rightarrow> name_set \<Rightarrow> bool" where
  "names_in P out \<longleftrightarrow> name_set_ok out \<and> list_all P (ns_names out)"

lemma names_in_add: "names_in P out \<Longrightarrow> P s \<Longrightarrow> names_in P (name_set_add s out)"
  by (auto simp: names_in_def names.add_ok names.add_keys)


lemma names_in_turn: "(\<And>x out. x \<in> set xs \<Longrightarrow> names_in P out \<Longrightarrow> names_in P (f x out)) \<Longrightarrow> names_in P out \<Longrightarrow>
   names_in P (in_turn (map f xs) out)"
  by (induction xs arbitrary: out) simp_all


lemma overwrite_safe_assigns:
  defines "P \<equiv> \<lambda>bound env x. name_set_has bound x \<or> env x"
  shows "subtree_overwrite_safe bound env a \<Longrightarrow> names_in (P bound env) out \<Longrightarrow> names_in (P bound env) (collect_module_names_walk a out)"
    and "data_overwrite_safe bound env d \<Longrightarrow> names_in (P bound env) out \<Longrightarrow> names_in (P bound env) (collect_module_names_data d out)"
proof (induction a and d arbitrary: out and out)
  case (AST_ASSIGN s e b)
  then show ?case by (auto simp: P_def intro: names_in_add)
qed (auto simp: all_in_set intro!: names_in_turn)

text \<open>
  C13: a loop body that \<open>subtree_overwrite_safe\<close> accepts binds nothing of its own: it makes
  no closure, it binds no name in the environment by a comprehension or a catch, and every
  name it assigns is bound before the loop or in the compile-time environment.
\<close>
theorem overwrite_safe_binds_nothing_new:
  assumes "subtree_overwrite_safe bound env body"
  shows "\<not> ast_has_closure body \<and> scan_for_env_bound body out = out \<and>
    (\<forall>x. name_set_has (collect_module_names_walk body name_set_empty) x \<longrightarrow> name_set_has bound x \<or> env x)"
proof -
  let ?P = "\<lambda>x. name_set_has bound x \<or> env x"
  have "names_in ?P name_set_empty" by (simp add: names_in_def name_set_empty_ok) (simp add: name_set_empty_def)
  then have "names_in ?P (collect_module_names_walk body name_set_empty)" by (rule overwrite_safe_assigns(1) [OF assms])
  then show ?thesis
    using overwrite_safe_no_closure(1) [OF assms] overwrite_safe_no_env_bound(1) [OF assms]
    by (auto simp: names_in_def names.has_keys list_all_iff)
qed

theorem overwrite_safe_binds_nothing_new_witness:
  "let body = make_node (AST_ASSIGN ''total'' (make_node (AST_IDENT ''i'') 3) False) 3 in
     subtree_overwrite_safe name_set_empty (\<lambda>x. x = ''total'') body \<and> scan_for_env_bound body name_set_empty = name_set_empty \<and>
     (\<forall>x. name_set_has (collect_module_names_walk body name_set_empty) x \<longrightarrow> x = ''total'')"
proof -
  let ?body = "make_node (AST_ASSIGN ''total'' (make_node (AST_IDENT ''i'') 3) False) 3"
  have "subtree_overwrite_safe name_set_empty (\<lambda>x. x = ''total'') ?body"
    by (simp add: make_node_def make_node_col_def)
  from this overwrite_safe_binds_nothing_new [OF this, of name_set_empty] show ?thesis
    by (simp add: Let_def name_set_has_def name_set_empty_def)
qed






end
