(* ===== verification/Eigs_Emit.thy ===== *)
theory Eigs_Emit
  imports Eigs_Const_Pool Eigs_Verify Eigs_Scan "HOL-Library.State_Monad"
begin

text \<open>
  The state of the compiler and its emission layer (\<open>src/compiler.c\<close>): every emit helper
  appends bytes to the chunk and keeps a running count of the operand stack's height,
  jumps are emitted with a placeholder and patched. Every operation is a computation of
  the state monad over the compiler's record. Errors are counted in the front end's
  diagnostic state; what is printed to stderr is not modelled.
\<close>

subsection \<open>State\<close>

definition MAX_LOCALS :: nat where
  "MAX_LOCALS = 512"

text \<open>
  A local variable; its scope depth and capture flag are never read, and its slot is its
  position in the array.
\<close>

record local_var =
  lv_name :: string
  lv_hash :: u32
  lv_retired :: bool

record loop_ctx =
  break_jumps :: "nat list"
  continue_target :: nat
  has_fresh_env :: bool
  unobs_depth_at_entry :: nat
  try_depth_at_entry :: nat

text \<open>
  A finished function: its chunk with the tables of its parameters and locals. The
  program forgets the highest stack depth its compiler saw; it is kept here for the
  properties.
\<close>

datatype (plugins only: code size) fn_obj =
  Fn_Obj (fo_name: string) (fo_param_count: nat) (fo_first_default: nat) (fo_local_names: "string list")
    (fo_local_traced: "bool list") (fo_code: "u8 list") (fo_lines: "int list") (fo_cols: "int list")
    (fo_constants: "const_val list") (fo_max_stack: int) (fo_fns: "fn_obj list")

text \<open>What a compiler reads of the compilers that enclose it.\<close>

record outer_cmp =
  oc_locals :: "local_var list"
  oc_captured :: name_set
  oc_interrogated :: name_set

text \<open>
  What the host sets up for a compilation: the names bound in the compile-time
  environment (\<open>env_get_hashed\<close> answers non-NULL), the three global mode flags, and the
  names defined at module scope.
\<close>

record cmp_unit =
  cu_bound :: "string \<Rightarrow> bool"
  g_compile_module_boundary :: bool
  g_compile_import_toplevel :: bool
  g_compile_module_slots :: bool
  cu_module_names :: name_set

record cmp =
  c_chunk :: "fn_obj chunk"
  c_outer :: "outer_cmp list"
  c_locals :: "local_var list"
  c_loops :: "loop_ctx list"
  c_unit :: cmp_unit
  stack_depth :: int
  max_stack :: int
  c_captured :: name_set
  c_interrogated :: name_set
  c_env_bound :: name_set
  lev_names :: "string list"
  module_slot_names :: name_set
  root_ast :: "ast option"
  last_line :: int
  dispatch_rebound :: bool
  unobs_depth :: nat
  try_depth :: nat
  c_diag :: diag

text \<open>\<open>c->enclosing != NULL\<close>.\<close>

definition in_function :: "cmp \<Rightarrow> bool" where
  "in_function c \<longleftrightarrow> c_outer c \<noteq> []"

subsection \<open>Computations\<close>

type_synonym 'a comp = "(cmp, 'a) state"

definition gets :: "(cmp \<Rightarrow> 'a) \<Rightarrow> 'a comp" where
  "gets f = State (\<lambda>c. (f c, c))"

definition modify :: "(cmp \<Rightarrow> cmp) \<Rightarrow> unit comp" where
  "modify f = State (\<lambda>c. ((), f c))"

abbreviation give :: "'a \<Rightarrow> 'a comp" where
  "give \<equiv> State_Monad.return"

abbreviation nothing :: "unit comp" where
  "nothing \<equiv> give ()"

lemma run_gets [simp]: "run_state (gets f) c = (f c, c)"
  by (simp add: gets_def)

lemma run_modify [simp]: "run_state (modify f) c = ((), f c)"
  by (simp add: modify_def)

definition cmp_error :: "unit comp" where
  "cmp_error = modify (\<lambda>c. c\<lparr>c_diag := count_error (c_diag c)\<rparr>)"

definition cmp_record :: "int \<Rightarrow> string \<Rightarrow> unit comp" where
  "cmp_record line msg = modify (\<lambda>c. c\<lparr>c_diag := eigs_record_first_error line msg (c_diag c)\<rparr>)"

subsection \<open>The stack of loop environments, and of loops, innermost first\<close>

definition lev_has :: "string \<Rightarrow> cmp \<Rightarrow> bool" where
  "lev_has name c \<longleftrightarrow> name \<in> set (lev_names c)"

definition lev_push :: "string \<Rightarrow> unit comp" where
  "lev_push name = modify (\<lambda>c. c\<lparr>lev_names := name # lev_names c\<rparr>)"

definition lev_pop :: "unit comp" where
  "lev_pop = modify (\<lambda>c. c\<lparr>lev_names := tl (lev_names c)\<rparr>)"

text \<open>A new loop; its target and the kind of its environment are set by its caller.\<close>

definition loop_push :: "unit comp" where
  "loop_push = modify (\<lambda>c. c\<lparr>c_loops :=
     \<lparr>break_jumps = [], continue_target = 0, has_fresh_env = False,
       unobs_depth_at_entry = unobs_depth c, try_depth_at_entry = try_depth c\<rparr> # c_loops c\<rparr>)"

definition loop_pop :: "unit comp" where
  "loop_pop = modify (\<lambda>c. c\<lparr>c_loops := tl (c_loops c)\<rparr>)"

text \<open>A change of the innermost loop, through the pointer to it.\<close>

definition on_loop :: "(loop_ctx \<Rightarrow> loop_ctx) \<Rightarrow> unit comp" where
  "on_loop f = modify (\<lambda>c. c\<lparr>c_loops := (case c_loops c of [] \<Rightarrow> [] | lp # lps \<Rightarrow> f lp # lps)\<rparr>)"

definition loop_add_break :: "nat \<Rightarrow> unit comp" where
  "loop_add_break jump = on_loop (\<lambda>lp. lp\<lparr>break_jumps := break_jumps lp @ [jump]\<rparr>)"

subsection \<open>Stack depth\<close>

text \<open>An underflow is reported on stderr and the depth reset to 0.\<close>

definition adjust_stack :: "int \<Rightarrow> unit comp" where
  "adjust_stack delta = modify (\<lambda>c.
     let d = stack_depth c + delta in
     c\<lparr>max_stack := (if max_stack c < d then d else max_stack c), stack_depth := (if d < 0 then 0 else d)\<rparr>)"

definition set_depth :: "int \<Rightarrow> unit comp" where
  "set_depth d = modify (\<lambda>c. c\<lparr>stack_depth := d\<rparr>)"

definition op_stack_effect :: "opcode \<Rightarrow> int" where
  "op_stack_effect op =
    (if op \<in> {OP_CONST, OP_NULL, OP_NUM_ZERO, OP_NUM_ONE, OP_GET_LOCAL, OP_GET_NAME, OP_DUP, OP_PREDICATE,
       OP_LISTCOMP_BEGIN, OP_REPORT_SLOT, OP_REPORT_NAME, OP_REPORT_VALUE_SLOT, OP_REPORT_VALUE_NAME,
       OP_TRAJECTORY_SLOT, OP_TRAJECTORY_NAME, OP_OBSERVE_VALUE_SLOT, OP_OBSERVE_VALUE_NAME,
       OP_PREDICATE_SLOT, OP_PREDICATE_NAME} then 1
     else if op = OP_DUP2 then 2
     else if op = OP_POP then - 1
     else if op \<in> {OP_ADD, OP_SUB, OP_MUL, OP_DIV, OP_MOD, OP_BAND, OP_BOR, OP_BXOR, OP_SHL, OP_SHR,
       OP_EQ, OP_NE, OP_LT, OP_GT, OP_LE, OP_GE, OP_INDEX_GET} then - 1
     else if op \<in> {OP_NEG, OP_NOT, OP_BNOT, OP_INTERROGATE} then 0
     else if op \<in> {OP_SET_LOCAL, OP_SET_NAME, OP_SET_NAME_LOCAL, OP_SET_FN_NAME_LOCAL, OP_OBSERVE_ASSIGN,
       OP_OBSERVE_ASSIGN_LOCAL, OP_OBSERVE_NAME_POST} then 0
     else if op \<in> {OP_JUMP_IF_FALSE, OP_JUMP_IF_TRUE} then - 1
     else if op \<in> {OP_JUMP, OP_JUMP_BACK, OP_JUMP_IF_FALSE_PEEK, OP_JUMP_IF_TRUE_PEEK} then 0
     else if op = OP_DOT_GET then 0
     else if op = OP_DOT_SET then - 1
     else if op = OP_LOCAL_DOT_GET then 1
     else if op = OP_LOCAL_DOT_SET then 0
     else if op = OP_LOCAL_IDX_GET then 1
     else if op = OP_LOCAL_IDX_DOT_GET then 1
     else if op = OP_LOCAL_IDX_DOT_SET then 0
     else if op \<in> {OP_INTERROGATE_NAMED, OP_INTERROGATE_NAMED_WHEN, OP_INTERROGATE_NAMED_AT} then 0
     else if op = OP_DEFAULT_PARAM then 0
     else if op = OP_DESTRUCTURE_UNPACK then 0
     else if op = OP_SLICE_GET then - 2
     else if op = OP_INDEX_SET then - 2
     else if op \<in> {OP_RETURN, OP_RETURN_NULL} then 0
     else if op \<in> {OP_LOOP_ENV_FRESH, OP_LOOP_ENV_END, OP_LOOP_ENV_CLEAR} then 0
     else if op = OP_ITER_SETUP then 0
     else if op = OP_ITER_NEXT then 1
     else if op \<in> {OP_TRY_BEGIN, OP_TRY_END} then 0
     else if op \<in> {OP_LOOP_STALL_CHECK, OP_LOOP_CAP_CHECK} then 0
     else if op \<in> {OP_UNOBSERVED_BEGIN, OP_UNOBSERVED_END} then 0
     else if op = OP_LINE then 0
     else if op \<in> {OP_BREAK, OP_CONTINUE} then 0
     else if op = OP_CLOSURE then 1
     else if op = OP_LISTCOMP_APPEND then - 1
     else if op = OP_IMPORT then 1
     else if op = OP_DISPATCH then - 2
     else 0)"

subsection \<open>Emission\<close>

text \<open>The byte of an opcode is its position in the enumeration.\<close>

definition op_enc :: "opcode \<Rightarrow> u8" where
  "op_enc op = of_nat (length (takeWhile (\<lambda>o'. o' \<noteq> op) opcodes))"

definition on_chunk :: "(fn_obj chunk \<Rightarrow> fn_obj chunk) \<Rightarrow> unit comp" where
  "on_chunk f = modify (\<lambda>c. c\<lparr>c_chunk := f (c_chunk c)\<rparr>)"

definition code_len :: "cmp \<Rightarrow> nat" where
  "code_len c = length (code (c_chunk c))"

definition put_op :: "opcode \<Rightarrow> int \<Rightarrow> unit comp" where
  "put_op op line = on_chunk (chunk_emit (op_enc op) line)"

text \<open>A \<open>uint16_t\<close> operand: what is passed is truncated.\<close>

definition put_u16 :: "nat \<Rightarrow> int \<Rightarrow> unit comp" where
  "put_u16 arg line = on_chunk (chunk_emit_u16 (of_nat arg) line)"

definition put_u32 :: "int \<Rightarrow> int \<Rightarrow> unit comp" where
  "put_u32 arg line = on_chunk (chunk_emit_u32 (of_int arg) line)"

definition emit :: "opcode \<Rightarrow> int \<Rightarrow> unit comp" where
  "emit op line = do { put_op op line; adjust_stack (op_stack_effect op) }"

definition emit_op_u16 :: "opcode \<Rightarrow> nat \<Rightarrow> int \<Rightarrow> unit comp" where
  "emit_op_u16 op arg line = do { put_op op line; put_u16 arg line; adjust_stack (op_stack_effect op) }"

definition emit_op_u32 :: "opcode \<Rightarrow> int \<Rightarrow> int \<Rightarrow> unit comp" where
  "emit_op_u32 op arg line = do { put_op op line; put_u32 arg line; adjust_stack (op_stack_effect op) }"

definition emit_op_u16_u16 :: "opcode \<Rightarrow> nat \<Rightarrow> nat \<Rightarrow> int \<Rightarrow> unit comp" where
  "emit_op_u16_u16 op arg1 arg2 line =
     do { put_op op line; put_u16 arg1 line; put_u16 arg2 line; adjust_stack (op_stack_effect op) }"

definition emit_op_u16_u16_u16 :: "opcode \<Rightarrow> nat \<Rightarrow> nat \<Rightarrow> nat \<Rightarrow> int \<Rightarrow> unit comp" where
  "emit_op_u16_u16_u16 op a1 a2 a3 line =
     do { put_op op line; put_u16 a1 line; put_u16 a2 line; put_u16 a3 line; adjust_stack (op_stack_effect op) }"

definition set_last_line :: "int \<Rightarrow> unit comp" where
  "set_last_line line = modify (\<lambda>c. c\<lparr>last_line := line\<rparr>)"

text \<open>The counts are \<open>uint16_t\<close> as well.\<close>

definition emit_call :: "nat \<Rightarrow> int \<Rightarrow> unit comp" where
  "emit_call argc line =
     do { put_op OP_CALL line; put_u16 argc line; adjust_stack (- int (argc mod 0x10000)); set_last_line (- 1) }"

definition emit_list :: "nat \<Rightarrow> int \<Rightarrow> unit comp" where
  "emit_list count line =
     do { put_op OP_LIST line; put_u16 count line; adjust_stack (1 - int (count mod 0x10000)) }"

definition emit_dict :: "nat \<Rightarrow> int \<Rightarrow> unit comp" where
  "emit_dict count line =
     do { put_op OP_DICT line; put_u16 count line; adjust_stack (1 - int (count mod 0x10000) * 2) }"

text \<open>The answer is the offset of the placeholder.\<close>

definition emit_jump :: "opcode \<Rightarrow> int \<Rightarrow> nat comp" where
  "emit_jump op line = do {
     put_op op line;
     adjust_stack (op_stack_effect op);
     offset \<leftarrow> gets code_len;
     put_u16 0xFFFF line;
     give offset }"

definition raw_patch :: "nat \<Rightarrow> unit comp" where
  "raw_patch offset = modify (\<lambda>c.
     case chunk_patch_jump offset (c_chunk c, c_diag c) of (ch, d) \<Rightarrow> c\<lparr>c_chunk := ch, c_diag := d\<rparr>)"

definition patch_jump :: "nat \<Rightarrow> unit comp" where
  "patch_jump offset = do { raw_patch offset; set_last_line (- 1) }"

text \<open>A back edge too long for its operand is an error, and jumps by 0.\<close>

definition emit_loop :: "nat \<Rightarrow> int \<Rightarrow> unit comp" where
  "emit_loop loop_start line = do {
     put_op OP_JUMP_BACK line;
     len \<leftarrow> gets code_len;
     let offset = len - loop_start + 2;
     (if 0xFFFF < offset then do { cmp_error; put_u16 0 line } else put_u16 offset line);
     set_last_line (- 1) }"

definition capture_loop_start :: "nat comp" where
  "capture_loop_start = do { set_last_line (- 1); gets code_len }"

definition emit_line :: "int \<Rightarrow> unit comp" where
  "emit_line line = do {
     cur \<leftarrow> gets last_line;
     if cur = line then nothing
     else do { emit_op_u32 OP_LINE line line; set_last_line line } }"

subsection \<open>Constants\<close>

definition check_const_index :: "nat \<Rightarrow> nat comp" where
  "check_const_index idx =
     (if 0xFFFF < idx then do {
        (if idx = 0x10000 then cmp_record 0 ''constant pool exceeds 65536 entries in one chunk'' else nothing);
        cmp_error;
        give 0 }
      else give idx)"

definition add_const_value :: "const_val \<Rightarrow> nat comp" where
  "add_const_value v = do {
     idx \<leftarrow> State (\<lambda>c. case chunk_add_constant v (c_chunk c) of (idx, ch) \<Rightarrow> (idx, c\<lparr>c_chunk := ch\<rparr>));
     check_const_index idx }"

definition add_string_constant :: "string \<Rightarrow> nat comp" where
  "add_string_constant str = add_const_value (VAL_STR str)"

text \<open>\<open>make_num\<close> passes the number through the guard of the runtime.\<close>

definition add_num_constant :: "double \<Rightarrow> nat comp" where
  "add_num_constant num = add_const_value (VAL_NUM (fst (num_guard num \<lparr>g_math_flags = 0, g_strict = False, ms_raised = False\<rparr>)))"

subsection \<open>Locals\<close>

text \<open>The last local of that name that is not retired.\<close>

fun last_slot :: "string \<Rightarrow> u32 \<Rightarrow> local_var list \<Rightarrow> nat \<Rightarrow> nat option \<Rightarrow> nat option" where
  "last_slot name hash [] i r = r"
| "last_slot name hash (v # vs) i r =
     last_slot name hash vs (i + 1)
       (if \<not> lv_retired v \<and> lv_hash v = hash \<and> lv_name v = name then Some i else r)"

definition resolve_local :: "string \<Rightarrow> u32 \<Rightarrow> cmp \<Rightarrow> nat option" where
  "resolve_local name hash c = last_slot name hash (c_locals c) 0 None"

definition resolve_observer_operand_slot :: "ast \<Rightarrow> string \<Rightarrow> cmp \<Rightarrow> nat option" where
  "resolve_observer_operand_slot ident name c =
     (if \<not> in_function c \<and> \<not> name_set_has (module_slot_names c) name then None
      else resolve_local name (if nd_hash ident \<noteq> 0 then nd_hash ident else env_hash_name name) c)"

definition add_local :: "string \<Rightarrow> u32 \<Rightarrow> nat option comp" where
  "add_local name hash = do {
     slot \<leftarrow> gets (\<lambda>c. length (c_locals c));
     if MAX_LOCALS \<le> slot then give None
     else do {
       modify (\<lambda>c. c\<lparr>c_locals := c_locals c @ [\<lparr>lv_name = name, lv_hash = hash, lv_retired = False\<rparr>]\<rparr>);
       give (Some slot) } }"

text \<open>The opcode of an operator; \<open>OP_CONST\<close>, whose byte is 0, for none.\<close>

definition binop_to_opcode :: "string \<Rightarrow> opcode" where
  "binop_to_opcode op =
     (let a = c0 op; b = c1 op in
      if a = CHR ''+'' \<and> b = NUL then OP_ADD
      else if a = CHR ''-'' \<and> b = NUL then OP_SUB
      else if a = CHR ''*'' \<and> b = NUL then OP_MUL
      else if a = CHR ''/'' \<and> b = NUL then OP_DIV
      else if a = CHR ''%'' \<and> b = NUL then OP_MOD
      else if a = CHR ''&'' \<and> b = NUL then OP_BAND
      else if a = CHR ''|'' \<and> b = NUL then OP_BOR
      else if a = CHR ''^'' \<and> b = NUL then OP_BXOR
      else if a = CHR ''<'' \<and> b = CHR ''<'' then OP_SHL
      else if a = CHR ''>'' \<and> b = CHR ''>'' then OP_SHR
      else if a = CHR ''<'' \<and> b = NUL then OP_LT
      else if a = CHR ''>'' \<and> b = NUL then OP_GT
      else if a = CHR ''<'' \<and> b = CHR ''='' then OP_LE
      else if a = CHR ''>'' \<and> b = CHR ''='' then OP_GE
      else if a = CHR ''='' \<and> b = NUL then OP_EQ
      else if a = CHR ''!'' \<and> b = CHR ''='' then OP_NE
      else OP_CONST)"

end
