(* ===== verification/Eigs_Compile.thy ===== *)
theory Eigs_Compile
  imports Eigs_Emit
begin

text \<open>
  The compiler (\<open>src/compiler.c\<close>): one definition per kind of node, the branches of
  \<open>compile_node_inner\<close>. \<open>rec\<close> is \<open>compile_node\<close> one level deeper; the knot is tied at
  the end by recursion on the depth left of \<open>COMPILE_MAX_DEPTH\<close>, which is the program's
  own guard. The arming of the trace and the stack mismatch messages on stderr are not
  modelled.
\<close>

definition hash_or :: "u32 \<Rightarrow> string \<Rightarrow> u32" where
  "hash_or h name = (if h \<noteq> 0 then h else env_hash_name name)"

subsection \<open>Assignment\<close>

text \<open>
  The chain of compilers ends with that of the module, whose locals are not looked at.
\<close>

definition name_in_enclosing :: "string \<Rightarrow> cmp \<Rightarrow> bool" where
  "name_in_enclosing name c =
     list_ex (\<lambda>e. list_ex (\<lambda>v. \<not> lv_retired v \<and> lv_name v = name) (oc_locals e) \<or>
       name_set_has (oc_captured e) name \<or> name_set_has (oc_interrogated e) name) (butlast (c_outer c))"

text \<open>The instruction that stores, the one that observes, and their operand.\<close>

definition by_slot :: "nat \<Rightarrow> (opcode \<times> opcode \<times> nat) comp" where
  "by_slot slot = give (OP_SET_LOCAL, OP_OBSERVE_ASSIGN_LOCAL, slot)"

definition by_name :: "opcode \<Rightarrow> string \<Rightarrow> (opcode \<times> opcode \<times> nat) comp" where
  "by_name set_op name = do { idx \<leftarrow> add_string_constant name; give (set_op, OP_OBSERVE_ASSIGN, idx) }"

definition fn_assign_target :: "string \<Rightarrow> u32 \<Rightarrow> bool \<Rightarrow> (opcode \<times> opcode \<times> nat) comp" where
  "fn_assign_target name h local_only = do {
     c \<leftarrow> gets id;
     case resolve_local name h c of
       Some slot \<Rightarrow> by_slot slot
     | None \<Rightarrow>
         if lev_has name c then by_name OP_SET_NAME_LOCAL name
         else do {
           let captured = name_set_has (c_captured c) name;
           let interrogated = name_set_has (c_interrogated c) name;
           let env_bound = name_set_has (c_env_bound c) name;
           let in_outer = name_in_enclosing name c;
           let in_module = name_set_has (cu_module_names (c_unit c)) name;
           let in_globals = (\<not> g_compile_module_boundary (c_unit c) \<and> cu_bound (c_unit c) name);
           if \<not> captured \<and> \<not> interrogated \<and> \<not> env_bound \<and> \<not> in_outer \<and> \<not> in_module \<and> \<not> in_globals then do {
             new_slot \<leftarrow> add_local name h;
             case new_slot of Some slot \<Rightarrow> by_slot slot | None \<Rightarrow> by_name OP_SET_FN_NAME_LOCAL name }
           else if local_only \<or> captured \<or> interrogated \<or> env_bound then by_name OP_SET_FN_NAME_LOCAL name
           else by_name OP_SET_NAME name } }"

definition module_assign_target :: "string \<Rightarrow> u32 \<Rightarrow> bool \<Rightarrow> (opcode \<times> opcode \<times> nat) comp" where
  "module_assign_target name h local_only = do {
     c \<leftarrow> gets id;
     case (if name_set_has (module_slot_names c) name then resolve_local name h c else None) of
       Some slot \<Rightarrow> by_slot slot
     | None \<Rightarrow>
         by_name (if local_only then OP_SET_NAME_LOCAL
                  else if lev_has name c then OP_SET_NAME
                  else if g_compile_import_toplevel (c_unit c) then OP_SET_FN_NAME_LOCAL
                  else OP_SET_NAME) name }"

definition emit_assign_for_tos :: "string \<Rightarrow> u32 \<Rightarrow> bool \<Rightarrow> int \<Rightarrow> unit comp" where
  "emit_assign_for_tos name name_hash local_only line = do {
     fn \<leftarrow> gets in_function;
     (set_op, obs_op, arg) \<leftarrow>
       (if fn then fn_assign_target else module_assign_target) name (hash_or name_hash name) local_only;
     emit_op_u16 obs_op arg line;
     emit_op_u16 set_op arg line;
     if obs_op = OP_OBSERVE_ASSIGN then emit_op_u16 OP_OBSERVE_NAME_POST arg line else nothing }"

subsection \<open>Literals and names\<close>

text \<open>The double 1.\<close>

definition dbl_one :: double where
  "dbl_one = 0x3FF0000000000000"

definition compile_num :: "double \<Rightarrow> int \<Rightarrow> unit comp" where
  "compile_num v line =
     (if fp_eq v 0 then emit OP_NUM_ZERO line
      else if fp_eq v dbl_one then emit OP_NUM_ONE line
      else do { idx \<leftarrow> add_num_constant v; emit_op_u16 OP_CONST idx line })"

text \<open>A string constant, then an instruction with its index.\<close>

definition emit_with_name :: "opcode \<Rightarrow> string \<Rightarrow> int \<Rightarrow> unit comp" where
  "emit_with_name op name line = do { idx \<leftarrow> add_string_constant name; emit_op_u16 op idx line }"

definition compile_ident :: "ast \<Rightarrow> string \<Rightarrow> int \<Rightarrow> unit comp" where
  "compile_ident node name line = do {
     slot \<leftarrow> gets (\<lambda>c. if in_function c \<or> name_set_has (module_slot_names c) name
       then resolve_local name (hash_or (nd_hash node) name) c else None);
     case slot of
       Some slot \<Rightarrow> emit_op_u16 OP_GET_LOCAL slot line
     | None \<Rightarrow> emit_with_name OP_GET_NAME name line }"

subsection \<open>Operators\<close>

definition compile_binop :: "(ast \<Rightarrow> unit comp) \<Rightarrow> string \<Rightarrow> ast \<Rightarrow> ast \<Rightarrow> int \<Rightarrow> unit comp" where
  "compile_binop rec op left right line =
     (if op = ''and'' then do {
        rec left;
        jump \<leftarrow> emit_jump OP_JUMP_IF_FALSE_PEEK line;
        emit OP_POP line;
        rec right;
        patch_jump jump }
      else if op = ''or'' then do {
        rec left;
        jump \<leftarrow> emit_jump OP_JUMP_IF_TRUE_PEEK line;
        emit OP_POP line;
        rec right;
        patch_jump jump }
      else do {
        rec left;
        rec right;
        let opc = binop_to_opcode op;
        if opc \<noteq> OP_CONST then emit opc line else nothing })"

definition compile_unary :: "(ast \<Rightarrow> unit comp) \<Rightarrow> string \<Rightarrow> ast \<Rightarrow> int \<Rightarrow> unit comp" where
  "compile_unary rec op operand line = do {
     rec operand;
     if c0 op = CHR ''-'' then emit OP_NEG line
     else if op = ''not'' then emit OP_NOT line
     else if c0 op = CHR ''~'' then emit OP_BNOT line
     else nothing }"

subsection \<open>Statements in a row\<close>

definition eigs_interrogative_word :: "int \<Rightarrow> string" where
  "eigs_interrogative_word kind =
     (if 0 \<le> kind \<and> kind \<le> 5 then [''what'', ''who'', ''when'', ''where'', ''why'', ''how''] ! nat kind else ''prev'')"

definition quoted :: "string \<Rightarrow> string" where
  "quoted s = CHR 0x27 # s @ [CHR 0x27]"

definition discarded_msg :: "int \<Rightarrow> string" where
  "discarded_msg k =
     quoted (eigs_interrogative_word k @ '' is ...'') @ '' is an interrogative, not an assignment '' @
     [CHR 0xE2, CHR 0x80, CHR 0x94] @ '' question words cannot be assigned with '' @ quoted ''is'' @
     '', and this statement'' @ [CHR 0x27] @ ''s result is discarded''"

definition check_discarded_interrogative :: "ast \<Rightarrow> unit comp" where
  "check_discarded_interrogative stmt =
     (case nd_data stmt of
        AST_INTERROGATE k e a w \<Rightarrow>
          if k < 0 \<or> 5 < k then nothing
          else do { cmp_record (nd_line stmt) (discarded_msg k); cmp_error }
      | _ \<Rightarrow> nothing)"

fun compile_block :: "(ast \<Rightarrow> unit comp) \<Rightarrow> ast list \<Rightarrow> unit comp" where
  "compile_block rec [] = emit OP_NULL 0"
| "compile_block rec [s] = rec s"
| "compile_block rec (s # t # ss) = do {
     rec s;
     check_discarded_interrogative s;
     emit OP_POP (nd_line s);
     compile_block rec (t # ss) }"

fun compile_program :: "(ast \<Rightarrow> unit comp) \<Rightarrow> int \<Rightarrow> ast list \<Rightarrow> unit comp" where
  "compile_program rec line [] = nothing"
| "compile_program rec line [s] = rec s"
| "compile_program rec line (s # t # ss) = do {
     rec s;
     check_discarded_interrogative s;
     emit OP_POP line;
     compile_program rec line (t # ss) }"

fun compile_each :: "(ast \<Rightarrow> unit comp) \<Rightarrow> ast list \<Rightarrow> unit comp" where
  "compile_each rec [] = nothing"
| "compile_each rec (e # es) = do { rec e; compile_each rec es }"

fun repeat_emit :: "nat \<Rightarrow> opcode \<Rightarrow> int \<Rightarrow> unit comp" where
  "repeat_emit 0 op line = nothing"
| "repeat_emit (Suc n) op line = do { emit op line; repeat_emit n op line }"

fun patch_all :: "nat list \<Rightarrow> unit comp" where
  "patch_all [] = nothing"
| "patch_all (j # js) = do { patch_jump j; patch_all js }"

subsection \<open>Assignment of a list pattern\<close>

fun assign_pattern :: "string list \<Rightarrow> u32 list \<Rightarrow> int \<Rightarrow> unit comp" where
  "assign_pattern (n # m # ns) (h # hs) line = do {
     emit_assign_for_tos n h False line;
     emit OP_POP line;
     assign_pattern (m # ns) hs line }"
| "assign_pattern [n] (h # hs) line = emit_assign_for_tos n h False line"
| "assign_pattern _ _ line = nothing"

definition compile_list_pattern :: "(ast \<Rightarrow> unit comp) \<Rightarrow> string list \<Rightarrow> u32 list \<Rightarrow> ast \<Rightarrow> int \<Rightarrow> unit comp" where
  "compile_list_pattern rec names hashes expr line = do {
     rec expr;
     put_op OP_DESTRUCTURE_UNPACK line;
     put_u16 (length names) line;
     adjust_stack (int (length names) - 1);
     assign_pattern names hashes line }"

subsection \<open>Branches and loops\<close>

definition compile_if :: "(ast \<Rightarrow> unit comp) \<Rightarrow> ast \<Rightarrow> ast list \<Rightarrow> ast list \<Rightarrow> int \<Rightarrow> unit comp" where
  "compile_if rec cond if_body else_body line = do {
     rec cond;
     else_jump \<leftarrow> emit_jump OP_JUMP_IF_FALSE line;
     depth_after_cond \<leftarrow> gets stack_depth;
     compile_block rec if_body;
     end_jump \<leftarrow> emit_jump OP_JUMP line;
     patch_jump else_jump;
     set_depth depth_after_cond;
     (if else_body \<noteq> [] then compile_block rec else_body else emit OP_NULL line);
     patch_jump end_jump }"

definition patch_breaks :: "unit comp" where
  "patch_breaks = do {
     lps \<leftarrow> gets c_loops;
     case lps of [] \<Rightarrow> nothing | lp # _ \<Rightarrow> patch_all (break_jumps lp) }"

definition compile_loop :: "(ast \<Rightarrow> unit comp) \<Rightarrow> ast \<Rightarrow> ast list \<Rightarrow> int \<Rightarrow> unit comp" where
  "compile_loop rec cond body line = do {
     loop_push;
     loop_start \<leftarrow> capture_loop_start;
     on_loop (continue_target_update (\<lambda>_. loop_start));
     depth_at_loop \<leftarrow> gets stack_depth;
     rec cond;
     exit_jump \<leftarrow> emit_jump OP_JUMP_IF_FALSE line;
     compile_block rec body;
     emit OP_POP line;
     stall_jump \<leftarrow> emit_jump (if cond_is_observer_based cond then OP_LOOP_STALL_CHECK else OP_LOOP_CAP_CHECK) line;
     set_depth depth_at_loop;
     emit_loop loop_start line;
     patch_jump exit_jump;
     exit_idx \<leftarrow> add_string_constant ''__loop_exit__'';
     normal_idx \<leftarrow> add_string_constant ''normal'';
     emit_op_u16 OP_CONST normal_idx line;
     emit_op_u16 OP_SET_NAME_LOCAL exit_idx line;
     emit OP_POP line;
     patch_jump stall_jump;
     set_depth depth_at_loop;
     patch_breaks;
     loop_pop;
     emit OP_NULL line }"

text \<open>
  Where a \<open>for\<close> keeps its variable: in a slot of the frame, with the slot it had before and
  the one that saves its value, or in a loop environment.
\<close>

record for_binder =
  can_skip_env :: bool
  loop_var_slot :: nat
  prior_slot :: "nat option"
  save_slot :: "nat option"

definition no_binder :: for_binder where
  "no_binder = \<lparr>can_skip_env = False, loop_var_slot = 0, prior_slot = None, save_slot = None\<rparr>"

definition choose_binder :: "string \<Rightarrow> ast list \<Rightarrow> for_binder comp" where
  "choose_binder loop_var body = do {
     c \<leftarrow> gets id;
     let h = env_hash_name loop_var;
     let captured = name_set_has (c_captured c) loop_var;
     let interrogated = name_set_has (c_interrogated c) loop_var;
     let in_outer = name_in_enclosing loop_var c;
     let in_module = name_set_has (cu_module_names (c_unit c)) loop_var;
     let has_slot = (resolve_local loop_var h c \<noteq> None);
     if in_function c \<and> \<not> captured \<and> (has_slot \<or> \<not> interrogated \<and> \<not> in_outer \<and> \<not> in_module) \<and>
        ns_names (in_turn (map scan_for_captures body) name_set_empty) = [] then
       case resolve_local loop_var h c of
         Some slot \<Rightarrow> do {
           save \<leftarrow> add_local ''__for_save'' (env_hash_name ''__for_save'');
           give \<lparr>can_skip_env = True, loop_var_slot = slot, prior_slot = Some slot, save_slot = save\<rparr> }
       | None \<Rightarrow> do {
           new \<leftarrow> add_local loop_var h;
           case new of
             Some slot \<Rightarrow> give \<lparr>can_skip_env = True, loop_var_slot = slot, prior_slot = None, save_slot = None\<rparr>
           | None \<Rightarrow> give no_binder }
     else give no_binder }"

definition copy_slot :: "nat \<Rightarrow> nat \<Rightarrow> int \<Rightarrow> unit comp" where
  "copy_slot from to line = do {
     emit_op_u16 OP_GET_LOCAL from line;
     emit_op_u16 OP_SET_LOCAL to line;
     emit OP_POP line }"

definition saves_slot :: "for_binder \<Rightarrow> (nat \<times> nat) option" where
  "saves_slot b =
     (if can_skip_env b then
        (case (prior_slot b, save_slot b) of (Some p, Some s) \<Rightarrow> Some (p, s) | _ \<Rightarrow> None)
      else None)"

definition retire_local :: "nat \<Rightarrow> unit comp" where
  "retire_local slot = modify (\<lambda>c.
     c\<lparr>c_locals := (c_locals c)[slot := (c_locals c ! slot)\<lparr>lv_retired := True\<rparr>]\<rparr>)"

definition can_persist_env :: "for_binder \<Rightarrow> ast list \<Rightarrow> bool" where
  "can_persist_env b body \<longleftrightarrow> \<not> can_skip_env b \<and> \<not> list_ex ast_has_closure body"

definition persist_overwrite :: "ast \<Rightarrow> ast \<Rightarrow> ast list \<Rightarrow> for_binder \<Rightarrow> cmp \<Rightarrow> bool" where
  "persist_overwrite node iter body b c =
     (can_persist_env b body \<and> \<not> in_function c \<and>
      (case root_ast c of
         None \<Rightarrow> False
       | Some root \<Rightarrow>
           (case collect_bound_before_loop root node name_set_empty of
              (found, bound) \<Rightarrow>
                found \<and> list_all (subtree_overwrite_safe bound (cu_bound (c_unit c))) body \<and>
                \<not> for_loop_reads_observer iter body)))"

text \<open>The start of an iteration: the variable takes the element.\<close>

definition bind_loop_var :: "string \<Rightarrow> for_binder \<Rightarrow> bool \<Rightarrow> bool \<Rightarrow> int \<Rightarrow> unit comp" where
  "bind_loop_var loop_var b persist overwrite line =
     (if can_skip_env b then do {
        emit_op_u16 OP_SET_LOCAL (loop_var_slot b) line;
        emit OP_POP line }
      else do {
        (if persist then (if overwrite then nothing else emit OP_LOOP_ENV_CLEAR line) else emit OP_LOOP_ENV_FRESH line);
        emit_with_name OP_SET_NAME_LOCAL loop_var line;
        emit OP_POP line })"

text \<open>After the loop: the slot gets its value back, or is retired.\<close>

definition unbind_loop_var :: "for_binder \<Rightarrow> int \<Rightarrow> unit comp" where
  "unbind_loop_var b line =
     (case saves_slot b of
        Some (p, s) \<Rightarrow> copy_slot s p line
      | None \<Rightarrow> if can_skip_env b \<and> prior_slot b = None then retire_local (loop_var_slot b) else nothing)"

definition compile_for :: "(ast \<Rightarrow> unit comp) \<Rightarrow> ast \<Rightarrow> string \<Rightarrow> ast \<Rightarrow> ast list \<Rightarrow> int \<Rightarrow> unit comp" where
  "compile_for rec node loop_var iter body line = do {
     rec iter;
     emit OP_ITER_SETUP line;
     b \<leftarrow> choose_binder loop_var body;
     (case saves_slot b of Some (p, s) \<Rightarrow> copy_slot p s line | None \<Rightarrow> nothing);
     let persist = can_persist_env b body;
     overwrite \<leftarrow> gets (persist_overwrite node iter body b);
     loop_push;
     on_loop (has_fresh_env_update (\<lambda>_. \<not> (can_skip_env b \<or> persist)));
     depth_before_loop \<leftarrow> gets stack_depth;
     (if persist then emit OP_LOOP_ENV_FRESH line else nothing);
     loop_start \<leftarrow> capture_loop_start;
     on_loop (continue_target_update (\<lambda>_. loop_start));
     exit_jump \<leftarrow> emit_jump OP_ITER_NEXT line;
     bind_loop_var loop_var b persist overwrite line;
     (if can_skip_env b then nothing else lev_push loop_var);
     compile_block rec body;
     (if can_skip_env b then nothing else lev_pop);
     emit OP_POP line;
     (if \<not> can_skip_env b \<and> \<not> persist then emit OP_LOOP_ENV_END line else nothing);
     set_depth depth_before_loop;
     emit_loop loop_start line;
     patch_breaks;
     patch_jump exit_jump;
     set_depth depth_before_loop;
     (if persist then emit OP_LOOP_ENV_END line else nothing);
     emit OP_POP line;
     unbind_loop_var b line;
     emit OP_NULL line;
     loop_pop }"

text \<open>Leave the handlers, the unobserved blocks and the environment the jump goes out of.\<close>

definition leave_loop :: "loop_ctx \<Rightarrow> int \<Rightarrow> unit comp" where
  "leave_loop lp line = do {
     tries \<leftarrow> gets try_depth;
     repeat_emit (tries - try_depth_at_entry lp) OP_TRY_END line;
     unobs \<leftarrow> gets unobs_depth;
     repeat_emit (unobs - unobs_depth_at_entry lp) OP_UNOBSERVED_END line;
     if has_fresh_env lp then emit OP_LOOP_ENV_END line else nothing }"

definition outside_loop :: "string \<Rightarrow> int \<Rightarrow> unit comp" where
  "outside_loop word line = do {
     cmp_record line (quoted word @ '' outside a loop'');
     cmp_error;
     emit OP_NULL line }"

definition compile_break :: "int \<Rightarrow> unit comp" where
  "compile_break line = do {
     lps \<leftarrow> gets c_loops;
     case lps of
       [] \<Rightarrow> outside_loop ''break'' line
     | lp # _ \<Rightarrow> do {
         leave_loop lp line;
         jump \<leftarrow> emit_jump OP_JUMP line;
         loop_add_break jump;
         adjust_stack 1 } }"

definition compile_continue :: "int \<Rightarrow> unit comp" where
  "compile_continue line = do {
     lps \<leftarrow> gets c_loops;
     case lps of
       [] \<Rightarrow> outside_loop ''continue'' line
     | lp # _ \<Rightarrow> do {
         leave_loop lp line;
         emit_loop (continue_target lp) line;
         adjust_stack 1 } }"

subsection \<open>Functions\<close>

text \<open>A compiler for the body of a function inside \<open>c\<close>.\<close>

definition outer_of :: "cmp \<Rightarrow> outer_cmp" where
  "outer_of c = \<lparr>oc_locals = c_locals c, oc_captured = c_captured c, oc_interrogated = c_interrogated c\<rparr>"

definition add_params :: "string list \<Rightarrow> local_var list" where
  "add_params ps = map (\<lambda>p. \<lparr>lv_name = p, lv_hash = env_hash_name p, lv_retired = False\<rparr>) (take MAX_LOCALS ps)"

definition fn_compiler :: "string list \<Rightarrow> ast list \<Rightarrow> cmp \<Rightarrow> cmp" where
  "fn_compiler params body c =
     \<lparr>c_chunk = chunk_new, c_outer = outer_of c # c_outer c, c_locals = add_params params, c_loops = [],
       c_unit = c_unit c, stack_depth = 0, max_stack = 0,
       c_captured = fold name_set_remove params (in_turn (map scan_for_captures body) name_set_empty),
       c_interrogated = in_turn (map scan_for_interrogated body) name_set_empty,
       c_env_bound = in_turn (map scan_for_env_bound body) name_set_empty,
       lev_names = [], module_slot_names = name_set_empty, root_ast = None, last_line = - 1,
       dispatch_rebound = dispatch_rebound c, unobs_depth = 0, try_depth = 0, c_diag = c_diag c\<rparr>"

text \<open>The defaults of the parameters from \<open>first_default\<close> on.\<close>

definition compile_default :: "(ast \<Rightarrow> unit comp) \<Rightarrow> int \<Rightarrow> nat \<Rightarrow> ast \<Rightarrow> unit comp" where
  "compile_default rec node_line i dflt = do {
     let line = (if nd_line dflt \<noteq> 0 then nd_line dflt else node_line);
     put_op OP_DEFAULT_PARAM line;
     put_u16 i line;
     skip_patch \<leftarrow> gets code_len;
     put_u16 0xFFFF line;
     rec dflt;
     emit_op_u16 OP_SET_LOCAL i line;
     put_op OP_POP line;
     adjust_stack (- 1);
     raw_patch skip_patch }"

fun compile_defaults :: "(ast \<Rightarrow> unit comp) \<Rightarrow> int \<Rightarrow> nat \<Rightarrow> ast option list \<Rightarrow> unit comp" where
  "compile_defaults rec node_line i [] = nothing"
| "compile_defaults rec node_line i (None # ds) = compile_defaults rec node_line (i + 1) ds"
| "compile_defaults rec node_line i (Some d # ds) =
     do { compile_default rec node_line i d; compile_defaults rec node_line (i + 1) ds }"

text \<open>
  The finished function. Its local names are the parameters, then whatever locals the
  body added; \<open>fo_max_stack\<close> is the mark its compiler ended with.
\<close>

definition finish_fn :: "string \<Rightarrow> string list \<Rightarrow> nat \<Rightarrow> cmp \<Rightarrow> fn_obj" where
  "finish_fn name params first_default fc =
     (let ch = c_chunk fc; names = params @ drop (length params) (map lv_name (c_locals fc)) in
      Fn_Obj name (length params) first_default names (map (name_set_has (c_interrogated fc)) names)
        (code ch) (lines ch) (cols ch) (constants ch) (max_stack fc) (fn_chunks ch))"

definition add_function :: "fn_obj \<Rightarrow> nat comp" where
  "add_function f = State (\<lambda>c. case chunk_add_function f (c_chunk c) of (idx, ch) \<Rightarrow> (idx, c\<lparr>c_chunk := ch\<rparr>))"

text \<open>Run a computation in the compiler of a function; the diagnostics are those of the program.\<close>

definition in_fn_compiler :: "string list \<Rightarrow> ast list \<Rightarrow> unit comp \<Rightarrow> cmp comp" where
  "in_fn_compiler params body m =
     State (\<lambda>c. let fc = snd (run_state m (fn_compiler params body c)) in (fc, c\<lparr>c_diag := c_diag fc\<rparr>))"

definition emit_closure :: "string \<Rightarrow> string list \<Rightarrow> nat \<Rightarrow> ast list \<Rightarrow> unit comp \<Rightarrow> int \<Rightarrow> unit comp" where
  "emit_closure name params first_default body m line = do {
     fc \<leftarrow> in_fn_compiler params body m;
     fn_idx \<leftarrow> add_function (finish_fn name params first_default fc);
     emit_op_u16 OP_CLOSURE fn_idx line }"

definition compile_func ::
  "(ast \<Rightarrow> unit comp) \<Rightarrow> string \<Rightarrow> string list \<Rightarrow> ast option list \<Rightarrow> nat \<Rightarrow> ast list \<Rightarrow> int \<Rightarrow> unit comp" where
  "compile_func rec name params defaults first_default body line = do {
     emit_closure name params first_default body (do {
       compile_defaults rec line first_default (drop first_default defaults);
       compile_block rec body;
       emit OP_RETURN_NULL line }) line;
     emit_with_name OP_SET_NAME_LOCAL name line }"

definition compile_lambda :: "(ast \<Rightarrow> unit comp) \<Rightarrow> string list \<Rightarrow> ast \<Rightarrow> int \<Rightarrow> unit comp" where
  "compile_lambda rec params body line =
     emit_closure ''<lambda>'' params (length params) [body] (do { rec body; emit OP_RETURN line }) line"

definition compile_return :: "(ast \<Rightarrow> unit comp) \<Rightarrow> ast \<Rightarrow> int \<Rightarrow> unit comp" where
  "compile_return rec expr line = do {
     rec expr;
     tries \<leftarrow> gets try_depth;
     repeat_emit tries OP_TRY_END line;
     unobs \<leftarrow> gets unobs_depth;
     repeat_emit unobs OP_UNOBSERVED_END line;
     emit OP_RETURN line }"

subsection \<open>Calls\<close>

text \<open>The forms the compiler resolves itself: an instruction on a slot, or one on a name.\<close>

definition emit_on_binding :: "opcode \<Rightarrow> opcode \<Rightarrow> ast \<Rightarrow> string \<Rightarrow> int \<Rightarrow> unit comp" where
  "emit_on_binding slot_op name_op ident name line = do {
     slot \<leftarrow> gets (resolve_observer_operand_slot ident name);
     case slot of
       Some slot \<Rightarrow> emit_op_u16 slot_op slot line
     | None \<Rightarrow> emit_with_name name_op name line }"

definition emit_predicate_on :: "int \<Rightarrow> ast \<Rightarrow> string \<Rightarrow> int \<Rightarrow> unit comp" where
  "emit_predicate_on kind ident name line = do {
     slot \<leftarrow> gets (resolve_observer_operand_slot ident name);
     case slot of
       Some slot \<Rightarrow> emit_op_u16_u16 OP_PREDICATE_SLOT (nat kind) slot line
     | None \<Rightarrow> do {
         idx \<leftarrow> add_string_constant name;
         emit_op_u16_u16 OP_PREDICATE_NAME (nat kind) idx line } }"

definition compile_call :: "(ast \<Rightarrow> unit comp) \<Rightarrow> ast \<Rightarrow> ast \<Rightarrow> int \<Rightarrow> unit comp" where
  "compile_call rec fn arg line = do {
     rec fn;
     (case nd_data arg of
        AST_LIST es \<Rightarrow>
          if \<not> nd_paren arg then do { compile_each rec es; emit_call (length es) line }
          else do { rec arg; emit_call 1 line }
      | _ \<Rightarrow> do { rec arg; emit_call 1 line }) }"

definition dispatch_args :: "ast \<Rightarrow> ast \<Rightarrow> (ast \<times> ast \<times> ast) option" where
  "dispatch_args fn arg =
     (case nd_data arg of
        AST_LIST [t, k, a] \<Rightarrow>
          if ident_name fn = Some ''dispatch'' \<and> \<not> nd_paren arg then Some (t, k, a) else None
      | _ \<Rightarrow> None)"

text \<open>The words of the forms on a binding, with their instructions.\<close>

definition binding_forms :: "(string \<times> opcode \<times> opcode) list" where
  "binding_forms =
     [(''report'', OP_REPORT_SLOT, OP_REPORT_NAME), (''report_value'', OP_REPORT_VALUE_SLOT, OP_REPORT_VALUE_NAME),
      (''trajectory'', OP_TRAJECTORY_SLOT, OP_TRAJECTORY_NAME), (''observe'', OP_OBSERVE_VALUE_SLOT, OP_OBSERVE_VALUE_NAME)]"

definition binding_form :: "ast \<Rightarrow> (opcode \<times> opcode) option" where
  "binding_form fn = (case ident_name fn of None \<Rightarrow> None | Some w \<Rightarrow> map_of binding_forms w)"

definition compile_plain_relation :: "(ast \<Rightarrow> unit comp) \<Rightarrow> ast \<Rightarrow> ast \<Rightarrow> int \<Rightarrow> unit comp" where
  "compile_plain_relation rec fn arg line = do {
     rebound \<leftarrow> gets dispatch_rebound;
     case (if rebound then None else dispatch_args fn arg) of
       Some (t, k, a) \<Rightarrow> do {
         rec t;
         rec k;
         rec a;
         emit OP_DISPATCH line;
         set_last_line (- 1) }
     | None \<Rightarrow> compile_call rec fn arg line }"

definition compile_relation :: "(ast \<Rightarrow> unit comp) \<Rightarrow> ast \<Rightarrow> ast \<Rightarrow> int \<Rightarrow> unit comp" where
  "compile_relation rec fn arg line =
     (case ident_name arg of
        None \<Rightarrow> compile_plain_relation rec fn arg line
      | Some name \<Rightarrow>
          (case nd_data fn of
             AST_PREDICATE kind \<Rightarrow> emit_predicate_on kind arg name line
           | _ \<Rightarrow>
               (case binding_form fn of
                  Some (slot_op, name_op) \<Rightarrow> emit_on_binding slot_op name_op arg name line
                | None \<Rightarrow> compile_plain_relation rec fn arg line)))"

subsection \<open>Data structures\<close>

definition compile_list :: "(ast \<Rightarrow> unit comp) \<Rightarrow> ast list \<Rightarrow> int \<Rightarrow> unit comp" where
  "compile_list rec elems line = do { compile_each rec elems; emit_list (length elems) line }"

definition compile_dict :: "(ast \<Rightarrow> unit comp) \<Rightarrow> ast list \<Rightarrow> ast list \<Rightarrow> int \<Rightarrow> unit comp" where
  "compile_dict rec keys vals line = do { compile_each rec (interleave keys vals); emit_dict (length keys) line }"

text \<open>A numeric literal that is an index of 16 bits; beyond an \<open>int\<close> the cast has no meaning.\<close>

definition index_constant :: "double \<Rightarrow> nat option" where
  "index_constant dv =
     (if dbl_finite dv \<and> (\<not> dbl_neg dv \<or> fp_eq dv 0) \<and> dbl_den dv dvd dbl_num dv \<and> dbl_num dv div dbl_den dv \<le> 0xFFFF
      then Some (nat (dbl_num dv div dbl_den dv)) else None)"

text \<open>\<open>local[const]\<close> inside a function: the slot and the index.\<close>

definition local_const_index :: "ast \<Rightarrow> ast \<Rightarrow> cmp \<Rightarrow> (nat \<times> nat) option" where
  "local_const_index target index c =
     (case (ident_name target, nd_data index) of
        (Some name, AST_NUM dv) \<Rightarrow>
          if \<not> in_function c then None
          else
            (case (index_constant dv, resolve_local name (hash_or (nd_hash target) name) c) of
               (Some iv, Some slot) \<Rightarrow> Some (slot, iv)
             | _ \<Rightarrow> None)
      | _ \<Rightarrow> None)"

definition local_ident :: "ast \<Rightarrow> cmp \<Rightarrow> nat option" where
  "local_ident target c =
     (case ident_name target of
        None \<Rightarrow> None
      | Some name \<Rightarrow> if in_function c then resolve_local name (hash_or (nd_hash target) name) c else None)"

definition local_const_target :: "ast \<Rightarrow> cmp \<Rightarrow> (nat \<times> nat) option" where
  "local_const_target target c =
     (case nd_data target of AST_INDEX t i \<Rightarrow> local_const_index t i c | _ \<Rightarrow> None)"

definition compile_index :: "(ast \<Rightarrow> unit comp) \<Rightarrow> ast \<Rightarrow> ast \<Rightarrow> int \<Rightarrow> unit comp" where
  "compile_index rec target index line = do {
     at \<leftarrow> gets (local_const_index target index);
     case at of
       Some (slot, iv) \<Rightarrow> emit_op_u16_u16 OP_LOCAL_IDX_GET slot iv line
     | None \<Rightarrow> do {
         rec target;
         rec index;
         emit OP_INDEX_GET line } }"

definition compile_opt :: "(ast \<Rightarrow> unit comp) \<Rightarrow> ast option \<Rightarrow> int \<Rightarrow> unit comp" where
  "compile_opt rec e line = (case e of Some a \<Rightarrow> rec a | None \<Rightarrow> emit OP_NULL line)"

definition compile_slice :: "(ast \<Rightarrow> unit comp) \<Rightarrow> ast \<Rightarrow> ast option \<Rightarrow> ast option \<Rightarrow> int \<Rightarrow> unit comp" where
  "compile_slice rec target start finish line = do {
     rec target;
     compile_opt rec start line;
     compile_opt rec finish line;
     emit OP_SLICE_GET line }"

definition compile_index_assign :: "(ast \<Rightarrow> unit comp) \<Rightarrow> ast \<Rightarrow> ast \<Rightarrow> ast \<Rightarrow> string \<Rightarrow> int \<Rightarrow> unit comp" where
  "compile_index_assign rec target index expr op line = do {
     rec target;
     rec index;
     (if op \<noteq> [] then do {
        emit OP_DUP2 line;
        emit OP_INDEX_GET line;
        rec expr;
        emit (binop_to_opcode op) line }
      else rec expr);
     emit OP_INDEX_SET line }"

definition compile_dot :: "(ast \<Rightarrow> unit comp) \<Rightarrow> ast \<Rightarrow> string \<Rightarrow> int \<Rightarrow> unit comp" where
  "compile_dot rec target key line = do {
     c \<leftarrow> gets id;
     case local_const_target target c of
       Some (slot, iv) \<Rightarrow> do {
         idx \<leftarrow> add_string_constant key;
         emit_op_u16_u16_u16 OP_LOCAL_IDX_DOT_GET slot iv idx line }
     | None \<Rightarrow>
         (case local_ident target c of
            Some slot \<Rightarrow> do {
              idx \<leftarrow> add_string_constant key;
              emit_op_u16_u16 OP_LOCAL_DOT_GET slot idx line }
          | None \<Rightarrow> do { rec target; emit_with_name OP_DOT_GET key line }) }"

definition compile_dot_assign :: "(ast \<Rightarrow> unit comp) \<Rightarrow> ast \<Rightarrow> string \<Rightarrow> ast \<Rightarrow> int \<Rightarrow> unit comp" where
  "compile_dot_assign rec target key expr line = do {
     c \<leftarrow> gets id;
     case local_const_target target c of
       Some (slot, iv) \<Rightarrow> do {
         rec expr;
         idx \<leftarrow> add_string_constant key;
         emit_op_u16_u16_u16 OP_LOCAL_IDX_DOT_SET slot iv idx line }
     | None \<Rightarrow>
         (case local_ident target c of
            Some slot \<Rightarrow> do {
              rec expr;
              idx \<leftarrow> add_string_constant key;
              emit_op_u16_u16 OP_LOCAL_DOT_SET slot idx line }
          | None \<Rightarrow> do { rec target; rec expr; emit_with_name OP_DOT_SET key line }) }"

definition compile_listcomp :: "(ast \<Rightarrow> unit comp) \<Rightarrow> ast \<Rightarrow> string \<Rightarrow> ast \<Rightarrow> ast option \<Rightarrow> int \<Rightarrow> unit comp" where
  "compile_listcomp rec expr var iter filt line = do {
     emit OP_LISTCOMP_BEGIN line;
     rec iter;
     emit OP_ITER_SETUP line;
     loop_start \<leftarrow> capture_loop_start;
     exit_jump \<leftarrow> emit_jump OP_ITER_NEXT line;
     emit_with_name OP_SET_NAME_LOCAL var line;
     emit OP_POP line;
     depth_before_filter \<leftarrow> gets stack_depth;
     (case filt of
        None \<Rightarrow> do { rec expr; emit OP_LISTCOMP_APPEND line }
      | Some f \<Rightarrow> do {
          rec f;
          filter_jump \<leftarrow> emit_jump OP_JUMP_IF_FALSE line;
          rec expr;
          emit OP_LISTCOMP_APPEND line;
          skip \<leftarrow> emit_jump OP_JUMP line;
          patch_jump filter_jump;
          set_depth depth_before_filter;
          patch_jump skip });
     set_depth depth_before_filter;
     emit_loop loop_start line;
     patch_jump exit_jump;
     emit OP_POP line }"

subsection \<open>Errors, questions, matches\<close>

definition change_try :: "(nat \<Rightarrow> nat) \<Rightarrow> unit comp" where
  "change_try f = modify (\<lambda>c. c\<lparr>try_depth := f (try_depth c)\<rparr>)"

definition change_unobs :: "(nat \<Rightarrow> nat) \<Rightarrow> unit comp" where
  "change_unobs f = modify (\<lambda>c. c\<lparr>unobs_depth := f (unobs_depth c)\<rparr>)"

definition compile_try :: "(ast \<Rightarrow> unit comp) \<Rightarrow> ast list \<Rightarrow> string \<Rightarrow> ast list \<Rightarrow> int \<Rightarrow> unit comp" where
  "compile_try rec try_body err_name catch_body line = do {
     depth \<leftarrow> gets try_depth;
     if MAX_TRY_HANDLERS \<le> depth then do {
       cmp_record line (quoted ''try'' @ '' nested too deep'');
       cmp_error;
       emit OP_NULL line }
     else do {
       catch_jump \<leftarrow> emit_jump OP_TRY_BEGIN line;
       change_try (\<lambda>n. n + 1);
       compile_block rec try_body;
       change_try (\<lambda>n. n - 1);
       emit OP_TRY_END line;
       end_jump \<leftarrow> emit_jump OP_JUMP line;
       patch_jump catch_jump;
       emit_with_name OP_SET_NAME_LOCAL err_name line;
       emit OP_POP line;
       compile_block rec catch_body;
       patch_jump end_jump } }"

definition emit_named_question :: "opcode \<Rightarrow> int \<Rightarrow> string \<Rightarrow> int \<Rightarrow> unit comp" where
  "emit_named_question op kind name line = do {
     idx \<leftarrow> add_string_constant name;
     emit_op_u16_u16 op (nat kind) idx line }"

definition compile_interrogate ::
  "(ast \<Rightarrow> unit comp) \<Rightarrow> int \<Rightarrow> ast \<Rightarrow> ast option \<Rightarrow> ast option \<Rightarrow> int \<Rightarrow> unit comp" where
  "compile_interrogate rec kind expr at_expr when_expr line = do {
     (if when_expr \<noteq> None \<and> ident_name expr = None then do {
        cmp_record line (quoted ''when <n>'' @ '' requires a variable name'');
        cmp_error }
      else nothing);
     (case (ident_name expr, when_expr, at_expr) of
        (Some name, Some w, _) \<Rightarrow> do { rec w; emit_named_question OP_INTERROGATE_NAMED_WHEN kind name line }
      | (Some name, None, Some a) \<Rightarrow> do { rec a; emit_named_question OP_INTERROGATE_NAMED_AT kind name line }
      | (Some name, None, None) \<Rightarrow> do {
          rec expr;
          if kind \<in> {1, 2, 6} \<or> 3 \<le> kind \<and> kind \<le> 5
          then emit_named_question OP_INTERROGATE_NAMED kind name line
          else emit_op_u16 OP_INTERROGATE (nat kind) line }
      | (None, _, _) \<Rightarrow> do { rec expr; emit_op_u16 OP_INTERROGATE (nat kind) line }) }"

text \<open>The names assigned in an unobserved block of the module that nothing outside it sees get slots.\<close>

definition promote_one :: "name_set \<Rightarrow> name_set \<Rightarrow> name_set \<Rightarrow> string \<Rightarrow> unit comp" where
  "promote_one outside captured_here interrogated_here nm = do {
     c \<leftarrow> gets id;
     let h = env_hash_name nm;
     if name_set_has outside nm \<or> name_set_has captured_here nm \<or> name_set_has interrogated_here nm \<or>
        name_set_has (module_slot_names c) nm \<or> cu_bound (c_unit c) nm \<or> resolve_local nm h c \<noteq> None then nothing
     else do {
       slot \<leftarrow> add_local nm h;
       if slot \<noteq> None then modify (\<lambda>c. c\<lparr>module_slot_names := name_set_add nm (module_slot_names c)\<rparr>)
       else nothing } }"

fun promote_each :: "name_set \<Rightarrow> name_set \<Rightarrow> name_set \<Rightarrow> string list \<Rightarrow> unit comp" where
  "promote_each outside captured interrogated [] = nothing"
| "promote_each outside captured interrogated (nm # nms) = do {
     promote_one outside captured interrogated nm;
     promote_each outside captured interrogated nms }"

definition promote_names :: "ast \<Rightarrow> ast list \<Rightarrow> unit comp" where
  "promote_names node stmts = do {
     c \<leftarrow> gets id;
     case root_ast c of
       None \<Rightarrow> nothing
     | Some root \<Rightarrow>
         if g_compile_module_slots (c_unit c) \<and> \<not> in_function c then
           promote_each (collect_referenced_names_skip node root name_set_empty)
             (in_turn (map scan_for_captures stmts) name_set_empty)
             (in_turn (map scan_for_interrogated stmts) name_set_empty)
             (ns_names (in_turn (map collect_module_names_walk stmts) name_set_empty))
         else nothing }"

definition compile_unobserved :: "(ast \<Rightarrow> unit comp) \<Rightarrow> ast \<Rightarrow> ast list \<Rightarrow> int \<Rightarrow> unit comp" where
  "compile_unobserved rec node stmts line = do {
     promote_names node stmts;
     emit OP_UNOBSERVED_BEGIN line;
     change_unobs (\<lambda>n. n + 1);
     compile_block rec stmts;
     change_unobs (\<lambda>n. n - 1);
     emit OP_UNOBSERVED_END line }"

text \<open>The end of a case, while the array of jumps has room.\<close>

definition end_case :: "nat list \<Rightarrow> int \<Rightarrow> nat list comp" where
  "end_case end_jumps line =
     (if length end_jumps < 256 then do { j \<leftarrow> emit_jump OP_JUMP line; give (end_jumps @ [j]) }
      else give end_jumps)"

fun compile_cases ::
  "(ast \<Rightarrow> unit comp) \<Rightarrow> int \<Rightarrow> ast option list \<Rightarrow> ast list list \<Rightarrow> nat list \<Rightarrow> nat list comp" where
  "compile_cases rec line (None # ps) (body # bodies) end_jumps = do {
     emit OP_POP line;
     compile_block rec body;
     end_case end_jumps line }"
| "compile_cases rec line (Some pat # ps) (body # bodies) end_jumps = do {
     emit OP_DUP line;
     rec pat;
     emit OP_EQ line;
     next_case \<leftarrow> emit_jump OP_JUMP_IF_FALSE line;
     emit OP_POP line;
     compile_block rec body;
     jumps \<leftarrow> end_case end_jumps line;
     patch_jump next_case;
     compile_cases rec line ps bodies jumps }"
| "compile_cases rec line _ _ end_jumps = give end_jumps"

definition compile_match :: "(ast \<Rightarrow> unit comp) \<Rightarrow> ast \<Rightarrow> ast option list \<Rightarrow> ast list list \<Rightarrow> int \<Rightarrow> unit comp" where
  "compile_match rec expr patterns bodies line = do {
     rec expr;
     end_jumps \<leftarrow> compile_cases rec line patterns bodies [];
     emit OP_POP line;
     emit OP_NULL line;
     patch_all end_jumps }"

definition compile_import :: "string \<Rightarrow> int \<Rightarrow> unit comp" where
  "compile_import module_name line = do {
     idx \<leftarrow> add_string_constant module_name;
     emit_op_u16 OP_IMPORT idx line;
     emit_op_u16 OP_SET_NAME_LOCAL idx line }"

subsection \<open>Nodes\<close>

definition compile_data :: "(ast \<Rightarrow> unit comp) \<Rightarrow> ast \<Rightarrow> int \<Rightarrow> unit comp" where
  "compile_data rec node line =
     (case nd_data node of
        AST_NUM v \<Rightarrow> compile_num v line
      | AST_STR s \<Rightarrow> emit_with_name OP_CONST s line
      | AST_NULL \<Rightarrow> emit OP_NULL line
      | AST_IDENT name \<Rightarrow> compile_ident node name line
      | AST_ASSIGN name e local_only \<Rightarrow> do { rec e; emit_assign_for_tos name (nd_hash node) local_only line }
      | AST_LIST_PATTERN_ASSIGN ns hs e \<Rightarrow> compile_list_pattern rec ns hs e line
      | AST_BINOP op l r \<Rightarrow> compile_binop rec op l r line
      | AST_UNARY op e \<Rightarrow> compile_unary rec op e line
      | AST_PROGRAM ss \<Rightarrow> compile_program rec line ss
      | AST_BLOCK ss \<Rightarrow> compile_block rec ss
      | AST_IF e t f \<Rightarrow> compile_if rec e t f line
      | AST_LOOP e b \<Rightarrow> compile_loop rec e b line
      | AST_FOR s i b \<Rightarrow> compile_for rec node s i b line
      | AST_BREAK \<Rightarrow> compile_break line
      | AST_CONTINUE \<Rightarrow> compile_continue line
      | AST_FUNC s ps ds k b \<Rightarrow> compile_func rec s ps ds k b line
      | AST_LAMBDA ps b \<Rightarrow> compile_lambda rec ps b line
      | AST_RETURN e \<Rightarrow> compile_return rec e line
      | AST_RELATION l r \<Rightarrow> compile_relation rec l r line
      | AST_LIST es \<Rightarrow> compile_list rec es line
      | AST_DICT ks vs \<Rightarrow> compile_dict rec ks vs line
      | AST_INDEX t i \<Rightarrow> compile_index rec t i line
      | AST_SLICE t a b \<Rightarrow> compile_slice rec t a b line
      | AST_INDEX_ASSIGN t i e op \<Rightarrow> compile_index_assign rec t i e op line
      | AST_DOT t key \<Rightarrow> compile_dot rec t key line
      | AST_DOT_ASSIGN t key e \<Rightarrow> compile_dot_assign rec t key e line
      | AST_LISTCOMP e s i f \<Rightarrow> compile_listcomp rec e s i f line
      | AST_TRY b s h \<Rightarrow> compile_try rec b s h line
      | AST_INTERROGATE k e a w \<Rightarrow> compile_interrogate rec k e a w line
      | AST_PREDICATE k \<Rightarrow> emit_op_u16 OP_PREDICATE (nat k) line
      | AST_UNOBSERVED ss \<Rightarrow> compile_unobserved rec node ss line
      | AST_MATCH e ps bs \<Rightarrow> compile_match rec e ps bs line
      | AST_IMPORT s \<Rightarrow> compile_import s line)"

definition compile_node_inner :: "(ast \<Rightarrow> unit comp) \<Rightarrow> ast \<Rightarrow> unit comp" where
  "compile_node_inner rec node = do { emit_line (nd_line node); compile_data rec node (nd_line node) }"

definition set_col :: "int \<Rightarrow> unit comp" where
  "set_col col = on_chunk (cur_col_update (\<lambda>_. col))"

text \<open>The number is how many levels are left before the guard.\<close>

primrec compile_node :: "nat \<Rightarrow> ast \<Rightarrow> unit comp" where
  "compile_node 0 node = do {
     cmp_record (nd_line node) ''expression nesting too deep to compile'';
     cmp_error;
     emit OP_NULL (nd_line node) }"
| "compile_node (Suc n) node = do {
     saved_col \<leftarrow> gets (\<lambda>c. cur_col (c_chunk c));
     set_col (nd_col node);
     compile_node_inner (compile_node n) node;
     set_col saved_col }"

subsection \<open>Units\<close>

text \<open>
  What a unit is compiled against: the names its environment binds, how many they are,
  whether \<open>dispatch\<close> is bound there to anything but the builtin, and the mode flags.
\<close>

record unit_env =
  ue_bound :: "string \<Rightarrow> bool"
  ue_count :: nat
  ue_dispatch_other :: bool
  ue_module_boundary :: bool
  ue_import_toplevel :: bool
  ue_module_slots :: bool

definition unit_compiler :: "ast \<Rightarrow> unit_env \<Rightarrow> diag \<Rightarrow> cmp" where
  "unit_compiler root env d =
     \<lparr>c_chunk = chunk_new, c_outer = [],
      c_locals = (if ue_module_slots env then replicate (ue_count env) \<lparr>lv_name = [], lv_hash = 0, lv_retired = False\<rparr> else []),
      c_loops = [],
      c_unit = \<lparr>cu_bound = ue_bound env, g_compile_module_boundary = ue_module_boundary env,
        g_compile_import_toplevel = ue_import_toplevel env, g_compile_module_slots = ue_module_slots env,
        cu_module_names = collect_module_names_walk root name_set_empty\<rparr>,
      stack_depth = 0, max_stack = 0, c_captured = name_set_empty, c_interrogated = name_set_empty,
      c_env_bound = name_set_empty, lev_names = [], module_slot_names = name_set_empty, root_ast = Some root,
      last_line = - 1, dispatch_rebound = scan_dispatch_rebind root \<or> ue_dispatch_other env,
      unobs_depth = 0, try_depth = 0, c_diag = d\<rparr>"

text \<open>The slots of a module are those of its environment and the promoted ones after them.\<close>

definition compile_ast :: "ast \<Rightarrow> unit_env \<Rightarrow> diag \<Rightarrow> fn_obj \<times> diag" where
  "compile_ast root env d =
     (let c = snd (run_state (do { compile_node COMPILE_MAX_DEPTH root; emit OP_RETURN (nd_line root) })
            (unit_compiler root env d));
          ch = c_chunk c in
      (Fn_Obj ''<module>'' 0 0
         (if ue_module_slots env \<and> ue_count env < length (c_locals c) then map lv_name (c_locals c) else [])
         [] (code ch) (lines ch) (cols ch) (constants ch) (max_stack c) (fn_chunks ch), c_diag c))"

end
