(* ===== verification/Spec2Isabelle.thy ===== *)
theory Spec2Isabelle
  imports Eigs_Lexer_Round Eigs_Parser_Inv Eigs_Parser_Wf Eigs_Dict Eigs_Slot Eigs_Name_Run
    Eigs_Const_Pool Eigs_Verify Eigs_Sched_Props Eigs_Hash Eigs_Utf8 Eigs_Strbuf
    Eigs_Scan_Sound Eigs_Compile
begin

text \<open>
  A verification library for the EigenScript interpreter, a C program: source text is
  tokenized, parsed into a tree, compiled to bytecode, and run on a stack machine
  with environments, cooperative tasks and a set of builtins. The library follows that
  path. Each theory translates a group of C functions (paths are relative to \<open>src/\<close> of
  the repository), proves lemmas about them, and states properties C1, C2, and so on, where the
  definitions they need are at hand; this theory holds the one that joins the front end.

  Conventions. A C string is a \<open>string\<close> without its terminator, an array with its count
  is a list, a pointer that may be NULL an \<open>option\<close>, a machine integer a word where it
  can wrap and \<open>nat\<close> or \<open>int\<close> where the program keeps it in range. A \<open>double\<close> is its
  64-bit pattern. State is passed explicitly, as records whose fields carry the names of
  the C fields. Failure of \<open>malloc\<close> ends the process in the program and is not modelled;
  neither is text written to stderr.

  Foundations.
    Eigs_Prelude: character classes, type names, the generic lemmas on lists and on the
      state monad, the collections of facts the parser's proofs run on.
    Eigs_Double, Eigs_Double_Order: binary64 as bit patterns, correctly rounded
      conversion of a quotient, addition and multiplication of non-negative doubles,
      \<open>strtod\<close>; rounding is monotone.
    Eigs_Probe: open addressing with linear probing, once for the tables that use it.
      The interface is a locale; the environments' index, the name sets and the constant
      pool interpret it on their own tables.

  Front end (\<open>lexer.c\<close>, \<open>parser.c\<close>, parts of \<open>eigenscript.c\<close> and \<open>eigenscript.h\<close>).
    Eigs_Diag: the error count and the first recorded error of a compilation, which is
      the earliest in the source.
    Eigs_Token, Eigs_Lexer: tokens and \<open>tokenize\<close>. A pass of the main loop is
      \<open>lex_step\<close>; f-strings tokenize their holes by a nested pass, so the recursion has
      the program's own bound, \<open>MAX_TOKENIZE_DEPTH\<close>, as fuel.
    Eigs_Lexer_Inv: the invariant of the loop as a locale over its operations, and what
      follows: layout tokens balance, the indentation stack stays in bounds, lines
      ascend. Eigs_Lexer_Round: literals print and lex back.
    Eigs_Ast, Eigs_Parser_Base, Eigs_Parser, Eigs_Statement: the tree, the token cursor
      and one definition per grammar function. Recursion has the depth guard's bound as
      fuel, loops the number of tokens left; Eigs_Parser_Rel and Eigs_Parser_Inv show that it never
      runs out, so the parser returns on every input, with the cursor in bounds and the
      nesting depth restored. Eigs_Parser_Wf: the trees it builds are well formed.

  Bytecode (\<open>compiler.c\<close>, \<open>chunk.c\<close>, \<open>vm.h\<close>).
    Eigs_Name_Set: the interface of a dense array with an index over it, and the
      compiler's \<open>NameSet\<close> as an instance.
    Eigs_Scan, Eigs_Scan_Sound: the compiler's passes over the tree before and while it
      compiles (names referred to, captured, interrogated or bound in the environment,
      loop bodies that bind nothing new); what they may be relied on for, and the
      closures and rebindings they miss.
    Eigs_Chunk, Eigs_Const_Pool: emitting code with its line and column tables, jump
      patching, and the deduplicated constant pool, which behaves as a linear scan.
    Eigs_Opcode, Eigs_Verify: the opcode table and the verifier of untrusted chunks. What
      it accepts, run on a machine of offsets, heights and handlers (\<open>vm_step\<close>), stays on
      instruction boundaries, in the bounds of the stack, and has every operand in range;
      one height is missed, that of a handler whose body has popped below it.

  Names and values (\<open>eigenscript.c\<close>, \<open>vm.c\<close>, \<open>value_slot.h\<close>).
    Eigs_Env_Hash, Eigs_Env, Eigs_Env_Heap: the hash index, one environment, and the heap
      of environments with reference counts; lookup refines a map, and what is held stays
      alive. Eigs_Inline_Cache, Eigs_Name_Run: the name instructions with their caches,
      and runs of them: caches never change a run, except across the reuse of an address.
    Eigs_Slot: NaN-boxed slots and the guard that keeps numbers finite.
    Eigs_Dict, Eigs_Sandbox, Eigs_Strbuf, Eigs_Utf8: dictionaries, the byte budget, the
      growable string buffer, and bounded copies of text.
    Eigs_Hash: SHA-256, MD5 and HMAC (\<open>hash.c\<close>): any way of feeding the bytes gives the
      digest of the whole, and the one input length for which an update never returns.

  Tasks (\<open>task.c\<close>, parts of \<open>builtins.c\<close>, \<open>vm.h\<close>).
    Eigs_Handle: handles that name a slot and a generation. Eigs_Error: error kinds.
    Eigs_Task, Eigs_Scheduler: tasks, mailboxes, the ready queue and every builtin that
      drives them. Eigs_Sched_View holds the invariant over an abstract view of the
      state, Eigs_Sched_Inv that every operation keeps it, Eigs_Sched_Clock virtual time,
      Eigs_Sched_Live progress, Eigs_Sched_Run runs, and Eigs_Sched_Props the properties
      of all runs: no wake-up is lost, queued tasks get their turn, the clock never goes
      back; and three runs in which the program breaks rules it relies on.

  Bounds and fuel. Recursions that are structural in the program are structural here. The
  others are bounded by what bounds them in the program: nested tokenizing by
  \<open>MAX_TOKENIZE_DEPTH\<close>, the parser by its depth guard and its tokens, waking sleepers by the size of the
  handle table (\<open>wake_loop_done\<close>), doubling a buffer by the 64 bits of its capacity;
  each bound is shown to be enough. Hashing loops and bytecode runs are \<open>while_option\<close>
  and an inductive relation: not returning is a value there, and returning is proved.

  Not modelled. The instructions on values of the interpreter loop (arithmetic, calls,
  iteration), reference counts of values and the cycle collector, the observer's
  floating-point heuristics (they rest on the C mathematics library), the native code
  generator (its meaning is that of the processor), the arena, builtins other than those
  on tasks and hashes, input and output in all its forms (files, sockets, terminals,
  traces, the embedded store, graphics, database), the linter, formatter, bundler and
  editor servers, which no run of a program depends on.
\<close>

section \<open>From source text to tree\<close>

text \<open>
  C1: for every source text, tokenizing it and parsing the tokens returns: no loop and
  no recursion is cut short, the parser stops at the EOF token with its nesting depth
  back at 0, no error counted on the way is lost, and the result is a program of
  well-formed statements.
\<close>
theorem source_parses:
  "let r = tokenize src d; p = parse (fst r) (snd r) in
     \<not> out_of_fuel (snd p) \<and> tk_type (cur_tok (snd p)) = TOK_EOF \<and> g_parse_depth (snd p) = 0 \<and>
     g_parse_errors d \<le> g_parse_errors (ps_diag (snd p)) \<and>
     (\<exists>stmts line. fst p = make_node (AST_PROGRAM stmts) line \<and> list_all wf_ast stmts)"
proof -
  let ?r = "tokenize src d"
  obtain ts where ts: "map tk_type (fst ?r) = ts @ [TOK_EOF]"
    using tokenize_types [of MAX_TOKENIZE_DEPTH src 1 0 "reset_first_error d"] by (auto simp: tokenize_def)
  then have ne: "fst ?r \<noteq> []" and "last (map tk_type (fst ?r)) = TOK_EOF" by auto
  then have last: "tk_type (last (fst ?r)) = TOK_EOF" by (simp add: last_map)
  have "g_parse_errors d \<le> g_parse_errors (snd ?r)"
    using tokenize_diag [of 1 "reset_first_error d" MAX_TOKENIZE_DEPTH src 0]
    by (auto simp: tokenize_def diag_le_def reset_first_error_def)
  then show ?thesis
    using parse_returns [OF ne last, of "snd ?r"] parse_wf [of "fst ?r" "snd ?r"] by (auto simp: Let_def)
qed

end
